(* ===== verification/Own_Prelude.thy ===== *)
theory Own_Prelude
  imports Main "HOL-Library.AList"
begin

text \<open>
  Shared vocabulary of the development: Python's insertion-ordered dictionaries as association
  lists, errors as the left summand of a result, decimal rendering of integers and quoting of
  names for messages, and two interfaces that several components rely on: a dictionary
  (\<open>dict_ops\<close>) and a finite join-semilattice of analysis facts (\<open>join_lattice\<close>).
\<close>

named_theorems dict_simps
named_theorems result_simps

section \<open>Results: every raise is a value\<close>

type_synonym ('e, 'a) result = "'e + 'a"

definition rbind :: "('e, 'a) result \<Rightarrow> ('a \<Rightarrow> ('e, 'b) result) \<Rightarrow> ('e, 'b) result" where
  "rbind r f = (case r of Inl e \<Rightarrow> Inl e | Inr x \<Rightarrow> f x)"

lemma rbind_Inl [simp, result_simps]: "rbind (Inl e) f = Inl e"
  by (simp add: rbind_def)

lemma rbind_Inr [simp, result_simps]: "rbind (Inr x) f = f x"
  by (simp add: rbind_def)

lemma rbind_eq_Inr [result_simps]:
  "rbind r f = Inr y \<longleftrightarrow> (\<exists>x. r = Inr x \<and> f x = Inr y)"
  by (cases r) simp_all

lemma rbind_eq_Inl [result_simps]:
  "rbind r f = Inl e \<longleftrightarrow> r = Inl e \<or> (\<exists>x. r = Inr x \<and> f x = Inl e)"
  by (cases r) simp_all

lemma rbind_cong [fundef_cong]:
  "r = r' \<Longrightarrow> (\<And>x. r' = Inr x \<Longrightarrow> f x = f' x) \<Longrightarrow> rbind r f = rbind r' f'"
  by (cases r') simp_all

section \<open>Dictionaries in insertion order\<close>

text \<open>
  A Python \<open>dict\<close> is the list of its items in insertion order: assigning to a present key keeps
  its place, a new key goes to the end, and \<open>==\<close> compares the two as maps.
\<close>

type_synonym ('k, 'v) dict = "('k \<times> 'v) list"

definition dict_get :: "('k, 'v) dict \<Rightarrow> 'k \<Rightarrow> 'v option" where
  "dict_get d k = map_of d k"

definition dict_set :: "('k, 'v) dict \<Rightarrow> 'k \<Rightarrow> 'v \<Rightarrow> ('k, 'v) dict" where
  "dict_set d k v = AList.update k v d"

definition dict_del :: "('k, 'v) dict \<Rightarrow> 'k \<Rightarrow> ('k, 'v) dict" where
  "dict_del d k = filter (\<lambda>kv. fst kv \<noteq> k) d"

definition dict_keys :: "('k, 'v) dict \<Rightarrow> 'k list" where
  "dict_keys d = remdups (map fst d)"

definition dict_eq :: "('k, 'v) dict \<Rightarrow> ('k, 'v) dict \<Rightarrow> bool" where
  "dict_eq a b \<longleftrightarrow>
     list_all (\<lambda>k. map_of a k = map_of b k) (map fst a @ map fst b)"

definition dict_get_or :: "('k, 'v) dict \<Rightarrow> 'k \<Rightarrow> 'v \<Rightarrow> 'v" where
  "dict_get_or d k v = (case dict_get d k of None \<Rightarrow> v | Some x \<Rightarrow> x)"

lemma dict_get_Nil [simp, dict_simps]: "dict_get [] k = None"
  by (simp add: dict_get_def)

lemma dict_get_Cons: "dict_get ((k, v) # d) h = (if h = k then Some v else dict_get d h)"
  by (simp add: dict_get_def)

lemma dict_get_set [simp, dict_simps]:
  "dict_get (dict_set d k v) k' = (if k' = k then Some v else dict_get d k')"
  by (simp add: dict_get_def dict_set_def update_conv)

lemma dict_get_upd: "dict_get (dict_set d k v) = (dict_get d)(k \<mapsto> v)"
  by (rule ext) simp

lemma dict_get_del [simp, dict_simps]:
  "dict_get (dict_del d k) k' = (if k' = k then None else dict_get d k')"
  by (induction d) (auto simp: dict_get_def dict_del_def)

lemma dict_keys_get: "k \<in> set (dict_keys d) \<longleftrightarrow> dict_get d k \<noteq> None"
  by (auto simp: dict_keys_def dict_get_def map_of_eq_None_iff)

lemma dict_get_None_iff: "dict_get d k = None \<longleftrightarrow> k \<notin> fst ` set d"
  by (simp add: dict_get_def map_of_eq_None_iff)

lemma dict_get_SomeD: "dict_get d k = Some v \<Longrightarrow> (k, v) \<in> set d"
  by (simp add: dict_get_def map_of_SomeD)

lemma dict_eq_iff: "dict_eq a b \<longleftrightarrow> dict_get a = dict_get b"
proof
  assume eq: "dict_eq a b"
  show "dict_get a = dict_get b"
  proof
    fix k
    show "dict_get a k = dict_get b k"
    proof (cases "k \<in> fst ` set a \<union> fst ` set b")
      case True
      with eq show ?thesis by (auto simp: dict_eq_def dict_get_def list_all_iff)
    next
      case False
      then show ?thesis by (metis UnCI dict_get_None_iff)
    qed
  qed
next
  assume "dict_get a = dict_get b"
  then show "dict_eq a b" by (simp add: dict_eq_def dict_get_def [abs_def] list_all_iff fun_eq_iff)
qed

lemma dict_eq_refl [simp]: "dict_eq d d"
  by (simp add: dict_eq_iff)

lemma dict_eq_sym: "dict_eq a b \<Longrightarrow> dict_eq b a"
  by (simp add: dict_eq_iff)

lemma dict_eq_trans: "dict_eq a b \<Longrightarrow> dict_eq b c \<Longrightarrow> dict_eq a c"
  by (simp add: dict_eq_iff)

lemma dict_eq_getD: "dict_eq a b \<Longrightarrow> dict_get a k = dict_get b k"
  by (simp add: dict_eq_iff)

lemma dict_get_or_simps [simp, dict_simps]:
  "dict_get_or [] k v = v"
  "dict_get_or (dict_set d k w) k' v = (if k' = k then w else dict_get_or d k' v)"
  by (simp_all add: dict_get_or_def)

lemma dict_get_map: "dict_get (map (\<lambda>kv. (fst kv, f (snd kv))) d) k = map_option f (dict_get d k)"
  by (induction d) (auto simp: dict_get_def)

lemma mem_dict_get_distinct:
  "distinct (map fst d) \<Longrightarrow> kv \<in> set d \<longleftrightarrow> dict_get d (fst kv) = Some (snd kv)"
  by (cases kv) (simp add: dict_get_def)

lemma distinct_dict_set [simp]: "distinct (map fst d) \<Longrightarrow> distinct (map fst (dict_set d k v))"
  by (simp add: dict_set_def distinct_update)

lemma distinct_dict_del [simp]: "distinct (map fst d) \<Longrightarrow> distinct (map fst (dict_del d k))"
  by (induction d) (auto simp: dict_del_def)

lemma set_dict_set: "kv \<in> set (dict_set d k v) \<Longrightarrow> kv \<in> set d \<or> kv = (k, v)"
  by (induction d) (auto simp: dict_set_def split: if_splits)

subsection \<open>The dictionary interface\<close>

locale dict_ops =
  fixes lookup :: "'d \<Rightarrow> 'k \<Rightarrow> 'v option"
    and store :: "'d \<Rightarrow> 'k \<Rightarrow> 'v \<Rightarrow> 'd"
    and remove :: "'d \<Rightarrow> 'k \<Rightarrow> 'd"
  assumes lookup_store: "lookup (store d k v) k' = (if k' = k then Some v else lookup d k')"
    and lookup_remove: "lookup (remove d k) k' = (if k' = k then None else lookup d k')"
begin

lemma lookup_store_same: "lookup (store d k v) k = Some v"
  by (simp add: lookup_store)

lemma lookup_store_other: "k' \<noteq> k \<Longrightarrow> lookup (store d k v) k' = lookup d k'"
  by (simp add: lookup_store)

lemma remove_store_undo: "lookup d k = None \<Longrightarrow> lookup (remove (store d k v) k) = lookup d"
  by (auto simp: lookup_store lookup_remove)

lemma store_commute:
  "k \<noteq> k' \<Longrightarrow> lookup (store (store d k v) k' v') = lookup (store (store d k' v') k v)"
  by (auto simp: lookup_store)

lemma foldl_store_other:
  "k \<notin> set ks \<Longrightarrow> lookup (foldl (\<lambda>d k. store d k (f k)) d ks) k = lookup d k"
  by (induction ks arbitrary: d) (auto simp: lookup_store)

lemma foldl_store:
  "lookup (foldl (\<lambda>d k. store d k (f k)) d ks) k = (if k \<in> set ks then Some (f k) else lookup d k)"
proof (induction ks arbitrary: d)
  case Nil
  then show ?case by simp
next
  case (Cons a ks)
  show ?case by (auto simp: Cons.IH lookup_store)
qed

end

interpretation pydict: dict_ops dict_get dict_set dict_del
  by unfold_locales simp_all

section \<open>Join-semilattices of analysis facts\<close>

text \<open>
  Every analysis of the program joins facts at merges. The contract each of its joins meets:
  the join is the least upper bound of an order.
\<close>

locale join_lattice =
  fixes le :: "'a \<Rightarrow> 'a \<Rightarrow> bool" and jn :: "'a \<Rightarrow> 'a \<Rightarrow> 'a"
  assumes le_refl: "le x x"
    and le_trans: "le x y \<Longrightarrow> le y z \<Longrightarrow> le x z"
    and le_antisym: "le x y \<Longrightarrow> le y x \<Longrightarrow> x = y"
    and jn_upper1: "le x (jn x y)"
    and jn_upper2: "le y (jn x y)"
    and jn_least: "le x z \<Longrightarrow> le y z \<Longrightarrow> le (jn x y) z"
begin

lemma jn_commute: "jn x y = jn y x"
  by (meson jn_least jn_upper1 jn_upper2 le_antisym)

lemma jn_assoc: "jn (jn x y) z = jn x (jn y z)"
  by (meson jn_least jn_upper1 jn_upper2 le_antisym le_trans)

lemma jn_idem: "jn x x = x"
  by (meson jn_least jn_upper1 le_antisym le_refl)

lemma le_iff_jn: "le x y \<longleftrightarrow> jn x y = y"
  by (metis jn_least jn_upper1 jn_upper2 le_antisym le_refl)

lemma jn_mono: "le x x' \<Longrightarrow> le y y' \<Longrightarrow> le (jn x y) (jn x' y')"
  by (meson jn_least jn_upper1 jn_upper2 le_trans)

lemma foldl_jn_start: "le x (foldl jn x ys)"
  by (induction ys arbitrary: x) (auto intro: le_refl le_trans jn_upper1)

lemma foldl_jn_member: "y \<in> set ys \<Longrightarrow> le y (foldl jn x ys)"
proof (induction ys arbitrary: x)
  case (Cons a ys)
  then show ?case by (metis foldl_Cons foldl_jn_start jn_upper2 le_trans set_ConsD)
qed simp

lemma foldl_jn_least: "le x z \<Longrightarrow> \<forall>y\<in>set ys. le y z \<Longrightarrow> le (foldl jn x ys) z"
  by (induction ys arbitrary: x) (auto intro: jn_least)

lemma foldl_jn_mono: "le x x' \<Longrightarrow> list_all2 le as bs \<Longrightarrow> le (foldl jn x as) (foldl jn x' bs)"
proof (induction as arbitrary: x x' bs)
  case (Cons a as)
  then obtain b bs' where bs: "bs = b # bs'" "le a b" "list_all2 le as bs'" by (auto simp: list_all2_Cons1)
  show ?case unfolding bs(1) foldl_Cons by (rule Cons(1) [OF jn_mono [OF Cons(2) bs(2)] bs(3)])
qed simp

lemma foldl_jn_le_iff: "le (foldl jn x ys) z \<longleftrightarrow> le x z \<and> (\<forall>y\<in>set ys. le y z)"
  by (meson foldl_jn_least foldl_jn_member foldl_jn_start le_trans)

end

section \<open>Ascending to a least solution\<close>

text \<open>
  A system of equations over the keys \<open>M\<close>, solved by assigning one right-hand side after another.
  \<open>rising\<close> and \<open>below_solutions\<close> are what every assignment keeps, \<open>slack\<close> what it uses up.
\<close>

definition rising :: "('a \<Rightarrow> 'a \<Rightarrow> bool) \<Rightarrow> (('k \<Rightarrow> 'a) \<Rightarrow> 'k \<Rightarrow> 'a) \<Rightarrow> 'k set \<Rightarrow> ('k \<Rightarrow> 'a) \<Rightarrow> bool" where
  "rising le F M \<sigma> \<longleftrightarrow> (\<forall>m\<in>M. le (\<sigma> m) (F \<sigma> m))"

definition below_solutions :: "('a \<Rightarrow> 'a \<Rightarrow> bool) \<Rightarrow> (('k \<Rightarrow> 'a) \<Rightarrow> 'k \<Rightarrow> 'a) \<Rightarrow> 'k set \<Rightarrow> ('k \<Rightarrow> 'a) \<Rightarrow> bool" where
  "below_solutions le F M \<sigma> \<longleftrightarrow> (\<forall>\<tau>. (\<forall>m\<in>M. le (F \<tau> m) (\<tau> m)) \<longrightarrow> (\<forall>m\<in>M. le (\<sigma> m) (\<tau> m)))"

definition slack :: "('a \<Rightarrow> nat) \<Rightarrow> nat \<Rightarrow> 'k set \<Rightarrow> ('k \<Rightarrow> 'a) \<Rightarrow> nat" where
  "slack rank bound M \<sigma> = (\<Sum>m\<in>M. bound - rank (\<sigma> m))"

text \<open>A least solution, and what the ascent ends in.\<close>

definition least_solution :: "('a \<Rightarrow> 'a \<Rightarrow> bool) \<Rightarrow> (('k \<Rightarrow> 'a) \<Rightarrow> 'k \<Rightarrow> 'a) \<Rightarrow> 'k set \<Rightarrow> ('k \<Rightarrow> 'a) \<Rightarrow> bool" where
  "least_solution le F M \<sigma> \<longleftrightarrow> (\<forall>m\<in>M. F \<sigma> m = \<sigma> m) \<and> below_solutions le F M \<sigma>"

locale ascent = join_lattice le jn for le :: "'a \<Rightarrow> 'a \<Rightarrow> bool" and jn +
  fixes rank :: "'a \<Rightarrow> nat" and bound :: nat and F :: "('k \<Rightarrow> 'a) \<Rightarrow> 'k \<Rightarrow> 'a" and M :: "'k set"
  assumes finite_keys: "finite M"
    and rank_less: "le x y \<Longrightarrow> x \<noteq> y \<Longrightarrow> rank x < rank y"
    and rank_bound: "rank x \<le> bound"
    and F_mono: "(\<And>k. k \<in> M \<Longrightarrow> le (\<sigma> k) (\<tau> k)) \<Longrightarrow> le (F \<sigma> m) (F \<tau> m)"
begin

lemma assign_rising:
  assumes "rising le F M \<sigma>" "m \<in> M"
  shows "rising le F M (\<sigma>(m := F \<sigma> m))"
proof -
  have up: "le (\<sigma> k) ((\<sigma>(m := F \<sigma> m)) k)" if "k \<in> M" for k
    using assms that by (auto simp: rising_def le_refl)
  have "le (F \<sigma> k) (F (\<sigma>(m := F \<sigma> m)) k)" for k by (rule F_mono) (rule up)
  then show ?thesis using assms(1) unfolding rising_def by (auto intro: le_trans)
qed

lemma assign_below:
  assumes "below_solutions le F M \<sigma>" "m \<in> M"
  shows "below_solutions le F M (\<sigma>(m := F \<sigma> m))"
  unfolding below_solutions_def
proof (intro allI impI ballI)
  fix \<tau> k assume t: "\<forall>m\<in>M. le (F \<tau> m) (\<tau> m)" and k: "k \<in> M"
  have le: "le (\<sigma> j) (\<tau> j)" if "j \<in> M" for j using assms(1) t that by (simp add: below_solutions_def)
  have "le (F \<sigma> m) (F \<tau> m)" by (rule F_mono) (rule le)
  then have "le (F \<sigma> m) (\<tau> m)" using t assms(2) by (auto intro: le_trans)
  then show "le ((\<sigma>(m := F \<sigma> m)) k) (\<tau> k)" using le k by simp
qed

lemma assign_slack:
  assumes "rising le F M \<sigma>" "m \<in> M" "F \<sigma> m \<noteq> \<sigma> m"
  shows "slack rank bound M (\<sigma>(m := F \<sigma> m)) < slack rank bound M \<sigma>"
proof -
  have r: "rank (\<sigma> m) < rank (F \<sigma> m)" using assms by (auto simp: rising_def intro: rank_less)
  show ?thesis unfolding slack_def
  proof (rule sum_strict_mono_ex1)
    show "\<forall>k\<in>M. bound - rank ((\<sigma>(m := F \<sigma> m)) k) \<le> bound - rank (\<sigma> k)" using r by auto
    show "\<exists>k\<in>M. bound - rank ((\<sigma>(m := F \<sigma> m)) k) < bound - rank (\<sigma> k)"
      using r rank_bound [of "F \<sigma> m"] assms(2) by (intro bexI [of _ m]) (simp_all add: diff_less_mono2)
  qed (rule finite_keys)
qed

lemma least_unique:
  assumes "least_solution le F M \<sigma>" "least_solution le F M \<tau>" "m \<in> M"
  shows "\<sigma> m = \<tau> m"
  using assms unfolding least_solution_def below_solutions_def by (metis le_antisym le_refl)

end

section \<open>Text\<close>

text \<open>
  Characters are the first 256 code points (HOL's \<open>char\<close>). \<open>int_str\<close> is Python's \<open>str(int)\<close>,
  \<open>quoted\<close> the \<open>'name'\<close> of the messages.
\<close>

definition digit_char :: "nat \<Rightarrow> char" where
  "digit_char n = char_of (48 + n)"

fun nat_str :: "nat \<Rightarrow> string" where
  "nat_str n = (if n < 10 then [digit_char n] else nat_str (n div 10) @ [digit_char (n mod 10)])"

declare nat_str.simps [simp del]

text \<open>The same recursion, guarded by a constructor, for evaluation by the simplifier.\<close>

fun nat_str_step :: "bool \<Rightarrow> nat \<Rightarrow> string" where
  "nat_str_step True n = [digit_char n]"
| "nat_str_step False n = nat_str (n div 10) @ [digit_char (n mod 10)]"

lemma nat_str_code [code]: "nat_str n = nat_str_step (n < 10) n"
  by (cases "n < 10") (simp_all add: nat_str.simps [of n])

definition int_str :: "int \<Rightarrow> string" where
  "int_str i = (if i < 0 then CHR ''-'' # nat_str (nat (- i)) else nat_str (nat i))"

definition quoted :: "string \<Rightarrow> string" where
  "quoted s = CHR 0x27 # s @ [CHR 0x27]"

fun join_str :: "string \<Rightarrow> string list \<Rightarrow> string" where
  "join_str sep [] = []"
| "join_str sep [s] = s"
| "join_str sep (s # t # ts) = s @ sep @ join_str sep (t # ts)"

text \<open>The long dash of the messages, which is no modelled character: its UTF-8 bytes. Messages are only printed.\<close>

definition em_dash :: string where
  "em_dash = '' '' @ [CHR 0xE2, CHR 0x80, CHR 0x94] @ '' ''"

definition opt_list :: "'a option \<Rightarrow> 'a list" where
  "opt_list x = (case x of None \<Rightarrow> [] | Some y \<Rightarrow> [y])"

end
