(* ===== verification/Own_Ast.thy ===== *)
theory Own_Ast
  imports Own_Prelude
begin

text \<open>
  The syntax tree of OwnLang (\<open>ownlang/ast_nodes.py\<close>). Class names that the CFG instructions
  reuse carry a suffix: \<open>_e\<close> for expressions, \<open>_s\<close> for statements. The fields of a
  declaration are record fields with the class's initials as prefix.
\<close>

datatype BorrowKind = SHARED_k | MUT_k

datatype Effect = BORROW_eff | BORROW_MUT_eff | CONSUME_eff | PLAIN_eff

record TypeRef =
  tr_name :: string
  tr_borrowed :: bool
  tr_mutable :: bool
  tr_line :: int

text \<open>
  The grammar's atoms are the only expressions that stand as an argument, a buffer size or an
  option value (every producer of the tree, the parser and the OwnIR bridge, builds no other),
  so those positions are typed \<open>Atom\<close>. \<open>BufferIntent\<close> fields: mode, size, options, line,
  namespace, column, duplicated option names.
\<close>

datatype Atom = IntLit int int | VarRef string int

datatype Expr =
    Atom_e Atom
  | Acquire_e string "Atom list" int
  | Move_e string int
  | BufferIntent_e string "Atom option" "(string, Atom) dict" int string int "string list"

datatype Stmt =
    Let_s string Expr int
  | Release_s string int
  | Use_s string int
  | Overspan_s string int
  | Call_s string "Atom list" int
  | AliasJoin_s string string int
  | BorrowBlock_s string string BorrowKind "Stmt list" int
  | If_s string "Stmt list" "Stmt list" int
  | While_s string "Stmt list" int
  | Return_s "string option" int
  | Subscribe_s string int

record ResourceMember =
  rm_role :: string
  rm_name :: string
  rm_line :: int

record ResourceDecl =
  rd_name :: string
  rd_members :: "ResourceMember list"
  rd_line :: int
  rd_emit_type :: "string option"
  rd_emit_acquire :: "string option"
  rd_emit_release :: "string option"
  rd_emit_borrow :: "string option"
  rd_kind :: "string option"

record EffectParam =
  ep_effect :: Effect
  ep_type_name :: string
  ep_line :: int

record ExternDecl =
  ed_name :: string
  ed_params :: "EffectParam list"
  ed_ret :: "TypeRef option"
  ed_line :: int

record Param =
  pa_name :: string
  pa_type :: TypeRef
  pa_line :: int
  pa_lifetime :: "string option"

record FnDecl =
  fd_name :: string
  fd_params :: "Param list"
  fd_ret :: "TypeRef option"
  fd_body :: "Stmt list"
  fd_line :: int
  fd_lifetime :: "string option"

record LifetimeDecl =
  ld_name :: string
  ld_longer :: "string option"
  ld_line :: int

text \<open>A policy setting is a Python \<open>int\<close>, \<open>bool\<close> or \<open>str\<close> (\<open>Parser._policy_value\<close>).\<close>

datatype PolicyVal = PInt int | PBool bool | PStr string

record PolicyDecl =
  pd_name :: string
  pd_settings :: "(string, PolicyVal) dict"
  pd_line :: int
  pd_dups :: "string list"

record Module =
  md_name :: string
  md_resources :: "ResourceDecl list"
  md_externs :: "ExternDecl list"
  md_functions :: "FnDecl list"
  md_policies :: "PolicyDecl list"
  md_lifetimes :: "LifetimeDecl list"

section \<open>Statements that the grammar can write\<close>

text \<open>
  \<open>AliasJoin_s\<close> has no concrete syntax: only the OwnIR bridge builds it. \<open>alias_free_s\<close> says a
  statement contains none, however deep.
\<close>

fun alias_free_s :: "Stmt \<Rightarrow> bool" where
  "alias_free_s (AliasJoin_s n s l) = False"
| "alias_free_s (BorrowBlock_s owner b k body l) = (\<forall>s\<in>set body. alias_free_s s)"
| "alias_free_s (If_s c t e l) = ((\<forall>s\<in>set t. alias_free_s s) \<and> (\<forall>s\<in>set e. alias_free_s s))"
| "alias_free_s (While_s c body l) = (\<forall>s\<in>set body. alias_free_s s)"
| "alias_free_s _ = True"

definition alias_free_body :: "Stmt list \<Rightarrow> bool" where
  "alias_free_body ss \<longleftrightarrow> (\<forall>s\<in>set ss. alias_free_s s)"

end
