(* ===== verification/Own_Diagnostics.thy ===== *)
theory Own_Diagnostics
  imports Own_Prelude
begin

text \<open>
  Diagnostics (\<open>ownlang/diagnostics.py\<close>): the catalogue of codes and titles, the evidence steps,
  the diagnostic record with the constructor check that refuses an uncatalogued code, and the
  plain rendering.
\<close>

datatype Severity = ERROR | WARNING

definition severity_value :: "Severity \<Rightarrow> string" where
  "severity_value s = (case s of ERROR \<Rightarrow> ''error'' | WARNING \<Rightarrow> ''warning'')"

definition TITLES :: "(string, string) dict" where
  "TITLES = [
     (''OWN001'', ''owned resource not released on all paths (possible leak)''),
     (''OWN002'', ''use after release''),
     (''OWN003'', ''double release''),
     (''OWN004'', ''borrow escapes its scope''),
     (''OWN005'', ''use after move''),
     (''OWN006'', ''mutable borrow while a shared borrow is live''),
     (''OWN007'', ''move while borrowed''),
     (''OWN008'', ''release while borrowed''),
     (''OWN009'', ''use after possible release (released on some path)''),
     (''OWN010'', ''use after possible move (moved on some path)''),
     (''OWN011'', ''mutable borrow while another mutable borrow is live''),
     (''OWN012'', ''shared borrow while a mutable borrow is live''),
     (''OWN013'', ''owner accessed while it is mutably borrowed''),
     (''OWN014'', ''value escapes to a longer-lived region (lifetime promotion)''),
     (''OWN015'', ''stack-backed buffer cannot escape the current function''),
     (''OWN016'', ''stack-backed buffer moved to a longer-lived owner''),
     (''OWN017'', ''movable buffer escape is not supported by code generation (PoC limitation)''),
     (''OWN018'', ''buffer size must be an integer''),
     (''OWN019'', ''inline capacity too large for a stack-backed policy''),
     (''OWN021'', ''stack allocation requires a statically known bound''),
     (''OWN023'', ''scratch fallback forbidden but the size may exceed the inline limit''),
     (''OWN024'', ''sensitive buffer is not cleared on release''),
     (''OWN025'', ''full-length view of a pooled buffer reaches past its logical length''),
     (''OWN020'', ''unsupported construct (out of scope for the MVP)''),
     (''OWN030'', ''undefined name''),
     (''OWN031'', ''name already defined in this scope''),
     (''OWN032'', ''owned resource copied without '' @ quoted ''move''),
     (''OWN033'', ''function must return a value on all paths''),
     (''OWN034'', ''operation requires an owned resource''),
     (''OWN035'', ''return type mismatch''),
     (''OWN036'', ''cyclic lifetime ordering''),
     (''OWN040'', ''call to an undeclared function (unknown calls are forbidden)''),
     (''OWN041'', ''call argument mismatch''),
     (''OWN050'', ''declaring type unresolved -- leakage analysis skipped''),
     (''OWN051'', ''ownership transfer unverified -- local not checked past this call''),
     (''OWN052'', ''interprocedural summary inference failed -- method summaries skipped''),
     (''OWN053'', ''orphaned awaitable -- effectful async operation assigned but never observed''),
     (''DI001'', ''captive dependency: a shorter-lived service is captured by a longer-lived one''),
     (''DI002'', ''singleton captures a scoped service (captive dependency)''),
     (''DI003'', ''singleton captures a transient service (captive dependency)''),
     (''DI004'', ''scoped service resolved from the root provider (captured for the app lifetime)''),
     (''DI005'', ''disposable transient resolved from a long-lived scope (delayed disposal)''),
     (''EFF001'', ''reactive effect re-runs on an unstable dependency identity (render-time IO storm)''),
     (''OBL001'', ''obligation still open when a barrier fires (open on every path)''),
     (''OBL002'', ''obligation may still be open when a barrier fires (open on some path)''),
     (''OBL003'', ''obligation not closed before the method exits (on every path)''),
     (''OBL004'', ''obligation may not be closed before the method exits (on some path)''),
     (''OBL005'', ''protocol scope matched no reported method -- rule is dead (advisory)'')]"

record Evidence =
  ev_line :: int
  ev_label :: string
  ev_file :: "string option"
  ev_role :: string

definition mk_evidence :: "int \<Rightarrow> string \<Rightarrow> string \<Rightarrow> Evidence" where
  "mk_evidence line label role =
     \<lparr>ev_line = line, ev_label = label, ev_file = None, ev_role = role\<rparr>"

record Diagnostic =
  dg_code :: string
  dg_message :: string
  dg_line :: int
  dg_severity :: Severity
  dg_subject :: "string option"
  dg_resource_kind :: "string option"
  dg_evidence :: "Evidence list"

text \<open>\<open>Diagnostic.__post_init__\<close>: an uncatalogued code is a \<open>ValueError\<close>.\<close>

definition diag_post_init :: "Diagnostic \<Rightarrow> (string, Diagnostic) result" where
  "diag_post_init d =
     (if dict_get TITLES (dg_code d) = None then Inl (dg_code d) else Inr d)"

definition known_code :: "string \<Rightarrow> bool" where
  "known_code c \<longleftrightarrow> c \<in> set (map fst TITLES)"

definition diag_title :: "Diagnostic \<Rightarrow> string option" where
  "diag_title d = dict_get TITLES (dg_code d)"

definition mk_diag :: "string \<Rightarrow> string \<Rightarrow> int \<Rightarrow> Diagnostic" where
  "mk_diag code msg line = \<lparr>dg_code = code, dg_message = msg, dg_line = line,
     dg_severity = ERROR, dg_subject = None, dg_resource_kind = None, dg_evidence = []\<rparr>"

definition kind_suffix :: "Diagnostic \<Rightarrow> string" where
  "kind_suffix d = (case dg_resource_kind d of
       None \<Rightarrow> [] | Some k \<Rightarrow> (if k = [] then [] else '' [resource: '' @ k @ '']''))"

definition evidence_render :: "string \<Rightarrow> Evidence \<Rightarrow> string" where
  "evidence_render anchor_file e =
     (let place = (case ev_file e of None \<Rightarrow> anchor_file
                      | Some f \<Rightarrow> if f = [] then anchor_file else f)
      in ''  note: '' @ ev_label e @ '' at '' @ place @ '':'' @ int_str (ev_line e))"

definition diag_render :: "string \<Rightarrow> Diagnostic \<Rightarrow> string" where
  "diag_render filename d =
     join_str [CHR 0x0A]
       ((filename @ '':'' @ int_str (dg_line d) @ '': '' @ severity_value (dg_severity d)
           @ '': ['' @ dg_code d @ ''] '' @ dg_message d @ kind_suffix d)
        # map (evidence_render filename) (dg_evidence d))"

lemma known_code_title: "known_code c \<longleftrightarrow> dict_get TITLES c \<noteq> None"
  by (auto simp: known_code_def dict_get_def map_of_eq_None_iff)

lemma diag_post_init_iff: "diag_post_init d = Inr d' \<longleftrightarrow> d' = d \<and> known_code (dg_code d)"
  by (auto simp: diag_post_init_def known_code_title)

end
