(* ===== verification/Own_Lexer.thy ===== *)
theory Own_Lexer
  imports Own_Prelude
begin

text \<open>
  The lexer (\<open>ownlang/lexer.py\<close>). The source is a string of characters below 256; the loop index
  \<open>i\<close> is the suffix still to read, and \<open>line\<close>, \<open>col\<close> are a pair that every consumed character
  moves. \<open>LexError\<close> is a value. The character classes are Python's, restricted to that range:
  \<open>isdigit\<close> accepts the superscripts 2, 3 and 1, and \<open>isalnum\<close> also the three fractions.
\<close>

datatype Tok =
    IDENT_t | INT_t | STRING_t
  | MODULE_t | RESOURCE_t | ACQUIRE_t | RELEASE_t | EXTERN_t | FN_t | LET_t | MOVE_t | BORROW_t
  | BORROW_MUT_t | CONSUME_t | AS_t | USE_t | OVERSPAN_t | IF_t | ELSE_t | WHILE_t | RETURN_t
  | MUT_t | POLICY_t
  | EMIT_TYPE_t | EMIT_ACQUIRE_t | EMIT_RELEASE_t | EMIT_BORROW_t
  | LIFETIME_t | SUBSCRIBE_t
  | REJECTED_t
  | LPAREN_t | RPAREN_t | LBRACE_t | RBRACE_t | COMMA_t | COLON_t | SEMI_t | AMP_t | EQ_t | DOT_t
  | ARROW_t | LT_t | EOF_t

definition KEYWORDS :: "(string \<times> Tok) list" where
  "KEYWORDS = [(''module'', MODULE_t), (''resource'', RESOURCE_t), (''acquire'', ACQUIRE_t),
     (''release'', RELEASE_t), (''extern'', EXTERN_t), (''fn'', FN_t), (''let'', LET_t),
     (''move'', MOVE_t), (''borrow'', BORROW_t), (''borrow_mut'', BORROW_MUT_t),
     (''consume'', CONSUME_t), (''as'', AS_t), (''use'', USE_t), (''overspan'', OVERSPAN_t),
     (''if'', IF_t), (''else'', ELSE_t), (''while'', WHILE_t), (''return'', RETURN_t),
     (''mut'', MUT_t), (''policy'', POLICY_t), (''emit_type'', EMIT_TYPE_t),
     (''emit_acquire'', EMIT_ACQUIRE_t), (''emit_release'', EMIT_RELEASE_t),
     (''emit_borrow'', EMIT_BORROW_t), (''lifetime'', LIFETIME_t), (''subscribe'', SUBSCRIBE_t)]"

definition REJECTED_KEYWORDS :: "string list" where
  "REJECTED_KEYWORDS = [''for'', ''loop'', ''async'', ''await'', ''yield'', ''spawn'']"

definition SIMPLE :: "(char \<times> Tok) list" where
  "SIMPLE = [(CHR ''('', LPAREN_t), (CHR '')'', RPAREN_t), (CHR ''{'', LBRACE_t),
     (CHR ''}'', RBRACE_t), (CHR '','', COMMA_t), (CHR '':'', COLON_t), (CHR '';'', SEMI_t),
     (CHR ''&'', AMP_t), (CHR ''='', EQ_t), (CHR ''.'', DOT_t), (CHR ''<'', LT_t)]"

record Token =
  tk_kind :: Tok
  tk_text :: string
  tk_line :: int
  tk_col :: int

datatype LexError = UnterminatedString int int | UnexpectedCharacter char int int

section \<open>Characters and positions\<close>

definition code :: "char \<Rightarrow> nat" where
  "code c = of_char c"

definition is_ascii_digit :: "char \<Rightarrow> bool" where
  "is_ascii_digit c \<longleftrightarrow> 48 \<le> code c \<and> code c \<le> 57"

definition isdigit :: "char \<Rightarrow> bool" where
  "isdigit c \<longleftrightarrow> is_ascii_digit c \<or> code c \<in> {178, 179, 185}"

definition isalpha :: "char \<Rightarrow> bool" where
  "isalpha c \<longleftrightarrow> (65 \<le> code c \<and> code c \<le> 90) \<or> (97 \<le> code c \<and> code c \<le> 122)
     \<or> code c \<in> {170, 181, 186} \<or> (192 \<le> code c \<and> code c \<noteq> 215 \<and> code c \<noteq> 247)"

definition isalnum :: "char \<Rightarrow> bool" where
  "isalnum c \<longleftrightarrow> isalpha c \<or> isdigit c \<or> code c \<in> {188, 189, 190}"

definition newline :: char where "newline = CHR 0x0A"
definition quote_char :: char where "quote_char = CHR 0x22"
definition backslash :: char where "backslash = CHR 0x5C"

definition is_space :: "char \<Rightarrow> bool" where
  "is_space c \<longleftrightarrow> c \<in> {CHR '' '', CHR 0x09, CHR 0x0D, newline}"

definition word_start :: "char \<Rightarrow> bool" where
  "word_start c \<longleftrightarrow> isalpha c \<or> c = CHR ''_''"

definition word_char :: "char \<Rightarrow> bool" where
  "word_char c \<longleftrightarrow> isalnum c \<or> c = CHR ''_''"

type_synonym Pos = "int \<times> int"

definition adv :: "char \<Rightarrow> Pos \<Rightarrow> Pos" where
  "adv c p = (case p of (line, col) \<Rightarrow> if c = newline then (line + 1, 1) else (line, col + 1))"

definition advs :: "string \<Rightarrow> Pos \<Rightarrow> Pos" where
  "advs cs p = foldl (\<lambda>p c. adv c p) p cs"

definition tok_at :: "Tok \<Rightarrow> string \<Rightarrow> Pos \<Rightarrow> Token" where
  "tok_at k text p = \<lparr>tk_kind = k, tk_text = text, tk_line = fst p, tk_col = snd p\<rparr>"

section \<open>Token classes\<close>

definition unescape :: "char \<Rightarrow> char" where
  "unescape c = (if c = CHR ''n'' then newline else if c = CHR ''t'' then CHR 0x09 else c)"

text \<open>The rest of a string literal: its characters, the suffix after the closing quote, the position.\<close>

fun lex_string :: "string \<Rightarrow> Pos \<Rightarrow> (string \<times> string \<times> Pos) option" where
  "lex_string [] p = None"
| "lex_string (c # cs) p =
     (if c = quote_char then Some ([], cs, adv c p)
      else if c = backslash \<and> cs \<noteq> [] then
        map_option (\<lambda>(s, rest, q). (unescape (hd cs) # s, rest, q))
          (lex_string (tl cs) (adv (hd cs) (adv c p)))
      else map_option (\<lambda>(s, rest, q). (c # s, rest, q)) (lex_string cs (adv c p)))"

definition word_kind :: "string \<Rightarrow> Tok" where
  "word_kind w = (if w \<in> set REJECTED_KEYWORDS then REJECTED_t
     else case map_of KEYWORDS w of Some k \<Rightarrow> k | None \<Rightarrow> IDENT_t)"

lemma lex_string_shorter: "lex_string cs p = Some (s, rest, q) \<Longrightarrow> length rest < length cs"
proof (induction cs p arbitrary: s rest q rule: lex_string.induct)
  case (2 c cs p)
  show ?case
  proof (cases "c = quote_char")
    case False
    show ?thesis
    proof (cases "c = backslash \<and> cs \<noteq> []")
      case True
      with False 2 obtain s' where "lex_string (tl cs) (adv (hd cs) (adv c p)) = Some (s', rest, q)" by auto
      from 2(1) [OF False True this] show ?thesis by (cases cs) auto
    next
      case bs: False
      with False 2(3) obtain s' where "lex_string cs (adv c p) = Some (s', rest, q)"
        by (auto split: if_splits)
      from 2(2) [OF False bs this] show ?thesis by simp
    qed
  qed (use 2 in auto)
qed simp

section \<open>The loop\<close>

definition cons_tok :: "Token \<Rightarrow> (LexError, Token list) result \<Rightarrow> (LexError, Token list) result" where
  "cons_tok t r = rbind r (\<lambda>ts. Inr (t # ts))"

function lex_from :: "string \<Rightarrow> Pos \<Rightarrow> (LexError, Token list) result" where
  "lex_from [] p = Inr [tok_at EOF_t [] p]"
| "lex_from (c # cs) p =
     (if is_space c then lex_from cs (adv c p)
      else if c = CHR ''/'' \<and> cs \<noteq> [] \<and> hd cs = CHR ''/'' then
        lex_from (dropWhile (\<lambda>d. d \<noteq> newline) cs)
          (advs (takeWhile (\<lambda>d. d \<noteq> newline) cs) (adv c p))
      else if c = quote_char then
        (case lex_string cs (adv c p) of
           None \<Rightarrow> Inl (UnterminatedString (fst p) (snd p))
         | Some (s, rest, q) \<Rightarrow> cons_tok (tok_at STRING_t s p) (lex_from rest q))
      else if word_start c then
        (let w = c # takeWhile word_char cs
         in cons_tok (tok_at (word_kind w) w p) (lex_from (dropWhile word_char cs) (advs w p)))
      else if isdigit c then
        (let w = c # takeWhile isdigit cs
         in cons_tok (tok_at INT_t w p) (lex_from (dropWhile isdigit cs) (advs w p)))
      else if c = CHR ''-'' \<and> cs \<noteq> [] \<and> hd cs = CHR ''>'' then
        cons_tok (tok_at ARROW_t ''->'' p) (lex_from (tl cs) (advs ''->'' p))
      else
        (case map_of SIMPLE c of
           Some k \<Rightarrow> cons_tok (tok_at k [c] p) (lex_from cs (adv c p))
         | None \<Rightarrow> Inl (UnexpectedCharacter c (fst p) (snd p))))"
  by pat_completeness auto
termination
  by (relation "measure (\<lambda>(cs, p). length cs)")
    (auto simp: le_imp_less_Suc length_dropWhile_le dest: lex_string_shorter)

definition lex :: "string \<Rightarrow> (LexError, Token list) result" where
  "lex src = lex_from src (1, 1)"

end
