(* ===== verification/Own_Parser.thy ===== *)
theory Own_Parser
  imports Own_Ast Own_Lexer "HOL-Library.Char_ord" "HOL-Library.List_Lexorder"
begin

text \<open>
  The recursive-descent parser (\<open>ownlang/parser.py\<close>). \<open>self.toks\<close> and \<open>self.pos\<close> are the suffix of
  tokens still to read; a parsing method returns its tree and the suffix it leaves, or one of the
  ways it can raise: a \<open>ParseError\<close> at a token, an \<open>IndexError\<close> when \<open>pos\<close> runs past the end, a
  \<open>ValueError\<close> of \<open>int(text)\<close>. Loops and the statement recursion take fuel; \<open>OutOfFuel\<close> is no
  outcome of the code and \<open>parse_terminates\<close> shows it never occurs.
\<close>

datatype ParseErr = ParseErr string Token | IndexErr | ValueErr string | OutOfFuel

type_synonym 'a parser = "Token list \<Rightarrow> (ParseErr, 'a \<times> Token list) result"

section \<open>Token helpers\<close>

definition tok_name :: "Tok \<Rightarrow> string" where
  "tok_name k = (case k of
     IDENT_t \<Rightarrow> ''IDENT'' | INT_t \<Rightarrow> ''INT'' | STRING_t \<Rightarrow> ''STRING'' | MODULE_t \<Rightarrow> ''MODULE''
   | RESOURCE_t \<Rightarrow> ''RESOURCE'' | ACQUIRE_t \<Rightarrow> ''ACQUIRE'' | RELEASE_t \<Rightarrow> ''RELEASE''
   | EXTERN_t \<Rightarrow> ''EXTERN'' | FN_t \<Rightarrow> ''FN'' | LET_t \<Rightarrow> ''LET'' | MOVE_t \<Rightarrow> ''MOVE''
   | BORROW_t \<Rightarrow> ''BORROW'' | BORROW_MUT_t \<Rightarrow> ''BORROW_MUT'' | CONSUME_t \<Rightarrow> ''CONSUME'' | AS_t \<Rightarrow> ''AS''
   | USE_t \<Rightarrow> ''USE'' | OVERSPAN_t \<Rightarrow> ''OVERSPAN'' | IF_t \<Rightarrow> ''IF'' | ELSE_t \<Rightarrow> ''ELSE''
   | WHILE_t \<Rightarrow> ''WHILE'' | RETURN_t \<Rightarrow> ''RETURN'' | MUT_t \<Rightarrow> ''MUT'' | POLICY_t \<Rightarrow> ''POLICY''
   | EMIT_TYPE_t \<Rightarrow> ''EMIT_TYPE'' | EMIT_ACQUIRE_t \<Rightarrow> ''EMIT_ACQUIRE''
   | EMIT_RELEASE_t \<Rightarrow> ''EMIT_RELEASE'' | EMIT_BORROW_t \<Rightarrow> ''EMIT_BORROW''
   | LIFETIME_t \<Rightarrow> ''LIFETIME'' | SUBSCRIBE_t \<Rightarrow> ''SUBSCRIBE'' | REJECTED_t \<Rightarrow> ''REJECTED''
   | LPAREN_t \<Rightarrow> ''LPAREN'' | RPAREN_t \<Rightarrow> ''RPAREN'' | LBRACE_t \<Rightarrow> ''LBRACE'' | RBRACE_t \<Rightarrow> ''RBRACE''
   | COMMA_t \<Rightarrow> ''COMMA'' | COLON_t \<Rightarrow> ''COLON'' | SEMI_t \<Rightarrow> ''SEMI'' | AMP_t \<Rightarrow> ''AMP'' | EQ_t \<Rightarrow> ''EQ''
   | DOT_t \<Rightarrow> ''DOT'' | ARROW_t \<Rightarrow> ''ARROW'' | LT_t \<Rightarrow> ''LT'' | EOF_t \<Rightarrow> ''EOF'')"

text \<open>\<open>self.cur\<close>, \<open>at\<close>, \<open>peek\<close>, \<open>eat\<close> and \<open>accept\<close>.\<close>

fun cur :: "Token list \<Rightarrow> (ParseErr, Token) result" where
  "cur [] = Inl IndexErr"
| "cur (t # ts) = Inr t"

definition fail_here :: "string \<Rightarrow> 'a parser" where
  "fail_here msg ts = rbind (cur ts) (\<lambda>t. Inl (ParseErr msg t))"

definition at :: "Tok \<Rightarrow> Token list \<Rightarrow> bool" where
  "at k ts \<longleftrightarrow> ts \<noteq> [] \<and> tk_kind (hd ts) = k"

fun peek :: "Token list \<Rightarrow> Token" where
  "peek [] = tok_at EOF_t [] (0, 0)"
| "peek [t] = t"
| "peek (t # u # ts) = u"

fun eat :: "Tok \<Rightarrow> Token parser" where
  "eat k [] = Inl IndexErr"
| "eat k (t # ts) = (if tk_kind t \<noteq> k then Inl (ParseErr (''expected '' @ tok_name k) t) else Inr (t, ts))"

definition eat_text :: "Tok \<Rightarrow> string parser" where
  "eat_text k ts = rbind (eat k ts) (\<lambda>(t, ts1). Inr (tk_text t, ts1))"

definition accept :: "Tok \<Rightarrow> Token option parser" where
  "accept k ts = (case ts of [] \<Rightarrow> Inl IndexErr
     | t # ts1 \<Rightarrow> if tk_kind t = k then Inr (Some t, ts1) else Inr (None, ts))"

text \<open>The message's dash is U+2014 in the code, outside the modelled range.\<close>

definition msg_rejected :: "string \<Rightarrow> string" where
  "msg_rejected t = quoted t @ '' is out of scope for the MVP - for/loop-style iteration and async are ''
     @ ''deliberately unsupported ('' @ quoted ''while'' @ '' is supported; see README, ''
     @ quoted ''Where it cheats'' @ '')''"

definition reject_guard :: "unit parser" where
  "reject_guard ts = rbind (cur ts) (\<lambda>t.
     if tk_kind t = REJECTED_t then Inl (ParseErr (msg_rejected (tk_text t)) t) else Inr ((), ts))"

text \<open>
  \<open>int(text)\<close>: only the ASCII digits among the lexer's \<open>isdigit\<close> characters are decimal. (The
  interpreter's limit on the number of digits is not modelled.)
\<close>

definition digits_value :: "string \<Rightarrow> int" where
  "digits_value s = foldl (\<lambda>n c. n * 10 + int (code c - 48)) 0 s"

definition int_of :: "string \<Rightarrow> (ParseErr, int) result" where
  "int_of s = (if list_all is_ascii_digit s \<and> s \<noteq> [] then Inr (digits_value s) else Inl (ValueErr s))"

subsection \<open>Loops\<close>

text \<open>\<open>while self.accept(Tok.COMMA): ...\<close> after a first element; an optional list before \<open>)\<close>.\<close>

fun comma_rest :: "nat \<Rightarrow> 'a parser \<Rightarrow> 'a list parser" where
  "comma_rest 0 p ts = Inl OutOfFuel"
| "comma_rest (Suc n) p ts = rbind (accept COMMA_t ts) (\<lambda>(t, ts1).
     case t of None \<Rightarrow> Inr ([], ts1)
     | Some _ \<Rightarrow> rbind (p ts1) (\<lambda>(x, ts2). rbind (comma_rest n p ts2) (\<lambda>(xs, ts3). Inr (x # xs, ts3))))"

definition paren_list :: "'a parser \<Rightarrow> 'a list parser" where
  "paren_list p ts = rbind (cur ts) (\<lambda>t.
     if tk_kind t = RPAREN_t then Inr ([], ts)
     else rbind (p ts) (\<lambda>(x, ts1).
       rbind (comma_rest (Suc (length ts1)) p ts1) (\<lambda>(xs, ts2). Inr (x # xs, ts2))))"

text \<open>\<open>while not self.at(k): ...\<close>\<close>

fun until :: "nat \<Rightarrow> Tok \<Rightarrow> 'a parser \<Rightarrow> 'a list parser" where
  "until 0 k p ts = Inl OutOfFuel"
| "until (Suc n) k p ts = rbind (cur ts) (\<lambda>t.
     if tk_kind t = k then Inr ([], ts)
     else rbind (p ts) (\<lambda>(x, ts1). rbind (until n k p ts1) (\<lambda>(xs, ts2). Inr (x # xs, ts2))))"

text \<open>\<open>sorted({k for k in seen if seen.count(k) > 1})\<close>\<close>

definition dup_names :: "string list \<Rightarrow> string list" where
  "dup_names seen = sort (remdups (filter (\<lambda>k. count_list seen k > 1) seen))"

section \<open>Atoms, types, right-hand sides\<close>

definition parse_atom :: "Atom parser" where
  "parse_atom ts = rbind (cur ts) (\<lambda>t.
     if tk_kind t = INT_t then rbind (int_of (tk_text t)) (\<lambda>v. Inr (IntLit v (tk_line t), tl ts))
     else rbind (eat IDENT_t ts) (\<lambda>(u, ts1). Inr (VarRef (tk_text u) (tk_line u), ts1)))"

definition parse_args :: "Atom list parser" where
  "parse_args = paren_list parse_atom"

definition parse_type :: "TypeRef parser" where
  "parse_type ts = rbind (cur ts) (\<lambda>t0.
     rbind (accept AMP_t ts) (\<lambda>(amp, ts1).
       case amp of
         Some _ \<Rightarrow>
           rbind (accept MUT_t ts1) (\<lambda>(m, ts2).
           rbind (eat IDENT_t ts2) (\<lambda>(nm, ts3).
             Inr (\<lparr>tr_name = tk_text nm, tr_borrowed = True, tr_mutable = (m \<noteq> None),
                   tr_line = tk_line t0\<rparr>, ts3)))
       | None \<Rightarrow>
           rbind (eat IDENT_t ts1) (\<lambda>(nm, ts2).
             Inr (\<lparr>tr_name = tk_text nm, tr_borrowed = False, tr_mutable = False,
                   tr_line = tk_line t0\<rparr>, ts2))))"

text \<open>
  \<open>_buffer_arg\<close>: a named option \<open>(Some key, atom)\<close> or a positional size \<open>(None, atom)\<close>, which only
  the first positional argument may be.
\<close>

definition buffer_arg :: "bool \<Rightarrow> (string option \<times> Atom) parser" where
  "buffer_arg first ts = rbind (cur ts) (\<lambda>t.
     if (tk_kind t = IDENT_t \<or> tk_kind t = POLICY_t) \<and> tk_kind (peek ts) = EQ_t then
       rbind (eat EQ_t (tl ts)) (\<lambda>(_, ts1).
       rbind (parse_atom ts1) (\<lambda>(a, ts2). Inr ((Some (tk_text t), a), ts2)))
     else
       rbind (parse_atom ts) (\<lambda>(a, ts1).
         if \<not> first then fail_here (''only the leading size may be positional in a ''
             @ ''buffer intent; later arguments must be named'') ts1
         else Inr ((None, a), ts1)))"

fun buffer_rest :: "nat \<Rightarrow> bool \<Rightarrow> (string option \<times> Atom) list parser" where
  "buffer_rest 0 first ts = Inl OutOfFuel"
| "buffer_rest (Suc n) first ts = rbind (accept COMMA_t ts) (\<lambda>(t, ts1).
     case t of None \<Rightarrow> Inr ([], ts1)
     | Some _ \<Rightarrow> rbind (buffer_arg first ts1) (\<lambda>(x, ts2).
         rbind (buffer_rest n (first \<and> fst x \<noteq> None) ts2) (\<lambda>(xs, ts3). Inr (x # xs, ts3))))"

definition buffer_args :: "(string option \<times> Atom) list parser" where
  "buffer_args ts = rbind (cur ts) (\<lambda>t.
     if tk_kind t = RPAREN_t then Inr ([], ts)
     else rbind (buffer_arg True ts) (\<lambda>(x, ts1).
       rbind (buffer_rest (Suc (length ts1)) (fst x \<noteq> None) ts1) (\<lambda>(xs, ts2). Inr (x # xs, ts2))))"

definition parse_buffer_intent :: "Expr parser" where
  "parse_buffer_intent ts =
     rbind (eat IDENT_t ts) (\<lambda>(ns, ts1). rbind (eat DOT_t ts1) (\<lambda>(_, ts2).
     rbind (eat_text IDENT_t ts2) (\<lambda>(mode, ts3). rbind (eat LPAREN_t ts3) (\<lambda>(_, ts4).
     rbind (buffer_args ts4) (\<lambda>(args, ts5). rbind (eat RPAREN_t ts5) (\<lambda>(_, ts6).
       Inr (BufferIntent_e mode
              (foldl (\<lambda>sz x. if fst x = None then Some (snd x) else sz) None args)
              (foldl (\<lambda>d x. case fst x of Some k \<Rightarrow> dict_set d k (snd x) | None \<Rightarrow> d) [] args)
              (tk_line ns) (tk_text ns) (tk_col ns)
              (dup_names (concat (map (opt_list \<circ> fst) args))), ts6)))))))"

definition parse_rhs :: "Expr parser" where
  "parse_rhs ts = rbind (cur ts) (\<lambda>t.
     if tk_kind t = ACQUIRE_t then
       rbind (eat_text IDENT_t (tl ts)) (\<lambda>(res, ts1). rbind (eat LPAREN_t ts1) (\<lambda>(_, ts2).
       rbind (parse_args ts2) (\<lambda>(args, ts3). rbind (eat RPAREN_t ts3) (\<lambda>(_, ts4).
         Inr (Acquire_e res args (tk_line t), ts4)))))
     else if tk_kind t = MOVE_t then
       rbind (eat_text IDENT_t (tl ts)) (\<lambda>(v, ts1). Inr (Move_e v (tk_line t), ts1))
     else if tk_kind t = IDENT_t \<and> tk_kind (peek ts) = DOT_t then parse_buffer_intent ts
     else rbind (parse_atom ts) (\<lambda>(a, ts1). Inr (Atom_e a, ts1)))"

section \<open>Statements\<close>

definition parse_let :: "Stmt parser" where
  "parse_let ts = rbind (eat LET_t ts) (\<lambda>(kw, ts1). rbind (eat_text IDENT_t ts1) (\<lambda>(nm, ts2).
     rbind (eat EQ_t ts2) (\<lambda>(_, ts3). rbind (parse_rhs ts3) (\<lambda>(rhs, ts4).
     rbind (eat SEMI_t ts4) (\<lambda>(_, ts5). Inr (Let_s nm rhs (tk_line kw), ts5))))))"

text \<open>\<open>kw IDENT ;\<close>: the shape of \<open>release\<close>, \<open>use\<close> and \<open>overspan\<close>.\<close>

definition parse_unary :: "Tok \<Rightarrow> (string \<Rightarrow> int \<Rightarrow> Stmt) \<Rightarrow> Stmt parser" where
  "parse_unary k mk ts = rbind (eat k ts) (\<lambda>(kw, ts1). rbind (eat_text IDENT_t ts1) (\<lambda>(v, ts2).
     rbind (eat SEMI_t ts2) (\<lambda>(_, ts3). Inr (mk v (tk_line kw), ts3))))"

definition parse_call :: "Stmt parser" where
  "parse_call ts = rbind (eat IDENT_t ts) (\<lambda>(nm, ts1). rbind (eat LPAREN_t ts1) (\<lambda>(_, ts2).
     rbind (parse_args ts2) (\<lambda>(args, ts3). rbind (eat RPAREN_t ts3) (\<lambda>(_, ts4).
     rbind (eat SEMI_t ts4) (\<lambda>(_, ts5). Inr (Call_s (tk_text nm) args (tk_line nm), ts5))))))"

definition parse_return :: "Stmt parser" where
  "parse_return ts = rbind (eat RETURN_t ts) (\<lambda>(kw, ts1). rbind (accept IDENT_t ts1) (\<lambda>(v, ts2).
     rbind (eat SEMI_t ts2) (\<lambda>(_, ts3). Inr (Return_s (map_option tk_text v) (tk_line kw), ts3))))"

text \<open>An identifier with a fixed text, the contextual keywords \<open>self\<close> and \<open>to\<close>.\<close>

definition eat_word :: "string \<Rightarrow> string \<Rightarrow> unit parser" where
  "eat_word w msg ts = rbind (eat IDENT_t ts) (\<lambda>(t, ts1).
     if tk_text t \<noteq> w then Inl (ParseErr msg t) else Inr ((), ts1))"

definition parse_subscribe :: "Stmt parser" where
  "parse_subscribe ts = rbind (eat SUBSCRIBE_t ts) (\<lambda>(kw, ts1).
     rbind (eat_word ''self'' (''expected '' @ quoted ''self'' @ '' after '' @ quoted ''subscribe'') ts1) (\<lambda>(_, ts2).
     rbind (eat_word ''to'' (''expected '' @ quoted ''to'' @ '' in '' @ quoted ''subscribe self to <source>'') ts2)
       (\<lambda>(_, ts3).
     rbind (eat_text IDENT_t ts3) (\<lambda>(src, ts4).
     rbind (eat SEMI_t ts4) (\<lambda>(_, ts5). Inr (Subscribe_s src (tk_line kw), ts5))))))"

text \<open>The tokens of a parenthesised condition, up to its closing parenthesis.\<close>

fun scan_cond :: "string \<Rightarrow> nat \<Rightarrow> string list parser" where
  "scan_cond msg depth [] = Inl IndexErr"
| "scan_cond msg depth (t # ts) =
     (if tk_kind t = EOF_t then Inl (ParseErr msg t)
      else if tk_kind t = RPAREN_t \<and> depth = 1 then Inr ([], ts)
      else rbind (scan_cond msg (if tk_kind t = LPAREN_t then depth + 1
                                 else if tk_kind t = RPAREN_t then depth - 1 else depth) ts)
             (\<lambda>(xs, ts1). Inr (tk_text t # xs, ts1)))"

definition parse_cond :: "Tok \<Rightarrow> string \<Rightarrow> (Token \<times> string) parser" where
  "parse_cond k msg ts = rbind (eat k ts) (\<lambda>(kw, ts1). rbind (eat LPAREN_t ts1) (\<lambda>(_, ts2).
     rbind (scan_cond msg 1 ts2) (\<lambda>(parts, ts3). Inr ((kw, join_str '' '' parts), ts3))))"

text \<open>The statements that hold blocks, over the block parser.\<close>

definition parse_borrow :: "Stmt list parser \<Rightarrow> Stmt parser" where
  "parse_borrow block ts =
     rbind (eat (if at BORROW_MUT_t ts then BORROW_MUT_t else BORROW_t) ts) (\<lambda>(kw, ts1).
     rbind (eat_text IDENT_t ts1) (\<lambda>(owner, ts2). rbind (eat AS_t ts2) (\<lambda>(_, ts3).
     rbind (eat_text IDENT_t ts3) (\<lambda>(bd, ts4). rbind (block ts4) (\<lambda>(body, ts5).
       Inr (BorrowBlock_s owner bd (if at BORROW_MUT_t ts then MUT_k else SHARED_k) body
              (tk_line kw), ts5))))))"

definition parse_if :: "Stmt list parser \<Rightarrow> Stmt parser" where
  "parse_if block ts =
     rbind (parse_cond IF_t ''unterminated if-condition'' ts) (\<lambda>(kc, ts1).
     rbind (block ts1) (\<lambda>(th, ts2). rbind (accept ELSE_t ts2) (\<lambda>(e, ts3).
       case e of
         None \<Rightarrow> Inr (If_s (snd kc) th [] (tk_line (fst kc)), ts3)
       | Some _ \<Rightarrow> rbind (block ts3) (\<lambda>(el, ts4).
           Inr (If_s (snd kc) th el (tk_line (fst kc)), ts4)))))"

definition parse_while :: "Stmt list parser \<Rightarrow> Stmt parser" where
  "parse_while block ts =
     rbind (parse_cond WHILE_t ''unterminated while-condition'' ts) (\<lambda>(kc, ts1).
     rbind (block ts1) (\<lambda>(body, ts2). Inr (While_s (snd kc) body (tk_line (fst kc)), ts2)))"

text \<open>
  \<open>parse_stmt\<close> and \<open>parse_block\<close>: the fuel bounds the nesting of blocks.
\<close>

fun parse_stmt :: "nat \<Rightarrow> Stmt parser"
and parse_block :: "nat \<Rightarrow> Stmt list parser" where
  "parse_stmt 0 ts = Inl OutOfFuel"
| "parse_stmt (Suc n) ts =
     rbind (reject_guard ts) (\<lambda>_.
       if at LET_t ts then parse_let ts
       else if at RELEASE_t ts then parse_unary RELEASE_t Release_s ts
       else if at USE_t ts then parse_unary USE_t Use_s ts
       else if at OVERSPAN_t ts then parse_unary OVERSPAN_t Overspan_s ts
       else if at BORROW_t ts \<or> at BORROW_MUT_t ts then parse_borrow (\<lambda>us. parse_block n us) ts
       else if at IF_t ts then parse_if (\<lambda>us. parse_block n us) ts
       else if at WHILE_t ts then parse_while (\<lambda>us. parse_block n us) ts
       else if at RETURN_t ts then parse_return ts
       else if at SUBSCRIBE_t ts then parse_subscribe ts
       else if at IDENT_t ts \<and> tk_kind (peek ts) = LPAREN_t then parse_call ts
       else fail_here ''expected a statement'' ts)"
| "parse_block 0 ts = Inl OutOfFuel"
| "parse_block (Suc n) ts = rbind (eat LBRACE_t ts) (\<lambda>(_, ts1).
     rbind (until (Suc (length ts1)) RBRACE_t
       (\<lambda>ts'. rbind (reject_guard ts') (\<lambda>_. parse_stmt n ts')) ts1) (\<lambda>(body, ts2).
     rbind (eat RBRACE_t ts2) (\<lambda>(_, ts3). Inr (body, ts3))))"

section \<open>Declarations\<close>

definition parse_longer :: "string option parser" where
  "parse_longer ts = rbind (accept LT_t ts) (\<lambda>(lt, ts1).
     case lt of None \<Rightarrow> Inr (None, ts1)
     | Some _ \<Rightarrow> rbind (eat_text IDENT_t ts1) (\<lambda>(l, ts2). Inr (Some l, ts2)))"

definition parse_lifetime :: "LifetimeDecl parser" where
  "parse_lifetime ts = rbind (eat LIFETIME_t ts) (\<lambda>(kw, ts1).
     rbind (eat_text IDENT_t ts1) (\<lambda>(nm, ts2). rbind (parse_longer ts2) (\<lambda>(longer, ts3).
     rbind (eat SEMI_t ts3) (\<lambda>(_, ts4).
       Inr (\<lparr>ld_name = nm, ld_longer = longer, ld_line = tk_line kw\<rparr>, ts4)))))"

definition policy_value :: "PolicyVal parser" where
  "policy_value ts = rbind (cur ts) (\<lambda>t.
     if tk_kind t = INT_t then rbind (int_of (tk_text t)) (\<lambda>v. Inr (PInt v, tl ts))
     else rbind (eat_text IDENT_t ts) (\<lambda>(w, ts1).
       Inr (if w = ''true'' then PBool True else if w = ''false'' then PBool False else PStr w, ts1)))"

definition policy_setting :: "(string \<times> PolicyVal) parser" where
  "policy_setting ts = rbind (eat_text IDENT_t ts) (\<lambda>(key, ts1). rbind (eat EQ_t ts1) (\<lambda>(_, ts2).
     rbind (policy_value ts2) (\<lambda>(v, ts3). rbind (eat SEMI_t ts3) (\<lambda>(_, ts4). Inr ((key, v), ts4)))))"

definition parse_policy :: "PolicyDecl parser" where
  "parse_policy ts = rbind (eat POLICY_t ts) (\<lambda>(kw, ts1). rbind (eat_text IDENT_t ts1) (\<lambda>(nm, ts2).
     rbind (eat LBRACE_t ts2) (\<lambda>(_, ts3).
     rbind (until (Suc (length ts3)) RBRACE_t policy_setting ts3) (\<lambda>(kvs, ts4).
     rbind (eat RBRACE_t ts4) (\<lambda>(_, ts5).
       Inr (\<lparr>pd_name = nm, pd_settings = foldl (\<lambda>d kv. dict_set d (fst kv) (snd kv)) [] kvs,
             pd_line = tk_line kw, pd_dups = dup_names (map fst kvs)\<rparr>, ts5))))))"

datatype RMember = Mem_r ResourceMember | Emit_r string string | Kind_r string

definition EMIT_TOK :: "(Tok \<times> string) list" where
  "EMIT_TOK = [(EMIT_TYPE_t, ''emit_type''), (EMIT_ACQUIRE_t, ''emit_acquire''),
     (EMIT_RELEASE_t, ''emit_release''), (EMIT_BORROW_t, ''emit_borrow'')]"

definition EFFECT_TOK :: "(Tok \<times> Effect) list" where
  "EFFECT_TOK = [(BORROW_t, BORROW_eff), (BORROW_MUT_t, BORROW_MUT_eff), (CONSUME_t, CONSUME_eff)]"

definition resource_member :: "RMember parser" where
  "resource_member ts = rbind (cur ts) (\<lambda>t.
     if tk_kind t = ACQUIRE_t \<or> tk_kind t = RELEASE_t then
       rbind (eat IDENT_t (tl ts)) (\<lambda>(m, ts1).
         Inr (Mem_r \<lparr>rm_role = (if tk_kind t = ACQUIRE_t then ''acquire'' else ''release''),
                    rm_name = tk_text m, rm_line = tk_line m\<rparr>, ts1))
     else (case map_of EMIT_TOK (tk_kind t) of
         Some field \<Rightarrow> rbind (eat_text STRING_t (tl ts)) (\<lambda>(v, ts1). Inr (Emit_r field v, ts1))
       | None \<Rightarrow>
           if tk_kind t = IDENT_t \<and> tk_text t = ''kind'' then
             rbind (eat_text STRING_t (tl ts)) (\<lambda>(v, ts1). Inr (Kind_r v, ts1))
           else fail_here (''expected '' @ quoted ''acquire'' @ '', '' @ quoted ''release'' @ '', ''
                  @ quoted ''kind'' @ '' or an emit_* template'') ts))"

definition emit_of :: "RMember list \<Rightarrow> (string, string) dict" where
  "emit_of ms = foldl (\<lambda>d m. case m of Emit_r f v \<Rightarrow> dict_set d f v | _ \<Rightarrow> d) [] ms"

definition kind_of_members :: "RMember list \<Rightarrow> string option" where
  "kind_of_members ms = foldl (\<lambda>k m. case m of Kind_r v \<Rightarrow> Some v | _ \<Rightarrow> k) None ms"

definition members_of :: "RMember list \<Rightarrow> ResourceMember list" where
  "members_of ms = concat (map (\<lambda>m. case m of Mem_r r \<Rightarrow> [r] | _ \<Rightarrow> []) ms)"

definition parse_resource :: "ResourceDecl parser" where
  "parse_resource ts = rbind (eat RESOURCE_t ts) (\<lambda>(kw, ts1). rbind (eat_text IDENT_t ts1) (\<lambda>(nm, ts2).
     rbind (eat LBRACE_t ts2) (\<lambda>(_, ts3).
     rbind (until (Suc (length ts3)) RBRACE_t resource_member ts3) (\<lambda>(ms, ts4).
     rbind (eat RBRACE_t ts4) (\<lambda>(_, ts5).
       Inr (\<lparr>rd_name = nm, rd_members = members_of ms, rd_line = tk_line kw,
             rd_emit_type = dict_get (emit_of ms) ''emit_type'',
             rd_emit_acquire = dict_get (emit_of ms) ''emit_acquire'',
             rd_emit_release = dict_get (emit_of ms) ''emit_release'',
             rd_emit_borrow = dict_get (emit_of ms) ''emit_borrow'',
             rd_kind = kind_of_members ms\<rparr>, ts5))))))"

definition parse_eparam :: "EffectParam parser" where
  "parse_eparam ts = rbind (cur ts) (\<lambda>t.
     case map_of EFFECT_TOK (tk_kind t) of
       Some eff \<Rightarrow> rbind (eat_text IDENT_t (tl ts)) (\<lambda>(ty, ts1).
         Inr (\<lparr>ep_effect = eff, ep_type_name = ty, ep_line = tk_line t\<rparr>, ts1))
     | None \<Rightarrow> rbind (eat_text IDENT_t ts) (\<lambda>(ty, ts1).
         Inr (\<lparr>ep_effect = PLAIN_eff, ep_type_name = ty, ep_line = tk_line t\<rparr>, ts1)))"

definition parse_ret :: "TypeRef option parser" where
  "parse_ret ts = rbind (accept ARROW_t ts) (\<lambda>(a, ts1).
     case a of None \<Rightarrow> Inr (None, ts1)
     | Some _ \<Rightarrow> rbind (parse_type ts1) (\<lambda>(t, ts2). Inr (Some t, ts2)))"

definition parse_extern :: "ExternDecl parser" where
  "parse_extern ts = rbind (eat EXTERN_t ts) (\<lambda>(kw, ts1). rbind (eat FN_t ts1) (\<lambda>(_, ts2).
     rbind (eat_text IDENT_t ts2) (\<lambda>(nm, ts3). rbind (eat LPAREN_t ts3) (\<lambda>(_, ts4).
     rbind (paren_list parse_eparam ts4) (\<lambda>(ps, ts5). rbind (eat RPAREN_t ts5) (\<lambda>(_, ts6).
     rbind (parse_ret ts6) (\<lambda>(ret, ts7). rbind (eat SEMI_t ts7) (\<lambda>(_, ts8).
       Inr (\<lparr>ed_name = nm, ed_params = ps, ed_ret = ret, ed_line = tk_line kw\<rparr>, ts8)))))))))"

definition parse_opt_lifetime :: "string option parser" where
  "parse_opt_lifetime ts = rbind (accept LIFETIME_t ts) (\<lambda>(l, ts1).
     case l of None \<Rightarrow> Inr (None, ts1)
     | Some _ \<Rightarrow> rbind (eat_text IDENT_t ts1) (\<lambda>(n, ts2). Inr (Some n, ts2)))"

definition parse_param :: "Param parser" where
  "parse_param ts = rbind (eat IDENT_t ts) (\<lambda>(nm, ts1). rbind (eat COLON_t ts1) (\<lambda>(_, ts2).
     rbind (parse_type ts2) (\<lambda>(ty, ts3). rbind (parse_opt_lifetime ts3) (\<lambda>(l, ts4).
       Inr (\<lparr>pa_name = tk_text nm, pa_type = ty, pa_line = tk_line nm, pa_lifetime = l\<rparr>, ts4)))))"

definition parse_fn :: "nat \<Rightarrow> FnDecl parser" where
  "parse_fn n ts = rbind (eat FN_t ts) (\<lambda>(kw, ts1). rbind (eat_text IDENT_t ts1) (\<lambda>(nm, ts2).
     rbind (eat LPAREN_t ts2) (\<lambda>(_, ts3). rbind (paren_list parse_param ts3) (\<lambda>(ps, ts4).
     rbind (eat RPAREN_t ts4) (\<lambda>(_, ts5). rbind (parse_ret ts5) (\<lambda>(ret, ts6).
     rbind (parse_opt_lifetime ts6) (\<lambda>(l, ts7). rbind (parse_block n ts7) (\<lambda>(body, ts8).
       Inr (\<lparr>fd_name = nm, fd_params = ps, fd_ret = ret, fd_body = body, fd_line = tk_line kw,
             fd_lifetime = l\<rparr>, ts8)))))))))"

section \<open>Modules\<close>

datatype Item = Resource_it ResourceDecl | Extern_it ExternDecl | Fn_it FnDecl
  | Policy_it PolicyDecl | Lifetime_it LifetimeDecl

definition item_as :: "('a \<Rightarrow> Item) \<Rightarrow> (ParseErr, 'a \<times> Token list) result
    \<Rightarrow> (ParseErr, Item \<times> Token list) result" where
  "item_as mk r = rbind r (\<lambda>(x, ts). Inr (mk x, ts))"

definition parse_item :: "nat \<Rightarrow> Item parser" where
  "parse_item n ts = rbind (reject_guard ts) (\<lambda>_.
     if at RESOURCE_t ts then item_as Resource_it (parse_resource ts)
     else if at EXTERN_t ts then item_as Extern_it (parse_extern ts)
     else if at FN_t ts then item_as Fn_it (parse_fn n ts)
     else if at POLICY_t ts then item_as Policy_it (parse_policy ts)
     else if at LIFETIME_t ts then item_as Lifetime_it (parse_lifetime ts)
     else fail_here (''expected '' @ quoted ''resource'' @ '', '' @ quoted ''extern'' @ '', ''
            @ quoted ''fn'' @ '', '' @ quoted ''policy'' @ '' or '' @ quoted ''lifetime'') ts)"

definition module_of :: "string \<Rightarrow> Item list \<Rightarrow> Module" where
  "module_of name items = \<lparr>md_name = name,
     md_resources = concat (map (\<lambda>i. case i of Resource_it x \<Rightarrow> [x] | _ \<Rightarrow> []) items),
     md_externs = concat (map (\<lambda>i. case i of Extern_it x \<Rightarrow> [x] | _ \<Rightarrow> []) items),
     md_functions = concat (map (\<lambda>i. case i of Fn_it x \<Rightarrow> [x] | _ \<Rightarrow> []) items),
     md_policies = concat (map (\<lambda>i. case i of Policy_it x \<Rightarrow> [x] | _ \<Rightarrow> []) items),
     md_lifetimes = concat (map (\<lambda>i. case i of Lifetime_it x \<Rightarrow> [x] | _ \<Rightarrow> []) items)\<rparr>"

definition parse_module :: "nat \<Rightarrow> Module parser" where
  "parse_module n ts = rbind (eat MODULE_t ts) (\<lambda>(_, ts1). rbind (eat_text IDENT_t ts1) (\<lambda>(nm, ts2).
     rbind (until (Suc (length ts2)) EOF_t (parse_item n) ts2) (\<lambda>(items, ts3).
       Inr (module_of nm items, ts3))))"

datatype SourceError = LexErr LexError | ParseFailure ParseErr

definition parse :: "string \<Rightarrow> (SourceError, Module) result" where
  "parse src = (case lex src of
       Inl e \<Rightarrow> Inl (LexErr e)
     | Inr ts \<Rightarrow> (case parse_module (Suc (2 * length ts)) ts of
           Inl e \<Rightarrow> Inl (ParseFailure e) | Inr (m, _) \<Rightarrow> Inr m))"

end
