(* ===== verification/Own_Syntax.thy ===== *)
theory Own_Syntax
  imports Own_Parser
begin

text \<open>
  The parser's guarantees. \<open>good\<close> is what a parsing method promises on a token list that ends in its
  only EOF: it never runs past the end, its fuel suffices, and what is left still ends in EOF. The
  loops are proved once, in the locale \<open>consuming\<close>, and used for every element parser. The lexer
  supplies such token lists (\<open>lex_eof\<close>).
\<close>

section \<open>What every parsing method promises\<close>

definition eof_ended :: "Token list \<Rightarrow> bool" where
  "eof_ended ts \<longleftrightarrow> (\<exists>us e. ts = us @ [e] \<and> tk_kind e = EOF_t \<and> (\<forall>u\<in>set us. tk_kind u \<noteq> EOF_t))"

text \<open>\<open>good n r\<close>: no \<open>IndexError\<close>, no missing fuel, and at most \<open>n\<close> tokens left, the last of them EOF.\<close>

definition good :: "nat \<Rightarrow> (ParseErr, 'a \<times> Token list) result \<Rightarrow> bool" where
  "good n r \<longleftrightarrow> (case r of Inl e \<Rightarrow> e \<noteq> IndexErr \<and> e \<noteq> OutOfFuel
     | Inr (x, ts) \<Rightarrow> eof_ended ts \<and> length ts \<le> n)"

named_theorems goods

lemma good_Inr [simp]: "good n (Inr (x, ts)) \<longleftrightarrow> eof_ended ts \<and> length ts \<le> n"
  by (simp add: good_def)

lemma good_Inl [simp]: "good n (Inl e) \<longleftrightarrow> e \<noteq> IndexErr \<and> e \<noteq> OutOfFuel"
  by (simp add: good_def)

lemma good_mono: "good n r \<Longrightarrow> n \<le> m \<Longrightarrow> good m r"
  by (auto simp: good_def split: sum.splits)

lemma good_rbind:
  assumes "good n r" "\<And>x ts. r = Inr (x, ts) \<Longrightarrow> eof_ended ts \<Longrightarrow> length ts \<le> n \<Longrightarrow> good m (f (x, ts))"
  shows "good m (rbind r f)"
  using assms by (cases r) (auto simp: good_def)

lemma eof_ended_Nil [simp]: "\<not> eof_ended []"
  by (simp add: eof_ended_def)

lemma eof_ended_Cons: "eof_ended (t # ts) \<longleftrightarrow> (if ts = [] then tk_kind t = EOF_t else tk_kind t \<noteq> EOF_t \<and> eof_ended ts)"
proof (cases ts)
  case Nil
  then show ?thesis by (auto simp: eof_ended_def append_eq_Cons_conv)
next
  case (Cons u us)
  then show ?thesis
    by (auto simp: eof_ended_def append_eq_Cons_conv Cons_eq_append_conv)
qed

lemma eof_ended_tl: "eof_ended (t # ts) \<Longrightarrow> tk_kind t \<noteq> EOF_t \<Longrightarrow> eof_ended ts"
  by (auto simp: eof_ended_Cons split: if_splits)

lemma eof_ended_tlD [dest]: "eof_ended (t # ts) \<Longrightarrow> tk_kind t = k \<Longrightarrow> k \<noteq> EOF_t \<Longrightarrow> eof_ended ts"
  using eof_ended_tl by blast

lemma eof_ended_length: "eof_ended ts \<Longrightarrow> 0 < length ts"
  by (cases ts) auto

lemma good_cur:
  "eof_ended ts \<Longrightarrow> (\<And>t us. ts = t # us \<Longrightarrow> good m (f t)) \<Longrightarrow> good m (rbind (cur ts) f)"
  by (cases ts) auto

lemma good_eat [goods]: "eof_ended ts \<Longrightarrow> k \<noteq> EOF_t \<Longrightarrow> good (length ts - 1) (eat k ts)"
  by (cases ts) (auto intro: eof_ended_tl)

lemma good_eat_text [goods]: "eof_ended ts \<Longrightarrow> k \<noteq> EOF_t \<Longrightarrow> good (length ts - 1) (eat_text k ts)"
  unfolding eat_text_def by (rule good_rbind [OF good_eat]) auto

lemma good_eat_word [goods]: "eof_ended ts \<Longrightarrow> good (length ts - 1) (eat_word w msg ts)"
  unfolding eat_word_def by (rule good_rbind [OF good_eat]) auto

lemma good_accept [goods]: "eof_ended ts \<Longrightarrow> k \<noteq> EOF_t \<Longrightarrow> good (length ts) (accept k ts)"
  by (cases ts) (auto simp: accept_def intro: eof_ended_tl)

lemma accept_some: "accept k ts = Inr (Some t, us) \<Longrightarrow> length us = length ts - 1"
  by (auto simp: accept_def split: list.splits if_splits)

lemma good_fail_here [goods]: "eof_ended ts \<Longrightarrow> good n (fail_here msg ts)"
  by (cases ts) (auto simp: fail_here_def)

lemma good_reject_guard [goods]: "eof_ended ts \<Longrightarrow> good (length ts) (reject_guard ts)"
  unfolding reject_guard_def by (rule good_cur) auto

lemma reject_guard_Inr: "reject_guard ts = Inr (u, ts') \<Longrightarrow> ts' = ts"
  by (cases ts) (auto simp: reject_guard_def split: if_splits)

text \<open>
  The contract of a method that consumes at least one token, for inputs up to \<open>N\<close> tokens, and
  what the loops built on it promise.
\<close>

locale consuming =
  fixes p :: "'a parser" and N :: nat
  assumes consumes: "eof_ended ts \<Longrightarrow> length ts \<le> N \<Longrightarrow> good (length ts - 1) (p ts)"
begin

lemma comma_rest_good:
  "eof_ended ts \<Longrightarrow> length ts \<le> N \<Longrightarrow> length ts < n \<Longrightarrow> good (length ts) (comma_rest n p ts)"
proof (induction n arbitrary: ts)
  case (Suc n)
  show ?case
    unfolding comma_rest.simps
  proof (rule good_rbind [OF good_accept [OF Suc.prems(1)]])
    fix x us
    assume a: "accept COMMA_t ts = Inr (x, us)" "eof_ended us" "length us \<le> length ts"
    show "good (length ts) (case (x, us) of (t, ts1) \<Rightarrow>
       case t of None \<Rightarrow> Inr ([], ts1)
       | Some _ \<Rightarrow> rbind (p ts1) (\<lambda>(x, ts2). rbind (comma_rest n p ts2) (\<lambda>(xs, ts3). Inr (x # xs, ts3))))"
    proof (cases x)
      case (Some t)
      with a have us: "length us = length ts - 1" by (simp add: accept_some)
      have "good (length ts) (rbind (p us) (\<lambda>(x, ts2). rbind (comma_rest n p ts2) (\<lambda>(xs, ts3). Inr (x # xs, ts3))))"
      proof (rule good_rbind [OF consumes [OF a(2)]])
        fix y ts2
        assume "eof_ended ts2" "length ts2 \<le> length us - 1"
        moreover have "0 < length us" using a(2) by (cases us) auto
        ultimately have "good (length ts2) (comma_rest n p ts2)" "length ts2 \<le> length ts"
          using Suc.IH [of ts2] Suc.prems us by auto
        then show "good (length ts) (case (y, ts2) of (x, ts2) \<Rightarrow> rbind (comma_rest n p ts2) (\<lambda>(xs, ts3). Inr (x # xs, ts3)))"
          by (auto intro: good_rbind)
      qed (use a Suc.prems in auto)
      with Some show ?thesis by simp
    qed (use a in simp)
  qed simp
qed simp

lemma paren_list_good:
  "eof_ended ts \<Longrightarrow> length ts \<le> N \<Longrightarrow> good (length ts) (paren_list p ts)"
  unfolding paren_list_def
proof (rule good_cur, assumption)
  fix t us
  assume ts: "eof_ended ts" "length ts \<le> N" "ts = t # us"
  have "good (length ts) (rbind (p ts) (\<lambda>(x, ts1). rbind (comma_rest (Suc (length ts1)) p ts1) (\<lambda>(xs, ts2). Inr (x # xs, ts2))))"
  proof (rule good_rbind [OF consumes [OF ts(1,2)]])
    fix x ts1
    assume "eof_ended ts1" "length ts1 \<le> length ts - 1"
    then have "good (length ts1) (comma_rest (Suc (length ts1)) p ts1)" "length ts1 \<le> length ts"
      using comma_rest_good [of ts1 "Suc (length ts1)"] ts by auto
    then show "good (length ts) (case (x, ts1) of (x, ts1) \<Rightarrow>
        rbind (comma_rest (Suc (length ts1)) p ts1) (\<lambda>(xs, ts2). Inr (x # xs, ts2)))"
      by (auto intro: good_rbind)
  qed
  with ts show "good (length ts) (if tk_kind t = RPAREN_t then Inr ([], ts)
     else rbind (p ts) (\<lambda>(x, ts1).
       rbind (comma_rest (Suc (length ts1)) p ts1) (\<lambda>(xs, ts2). Inr (x # xs, ts2))))"
    by simp
qed

lemma until_good:
  "eof_ended ts \<Longrightarrow> length ts \<le> N \<Longrightarrow> length ts < n \<Longrightarrow> good (length ts) (until n k p ts)"
proof (induction n arbitrary: ts)
  case (Suc n)
  show ?case
    unfolding until.simps
  proof (rule good_cur [OF Suc.prems(1)])
    fix t us
    assume ts: "ts = t # us"
    have "good (length ts) (rbind (p ts) (\<lambda>(x, ts1). rbind (until n k p ts1) (\<lambda>(xs, ts2). Inr (x # xs, ts2))))"
    proof (rule good_rbind [OF consumes [OF Suc.prems(1,2)]])
      fix x ts1
      assume "eof_ended ts1" "length ts1 \<le> length ts - 1"
      then have "good (length ts1) (until n k p ts1)" "length ts1 \<le> length ts"
        using Suc.IH [of ts1] Suc.prems ts by auto
      then show "good (length ts) (case (x, ts1) of (x, ts1) \<Rightarrow> rbind (until n k p ts1) (\<lambda>(xs, ts2). Inr (x # xs, ts2)))"
        by (auto intro: good_rbind)
    qed
    with Suc.prems show "good (length ts) (if tk_kind t = k then Inr ([], ts)
        else rbind (p ts) (\<lambda>(x, ts1). rbind (until n k p ts1) (\<lambda>(xs, ts2). Inr (x # xs, ts2))))"
      by simp
  qed
qed simp

end

lemma good_parse_atom: "eof_ended ts \<Longrightarrow> good (length ts - 1) (parse_atom ts)"
proof -
  assume e: "eof_ended ts"
  show ?thesis
    unfolding parse_atom_def
  proof (rule good_cur [OF e])
    fix t us
    assume ts: "ts = t # us"
    have "good (length ts - 1) (rbind (eat IDENT_t ts) (\<lambda>(u, ts1). Inr (VarRef (tk_text u) (tk_line u), ts1)))"
      by (rule good_rbind [OF good_eat [OF e]]) auto
    with e ts show "good (length ts - 1) (if tk_kind t = INT_t
        then rbind (int_of (tk_text t)) (\<lambda>v. Inr (IntLit v (tk_line t), tl ts))
        else rbind (eat IDENT_t ts) (\<lambda>(u, ts1). Inr (VarRef (tk_text u) (tk_line u), ts1)))"
      by (auto simp: int_of_def intro: eof_ended_tl)
  qed
qed

interpretation atom: consuming parse_atom N for N
  by unfold_locales (rule good_parse_atom)


lemmas binds = good_rbind [OF good_eat] good_rbind [OF good_eat_text] good_rbind [OF good_eat_word]
  good_rbind [OF good_accept] good_rbind [OF good_parse_atom] good_rbind [OF good_reject_guard] good_cur

lemma good_parse_args [goods]: "eof_ended ts \<Longrightarrow> good (length ts) (parse_args ts)"
  unfolding parse_args_def using atom.paren_list_good [where N = "length ts"] by simp

lemma good_parse_type: "eof_ended ts \<Longrightarrow> good (length ts - 1) (parse_type ts)"
  unfolding parse_type_def by (auto intro!: binds split: option.split)

lemma good_buffer_arg: "eof_ended ts \<Longrightarrow> good (length ts - 1) (buffer_arg first ts)"
  unfolding buffer_arg_def
  by (auto intro!: binds good_fail_here intro: eof_ended_tl)

lemma good_buffer_rest:
  "eof_ended ts \<Longrightarrow> length ts < n \<Longrightarrow> good (length ts) (buffer_rest n first ts)"
proof (induction n arbitrary: first ts)
  case (Suc n)
  have step: "good (length ts) (rbind (buffer_arg first us) (\<lambda>(x, ts2).
         rbind (buffer_rest n (first \<and> fst x \<noteq> None) ts2) (\<lambda>(xs, ts3). Inr (x # xs, ts3))))"
    if u: "eof_ended us" "length us = length ts - 1" for us
  proof (rule good_rbind [OF good_buffer_arg [OF u(1)]])
    fix x :: "string option \<times> Atom" and ts2
    assume "eof_ended ts2" "length ts2 \<le> length us - 1"
    moreover have "0 < length us" using u(1) by (cases us) auto
    ultimately have "good (length ts2) (buffer_rest n (first \<and> fst x \<noteq> None) ts2)" "length ts2 \<le> length ts"
      using Suc.IH [of ts2] Suc.prems u(2) by auto
    then show "good (length ts) (case (x, ts2) of (x, ts2) \<Rightarrow>
        rbind (buffer_rest n (first \<and> fst x \<noteq> None) ts2) (\<lambda>(xs, ts3). Inr (x # xs, ts3)))"
      by (auto intro: good_rbind)
  qed
  show ?case
    unfolding buffer_rest.simps
    by (rule good_rbind [OF good_accept [OF Suc.prems(1)]])
      (use step in \<open>auto split: option.split dest: accept_some\<close>)
qed simp

lemma good_buffer_args [goods]: "eof_ended ts \<Longrightarrow> good (length ts) (buffer_args ts)"
  unfolding buffer_args_def
  by (auto simp del: buffer_rest.simps intro!: binds good_rbind [OF good_buffer_arg] good_rbind [OF good_buffer_rest])

lemma good_parse_buffer_intent: "eof_ended ts \<Longrightarrow> good (length ts - 1) (parse_buffer_intent ts)"
  unfolding parse_buffer_intent_def by (auto intro!: binds good_rbind [OF good_buffer_args])

lemma good_parse_rhs: "eof_ended ts \<Longrightarrow> good (length ts - 1) (parse_rhs ts)"
  unfolding parse_rhs_def
  using good_parse_buffer_intent [of ts]
  by (auto intro!: binds good_rbind [OF good_parse_args] intro: eof_ended_tl)

lemma good_parse_let: "eof_ended ts \<Longrightarrow> good (length ts - 1) (parse_let ts)"
  unfolding parse_let_def by (auto intro!: binds good_rbind [OF good_parse_rhs])

lemma good_parse_unary: "eof_ended ts \<Longrightarrow> k \<noteq> EOF_t \<Longrightarrow> good (length ts - 1) (parse_unary k mk ts)"
  unfolding parse_unary_def by (auto intro!: binds)

lemma good_parse_call: "eof_ended ts \<Longrightarrow> good (length ts - 1) (parse_call ts)"
  unfolding parse_call_def by (auto intro!: binds good_rbind [OF good_parse_args])

lemma good_parse_return: "eof_ended ts \<Longrightarrow> good (length ts - 1) (parse_return ts)"
  unfolding parse_return_def by (auto intro!: binds)

lemma good_parse_subscribe: "eof_ended ts \<Longrightarrow> good (length ts - 1) (parse_subscribe ts)"
  unfolding parse_subscribe_def by (auto intro!: binds)

lemma good_scan_cond: "eof_ended ts \<Longrightarrow> good (length ts - 1) (scan_cond msg d ts)"
proof (induction msg d ts rule: scan_cond.induct)
  case (2 msg depth t ts)
  show ?case
  proof (cases "tk_kind t = EOF_t \<or> (tk_kind t = RPAREN_t \<and> depth = 1)")
    case True
    with 2(2) show ?thesis by (auto simp: eof_ended_Cons split: if_splits)
  next
    case False
    with 2(2) have e: "eof_ended ts" by (auto simp: eof_ended_Cons split: if_splits)
    from False 2(1) [OF _ _ e] show ?thesis
      by (auto intro!: good_rbind [where n = "length ts - 1"])
  qed
qed simp

lemma good_parse_cond: "eof_ended ts \<Longrightarrow> k \<noteq> EOF_t \<Longrightarrow> good (length ts - 1) (parse_cond k msg ts)"
  unfolding parse_cond_def by (auto intro!: binds good_rbind [OF good_scan_cond])

lemma good_compound:
  assumes "eof_ended ts" and blk: "\<And>us. eof_ended us \<Longrightarrow> length us < length ts \<Longrightarrow> good (length us - 1) (block us)"
  shows "good (length ts - 1) (parse_borrow block ts)" "good (length ts - 1) (parse_if block ts)"
    "good (length ts - 1) (parse_while block ts)"
proof -
  obtain t0 ts0 where len: "ts = t0 # ts0" using assms(1) by (cases ts) auto
  note B = good_rbind [OF blk]
  show "good (length ts - 1) (parse_borrow block ts)"
    unfolding parse_borrow_def using assms(1) len
    by (auto intro!: good_rbind [OF good_eat] good_rbind [OF good_eat_text] B)
  have else_branch: "good m (case e of None \<Rightarrow> Inr (x, us)
      | Some _ \<Rightarrow> rbind (block us) (\<lambda>(el, ts4). Inr (f el, ts4)))"
    if "eof_ended us" "length us \<le> m" "m < length ts" for m e us x f
    using that by (auto intro!: B split: option.split)
  show "good (length ts - 1) (parse_if block ts)"
    unfolding parse_if_def using assms(1) len
    by (auto intro!: good_rbind [OF good_parse_cond] B good_rbind [OF good_accept] else_branch)
  show "good (length ts - 1) (parse_while block ts)"
    unfolding parse_while_def using assms(1) len
    by (auto intro!: good_rbind [OF good_parse_cond] B)
qed

lemma good_stmt_block:
  "eof_ended ts \<Longrightarrow> length ts \<le> n \<Longrightarrow> good (length ts - 1) (parse_stmt n ts)"
  "eof_ended ts \<Longrightarrow> length ts \<le> n \<Longrightarrow> good (length ts - 1) (parse_block n ts)"
proof (induction n arbitrary: ts)
  case 0
  {
    case 1
    then show ?case by (cases ts) auto
  next
    case 2
    then show ?case by (cases ts) auto
  }
next
  case (Suc n)
  {
    case 1
    have "good (length us - 1) (parse_block n us)" if "eof_ended us" "length us < length ts" for us
      using Suc.IH(2) that 1(2) by simp
    note C = good_compound [OF 1(1), of "\<lambda>us. parse_block n us", OF this]
    show ?case
      unfolding parse_stmt.simps
      by (rule good_rbind [OF good_reject_guard [OF 1(1)]])
        (simp add: 1(1) C good_parse_let good_parse_unary good_parse_return
           good_parse_subscribe good_parse_call good_fail_here del: One_nat_def)
  next
    case 2
    let ?p = "\<lambda>ts'. rbind (reject_guard ts') (\<lambda>_. parse_stmt n ts')"
    have c: "consuming ?p n"
      by unfold_locales (rule good_rbind [OF good_reject_guard], simp_all add: Suc.IH(1) del: One_nat_def)
    show ?case
      unfolding parse_block.simps
    proof (rule good_rbind [OF good_eat [OF 2(1)]])
      fix x us
      assume us: "eof_ended us" "length us \<le> length ts - 1"
      have "good (length us) (until (Suc (length us)) RBRACE_t ?p us)"
        by (rule consuming.until_good [OF c us(1)]) (use us 2(2) in auto)
      then show "good (length ts - 1) (case (x, us) of (_, ts1) \<Rightarrow>
          rbind (until (Suc (length ts1)) RBRACE_t ?p ts1) (\<lambda>(body, ts2).
          rbind (eat RBRACE_t ts2) (\<lambda>(_, ts3). Inr (body, ts3))))"
        unfolding prod.case
        by (rule good_rbind) (use us(2) in \<open>auto intro!: good_rbind [OF good_eat]\<close>)
    qed simp
  }
qed

section \<open>Declarations\<close>

lemma good_policy_value: "eof_ended ts \<Longrightarrow> good (length ts - 1) (policy_value ts)"
  unfolding policy_value_def by (auto simp: int_of_def intro!: binds)

lemma good_policy_setting: "eof_ended ts \<Longrightarrow> good (length ts - 1) (policy_setting ts)"
  unfolding policy_setting_def by (auto intro!: binds good_rbind [OF good_policy_value])

interpretation setting: consuming policy_setting N for N
  by unfold_locales (rule good_policy_setting)

lemma TOK_not_EOF:
  "map_of EMIT_TOK k = Some f \<Longrightarrow> k \<noteq> EOF_t" "map_of EFFECT_TOK k = Some e \<Longrightarrow> k \<noteq> EOF_t"
  by (auto simp: EMIT_TOK_def EFFECT_TOK_def)

lemma good_after_keyword:
  assumes "eof_ended (t # us)" "tk_kind t \<noteq> EOF_t" "k \<noteq> EOF_t"
  shows "good (length us) (rbind (eat_text k us) (\<lambda>(v, ts1). Inr (f v, ts1)))"
    "good (length us) (rbind (eat k us) (\<lambda>(v, ts1). Inr (g v, ts1)))"
proof -
  have u: "eof_ended us" by (rule eof_ended_tl [OF assms(1,2)])
  show "good (length us) (rbind (eat_text k us) (\<lambda>(v, ts1). Inr (f v, ts1)))"
    by (rule good_rbind [OF good_eat_text [OF u assms(3)]]) auto
  show "good (length us) (rbind (eat k us) (\<lambda>(v, ts1). Inr (g v, ts1)))"
    by (rule good_rbind [OF good_eat [OF u assms(3)]]) auto
qed

lemma good_resource_member: "eof_ended ts \<Longrightarrow> good (length ts - 1) (resource_member ts)"
  unfolding resource_member_def
  by (rule good_cur)
    (auto simp: good_after_keyword TOK_not_EOF good_fail_here split: option.split)

interpretation member: consuming resource_member N for N
  by unfold_locales (rule good_resource_member)

lemma good_parse_eparam: "eof_ended ts \<Longrightarrow> good (length ts - 1) (parse_eparam ts)"
  unfolding parse_eparam_def
  by (rule good_cur)
    (auto simp: good_after_keyword TOK_not_EOF intro!: binds split: option.split)

interpretation eparam: consuming parse_eparam N for N
  by unfold_locales (rule good_parse_eparam)

lemma good_parse_opt_lifetime: "eof_ended ts \<Longrightarrow> good (length ts) (parse_opt_lifetime ts)"
  unfolding parse_opt_lifetime_def by (auto intro!: binds split: option.split)

lemma good_parse_param: "eof_ended ts \<Longrightarrow> good (length ts - 1) (parse_param ts)"
  unfolding parse_param_def
  by (auto intro!: binds good_rbind [OF good_parse_type] good_rbind [OF good_parse_opt_lifetime])

interpretation param: consuming parse_param N for N
  by unfold_locales (rule good_parse_param)

lemma good_parse_ret: "eof_ended ts \<Longrightarrow> good (length ts) (parse_ret ts)"
  unfolding parse_ret_def by (auto intro!: binds good_rbind [OF good_parse_type] split: option.split)

lemma good_settings: "eof_ended ts \<Longrightarrow> good (length ts) (until (Suc (length ts)) RBRACE_t policy_setting ts)"
  by (rule setting.until_good [where N = "length ts"]) simp_all

lemma good_members: "eof_ended ts \<Longrightarrow> good (length ts) (until (Suc (length ts)) RBRACE_t resource_member ts)"
  by (rule member.until_good [where N = "length ts"]) simp_all

lemma good_eparams: "eof_ended ts \<Longrightarrow> good (length ts) (paren_list parse_eparam ts)"
  by (rule eparam.paren_list_good [where N = "length ts"]) simp_all

lemma good_params: "eof_ended ts \<Longrightarrow> good (length ts) (paren_list parse_param ts)"
  by (rule param.paren_list_good [where N = "length ts"]) simp_all

lemma good_parse_policy: "eof_ended ts \<Longrightarrow> good (length ts - 1) (parse_policy ts)"
  unfolding parse_policy_def by (auto simp del: until.simps intro!: binds good_rbind [OF good_settings])

lemma good_parse_resource: "eof_ended ts \<Longrightarrow> good (length ts - 1) (parse_resource ts)"
  unfolding parse_resource_def by (auto simp del: until.simps intro!: binds good_rbind [OF good_members])

lemma good_parse_extern: "eof_ended ts \<Longrightarrow> good (length ts - 1) (parse_extern ts)"
  unfolding parse_extern_def
  by (auto intro!: binds good_rbind [OF good_eparams] good_rbind [OF good_parse_ret])

lemma good_parse_longer: "eof_ended ts \<Longrightarrow> good (length ts) (parse_longer ts)"
  unfolding parse_longer_def by (auto intro!: binds split: option.split)

lemma good_parse_lifetime: "eof_ended ts \<Longrightarrow> good (length ts - 1) (parse_lifetime ts)"
  unfolding parse_lifetime_def by (auto intro!: binds good_rbind [OF good_parse_longer])

lemma good_parse_fn: "eof_ended ts \<Longrightarrow> length ts \<le> n \<Longrightarrow> good (length ts - 1) (parse_fn n ts)"
  unfolding parse_fn_def
  by (auto intro!: binds good_rbind [OF good_params] good_rbind [OF good_parse_ret]
      good_rbind [OF good_parse_opt_lifetime] good_rbind [OF good_stmt_block(2)])

lemma good_item_as: "good n r \<Longrightarrow> good n (item_as mk r)"
  by (cases r) (auto simp: item_as_def good_def)

interpretation item: consuming "parse_item n" n for n
proof
  fix ts
  assume ts: "eof_ended ts" "length ts \<le> n"
  show "good (length ts - 1) (parse_item n ts)"
    unfolding parse_item_def
    by (rule good_rbind [OF good_reject_guard [OF ts(1)]])
      (simp add: ts good_item_as good_parse_resource good_parse_extern good_parse_fn
         good_parse_policy good_parse_lifetime good_fail_here del: One_nat_def)
qed

lemma good_parse_module: "eof_ended ts \<Longrightarrow> length ts \<le> n \<Longrightarrow> good (length ts) (parse_module n ts)"
  unfolding parse_module_def
  by (auto simp del: until.simps intro!: binds good_rbind [OF item.until_good])


section \<open>Tokens of the lexer\<close>

lemma keyword_not_EOF: "map_of KEYWORDS w = Some k \<Longrightarrow> k \<noteq> EOF_t"
  by (auto simp: KEYWORDS_def split: if_splits)

lemma simple_not_EOF: "map_of SIMPLE w = Some k \<Longrightarrow> k \<noteq> EOF_t"
  by (auto simp: SIMPLE_def split: if_splits)

lemma word_kind_not_EOF: "word_kind w \<noteq> EOF_t"
  by (auto simp: word_kind_def dest: keyword_not_EOF split: option.split)

lemma eof_cons_tok:
  "tk_kind t \<noteq> EOF_t \<Longrightarrow> (\<And>ts. r = Inr ts \<Longrightarrow> eof_ended ts) \<Longrightarrow> cons_tok t r = Inr us \<Longrightarrow> eof_ended us"
  by (auto simp: cons_tok_def rbind_eq_Inr eof_ended_Cons)

lemma lex_from_eof: "lex_from cs p = Inr ts \<Longrightarrow> eof_ended ts"
proof (induction cs p arbitrary: ts rule: lex_from.induct)
  case (1 p)
  then show ?case by (auto simp: eof_ended_Cons tok_at_def)
next
  case (2 c cs p)
  consider "is_space c" | "\<not> is_space c" "c = CHR ''/'' \<and> cs \<noteq> [] \<and> hd cs = CHR ''/''"
    | "\<not> is_space c" "\<not> (c = CHR ''/'' \<and> cs \<noteq> [] \<and> hd cs = CHR ''/'')" by blast
  then show ?case
  proof cases
    case 1
    with 2 show ?thesis by simp
  next
    case s: 2
    with 2(2) [OF s] 2(8) show ?thesis by simp
  next
    case s: 3
    note u = 2(8) [unfolded lex_from.simps if_not_P [OF s(1)] if_not_P [OF s(2)]]
    show ?thesis
    proof (cases "c = quote_char")
      case True
      from u [unfolded if_P [OF True]] obtain str rest q where l: "lex_string cs (adv c p) = Some (str, rest, q)"
        "cons_tok (tok_at STRING_t str p) (lex_from rest q) = Inr ts"
        by (auto split: option.splits)
      show ?thesis
        by (rule eof_cons_tok [OF _ 2(3) [OF s True l(1) refl refl] l(2)]) (simp_all add: tok_at_def)
    next
      case q: False
      show ?thesis
      proof (cases "word_start c")
        case True
        from u [unfolded if_not_P [OF q] if_P [OF True]]
        have l: "cons_tok (tok_at (word_kind (c # takeWhile word_char cs)) (c # takeWhile word_char cs) p)
            (lex_from (dropWhile word_char cs) (advs (c # takeWhile word_char cs) p)) = Inr ts"
          by (simp add: Let_def)
        show ?thesis
          by (rule eof_cons_tok [OF _ 2(4) [OF s q True refl] l]) (simp_all add: tok_at_def word_kind_not_EOF)
      next
        case w: False
        show ?thesis
        proof (cases "isdigit c")
          case True
          from u [unfolded if_not_P [OF q] if_not_P [OF w] if_P [OF True]]
          have l: "cons_tok (tok_at INT_t (c # takeWhile isdigit cs) p)
              (lex_from (dropWhile isdigit cs) (advs (c # takeWhile isdigit cs) p)) = Inr ts"
            by (simp add: Let_def)
          show ?thesis
            by (rule eof_cons_tok [OF _ 2(5) [OF s q w True refl] l]) (simp_all add: tok_at_def)
        next
          case d: False
          show ?thesis
          proof (cases "c = CHR ''-'' \<and> cs \<noteq> [] \<and> hd cs = CHR ''>''")
            case True
            from u [unfolded if_not_P [OF q] if_not_P [OF w] if_not_P [OF d] if_P [OF True]]
            have l: "cons_tok (tok_at ARROW_t ''->'' p) (lex_from (tl cs) (advs ''->'' p)) = Inr ts" .
            show ?thesis
              by (rule eof_cons_tok [OF _ 2(6) [OF s q w d True] l]) (simp_all add: tok_at_def)
          next
            case a: False
            from u [unfolded if_not_P [OF q] if_not_P [OF w] if_not_P [OF d] if_not_P [OF a]]
            obtain k where l: "map_of SIMPLE c = Some k"
              "cons_tok (tok_at k [c] p) (lex_from cs (adv c p)) = Inr ts"
              by (auto split: option.splits)
            show ?thesis
              by (rule eof_cons_tok [OF _ 2(7) [OF s q w d a l(1)] l(2)]) (simp_all add: tok_at_def simple_not_EOF [OF l(1)])
          qed
        qed
      qed
    qed
  qed
qed

lemma lex_eof: "lex src = Inr ts \<Longrightarrow> eof_ended ts"
  unfolding lex_def by (rule lex_from_eof)

lemma parse_good: "parse src \<noteq> Inl (ParseFailure IndexErr) \<and> parse src \<noteq> Inl (ParseFailure OutOfFuel)"
proof (cases "lex src")
  case (Inr ts)
  have "good (length ts) (parse_module (Suc (2 * length ts)) ts)"
    using good_parse_module lex_eof [OF Inr] by simp
  then show ?thesis by (auto simp: parse_def Inr good_def split: sum.splits prod.splits)
qed (simp add: parse_def)

end
