(* ===== verification/Own_Roundtrip.thy ===== *)
theory Own_Roundtrip
  imports Own_Syntax
begin

text \<open>
  A printer for statements and the round trip through the parser. The printer is the inverse that
  the grammar suggests, not part of the program; conditions are printed as one token, since the
  parser keeps only their text.
\<close>

section \<open>Printing statements\<close>

definition tk :: "Tok \<Rightarrow> string \<Rightarrow> int \<Rightarrow> Token" where
  "tk k text line = \<lparr>tk_kind = k, tk_text = text, tk_line = line, tk_col = 0\<rparr>"

lemma tk_sel [simp]: "tk_kind (tk k t l) = k" "tk_text (tk k t l) = t" "tk_line (tk k t l) = l"
  by (simp_all add: tk_def)

fun print_atom :: "Atom \<Rightarrow> Token" where
  "print_atom (IntLit v l) = tk INT_t (nat_str (nat v)) l"
| "print_atom (VarRef n l) = tk IDENT_t n l"

fun printable_atom :: "Atom \<Rightarrow> bool" where
  "printable_atom (IntLit v l) \<longleftrightarrow> 0 \<le> v"
| "printable_atom (VarRef n l) \<longleftrightarrow> True"

fun commas :: "Token list list \<Rightarrow> Token list" where
  "commas [] = []"
| "commas [x] = x"
| "commas (x # y # xs) = x @ tk COMMA_t '','' 0 # commas (y # xs)"

definition print_option :: "string \<times> Atom \<Rightarrow> Token list" where
  "print_option ka = [tk IDENT_t (fst ka) 0, tk EQ_t ''='' 0, print_atom (snd ka)]"

fun print_rhs :: "Expr \<Rightarrow> Token list" where
  "print_rhs (Atom_e a) = [print_atom a]"
| "print_rhs (Acquire_e r args l) = [tk ACQUIRE_t ''acquire'' l, tk IDENT_t r 0, tk LPAREN_t ''('' 0]
     @ commas (map (\<lambda>a. [print_atom a]) args) @ [tk RPAREN_t '')'' 0]"
| "print_rhs (Move_e v l) = [tk MOVE_t ''move'' l, tk IDENT_t v 0]"
| "print_rhs (BufferIntent_e mode sz opts l ns col dups) =
     [(tk IDENT_t ns l)\<lparr>tk_col := col\<rparr>, tk DOT_t ''.'' 0, tk IDENT_t mode 0, tk LPAREN_t ''('' 0]
     @ commas (map (\<lambda>a. [print_atom a]) (opt_list sz) @ map print_option opts) @ [tk RPAREN_t '')'' 0]"

fun printable_rhs :: "Expr \<Rightarrow> bool" where
  "printable_rhs (Atom_e a) \<longleftrightarrow> printable_atom a"
| "printable_rhs (Acquire_e r args l) \<longleftrightarrow> list_all printable_atom args"
| "printable_rhs (Move_e v l) \<longleftrightarrow> True"
| "printable_rhs (BufferIntent_e mode sz opts l ns col dups) \<longleftrightarrow>
     list_all printable_atom (opt_list sz @ map snd opts) \<and> distinct (map fst opts) \<and> dups = []"

fun print_stmt :: "Stmt \<Rightarrow> Token list" where
  "print_stmt (Let_s n rhs l) = [tk LET_t ''let'' l, tk IDENT_t n 0, tk EQ_t ''='' 0] @ print_rhs rhs
     @ [tk SEMI_t '';'' 0]"
| "print_stmt (Release_s v l) = [tk RELEASE_t ''release'' l, tk IDENT_t v 0, tk SEMI_t '';'' 0]"
| "print_stmt (Use_s v l) = [tk USE_t ''use'' l, tk IDENT_t v 0, tk SEMI_t '';'' 0]"
| "print_stmt (Overspan_s v l) = [tk OVERSPAN_t ''overspan'' l, tk IDENT_t v 0, tk SEMI_t '';'' 0]"
| "print_stmt (Call_s f args l) = [tk IDENT_t f l, tk LPAREN_t ''('' 0]
     @ commas (map (\<lambda>a. [print_atom a]) args) @ [tk RPAREN_t '')'' 0, tk SEMI_t '';'' 0]"
| "print_stmt (AliasJoin_s n s l) = []"
| "print_stmt (BorrowBlock_s ow bd k body l) =
     [tk (if k = MUT_k then BORROW_MUT_t else BORROW_t) ''borrow'' l, tk IDENT_t ow 0, tk AS_t ''as'' 0,
      tk IDENT_t bd 0, tk LBRACE_t ''{'' 0] @ concat (map print_stmt body) @ [tk RBRACE_t ''}'' 0]"
| "print_stmt (If_s c th el l) = [tk IF_t ''if'' l, tk LPAREN_t ''('' 0, tk IDENT_t c 0, tk RPAREN_t '')'' 0,
      tk LBRACE_t ''{'' 0] @ concat (map print_stmt th) @ [tk RBRACE_t ''}'' 0]
     @ (if el = [] then [] else [tk ELSE_t ''else'' 0, tk LBRACE_t ''{'' 0] @ concat (map print_stmt el)
          @ [tk RBRACE_t ''}'' 0])"
| "print_stmt (While_s c body l) = [tk WHILE_t ''while'' l, tk LPAREN_t ''('' 0, tk IDENT_t c 0,
      tk RPAREN_t '')'' 0, tk LBRACE_t ''{'' 0] @ concat (map print_stmt body) @ [tk RBRACE_t ''}'' 0]"
| "print_stmt (Return_s v l) = [tk RETURN_t ''return'' l] @ map (\<lambda>n. tk IDENT_t n 0) (opt_list v)
     @ [tk SEMI_t '';'' 0]"
| "print_stmt (Subscribe_s s l) = [tk SUBSCRIBE_t ''subscribe'' l, tk IDENT_t ''self'' 0,
      tk IDENT_t ''to'' 0, tk IDENT_t s 0, tk SEMI_t '';'' 0]"

text \<open>Statements the grammar can write: no alias, no negative literal, no repeated option.\<close>

fun printable :: "Stmt \<Rightarrow> bool" where
  "printable (Let_s n rhs l) \<longleftrightarrow> printable_rhs rhs"
| "printable (Call_s f args l) \<longleftrightarrow> list_all printable_atom args"
| "printable (AliasJoin_s n s l) \<longleftrightarrow> False"
| "printable (BorrowBlock_s ow bd k body l) \<longleftrightarrow> (\<forall>s\<in>set body. printable s)"
| "printable (If_s c th el l) \<longleftrightarrow> (\<forall>s\<in>set th. printable s) \<and> (\<forall>s\<in>set el. printable s)"
| "printable (While_s c body l) \<longleftrightarrow> (\<forall>s\<in>set body. printable s)"
| "printable s \<longleftrightarrow> True"

fun nesting :: "Stmt \<Rightarrow> nat" where
  "nesting (BorrowBlock_s ow bd k body l) = 2 + foldr max (map nesting body) 0"
| "nesting (If_s c th el l) = 2 + max (foldr max (map nesting th) 0) (foldr max (map nesting el) 0)"
| "nesting (While_s c body l) = 2 + foldr max (map nesting body) 0"
| "nesting s = 1"

subsection \<open>Literals and lists\<close>

lemma code_digit: "n < 10 \<Longrightarrow> code (digit_char n) = 48 + n"
  by (simp add: code_def digit_char_def)

lemma digit_char_digit: "n < 10 \<Longrightarrow> is_ascii_digit (digit_char n)"
  by (simp add: is_ascii_digit_def code_digit)

lemma digits_value_snoc: "digits_value (s @ [c]) = digits_value s * 10 + int (code c - 48)"
  by (simp add: digits_value_def)

lemma nat_str_digits: "list_all is_ascii_digit (nat_str n) \<and> nat_str n \<noteq> [] \<and> digits_value (nat_str n) = int n"
proof (induction n rule: less_induct)
  case (less n)
  show ?case
  proof (cases "n < 10")
    case True
    then show ?thesis
      by (simp add: nat_str.simps [of n] digit_char_digit code_digit digits_value_def)
  next
    case False
    then have "list_all is_ascii_digit (nat_str (n div 10)) \<and> nat_str (n div 10) \<noteq> []
        \<and> digits_value (nat_str (n div 10)) = int (n div 10)"
      using less by simp
    moreover have "int (n div 10) * 10 + int (n mod 10) = int n"
      by (metis div_mult_mod_eq of_nat_add of_nat_mult of_nat_numeral)
    ultimately show ?thesis
      using False by (simp add: nat_str.simps [of n] digit_char_digit code_digit digits_value_snoc)
  qed
qed

lemma int_of_nat_str: "int_of (nat_str n) = Inr (int n)"
  by (simp add: int_of_def nat_str_digits)

lemma parse_print_atom [simp]: "printable_atom a \<Longrightarrow> parse_atom (print_atom a # rest) = Inr (a, rest)"
  by (cases a) (simp_all add: parse_atom_def int_of_nat_str)

lemma print_atom_kind: "tk_kind (print_atom a) \<in> {INT_t, IDENT_t}"
  by (cases a) simp_all

lemma comma_rest_print:
  "list_all printable_atom as \<Longrightarrow> tk_kind t \<noteq> COMMA_t \<Longrightarrow> length as < n \<Longrightarrow>
    comma_rest n parse_atom (concat (map (\<lambda>a. [tk COMMA_t '','' 0, print_atom a]) as) @ t # rest) = Inr (as, t # rest)"
proof (induction as arbitrary: n)
  case Nil
  then show ?case by (cases n) (simp_all add: accept_def)
next
  case (Cons a as)
  then obtain m where "n = Suc m" by (cases n) auto
  with Cons show ?case by (simp add: accept_def)
qed

lemma commas_Cons: "commas (x # xs) = x @ concat (map (\<lambda>y. tk COMMA_t '','' 0 # y) xs)"
  by (induction xs arbitrary: x) simp_all

lemma parse_print_args:
  assumes "list_all printable_atom as"
  shows "parse_args (commas (map (\<lambda>a. [print_atom a]) as) @ tk RPAREN_t '')'' 0 # rest)
    = Inr (as, tk RPAREN_t '')'' 0 # rest)"
proof (cases as)
  case Nil
  then show ?thesis by (simp add: parse_args_def paren_list_def)
next
  case (Cons a bs)
  let ?r = "concat (map (\<lambda>a. [tk COMMA_t '','' 0, print_atom a]) bs) @ tk RPAREN_t '')'' 0 # rest"
  have "length bs < Suc (length ?r)" by (induction bs) auto
  with assms Cons have "comma_rest (Suc (length ?r)) parse_atom ?r = Inr (bs, tk RPAREN_t '')'' 0 # rest)"
    by (intro comma_rest_print) auto
  with Cons assms show ?thesis
    using print_atom_kind [of a]
    by (auto simp: parse_args_def paren_list_def commas_Cons comp_def simp del: comma_rest.simps)
qed


subsection \<open>Buffer intents\<close>

lemma peek_Cons2 [simp]: "peek (a # b # r) = b"
  by simp

lemma buffer_arg_print_option:
  "printable_atom (snd ka) \<Longrightarrow> buffer_arg first (print_option ka @ rest) = Inr ((Some (fst ka), snd ka), rest)"
  by (simp add: buffer_arg_def print_option_def)

lemma buffer_rest_print:
  "list_all printable_atom (map snd opts) \<Longrightarrow> tk_kind t \<noteq> COMMA_t \<Longrightarrow> length opts < n \<Longrightarrow>
    buffer_rest n first (concat (map (\<lambda>ka. tk COMMA_t '','' 0 # print_option ka) opts) @ t # rest)
      = Inr (map (\<lambda>ka. (Some (fst ka), snd ka)) opts, t # rest)"
proof (induction opts arbitrary: n first)
  case Nil
  then show ?case by (cases n) (simp_all add: accept_def)
next
  case (Cons ka opts)
  then obtain m where "n = Suc m" by (cases n) auto
  with Cons show ?case by (simp add: accept_def buffer_arg_print_option)
qed

lemma buffer_args_print:
  assumes "list_all printable_atom (opt_list sz @ map snd opts)"
  shows "buffer_args (commas (map (\<lambda>a. [print_atom a]) (opt_list sz) @ map print_option opts)
      @ tk RPAREN_t '')'' 0 # rest)
    = Inr (map (\<lambda>a. (None, a)) (opt_list sz) @ map (\<lambda>ka. (Some (fst ka), snd ka)) opts, tk RPAREN_t '')'' 0 # rest)"
proof -
  let ?r = "\<lambda>os. concat (map (\<lambda>ka. tk COMMA_t '','' 0 # print_option ka) os) @ tk RPAREN_t '')'' 0 # rest"
  have len: "length os < Suc (length (?r os))" for os by (induction os) auto
  have more: "buffer_rest (Suc (length (?r os))) f (?r os)
      = Inr (map (\<lambda>ka. (Some (fst ka), snd ka)) os, tk RPAREN_t '')'' 0 # rest)"
    if "list_all printable_atom (map snd os)" for os f
    using that len by (intro buffer_rest_print) auto
  show ?thesis
  proof (cases sz)
    case (Some a)
    have "tk_kind (peek (print_atom a # ?r opts)) \<noteq> EQ_t"
      by (cases opts) simp_all
    then have "buffer_arg True (print_atom a # ?r opts) = Inr ((None, a), ?r opts)"
      using assms Some by (simp add: buffer_arg_def opt_list_def)
    then show ?thesis
      using assms Some more [of opts] print_atom_kind [of a]
      by (auto simp: buffer_args_def commas_Cons comp_def opt_list_def simp del: buffer_rest.simps)
  next
    case None
    show ?thesis
    proof (cases opts)
      case Nil
      with None show ?thesis by (simp add: buffer_args_def opt_list_def)
    next
      case (Cons ka os)
      have k: "print_option ka @ ?r os = tk IDENT_t (fst ka) 0 # tl (print_option ka @ ?r os)"
        by (simp add: print_option_def)
      from assms None Cons have "buffer_arg True (print_option ka @ ?r os) = Inr ((Some (fst ka), snd ka), ?r os)"
        by (intro buffer_arg_print_option) simp
      then show ?thesis
        using assms None Cons more [of os]
        by (auto simp: buffer_args_def commas_Cons comp_def opt_list_def print_option_def simp del: buffer_rest.simps)
    qed
  qed
qed

lemma foldl_dict_set_distinct:
  "distinct (map fst (d @ opts)) \<Longrightarrow> foldl (\<lambda>d ka. dict_set d (fst ka) (snd ka)) d opts = d @ opts"
proof (induction opts arbitrary: d)
  case (Cons ka opts)
  have "k \<notin> fst ` set e \<Longrightarrow> dict_set e k v = e @ [(k, v)]" for e and k :: 'a and v :: 'b
    by (induction e) (auto simp: dict_set_def)
  with Cons.prems have "dict_set d (fst ka) (snd ka) = d @ [ka]" by auto
  with Cons.IH [of "d @ [ka]"] Cons.prems show ?case by simp
qed simp

lemma distinct_count_list: "distinct ks \<Longrightarrow> count_list ks k \<le> 1"
  by (induction ks) (auto simp: count_list_0_iff)

lemma dup_names_distinct: "distinct ks \<Longrightarrow> dup_names ks = []"
  using distinct_count_list [of ks] by (simp add: dup_names_def filter_empty_conv not_less)

lemma parse_print_rhs:
  assumes "printable_rhs e" "tk_kind t \<noteq> DOT_t"
  shows "parse_rhs (print_rhs e @ t # rest) = Inr (e, t # rest)"
proof (cases e)
  case (Atom_e a)
  have "tk_kind (print_atom a) \<noteq> ACQUIRE_t" "tk_kind (print_atom a) \<noteq> MOVE_t"
    using print_atom_kind [of a] by auto
  with Atom_e assms show ?thesis by (simp add: parse_rhs_def)
next
  case (Acquire_e r args l)
  with assms show ?thesis
    by (simp add: parse_rhs_def eat_text_def parse_print_args)
next
  case (Move_e v l)
  then show ?thesis by (simp add: parse_rhs_def eat_text_def)
next
  case (BufferIntent_e mode sz opts l ns col dups)
  let ?args = "map (\<lambda>a. (None, a)) (opt_list sz) @ map (\<lambda>ka. (Some (fst ka), snd ka)) opts"
  have sz: "foldl (\<lambda>s x. if fst x = None then Some (snd x) else s) None ?args = sz"
  proof -
    have "foldl (\<lambda>s x. if fst x = None then Some (snd x) else s) s (map (\<lambda>ka. (Some (fst ka), snd ka)) opts) = s" for s
      by (induction opts) simp_all
    then show ?thesis by (cases sz) (simp_all add: opt_list_def)
  qed
  have opts: "foldl (\<lambda>d x. case fst x of Some k \<Rightarrow> dict_set d k (snd x) | None \<Rightarrow> d) [] ?args = opts"
  proof -
    have "foldl (\<lambda>d x. case fst x of Some k \<Rightarrow> dict_set d k (snd x) | None \<Rightarrow> d) d (map (\<lambda>ka. (Some (fst ka), snd ka)) opts)
        = foldl (\<lambda>d ka. dict_set d (fst ka) (snd ka)) d opts" for d
      by (induction opts arbitrary: d) simp_all
    with foldl_dict_set_distinct [of "[]" opts] show ?thesis
      using assms BufferIntent_e by (cases sz) (simp_all add: opt_list_def)
  qed
  have "concat (map (opt_list \<circ> fst) ?args) = map fst opts"
    by (cases sz) (induction opts, simp_all add: opt_list_def comp_def)
  then have dups: "dup_names (concat (map (opt_list \<circ> fst) ?args)) = dups"
    using assms BufferIntent_e by (simp add: dup_names_distinct)
  have "list_all printable_atom (opt_list sz @ map snd opts)" using assms BufferIntent_e by simp
  note A = buffer_args_print [OF this]
  have "parse_buffer_intent (print_rhs e @ t # rest) = Inr (e, t # rest)"
    unfolding parse_buffer_intent_def BufferIntent_e
    by (simp add: eat_text_def A sz opts dups del: map_append concat_append foldl_append)
  with BufferIntent_e show ?thesis by (simp add: parse_rhs_def)
qed


subsection \<open>Statements\<close>

lemma print_stmt_Cons:
  "printable s \<Longrightarrow> \<exists>t ts. print_stmt s = t # ts \<and> tk_kind t \<notin> {RBRACE_t, REJECTED_t, ELSE_t}"
  by (cases s) auto

lemma until_print:
  assumes "\<And>s rest. s \<in> set ss \<Longrightarrow> rest \<noteq> [] \<Longrightarrow> \<not> at ELSE_t rest \<Longrightarrow> p (print_stmt s @ rest) = Inr (s, rest)"
    and "\<forall>s\<in>set ss. printable s" "length ss < n"
  shows "until n RBRACE_t p (concat (map print_stmt ss) @ tk RBRACE_t x 0 # rest) = Inr (ss, tk RBRACE_t x 0 # rest)"
  using assms
proof (induction ss arbitrary: n)
  case Nil
  then show ?case by (cases n) simp_all
next
  case (Cons s ss)
  let ?r = "concat (map print_stmt ss) @ tk RBRACE_t x 0 # rest"
  obtain m where n: "n = Suc m" using Cons.prems(3) by (cases n) auto
  obtain t ts where t: "print_stmt s = t # ts" "tk_kind t \<noteq> RBRACE_t"
    using print_stmt_Cons [of s] Cons.prems(2) by auto
  have "\<not> at ELSE_t ?r"
  proof (cases ss)
    case (Cons u us)
    with print_stmt_Cons [of u] \<open>\<forall>s\<in>set (s # ss). printable s\<close> show ?thesis by (auto simp: at_def)
  qed (simp add: at_def)
  then have "p (print_stmt s @ ?r) = Inr (s, ?r)" using Cons.prems(1) by simp
  moreover have "until m RBRACE_t p ?r = Inr (ss, tk RBRACE_t x 0 # rest)"
    using Cons.IH Cons.prems n by simp
  ultimately show ?case using t by (simp add: n)
qed

lemma block_print:
  assumes "\<And>s rest. s \<in> set ss \<Longrightarrow> rest \<noteq> [] \<Longrightarrow> \<not> at ELSE_t rest \<Longrightarrow> parse_stmt n (print_stmt s @ rest) = Inr (s, rest)"
    and pr: "\<forall>s\<in>set ss. printable s"
  shows "parse_block (Suc n) (tk LBRACE_t lb 0 # concat (map print_stmt ss) @ tk RBRACE_t x 0 # rest) = Inr (ss, rest)"
proof -
  let ?ts = "concat (map print_stmt ss) @ tk RBRACE_t x 0 # rest"
  let ?p = "\<lambda>ts'. rbind (reject_guard ts') (\<lambda>_. parse_stmt n ts')"
  have "length ss \<le> length (concat (map print_stmt ss))"
    using pr
  proof (induction ss)
    case (Cons s ss)
    with print_stmt_Cons [of s] show ?case by auto
  qed simp
  moreover have "?p (print_stmt s @ r) = Inr (s, r)" if "s \<in> set ss" "r \<noteq> []" "\<not> at ELSE_t r" for s r
    using assms(1) [OF that] print_stmt_Cons [of s] pr that(1) by (auto simp: reject_guard_def)
  ultimately have "until (Suc (length ?ts)) RBRACE_t ?p ?ts = Inr (ss, tk RBRACE_t x 0 # rest)"
    by (intro until_print pr) auto
  then show ?thesis by (simp del: until.simps)
qed

lemma foldr_max_le: "(foldr max (map f xs) 0 :: nat) \<le> n \<longleftrightarrow> (\<forall>x\<in>set xs. f x \<le> n)"
  by (induction xs) auto

lemma cond_print: "parse_cond k msg (tk k w l # tk LPAREN_t a 0 # tk IDENT_t c 0 # tk RPAREN_t b 0 # rest)
    = Inr ((tk k w l, c), rest)"
  by (simp add: parse_cond_def)

lemma parse_print_stmt:
  "printable s \<Longrightarrow> nesting s \<le> n \<Longrightarrow> rest \<noteq> [] \<Longrightarrow> \<not> at ELSE_t rest
    \<Longrightarrow> parse_stmt n (print_stmt s @ rest) = Inr (s, rest)"
proof (induction s arbitrary: n rest rule: print_stmt.induct)
  case (1 nm rhs l)
  then obtain m where "n = Suc m" by (cases n) auto
  with 1 show ?case
    by (simp add: reject_guard_def at_def parse_let_def eat_text_def parse_print_rhs)
next
  case (7 ow bd k body l)
  then obtain m where n: "n = Suc (Suc m)" by (cases n; cases "n - 1") auto
  have blk: "parse_block (Suc m) (tk LBRACE_t o' 0 # concat (map print_stmt body) @ tk RBRACE_t x 0 # rest) = Inr (body, rest)" for o' x
    using 7 n by (intro block_print) (auto simp: foldr_max_le)
  show ?case
    using blk by (cases k) (simp_all add: n reject_guard_def at_def parse_borrow_def eat_text_def)
next
  case (8 c th el l)
  then obtain m where n: "n = Suc (Suc m)" by (cases n; cases "n - 1") auto
  have th: "parse_block (Suc m) (tk LBRACE_t o' 0 # concat (map print_stmt th) @ tk RBRACE_t x 0 # r) = Inr (th, r)" for o' x r
    using 8 n by (intro block_print) (auto simp: foldr_max_le)
  have el: "parse_block (Suc m) (tk LBRACE_t o' 0 # concat (map print_stmt el) @ tk RBRACE_t x 0 # r) = Inr (el, r)"
    if "el \<noteq> []" for o' x r
    using 8 n that by (intro block_print) (auto simp: foldr_max_le)
  obtain t0 r0 where r: "rest = t0 # r0" "tk_kind t0 \<noteq> ELSE_t" using 8(5,6) by (cases rest) (auto simp: at_def)
  show ?case
    using th el r
    by (cases "el = []")
      (simp_all add: n reject_guard_def at_def parse_if_def cond_print accept_def)
next
  case (9 c body l)
  then obtain m where n: "n = Suc (Suc m)" by (cases n; cases "n - 1") auto
  have blk: "parse_block (Suc m) (tk LBRACE_t o' 0 # concat (map print_stmt body) @ tk RBRACE_t x 0 # r) = Inr (body, r)" for o' x r
    using 9 n by (intro block_print) (auto simp: foldr_max_le)
  then show ?case by (simp add: n reject_guard_def at_def parse_while_def cond_print)
next
  case (5 f args l)
  then obtain m where "n = Suc m" by (cases n) auto
  with 5 show ?case
    by (simp add: reject_guard_def at_def parse_call_def parse_print_args)
next
  case (10 v l)
  then obtain m where "n = Suc m" by (cases n) auto
  then show ?case
    by (cases v) (simp_all add: reject_guard_def at_def parse_return_def accept_def opt_list_def)
next
  case (11 s l)
  then obtain m where "n = Suc m" by (cases n) auto
  then show ?case
    by (simp add: reject_guard_def at_def parse_subscribe_def eat_word_def eat_text_def)
qed (auto simp: reject_guard_def at_def parse_unary_def eat_text_def dest!: Suc_le_D)

section \<open>Parsed trees hold no alias statement\<close>

lemma until_all:
  assumes "\<And>ts x ts'. p ts = Inr (x, ts') \<Longrightarrow> P x"
  shows "until n k p ts = Inr (xs, ts') \<Longrightarrow> \<forall>x\<in>set xs. P x"
proof (induction n arbitrary: ts xs)
  case (Suc n)
  from Suc.prems obtain t where "cur ts = Inr t" by (auto simp: rbind_eq_Inr)
  show ?case
  proof (cases "tk_kind t = k")
    case True
    with Suc.prems \<open>cur ts = Inr t\<close> show ?thesis by auto
  next
    case False
    with Suc.prems \<open>cur ts = Inr t\<close> obtain x ts1 ys where "p ts = Inr (x, ts1)" "until n k p ts1 = Inr (ys, ts')" "xs = x # ys"
      by (auto simp: rbind_eq_Inr)
    with Suc.IH assms show ?thesis by auto
  qed
qed simp

lemma parse_stmt_alias_free:
  "parse_stmt n ts = Inr (s, ts') \<Longrightarrow> alias_free_s s"
  "parse_block n ts = Inr (ss, ts') \<Longrightarrow> \<forall>s\<in>set ss. alias_free_s s"
proof (induction n arbitrary: ts s ss ts')
  case 0
  {
    case 1
    then show ?case by simp
  next
    case 2
    then show ?case by simp
  }
next
  case (Suc n)
  {
    case 1
    show ?case
      using 1 Suc.IH(2)
      by (auto simp: rbind_eq_Inr parse_let_def parse_unary_def parse_return_def parse_subscribe_def parse_call_def
          parse_borrow_def parse_if_def parse_while_def fail_here_def split: if_splits option.splits)
  next
    case 2
    then obtain ts1 ts2 where "until (Suc (length ts1)) RBRACE_t
       (\<lambda>ts'. rbind (reject_guard ts') (\<lambda>_. parse_stmt n ts')) ts1 = Inr (ss, ts2)"
      by (auto simp: rbind_eq_Inr simp del: until.simps)
    then show ?case
      by (rule until_all [rotated]) (auto simp: rbind_eq_Inr intro: Suc.IH(1))
  }
qed

lemma lex_steps:
  "is_space c \<Longrightarrow> lex_from (c # cs) p = lex_from cs (adv c p)"
  "word_start c \<Longrightarrow> \<not> is_space c \<Longrightarrow> c \<noteq> CHR ''/'' \<Longrightarrow> c \<noteq> quote_char \<Longrightarrow> lex_from (c # cs) p
     = cons_tok (tok_at (word_kind (c # takeWhile word_char cs)) (c # takeWhile word_char cs) p)
         (lex_from (dropWhile word_char cs) (advs (c # takeWhile word_char cs) p))"
  "isdigit c \<Longrightarrow> \<not> is_space c \<Longrightarrow> c \<noteq> CHR ''/'' \<Longrightarrow> c \<noteq> quote_char \<Longrightarrow> \<not> word_start c \<Longrightarrow> lex_from (c # cs) p
     = cons_tok (tok_at INT_t (c # takeWhile isdigit cs) p)
         (lex_from (dropWhile isdigit cs) (advs (c # takeWhile isdigit cs) p))"
  "map_of SIMPLE c = Some k \<Longrightarrow> \<not> is_space c \<Longrightarrow> c \<noteq> quote_char \<Longrightarrow> \<not> word_start c \<Longrightarrow> \<not> isdigit c
     \<Longrightarrow> c \<noteq> CHR ''/'' \<Longrightarrow> c \<noteq> CHR ''-'' \<Longrightarrow> lex_from (c # cs) p = cons_tok (tok_at k [c] p) (lex_from cs (adv c p))"
  by (simp_all add: Let_def)

lemmas char_eval = is_space_def word_start_def word_char_def isalnum_def isalpha_def isdigit_def
  is_ascii_digit_def code_def newline_def quote_char_def backslash_def

lemmas lex_eval = lex_def lex_steps char_eval word_kind_def REJECTED_KEYWORDS_def KEYWORDS_def SIMPLE_def
  cons_tok_def adv_def advs_def tok_at_def

end
