(* ===== verification/Own_Buffers.thy ===== *)
theory Own_Buffers
  imports Own_Ast Own_Diagnostics
begin

text \<open>
  Buffer storage policies (\<open>ownlang/buffers.py\<close>): the modes, the resolved \<open>BufferInfo\<close>, and the
  resolution of an intent against the policies of the module. A Python function that appends to
  the shared \<open>diags\<close> list becomes a function that returns its value with the diagnostics it
  appended; \<open>resolve\<close> concatenates them in the order of the code.
\<close>

datatype BufferMode = STACK | SCRATCH | POOLED | NATIVE | INLINE

definition mode_value :: "BufferMode \<Rightarrow> string" where
  "mode_value m = (case m of STACK \<Rightarrow> ''stack'' | SCRATCH \<Rightarrow> ''scratch'' | POOLED \<Rightarrow> ''pooled''
     | NATIVE \<Rightarrow> ''native'' | INLINE \<Rightarrow> ''inline'')"

definition all_modes :: "BufferMode list" where
  "all_modes = [STACK, SCRATCH, POOLED, NATIVE, INLINE]"

text \<open>\<open>BufferMode(name)\<close>; \<open>None\<close> is a name outside \<open>MODE_NAMES\<close>.\<close>

definition buffer_mode :: "string \<Rightarrow> BufferMode option" where
  "buffer_mode s = List.find (\<lambda>m. mode_value m = s) all_modes"

definition VALID_OPTIONS :: "string list" where
  "VALID_OPTIONS = [''policy'', ''inline'', ''inline_bytes'', ''max'', ''max_bytes'',
     ''fallback'', ''clear'', ''trace'', ''counters'', ''sensitive'']"

definition VALID_POLICY_KEYS :: "string list" where
  "VALID_POLICY_KEYS = [''inline_bytes'', ''max_bytes'', ''fallback'', ''clear_on_release'',
     ''trace'', ''counters'', ''sensitive'']"

definition STACK_BACKED :: "BufferMode set" where
  "STACK_BACKED = {STACK, SCRATCH, INLINE}"

definition DEFAULT_INLINE_BYTES :: int where
  "DEFAULT_INLINE_BYTES = 1024"

definition MAX_STACK_BYTES :: int where
  "MAX_STACK_BYTES = 4096"

record BufferInfo =
  bi_mode :: BufferMode
  bi_elem :: string
  bi_size_const :: "int option"
  bi_size_var :: "string option"
  bi_inline_bytes :: int
  bi_fallback_pool :: bool
  bi_fallback_forbidden :: bool
  bi_clear_on_release :: bool
  bi_sensitive :: bool
  bi_trace :: bool
  bi_counters :: bool
  bi_policy_name :: "string option"
  bi_line :: int

definition stack_backed :: "BufferInfo \<Rightarrow> bool" where
  "stack_backed i \<longleftrightarrow> bi_mode i \<in> STACK_BACKED"

definition size_is_const :: "BufferInfo \<Rightarrow> bool" where
  "size_is_const i \<longleftrightarrow> bi_size_const i \<noteq> None"

definition escape_policy :: "BufferInfo \<Rightarrow> string" where
  "escape_policy i = (if stack_backed i then ''local-only'' else ''movable'')"

text \<open>The (condition, backend) pairs of the compile-time report.\<close>

definition branches :: "BufferInfo \<Rightarrow> (string \<times> string) list" where
  "branches i =
     (if bi_mode i = SCRATCH \<and> bi_fallback_pool i then
        [(''size <= '' @ int_str (bi_inline_bytes i), ''stackalloc''),
         (''size > '' @ int_str (bi_inline_bytes i), ''ArrayPool'')]
      else if bi_mode i \<in> {STACK, INLINE} \<or> bi_mode i = SCRATCH \<and> \<not> bi_fallback_pool i then
        [(''always'', ''stackalloc'')]
      else if bi_mode i = POOLED then [(''always'', ''ArrayPool'')]
      else [(''always'', ''NativeMemory'')])"

record Policy =
  po_name :: string
  po_settings :: "(string, PolicyVal) dict"
  po_line :: int
  po_dups :: "string list"

section \<open>Option values\<close>

definition as_int :: "Atom \<Rightarrow> int option" where
  "as_int e = (case e of IntLit v _ \<Rightarrow> Some v | VarRef _ _ \<Rightarrow> None)"

definition as_ident :: "Atom \<Rightarrow> string option" where
  "as_ident e = (case e of IntLit _ _ \<Rightarrow> None | VarRef n _ \<Rightarrow> Some n)"

definition policy_as_int :: "PolicyVal \<Rightarrow> int option" where
  "policy_as_int v = (case v of PInt i \<Rightarrow> Some i | PBool _ \<Rightarrow> None | PStr _ \<Rightarrow> None)"

text \<open>Python's \<open>str\<close> of a policy value, and \<open>_fallback_token\<close> on the two kinds of values.\<close>

definition policy_str :: "PolicyVal \<Rightarrow> string" where
  "policy_str v = (case v of PInt i \<Rightarrow> int_str i
     | PBool b \<Rightarrow> (if b then ''True'' else ''False'') | PStr s \<Rightarrow> s)"

definition atom_token :: "Atom \<Rightarrow> string" where
  "atom_token e = (case e of IntLit v _ \<Rightarrow> int_str v | VarRef n _ \<Rightarrow> n)"

definition policy_token :: "PolicyVal \<Rightarrow> string" where
  "policy_token v = (case v of PBool b \<Rightarrow> (if b then ''true'' else ''false'') | _ \<Rightarrow> policy_str v)"

section \<open>Policy blocks\<close>

definition msg_unknown_setting :: "string \<Rightarrow> string \<Rightarrow> string" where
  "msg_unknown_setting key pol = ''unknown policy setting '' @ quoted key @ '' in policy ''
     @ quoted pol @ ''; expected one of ''
     @ ''clear_on_release, counters, fallback, inline_bytes, max_bytes, sensitive, trace''"

definition msg_dup_setting :: "string \<Rightarrow> string \<Rightarrow> string" where
  "msg_dup_setting key pol = ''duplicate policy setting '' @ quoted key @ '' in policy '' @ quoted pol"

definition validate_policies :: "(string, Policy) dict \<Rightarrow> Diagnostic list" where
  "validate_policies policies = concat (map (\<lambda>(_, pol).
       map (\<lambda>key. mk_diag ''OWN030'' (msg_unknown_setting key (po_name pol)) (po_line pol))
         (filter (\<lambda>key. key \<notin> set VALID_POLICY_KEYS) (map fst (po_settings pol)))
     @ map (\<lambda>key. mk_diag ''OWN030'' (msg_dup_setting key (po_name pol)) (po_line pol))
         (po_dups pol)) policies)"

section \<open>Flags\<close>

definition msg_invalid_opt :: "string \<Rightarrow> string \<Rightarrow> string \<Rightarrow> string" where
  "msg_invalid_opt label token expected =
     ''invalid '' @ quoted label @ '' value '' @ quoted token @ ''; expected '' @ expected"

definition msg_invalid_pol :: "string \<Rightarrow> string \<Rightarrow> string \<Rightarrow> string" where
  "msg_invalid_pol label token expected =
     ''invalid '' @ quoted label @ '' value '' @ quoted token @ '' in policy; expected '' @ expected"

definition bool_flag ::
  "Atom option \<Rightarrow> PolicyVal option \<Rightarrow> bool \<Rightarrow> string \<Rightarrow> int \<Rightarrow> bool \<times> Diagnostic list" where
  "bool_flag opt_expr policy_val dflt label line =
     (case opt_expr of
        Some e \<Rightarrow>
          (if as_ident e = Some ''true'' then (True, [])
           else if as_ident e = Some ''false'' then (False, [])
           else (dflt, [mk_diag ''OWN030''
             (msg_invalid_opt label (atom_token e) ''true or false'') line]))
      | None \<Rightarrow>
          (case policy_val of
             Some (PBool b) \<Rightarrow> (b, [])
           | Some v \<Rightarrow> (dflt, [mk_diag ''OWN030''
               (msg_invalid_pol label (policy_str v) ''true or false'') line])
           | None \<Rightarrow> (dflt, [])))"

definition TRACE_ON :: "string list" where "TRACE_ON = [''debug'', ''on'', ''true'']"
definition TRACE_OFF :: "string list" where "TRACE_OFF = [''off'', ''none'', ''false'']"

definition trace_expected :: string where
  "trace_expected = ''one of debug/on/off/none/true/false''"

definition trace_flag ::
  "Atom option \<Rightarrow> PolicyVal option \<Rightarrow> bool \<Rightarrow> int \<Rightarrow> bool \<times> Diagnostic list" where
  "trace_flag opt_expr policy_val dflt line =
     (case opt_expr of
        Some e \<Rightarrow>
          (if as_ident e \<in> Some ` set TRACE_ON then (True, [])
           else if as_ident e \<in> Some ` set TRACE_OFF then (False, [])
           else (dflt, [mk_diag ''OWN030''
             (msg_invalid_opt ''trace'' (atom_token e) trace_expected) line]))
      | None \<Rightarrow>
          (case policy_val of
             Some v \<Rightarrow>
               (case v of
                  PBool b \<Rightarrow> (b, [])
                | PInt i \<Rightarrow> (dflt, [mk_diag ''OWN030''
                    (msg_invalid_pol ''trace'' (policy_str v) trace_expected) line])
                | PStr s \<Rightarrow>
                    (if s \<in> set TRACE_ON then (True, [])
                     else if s \<in> set TRACE_OFF then (False, [])
                     else (dflt, [mk_diag ''OWN030''
                       (msg_invalid_pol ''trace'' (policy_str v) trace_expected) line])))
           | None \<Rightarrow> (dflt, [])))"

section \<open>Resolution\<close>

definition msg_unknown_option :: "string \<Rightarrow> string" where
  "msg_unknown_option key = ''unknown buffer option '' @ quoted key @ ''; expected one of ''
     @ ''clear, counters, fallback, inline, inline_bytes, max, max_bytes, policy, sensitive, trace''"

definition option_diags :: "(string, Atom) dict \<Rightarrow> string list \<Rightarrow> int \<Rightarrow> Diagnostic list" where
  "option_diags options dups line =
     map (\<lambda>key. mk_diag ''OWN030'' (msg_unknown_option key) line)
       (filter (\<lambda>key. key \<notin> set VALID_OPTIONS) (map fst options))
   @ map (\<lambda>key. mk_diag ''OWN030'' (''duplicate buffer option '' @ quoted key) line) dups"

text \<open>The referenced policy: its settings (the defaults), its name and the diagnostics.\<close>

definition policy_base ::
  "(string, Atom) dict \<Rightarrow> (string, Policy) dict \<Rightarrow> int
   \<Rightarrow> (string, PolicyVal) dict \<times> string option \<times> Diagnostic list" where
  "policy_base options policies line =
     (case dict_get options ''policy'' of
        None \<Rightarrow> ([], None, [])
      | Some e \<Rightarrow>
          (case as_ident e of
             None \<Rightarrow> ([], None, [mk_diag ''OWN030''
               (''invalid policy reference '' @ quoted (atom_token e) @ ''; expected a policy name'')
               line])
           | Some n \<Rightarrow>
               (case dict_get policies n of
                  Some p \<Rightarrow> (po_settings p, Some n, [])
                | None \<Rightarrow> ([], Some n, [mk_diag ''OWN030'' (''undefined policy '' @ quoted n) line]))))"

definition opt_int ::
  "(string, Atom) dict \<Rightarrow> (string, PolicyVal) dict \<Rightarrow> string \<Rightarrow> int \<Rightarrow> int
   \<Rightarrow> int \<times> Diagnostic list" where
  "opt_int opts base name dflt line =
     (case dict_get opts name of
        Some e \<Rightarrow>
          (case as_int e of
             Some v \<Rightarrow> (v, [])
           | None \<Rightarrow> (dflt, [mk_diag ''OWN030''
               (msg_invalid_opt name (atom_token e) ''an integer'') line]))
      | None \<Rightarrow>
          (case dict_get base name of
             Some bv \<Rightarrow>
               (case policy_as_int bv of
                  Some v \<Rightarrow> (v, [])
                | None \<Rightarrow> (dflt, [mk_diag ''OWN030''
                    (msg_invalid_pol name (policy_str bv) ''an integer'') line]))
           | None \<Rightarrow> (dflt, [])))"

text \<open>\<open>first_int\<close>: only the first present source is validated.\<close>

fun first_int ::
  "(string, Atom) dict \<Rightarrow> (string, PolicyVal) dict \<Rightarrow> (bool \<times> string) list \<Rightarrow> string \<Rightarrow> int
   \<Rightarrow> int \<Rightarrow> int \<times> Diagnostic list" where
  "first_int opts base [] label dflt line = (dflt, [])"
| "first_int opts base ((True, key) # sources) label dflt line =
     (case dict_get opts key of
        None \<Rightarrow> first_int opts base sources label dflt line
      | Some e \<Rightarrow>
          (case as_int e of
             Some v \<Rightarrow> (v, [])
           | None \<Rightarrow> (dflt, [mk_diag ''OWN030''
               (msg_invalid_opt label (atom_token e) ''an integer'') line])))"
| "first_int opts base ((False, key) # sources) label dflt line =
     (case dict_get base key of
        None \<Rightarrow> first_int opts base sources label dflt line
      | Some bv \<Rightarrow>
          (case policy_as_int bv of
             Some v \<Rightarrow> (v, [])
           | None \<Rightarrow> (dflt, [mk_diag ''OWN030''
               (msg_invalid_pol label (policy_token bv) ''an integer'') line])))"

text \<open>
  The storage decision of a mode: the inline capacity, whether the heap fallback is allowed,
  whether it is explicitly forbidden, and the diagnostics.
\<close>

definition msg_needs_bound :: "BufferMode \<Rightarrow> string" where
  "msg_needs_bound m = quoted (mode_value m)
     @ '' allocation of a dynamic size requires a statically known bound (add 'max = N')''"

definition msg_inline_literal :: string where
  "msg_inline_literal = quoted ''inline'' @ '' buffer requires a compile-time integer literal size; ''
     @ ''use 'stack' with a 'max =' bound for a dynamic size''"

definition stack_storage ::
  "BufferMode \<Rightarrow> (string, Atom) dict \<Rightarrow> (string, PolicyVal) dict \<Rightarrow> int option \<Rightarrow> int
   \<Rightarrow> int \<times> bool \<times> bool \<times> Diagnostic list" where
  "stack_storage mode opts base size_const line =
     (case size_const of
        Some n \<Rightarrow> (n, False, True, [])
      | None \<Rightarrow>
          if mode = INLINE then
            (MAX_STACK_BYTES, False, True, [mk_diag ''OWN021'' msg_inline_literal line])
          else
            (case dict_get opts ''max'' of
               Some e \<Rightarrow>
                 (case as_int e of
                    None \<Rightarrow> (MAX_STACK_BYTES, False, True, [mk_diag ''OWN030''
                      (msg_invalid_opt ''max'' (atom_token e) ''an integer'') line])
                  | Some mx \<Rightarrow>
                      if mx < 0 then
                        (MAX_STACK_BYTES, False, True, [mk_diag ''OWN021'' (msg_needs_bound mode) line])
                      else (mx, False, True, []))
             | None \<Rightarrow>
                 (let (mx, ds) = opt_int opts base ''max_bytes'' (- 1) line
                  in if mx < 0 then
                       (MAX_STACK_BYTES, False, True,
                        ds @ [mk_diag ''OWN021'' (msg_needs_bound mode) line])
                     else (mx, False, True, ds))))"

text \<open>The \<open>fallback\<close> value as a token: the inline option wins, then the policy, else absent.\<close>

definition fallback_token ::
  "(string, Atom) dict \<Rightarrow> (string, PolicyVal) dict \<Rightarrow> string option" where
  "fallback_token opts base =
     (case dict_get opts ''fallback'' of
        Some e \<Rightarrow> Some (atom_token e)
      | None \<Rightarrow> map_option policy_token (dict_get base ''fallback''))"

definition msg_invalid_fallback :: "string \<Rightarrow> string" where
  "msg_invalid_fallback fb = ''invalid fallback '' @ quoted fb
     @ '' for scratch buffer; expected 'pool' or '' @ quoted ''forbidden''"

definition msg_scratch_exceeds :: "int \<Rightarrow> string" where
  "msg_scratch_exceeds n = ''scratch buffer forbids a heap fallback but its size may exceed the ''
     @ ''inline limit of '' @ int_str n @ ''; use 'stack' with a 'max =' bound instead''"

definition scratch_storage ::
  "(string, Atom) dict \<Rightarrow> (string, PolicyVal) dict \<Rightarrow> int option \<Rightarrow> int
   \<Rightarrow> int \<times> bool \<times> bool \<times> Diagnostic list" where
  "scratch_storage opts base size_const line =
     (let (inline_bytes, ds) = first_int opts base
            [(True, ''inline''), (True, ''inline_bytes''), (False, ''inline_bytes'')]
            ''inline'' DEFAULT_INLINE_BYTES line;
          present = fallback_token opts base;
          fb = (case present of None \<Rightarrow> ''pool'' | Some t \<Rightarrow> t);
          valid = (fb = ''pool'' \<or> fb = ''forbidden'');
          ds_fb = (if present \<noteq> None \<and> \<not> valid
                   then [mk_diag ''OWN030'' (msg_invalid_fallback fb) line] else [])
      in if fb = ''pool'' then (inline_bytes, True, False, ds @ ds_fb)
         else (inline_bytes, False, True,
               ds @ ds_fb
               @ (if valid \<and> (case size_const of None \<Rightarrow> True | Some n \<Rightarrow> n > inline_bytes)
                  then [mk_diag ''OWN023'' (msg_scratch_exceeds inline_bytes) line] else [])))"

definition storage_of ::
  "BufferMode \<Rightarrow> (string, Atom) dict \<Rightarrow> (string, PolicyVal) dict \<Rightarrow> int option \<Rightarrow> int
   \<Rightarrow> int \<times> bool \<times> bool \<times> Diagnostic list" where
  "storage_of mode opts base size_const line =
     (case mode of
        STACK \<Rightarrow> stack_storage mode opts base size_const line
      | INLINE \<Rightarrow> stack_storage mode opts base size_const line
      | SCRATCH \<Rightarrow> scratch_storage opts base size_const line
      | POOLED \<Rightarrow> (DEFAULT_INLINE_BYTES, True, False, [])
      | NATIVE \<Rightarrow> (DEFAULT_INLINE_BYTES, False, False, []))"

definition msg_capacity :: "int \<Rightarrow> string" where
  "msg_capacity n = ''inline capacity '' @ int_str n @ '' bytes is too large for a stack-backed ''
     @ ''buffer (limit '' @ int_str MAX_STACK_BYTES @ ''); use 'pooled' or raise the policy ''
     @ ''ceiling deliberately''"

definition msg_sensitive :: string where
  "msg_sensitive = ''buffer is marked sensitive but is not cleared on release; ''
     @ ''add 'clear = true' so its bytes are zeroed before the backing memory is reused''"

definition resolve ::
  "BufferMode \<Rightarrow> Atom option \<Rightarrow> (string, Atom) dict \<Rightarrow> int \<Rightarrow> string list
   \<Rightarrow> (string, Policy) dict \<Rightarrow> BufferInfo \<times> Diagnostic list" where
  "resolve mode size_expr options line dups policies =
     (let ds_opt = option_diags options dups line;
          (base, pol_name, ds_pol) = policy_base options policies line;
          opts = dict_del options ''policy'';
          size_const = (case size_expr of None \<Rightarrow> None | Some e \<Rightarrow> as_int e);
          size_var = (case size_expr of None \<Rightarrow> None | Some e \<Rightarrow> as_ident e);
          (inline_bytes, pool, forbidden, ds_mode) = storage_of mode opts base size_const line;
          ds_cap = (if mode \<in> STACK_BACKED \<and> inline_bytes > MAX_STACK_BYTES
                    then [mk_diag ''OWN019'' (msg_capacity inline_bytes) line] else []);
          (clear, ds_clear) = bool_flag (dict_get opts ''clear'') (dict_get base ''clear_on_release'')
            False ''clear_on_release'' line;
          (sensitive, ds_sens) = bool_flag (dict_get opts ''sensitive'') (dict_get base ''sensitive'')
            False ''sensitive'' line;
          (trace, ds_trace) = trace_flag (dict_get opts ''trace'') (dict_get base ''trace'') True line;
          (counters, ds_cnt) = bool_flag (dict_get opts ''counters'') (dict_get base ''counters'')
            True ''counters'' line;
          ds_secret = (if sensitive \<and> \<not> clear then [mk_diag ''OWN024'' msg_sensitive line] else [])
      in (\<lparr>bi_mode = mode, bi_elem = ''byte'', bi_size_const = size_const, bi_size_var = size_var,
            bi_inline_bytes = inline_bytes, bi_fallback_pool = pool,
            bi_fallback_forbidden = forbidden, bi_clear_on_release = clear,
            bi_sensitive = sensitive, bi_trace = trace, bi_counters = counters,
            bi_policy_name = pol_name, bi_line = line\<rparr>,
          ds_opt @ ds_pol @ ds_mode @ ds_cap @ ds_clear @ ds_sens @ ds_trace @ ds_cnt @ ds_secret))"

section \<open>What a quiet resolution promises\<close>

lemma opt_int_quiet: "opt_int opts base name dflt line = (v, ds) \<Longrightarrow> ds = [] \<or> v = dflt"
  by (auto simp: opt_int_def split: option.splits)

lemma stack_storage_shape:
  "stack_storage mode opts base size_const line = (n, pool, forbidden, ds) \<Longrightarrow> \<not> pool \<and> forbidden"
  by (auto simp: stack_storage_def split: option.splits if_splits prod.splits)

lemma stack_storage_fits:
  "stack_storage mode opts base (Some k) line = (n, pool, forbidden, ds) \<Longrightarrow> n = k"
  by (simp add: stack_storage_def)

lemma scratch_storage_shape:
  "scratch_storage opts base size_const line = (n, pool, forbidden, ds) \<Longrightarrow>
     (pool \<longleftrightarrow> fallback_token opts base \<in> {None, Some ''pool''}) \<and> forbidden = (\<not> pool)
     \<and> (ds = [] \<and> \<not> pool \<longrightarrow> (\<exists>k. size_const = Some k \<and> k \<le> n))"
  by (cases "fallback_token opts base"; cases size_const)
    (auto simp: scratch_storage_def Let_def split: if_splits prod.splits)

lemma resolve_storage:
  assumes "resolve mode sz opts line dups pols = (info, ds)"
  obtains base pool forbidden ds_mode where
    "storage_of mode (dict_del opts ''policy'') base (bi_size_const info) line
       = (bi_inline_bytes info, bi_fallback_pool info, bi_fallback_forbidden info, ds_mode)"
    "base = fst (policy_base opts pols line)" "bi_mode info = mode"
    "bi_size_const info = (case sz of None \<Rightarrow> None | Some e \<Rightarrow> as_int e)"
    "ds = [] \<Longrightarrow> ds_mode = []"
    "ds = [] \<Longrightarrow> mode \<in> STACK_BACKED \<Longrightarrow> bi_inline_bytes info \<le> MAX_STACK_BYTES"
    "ds = [] \<Longrightarrow> bi_sensitive info \<Longrightarrow> bi_clear_on_release info"
  using assms by (auto simp: resolve_def Let_def split: prod.splits if_splits option.splits)

text \<open>The heap is a fallback only where the mode is the pool or a scratch buffer's token says so.\<close>

lemma resolve_heap_fallback:
  assumes "resolve mode sz opts line dups pols = (info, ds)"
  shows "bi_fallback_pool info \<longleftrightarrow> mode = POOLED \<or>
    mode = SCRATCH \<and> fallback_token (dict_del opts ''policy'') (fst (policy_base opts pols line)) \<in> {None, Some ''pool''}"
  by (rule resolve_storage [OF assms])
    (cases mode; auto simp: storage_of_def dest: stack_storage_shape scratch_storage_shape)

lemma resolve_quiet_bounds:
  assumes "resolve mode sz opts line dups pols = (info, [])"
  shows "stack_backed info \<longrightarrow> bi_inline_bytes info \<le> MAX_STACK_BYTES"
    and "bi_sensitive info \<longrightarrow> bi_clear_on_release info"
    and "bi_fallback_forbidden info \<longrightarrow> (\<forall>k. bi_size_const info = Some k \<longrightarrow> k \<le> bi_inline_bytes info)"
    and "mode = SCRATCH \<longrightarrow> bi_fallback_forbidden info \<longrightarrow> bi_size_const info \<noteq> None"
  by (rule resolve_storage [OF assms];
      cases mode; auto simp: storage_of_def stack_backed_def STACK_BACKED_def
        dest: scratch_storage_shape stack_storage_fits)+

end
