(* ===== verification/Own_Cfg.thy ===== *)
theory Own_Cfg
  imports Own_Buffers
begin

text \<open>
  Scope resolution and lowering to a control-flow graph (\<open>ownlang/cfg.py\<close>). A \<open>Symbol\<close> is a
  Python object compared by identity: \<open>sid\<close> is that identity, a fresh number per \<open>declare\<close>.
  \<open>_Builder\<close>'s mutable fields are the record \<open>Builder\<close>, passed along and returned; a block held by
  reference is its index in \<open>bu_blocks\<close>; \<open>bu_scopes\<close> has the innermost scope first. Attributes that
  the code assigns to a symbol right after \<open>declare\<close> are part of the record handed to
  \<open>declare_sym\<close>.
\<close>

section \<open>Symbols, instructions, graphs\<close>

datatype Kind = OWNED_kind | BORROW_kind | PLAIN_kind

definition kind_lower :: "Kind \<Rightarrow> string" where
  "kind_lower k = (case k of OWNED_kind \<Rightarrow> ''owned'' | BORROW_kind \<Rightarrow> ''borrow''
     | PLAIN_kind \<Rightarrow> ''plain'')"

record Symbol =
  sid :: nat
  sy_name :: string
  sy_kind :: Kind
  sy_def_line :: int
  sy_is_param_borrow :: bool
  sy_borrow_is_mut :: "bool option"
  sy_buffer :: "BufferInfo option"
  sy_type_name :: "string option"
  sy_resource_kind :: "string option"
  sy_origin :: "string option"

definition new_symbol :: "string \<Rightarrow> Kind \<Rightarrow> int \<Rightarrow> Symbol" where
  "new_symbol name kind line = \<lparr>sid = 0, sy_name = name, sy_kind = kind, sy_def_line = line,
     sy_is_param_borrow = False, sy_borrow_is_mut = None, sy_buffer = None, sy_type_name = None,
     sy_resource_kind = None, sy_origin = None\<rparr>"

datatype Instr =
    Acquire_i Symbol string int
  | AcquireBuffer_i Symbol BufferInfo int
  | MoveInto_i Symbol Symbol int
  | Release_i Symbol int
  | Use_i Symbol int
  | Overspan_i Symbol int
  | Invoke_i string "(Symbol option \<times> Effect) list" int
  | BorrowStart_i Symbol Symbol bool int
  | BorrowEnd_i Symbol Symbol bool int
  | AliasJoin_i Symbol Symbol int
  | Return_i "Symbol option" int

fun instr_line :: "Instr \<Rightarrow> int" where
  "instr_line (Acquire_i _ _ l) = l"
| "instr_line (AcquireBuffer_i _ _ l) = l"
| "instr_line (MoveInto_i _ _ l) = l"
| "instr_line (Release_i _ l) = l"
| "instr_line (Use_i _ l) = l"
| "instr_line (Overspan_i _ l) = l"
| "instr_line (Invoke_i _ _ l) = l"
| "instr_line (BorrowStart_i _ _ _ l) = l"
| "instr_line (BorrowEnd_i _ _ _ l) = l"
| "instr_line (AliasJoin_i _ _ l) = l"
| "instr_line (Return_i _ l) = l"

record Block =
  bl_id :: nat
  bl_instrs :: "Instr list"
  bl_succ :: "nat list"
  bl_label :: string

record CFG =
  cf_fn_name :: string
  cf_blocks :: "Block list"
  cf_entry :: nat
  cf_params :: "Symbol list"
  cf_has_return_type :: bool

text \<open>\<open>CFG.preds\<close>: a successor that is no block is a \<open>KeyError\<close> (\<open>None\<close>).\<close>

fun add_pred :: "nat \<Rightarrow> nat list \<Rightarrow> (nat, nat list) dict \<Rightarrow> (nat, nat list) dict option" where
  "add_pred b [] p = Some p"
| "add_pred b (s # ss) p =
     (case dict_get p s of None \<Rightarrow> None | Some l \<Rightarrow> add_pred b ss (dict_set p s (l @ [b])))"

fun add_preds :: "Block list \<Rightarrow> (nat, nat list) dict \<Rightarrow> (nat, nat list) dict option" where
  "add_preds [] p = Some p"
| "add_preds (b # bs) p =
     (case add_pred (bl_id b) (bl_succ b) p of None \<Rightarrow> None | Some p' \<Rightarrow> add_preds bs p')"

definition preds :: "CFG \<Rightarrow> (nat, nat list) dict option" where
  "preds c = add_preds (cf_blocks c)
     (foldl (\<lambda>p b. dict_set p (bl_id b) []) [] (cf_blocks c))"

section \<open>Signatures\<close>

type_synonym Signatures = "(string, Effect list) dict"

definition param_effect :: "string list \<Rightarrow> Param \<Rightarrow> Effect" where
  "param_effect resource_names p =
     (if tr_borrowed (pa_type p) \<and> tr_mutable (pa_type p) then BORROW_MUT_eff
      else if tr_borrowed (pa_type p) then BORROW_eff
      else if tr_name (pa_type p) \<in> set resource_names then CONSUME_eff
      else PLAIN_eff)"

definition collect_signatures :: "Module \<Rightarrow> Signatures" where
  "collect_signatures m =
     foldl (\<lambda>sigs f. dict_set sigs (fd_name f)
              (map (param_effect (map rd_name (md_resources m))) (fd_params f)))
       (foldl (\<lambda>sigs e. dict_set sigs (ed_name e) (map ep_effect (ed_params e))) []
          (md_externs m))
       (md_functions m)"

definition collect_policies :: "Module \<Rightarrow> (string, Policy) dict" where
  "collect_policies m = foldl (\<lambda>d p. dict_set d (pd_name p)
     \<lparr>po_name = pd_name p, po_settings = pd_settings p, po_line = pd_line p, po_dups = pd_dups p\<rparr>)
     [] (md_policies m)"

definition collect_kinds :: "Module \<Rightarrow> (string, string) dict" where
  "collect_kinds m = foldl (\<lambda>d r. case rd_kind r of
       None \<Rightarrow> d | Some k \<Rightarrow> (if k = [] then d else dict_set d (rd_name r) k)) [] (md_resources m)"

section \<open>The builder\<close>

record BuildCtx =
  bx_fn :: FnDecl
  bx_resource_names :: "string list"
  bx_signatures :: Signatures
  bx_policies :: "(string, Policy) dict"
  bx_resource_kinds :: "(string, string) dict"

record Builder =
  bu_diags :: "Diagnostic list"
  bu_blocks :: "Block list"
  bu_scopes :: "(string, Symbol) dict list"
  bu_params :: "Symbol list"
  bu_next :: nat

definition bu_init :: Builder where
  "bu_init = \<lparr>bu_diags = [], bu_blocks = [], bu_scopes = [], bu_params = [], bu_next = 0\<rparr>"

definition add_diags :: "Diagnostic list \<Rightarrow> Builder \<Rightarrow> Builder" where
  "add_diags ds b = b\<lparr>bu_diags := bu_diags b @ ds\<rparr>"

definition push_scope :: "Builder \<Rightarrow> Builder" where
  "push_scope b = b\<lparr>bu_scopes := [] # bu_scopes b\<rparr>"

definition pop_scope :: "Builder \<Rightarrow> Builder" where
  "pop_scope b = b\<lparr>bu_scopes := tl (bu_scopes b)\<rparr>"

definition msg_redefined :: "string \<Rightarrow> string" where
  "msg_redefined n = quoted n @ '' is already defined in an enclosing scope''"

definition bind_innermost :: "string \<Rightarrow> Symbol \<Rightarrow> (string, Symbol) dict list
    \<Rightarrow> (string, Symbol) dict list" where
  "bind_innermost n s scopes =
     (case scopes of [] \<Rightarrow> [dict_set [] n s] | sc # rest \<Rightarrow> dict_set sc n s # rest)"

definition declare_sym :: "Symbol \<Rightarrow> Builder \<Rightarrow> Symbol \<times> Builder" where
  "declare_sym proto b =
     (let name = sy_name proto;
          ds = (if (\<exists>sc\<in>set (bu_scopes b). dict_get sc name \<noteq> None)
                then [mk_diag ''OWN031'' (msg_redefined name) (sy_def_line proto)] else []);
          sym = proto\<lparr>sid := bu_next b\<rparr>
      in (sym, b\<lparr>bu_diags := bu_diags b @ ds, bu_next := Suc (bu_next b),
                bu_scopes := bind_innermost name sym (bu_scopes b)\<rparr>))"

fun scope_find :: "(string, Symbol) dict list \<Rightarrow> string \<Rightarrow> Symbol option" where
  "scope_find [] n = None"
| "scope_find (sc # scs) n =
     (case dict_get sc n of Some s \<Rightarrow> Some s | None \<Rightarrow> scope_find scs n)"

definition lookup_sym :: "string \<Rightarrow> int \<Rightarrow> Builder \<Rightarrow> Symbol option \<times> Builder" where
  "lookup_sym n line b =
     (case scope_find (bu_scopes b) n of
        Some s \<Rightarrow> (Some s, b)
      | None \<Rightarrow> (None, add_diags [mk_diag ''OWN030'' (''undefined name '' @ quoted n) line] b))"

definition new_block :: "string \<Rightarrow> Builder \<Rightarrow> nat \<times> Builder" where
  "new_block label b =
     (let i = length (bu_blocks b)
      in (i, b\<lparr>bu_blocks := bu_blocks b
                 @ [\<lparr>bl_id = i, bl_instrs = [], bl_succ = [], bl_label = label\<rparr>]\<rparr>))"

definition emit :: "nat \<Rightarrow> Instr \<Rightarrow> Builder \<Rightarrow> Builder" where
  "emit cur ins b = b\<lparr>bu_blocks := (bu_blocks b)
     [cur := (bu_blocks b ! cur)\<lparr>bl_instrs := bl_instrs (bu_blocks b ! cur) @ [ins]\<rparr>]\<rparr>"

definition set_succ :: "nat \<Rightarrow> nat list \<Rightarrow> Builder \<Rightarrow> Builder" where
  "set_succ cur ss b = b\<lparr>bu_blocks := (bu_blocks b)
     [cur := (bu_blocks b ! cur)\<lparr>bl_succ := ss\<rparr>]\<rparr>"

definition origin_of :: "string \<Rightarrow> int \<Rightarrow> string" where
  "origin_of n line = n @ ''#'' @ int_str line"

subsection \<open>Let bindings\<close>

definition msg_cannot_move :: "string \<Rightarrow> string" where
  "msg_cannot_move v = ''cannot move '' @ quoted v @ '': it is not an owned resource''"

definition msg_cannot_copy :: "string \<Rightarrow> string \<Rightarrow> string" where
  "msg_cannot_copy src dst = ''cannot copy owned resource '' @ quoted src @ '' into '' @ quoted dst
     @ ''; use '' @ quoted (''move '' @ src) @ '' to transfer ownership''"

definition msg_unknown_ns :: "string \<Rightarrow> string" where
  "msg_unknown_ns ns = ''unknown buffer namespace '' @ quoted ns
     @ ''; buffer intents are written '' @ quoted ''Buffer.<mode>(...)''"

definition msg_unknown_mode :: "string \<Rightarrow> string" where
  "msg_unknown_mode m = ''unknown buffer mode '' @ quoted m
     @ ''; expected one of inline, native, pooled, scratch, stack''"

definition msg_size_kind :: "string \<Rightarrow> string \<Rightarrow> string" where
  "msg_size_kind n k = ''buffer size '' @ quoted n @ '' must be an integer, not '' @ k"

definition msg_size_type :: "string \<Rightarrow> string option \<Rightarrow> string" where
  "msg_size_type n t = ''buffer size '' @ quoted n @ '' must be an integer (''
     @ (case t of None \<Rightarrow> ''its type cannot be determined''
          | Some ty \<Rightarrow> if ty = [] then ''its type cannot be determined'' else ''it is '' @ quoted ty)
     @ '')''"

definition check_buffer_size :: "string \<Rightarrow> Atom option \<Rightarrow> int \<Rightarrow> Builder \<Rightarrow> Builder" where
  "check_buffer_size name size_expr line b =
     (case size_expr of
        None \<Rightarrow> add_diags [mk_diag ''OWN018'' (''buffer '' @ quoted name @ '' requires a size'') line] b
      | Some (IntLit v l) \<Rightarrow> b
      | Some (VarRef n l) \<Rightarrow>
          (let (s, b1) = lookup_sym n l b
           in (case s of
                 None \<Rightarrow> b1
               | Some sy \<Rightarrow>
                   if sy_kind sy \<noteq> PLAIN_kind then
                     add_diags [mk_diag ''OWN018'' (msg_size_kind n (kind_lower (sy_kind sy))) l] b1
                   else if sy_type_name sy \<noteq> Some ''int'' then
                     add_diags [mk_diag ''OWN018'' (msg_size_type n (sy_type_name sy)) l] b1
                   else b1)))"

definition lower_buffer ::
  "BuildCtx \<Rightarrow> string \<Rightarrow> int \<Rightarrow> string \<Rightarrow> Atom option \<Rightarrow> (string, Atom) dict \<Rightarrow> int \<Rightarrow> string
   \<Rightarrow> int \<Rightarrow> string list \<Rightarrow> nat \<Rightarrow> Builder \<Rightarrow> Builder" where
  "lower_buffer cx name let_line mode size_expr options line ns col dups cur b =
     (if ns \<noteq> ''Buffer'' then
        snd (declare_sym (new_symbol name OWNED_kind let_line)
               (add_diags [mk_diag ''OWN030'' (msg_unknown_ns ns) line] b))
      else
        (case buffer_mode mode of
           None \<Rightarrow> snd (declare_sym (new_symbol name OWNED_kind let_line)
                     (add_diags [mk_diag ''OWN030'' (msg_unknown_mode mode) line] b))
         | Some m \<Rightarrow>
             (let b1 = check_buffer_size name size_expr line b;
                  (info, bdiags) = resolve m size_expr options line dups (bx_policies cx);
                  b2 = add_diags bdiags b1;
                  (sym, b3) = declare_sym ((new_symbol name OWNED_kind let_line)
                     \<lparr>sy_buffer := Some info,
                      sy_origin := Some (origin_of name line @ '':'' @ int_str col)\<rparr>) b2
              in emit cur (AcquireBuffer_i sym info let_line) b3)))"

definition lower_let_acquire ::
  "BuildCtx \<Rightarrow> string \<Rightarrow> int \<Rightarrow> string \<Rightarrow> int \<Rightarrow> nat \<Rightarrow> Builder \<Rightarrow> Builder" where
  "lower_let_acquire cx name let_line res line cur b =
     (let b1 = (if res \<notin> set (bx_resource_names cx)
                then add_diags [mk_diag ''OWN030'' (''undefined resource '' @ quoted res) line] b
                else b);
          (sym, b2) = declare_sym ((new_symbol name OWNED_kind let_line)
             \<lparr>sy_type_name := Some res, sy_resource_kind := dict_get (bx_resource_kinds cx) res,
              sy_origin := Some (origin_of name line)\<rparr>) b1
      in emit cur (Acquire_i sym res let_line) b2)"

text \<open>
  The resolved source of a \<open>move\<close> or an alias: a symbol that is not owned is reported and
  dropped.
\<close>

definition owned_source :: "string \<Rightarrow> int \<Rightarrow> (Symbol \<Rightarrow> string) \<Rightarrow> Builder \<Rightarrow> Symbol option \<times> Builder"
  where
  "owned_source v line msg b =
     (let (s, b1) = lookup_sym v line b
      in (case s of
            None \<Rightarrow> (None, b1)
          | Some sy \<Rightarrow>
              if sy_kind sy \<noteq> OWNED_kind then (None, add_diags [mk_diag ''OWN034'' (msg sy) line] b1)
              else (Some sy, b1)))"

text \<open>A symbol that inherits buffer, origin, type and kind tag from the resource it takes over.\<close>

definition inherit_from :: "Symbol option \<Rightarrow> Symbol \<Rightarrow> Symbol" where
  "inherit_from src d = (case src of None \<Rightarrow> d
     | Some s \<Rightarrow> d\<lparr>sy_buffer := sy_buffer s, sy_origin := sy_origin s,
                  sy_type_name := sy_type_name s, sy_resource_kind := sy_resource_kind s\<rparr>)"

definition lower_let_move ::
  "string \<Rightarrow> int \<Rightarrow> string \<Rightarrow> int \<Rightarrow> nat \<Rightarrow> Builder \<Rightarrow> Builder" where
  "lower_let_move name let_line v line cur b =
     (let (src, b1) = owned_source v line (\<lambda>_. msg_cannot_move v) b;
          (dst, b2) = declare_sym (inherit_from src (new_symbol name OWNED_kind let_line)) b1
      in (case src of None \<Rightarrow> b2 | Some s \<Rightarrow> emit cur (MoveInto_i dst s let_line) b2))"

definition lower_let_copy ::
  "string \<Rightarrow> int \<Rightarrow> string \<Rightarrow> int \<Rightarrow> Builder \<Rightarrow> Builder" where
  "lower_let_copy name let_line v line b =
     (let (src, b1) = lookup_sym v line b;
          ds = (case src of Some s \<Rightarrow> if sy_kind s = OWNED_kind
                  then [mk_diag ''OWN032'' (msg_cannot_copy (sy_name s) name) let_line] else []
                | None \<Rightarrow> []);
          ty = (case src of Some s \<Rightarrow> if sy_kind s = PLAIN_kind then sy_type_name s else None
                | None \<Rightarrow> None)
      in snd (declare_sym ((new_symbol name PLAIN_kind let_line)\<lparr>sy_type_name := ty\<rparr>)
                (add_diags ds b1)))"

definition lower_let :: "BuildCtx \<Rightarrow> string \<Rightarrow> Expr \<Rightarrow> int \<Rightarrow> nat \<Rightarrow> Builder \<Rightarrow> Builder" where
  "lower_let cx name rhs line cur b =
     (case rhs of
        Acquire_e res args l \<Rightarrow> lower_let_acquire cx name line res l cur b
      | BufferIntent_e mode size_expr options l ns col dups \<Rightarrow>
          lower_buffer cx name line mode size_expr options l ns col dups cur b
      | Move_e v l \<Rightarrow> lower_let_move name line v l cur b
      | Atom_e (VarRef v l) \<Rightarrow> lower_let_copy name line v l b
      | Atom_e (IntLit v l) \<Rightarrow>
          snd (declare_sym ((new_symbol name PLAIN_kind line)\<lparr>sy_type_name := Some ''int''\<rparr>) b))"

subsection \<open>Calls, aliases, returns\<close>

definition msg_cannot_alias :: "string \<Rightarrow> Symbol \<Rightarrow> string" where
  "msg_cannot_alias v s = ''cannot alias '' @ quoted v @ '': it is not an owned resource (''
     @ kind_lower (sy_kind s) @ '')''"

definition lower_alias_join :: "string \<Rightarrow> string \<Rightarrow> int \<Rightarrow> nat \<Rightarrow> Builder \<Rightarrow> Builder" where
  "lower_alias_join name v line cur b =
     (let (src, b1) = owned_source v line (msg_cannot_alias v) b;
          (handle, b2) = declare_sym (inherit_from src (new_symbol name OWNED_kind line)) b1
      in (case src of None \<Rightarrow> b2 | Some s \<Rightarrow> emit cur (AliasJoin_i handle s line) b2))"

definition msg_undeclared :: "string \<Rightarrow> string" where
  "msg_undeclared f = ''call to undeclared function '' @ quoted f
     @ ''; declare it with 'extern fn' (or define it) so its ownership effects are known''"

definition msg_arity :: "string \<Rightarrow> nat \<Rightarrow> nat \<Rightarrow> string" where
  "msg_arity f n k = quoted f @ '' expects '' @ nat_str n @ '' argument(s) but got '' @ nat_str k"

fun resolve_args :: "Atom list \<Rightarrow> Builder \<Rightarrow> Symbol option list \<times> Builder" where
  "resolve_args [] b = ([], b)"
| "resolve_args (IntLit v l # as) b =
     (let (ss, b') = resolve_args as b in (None # ss, b'))"
| "resolve_args (VarRef n l # as) b =
     (let (s, b1) = lookup_sym n l b; (ss, b2) = resolve_args as b1 in (s # ss, b2))"

definition lower_call :: "BuildCtx \<Rightarrow> string \<Rightarrow> Atom list \<Rightarrow> int \<Rightarrow> nat \<Rightarrow> Builder \<Rightarrow> Builder" where
  "lower_call cx callee args line cur b =
     (case dict_get (bx_signatures cx) callee of
        None \<Rightarrow> snd (resolve_args args (add_diags [mk_diag ''OWN040'' (msg_undeclared callee) line] b))
      | Some effects \<Rightarrow>
          if length args \<noteq> length effects then
            snd (resolve_args args (add_diags
              [mk_diag ''OWN041'' (msg_arity callee (length effects) (length args)) line] b))
          else
            (let (ss, b1) = resolve_args args b
             in emit cur (Invoke_i callee (zip ss effects) line) b1))"

definition msg_no_value :: "string \<Rightarrow> string \<Rightarrow> string" where
  "msg_no_value f ty = quoted f @ '' returns '' @ quoted ty @ '' but this 'return' provides no value''"

definition msg_no_return_type :: "string \<Rightarrow> string \<Rightarrow> string" where
  "msg_no_return_type f v = quoted f @ '' has no return type but returns '' @ quoted v"

definition msg_borrow_returned :: "string \<Rightarrow> string" where
  "msg_borrow_returned v = quoted v @ '' is a borrow and cannot be returned ''
     @ ''(it would outlive the resource it borrows)''"

definition msg_wrong_return :: "string \<Rightarrow> string \<Rightarrow> string \<Rightarrow> string \<Rightarrow> string" where
  "msg_wrong_return f ty v what = quoted f @ '' returns '' @ quoted ty @ '' but '' @ quoted v
     @ '' is '' @ what"

text \<open>\<open>f"an owned '{sym.type_name}'"\<close> of a missing type name prints \<open>None\<close>.\<close>

definition owned_what :: "Symbol \<Rightarrow> string" where
  "owned_what s = ''an owned '' @ quoted (case sy_type_name s of None \<Rightarrow> ''None'' | Some t \<Rightarrow> t)"

text \<open>The symbol a \<open>return v\<close> hands to the caller, with the diagnostics.\<close>

definition returned_symbol ::
  "BuildCtx \<Rightarrow> string \<Rightarrow> int \<Rightarrow> Symbol option \<Rightarrow> Symbol option \<times> Diagnostic list" where
  "returned_symbol cx v line s =
     (let fname = fd_name (bx_fn cx)
      in (case fd_ret (bx_fn cx) of
            None \<Rightarrow> (None, (case s of None \<Rightarrow> []
               | Some _ \<Rightarrow> [mk_diag ''OWN035'' (msg_no_return_type fname v) line]))
          | Some ret \<Rightarrow>
              (case s of
                 None \<Rightarrow> (None, [])
               | Some sy \<Rightarrow>
                   if sy_kind sy = BORROW_kind then
                     (None, [mk_diag ''OWN004'' (msg_borrow_returned v) line])
                   else if \<not> tr_borrowed ret \<and> tr_name ret \<in> set (bx_resource_names cx)
                        \<and> sy_buffer sy = None
                        \<and> (sy_kind sy \<noteq> OWNED_kind \<or> sy_type_name sy \<noteq> Some (tr_name ret)) then
                     (if sy_kind sy \<noteq> OWNED_kind then
                        (None, [mk_diag ''OWN035''
                          (msg_wrong_return fname (tr_name ret) v ''not an owned resource'') line])
                      else (Some sy, [mk_diag ''OWN035''
                          (msg_wrong_return fname (tr_name ret) v (owned_what sy)) line]))
                   else if sy_kind sy = PLAIN_kind then (None, [])
                   else (Some sy, []))))"

definition resolve_return :: "BuildCtx \<Rightarrow> string option \<Rightarrow> int \<Rightarrow> Builder \<Rightarrow> Symbol option \<times> Builder" where
  "resolve_return cx var line b =
     (case var of
        None \<Rightarrow> (None, (case fd_ret (bx_fn cx) of None \<Rightarrow> b
           | Some ret \<Rightarrow> add_diags [mk_diag ''OWN035''
               (msg_no_value (fd_name (bx_fn cx)) (tr_name ret)) line] b))
      | Some v \<Rightarrow>
          (let (s, b') = lookup_sym v line b; (s', ds) = returned_symbol cx v line s
           in (s', add_diags ds b')))"

definition lower_return :: "BuildCtx \<Rightarrow> string option \<Rightarrow> int \<Rightarrow> nat \<Rightarrow> Builder \<Rightarrow> Builder" where
  "lower_return cx var line cur b =
     (let (sym, b1) = resolve_return cx var line b
      in set_succ cur [] (emit cur (Return_i sym line) b1))"

subsection \<open>Statements\<close>

definition msg_not_owned :: "string \<Rightarrow> string \<Rightarrow> Symbol \<Rightarrow> string" where
  "msg_not_owned verb v s = ''cannot '' @ verb @ '' '' @ quoted v @ '': it is not an owned resource (''
     @ kind_lower (sy_kind s) @ '')''"

definition msg_cannot_borrow :: "string \<Rightarrow> string" where
  "msg_cannot_borrow v = ''cannot borrow '' @ quoted v @ '': it is not an owned resource''"

definition lower_release :: "string \<Rightarrow> int \<Rightarrow> nat \<Rightarrow> Builder \<Rightarrow> Builder" where
  "lower_release v line cur b =
     (let (s, b1) = lookup_sym v line b
      in (case s of None \<Rightarrow> b1
          | Some sy \<Rightarrow> if sy_kind sy \<noteq> OWNED_kind
              then add_diags [mk_diag ''OWN034'' (msg_not_owned ''release'' v sy) line] b1
              else emit cur (Release_i sy line) b1))"

definition lower_use :: "string \<Rightarrow> int \<Rightarrow> nat \<Rightarrow> Builder \<Rightarrow> Builder" where
  "lower_use v line cur b =
     (let (s, b1) = lookup_sym v line b
      in (case s of None \<Rightarrow> b1 | Some sy \<Rightarrow> emit cur (Use_i sy line) b1))"

definition lower_overspan :: "string \<Rightarrow> int \<Rightarrow> nat \<Rightarrow> Builder \<Rightarrow> Builder" where
  "lower_overspan v line cur b =
     (let (s, b1) = lookup_sym v line b
      in (case s of None \<Rightarrow> b1
          | Some sy \<Rightarrow> if sy_kind sy \<noteq> OWNED_kind
              then add_diags [mk_diag ''OWN034''
                     (msg_not_owned ''take a full-length view of'' v sy) line] b1
              else emit cur (Overspan_i sy line) b1))"

text \<open>
  \<open>lower_seq\<close> stops at the first statement that ends the path (\<open>None\<close>): what follows a \<open>return\<close>
  is not lowered. The two-successor split of \<open>if\<close> and the header, body and after blocks of \<open>while\<close>
  are created before the branches are lowered.
\<close>

fun lower_stmt :: "BuildCtx \<Rightarrow> Stmt \<Rightarrow> nat \<Rightarrow> Builder \<Rightarrow> nat option \<times> Builder"
and lower_seq :: "BuildCtx \<Rightarrow> Stmt list \<Rightarrow> nat option \<Rightarrow> Builder \<Rightarrow> nat option \<times> Builder" where
  "lower_seq cx [] node b = (node, b)"
| "lower_seq cx (st # sts) node b =
     (case node of
        None \<Rightarrow> (None, b)
      | Some cur \<Rightarrow> (let (node', b') = lower_stmt cx st cur b in lower_seq cx sts node' b'))"
| "lower_stmt cx (Let_s name rhs line) cur b = (Some cur, lower_let cx name rhs line cur b)"
| "lower_stmt cx (Release_s v line) cur b = (Some cur, lower_release v line cur b)"
| "lower_stmt cx (Use_s v line) cur b = (Some cur, lower_use v line cur b)"
| "lower_stmt cx (Overspan_s v line) cur b = (Some cur, lower_overspan v line cur b)"
| "lower_stmt cx (Call_s f args line) cur b = (Some cur, lower_call cx f args line cur b)"
| "lower_stmt cx (AliasJoin_s name v line) cur b = (Some cur, lower_alias_join name v line cur b)"
| "lower_stmt cx (BorrowBlock_s owner binding kind body line) cur b =
     (let (s, b1) = lookup_sym owner line b
      in (case s of
            None \<Rightarrow> (Some cur, b1)
          | Some sy \<Rightarrow>
              if sy_kind sy \<noteq> OWNED_kind then
                (Some cur, add_diags [mk_diag ''OWN034'' (msg_cannot_borrow owner) line] b1)
              else
                (let mut = (kind = MUT_k);
                     (bs, b2) = declare_sym ((new_symbol binding BORROW_kind line)
                        \<lparr>sy_borrow_is_mut := Some mut\<rparr>) (push_scope b1);
                     (after, b3) = lower_seq cx body (Some cur)
                        (emit cur (BorrowStart_i sy bs mut line) b2);
                     b4 = pop_scope b3
                 in (case after of
                       None \<Rightarrow> (None, b4)
                     | Some a \<Rightarrow> (Some a, emit a (BorrowEnd_i sy bs mut line) b4)))))"
| "lower_stmt cx (If_s c then_body else_body line) cur b =
     (let (t, b1) = new_block ''then'' b;
          (e, b2) = new_block ''else'' b1;
          (tx, b3) = lower_seq cx then_body (Some t) (push_scope (set_succ cur [t, e] b2));
          (ex, b4) = lower_seq cx else_body (Some e) (push_scope (pop_scope b3));
          b5 = pop_scope b4
      in (if tx = None \<and> ex = None then (None, b5)
          else
            (let (m, b6) = new_block ''merge'' b5;
                 b7 = (case tx of None \<Rightarrow> b6 | Some x \<Rightarrow> set_succ x [m] b6);
                 b8 = (case ex of None \<Rightarrow> b7 | Some x \<Rightarrow> set_succ x [m] b7)
             in (Some m, b8))))"
| "lower_stmt cx (While_s c body line) cur b =
     (let (h, b1) = new_block ''while.header'' b;
          (be, b2) = new_block ''while.body'' (set_succ cur [h] b1);
          (after, b3) = new_block ''while.after'' b2;
          (bx, b4) = lower_seq cx body (Some be) (push_scope (set_succ h [be, after] b3));
          b5 = pop_scope b4
      in (Some after, (case bx of None \<Rightarrow> b5 | Some x \<Rightarrow> set_succ x [h] b5)))"
| "lower_stmt cx (Return_s var line) cur b = (None, lower_return cx var line cur b)"
| "lower_stmt cx (Subscribe_s src line) cur b = (Some cur, b)"

subsection \<open>Functions\<close>

definition param_symbol :: "BuildCtx \<Rightarrow> Param \<Rightarrow> Symbol" where
  "param_symbol cx p =
     (let ty = pa_type p;
          base = (if tr_borrowed ty then (new_symbol (pa_name p) BORROW_kind (pa_line p))
                    \<lparr>sy_is_param_borrow := True, sy_borrow_is_mut := Some (tr_mutable ty)\<rparr>
                  else if tr_name ty \<in> set (bx_resource_names cx)
                  then new_symbol (pa_name p) OWNED_kind (pa_line p)
                  else new_symbol (pa_name p) PLAIN_kind (pa_line p))
      in base\<lparr>sy_type_name := Some (tr_name ty),
              sy_resource_kind := dict_get (bx_resource_kinds cx) (tr_name ty),
              sy_origin := Some (origin_of (pa_name p) (pa_line p))\<rparr>)"

fun declare_params :: "BuildCtx \<Rightarrow> Param list \<Rightarrow> Builder \<Rightarrow> Builder" where
  "declare_params cx [] b = b"
| "declare_params cx (p # ps) b =
     (let (sym, b1) = declare_sym (param_symbol cx p) b
      in declare_params cx ps (b1\<lparr>bu_params := bu_params b1 @ [sym]\<rparr>))"

definition msg_missing_return :: "string \<Rightarrow> string \<Rightarrow> string" where
  "msg_missing_return f ty = ''function '' @ quoted f @ '' has return type '' @ quoted ty
     @ '' but can reach the end without returning''"

definition build :: "BuildCtx \<Rightarrow> CFG \<times> Diagnostic list" where
  "build cx =
     (let fn = bx_fn cx;
          b1 = declare_params cx (fd_params fn) (push_scope bu_init);
          (entry, b2) = new_block ''entry'' b1;
          (exit_block, b3) = lower_seq cx (fd_body fn) (Some entry) b2;
          ds = (case (fd_ret fn, exit_block) of
                  (Some ret, Some _) \<Rightarrow>
                    [mk_diag ''OWN033'' (msg_missing_return (fd_name fn) (tr_name ret)) (fd_line fn)]
                | _ \<Rightarrow> []);
          b4 = pop_scope (add_diags ds b3)
      in (\<lparr>cf_fn_name = fd_name fn, cf_blocks = bu_blocks b4, cf_entry = entry,
            cf_params = bu_params b4, cf_has_return_type = (fd_ret fn \<noteq> None)\<rparr>,
          bu_diags b4))"

definition build_cfg ::
  "FnDecl \<Rightarrow> string list \<Rightarrow> Signatures \<Rightarrow> (string, Policy) dict \<Rightarrow> (string, string) dict
   \<Rightarrow> CFG \<times> Diagnostic list" where
  "build_cfg fn resource_names signatures policies resource_kinds =
     build \<lparr>bx_fn = fn, bx_resource_names = resource_names, bx_signatures = signatures,
            bx_policies = policies, bx_resource_kinds = resource_kinds\<rparr>"

text \<open>Unfolding everything, for evaluation by the simplifier.\<close>

lemmas cfg_eval =
  kind_lower_def new_symbol_def preds_def param_effect_def collect_signatures_def
  collect_policies_def collect_kinds_def bu_init_def add_diags_def push_scope_def pop_scope_def
  msg_redefined_def bind_innermost_def declare_sym_def lookup_sym_def new_block_def emit_def
  set_succ_def origin_of_def msg_cannot_move_def msg_cannot_copy_def msg_unknown_ns_def
  msg_unknown_mode_def msg_size_kind_def msg_size_type_def check_buffer_size_def
  lower_buffer_def lower_let_acquire_def owned_source_def inherit_from_def lower_let_move_def
  lower_let_copy_def lower_let_def msg_cannot_alias_def lower_alias_join_def msg_undeclared_def
  msg_arity_def lower_call_def msg_no_value_def msg_no_return_type_def msg_borrow_returned_def
  msg_wrong_return_def owned_what_def returned_symbol_def resolve_return_def lower_return_def
  msg_not_owned_def msg_cannot_borrow_def lower_release_def lower_use_def lower_overspan_def
  param_symbol_def msg_missing_return_def build_def build_cfg_def dict_set_def dict_get_def
  dict_get_or_def Let_def

end
