(* ===== verification/Own_Analysis.thy ===== *)
theory Own_Analysis
  imports Own_Cfg
begin

text \<open>
  The flow-sensitive ownership analysis (\<open>ownlang/analysis.py\<close>): the abstract \<open>State\<close>, its join,
  the transfer of an instruction with the diagnostics it reports, the reachable blocks, the
  worklist fixpoint and the emitting second pass. \<open>AssertionError\<close> and \<open>KeyError\<close> are values of
  \<open>AnalysisError\<close>. A resource id is the \<open>sid\<close> of the symbol that minted it. A transfer returns its
  diagnostics; the silent first phase drops them, which is what \<open>silent\<close> does.
\<close>

datatype VarState = OWNED | MOVED | RELEASED | ESCAPED

datatype LoanKind = SHARED_loan | MUT_loan

record Loan =
  ln_loan_id :: nat
  ln_owner :: nat
  ln_binding :: nat
  ln_kind :: LoanKind

type_synonym Sites = "(nat, int \<times> bool) dict"

record State =
  st_var :: "(nat, VarState set) dict"
  st_loans :: "(nat, Loan) dict"
  st_handle_rid :: "(nat, nat) dict"
  st_moved_at :: Sites
  st_acquired_at :: Sites

definition empty_state :: State where
  "empty_state = \<lparr>st_var = [], st_loans = [], st_handle_rid = [], st_moved_at = [],
     st_acquired_at = []\<rparr>"

text \<open>Dataclass \<open>==\<close>: every field compared as a dictionary.\<close>

definition state_eq :: "State \<Rightarrow> State \<Rightarrow> bool" where
  "state_eq a b \<longleftrightarrow> dict_eq (st_var a) (st_var b) \<and> dict_eq (st_loans a) (st_loans b)
     \<and> dict_eq (st_handle_rid a) (st_handle_rid b) \<and> dict_eq (st_moved_at a) (st_moved_at b)
     \<and> dict_eq (st_acquired_at a) (st_acquired_at b)"

definition rid_of :: "State \<Rightarrow> Symbol \<Rightarrow> nat" where
  "rid_of st sy = dict_get_or (st_handle_rid st) (sid sy) (sid sy)"

definition mint :: "Symbol \<Rightarrow> State \<Rightarrow> nat \<times> State" where
  "mint sy st =
     (sid sy, st\<lparr>st_handle_rid := dict_set (st_handle_rid st) (sid sy) (sid sy)\<rparr>)"

text \<open>\<open>st.var.get(rid, {OWNED})\<close>\<close>

definition var_of :: "State \<Rightarrow> nat \<Rightarrow> VarState set" where
  "var_of st rid = dict_get_or (st_var st) rid {OWNED}"

section \<open>Joins\<close>

datatype AnalysisError = LoanMismatch | RidMismatch | BlockKeyError

fun join_handle_rid :: "(nat, nat) dict \<Rightarrow> (nat, nat) dict
    \<Rightarrow> (AnalysisError, (nat, nat) dict) result" where
  "join_handle_rid out [] = Inr out"
| "join_handle_rid out ((h, r) # b) =
     (case dict_get out h of
        Some r' \<Rightarrow> (if r' \<noteq> r then Inl RidMismatch else join_handle_rid out b)
      | None \<Rightarrow> join_handle_rid (dict_set out h r) b)"

definition join_site :: "int \<times> bool \<Rightarrow> int \<times> bool \<Rightarrow> int \<times> bool" where
  "join_site a b = (case a of (la, ea) \<Rightarrow> case b of (lb, eb) \<Rightarrow>
     if la = lb then (la, ea \<and> eb) else (min la lb, False))"

fun join_sites :: "Sites \<Rightarrow> Sites \<Rightarrow> Sites" where
  "join_sites out [] = out"
| "join_sites out ((r, sb) # b) =
     (case dict_get out r of
        Some sa \<Rightarrow> join_sites (dict_set out r (join_site sa sb)) b
      | None \<Rightarrow> join_sites (dict_set out r sb) b)"

definition join_var :: "(nat, VarState set) dict \<Rightarrow> (nat, VarState set) dict
    \<Rightarrow> (nat, VarState set) dict" where
  "join_var a b = map (\<lambda>k. (k, dict_get_or a k {} \<union> dict_get_or b k {}))
     (remdups (map fst a @ map fst b))"

definition join :: "State \<Rightarrow> State \<Rightarrow> (AnalysisError, State) result" where
  "join a b =
     (if \<not> dict_eq (st_loans a) (st_loans b) then Inl LoanMismatch
      else rbind (join_handle_rid (st_handle_rid a) (st_handle_rid b)) (\<lambda>hr.
        Inr \<lparr>st_var = join_var (st_var a) (st_var b), st_loans = st_loans a, st_handle_rid = hr,
             st_moved_at = join_sites (st_moved_at a) (st_moved_at b),
             st_acquired_at = join_sites (st_acquired_at a) (st_acquired_at b)\<rparr>))"

section \<open>Diagnostics of an operation\<close>

text \<open>The symbols of a graph, in the order \<open>_sym_by_id\<close> indexes them; the last of an id wins.\<close>

fun instr_symbols :: "Instr \<Rightarrow> Symbol list" where
  "instr_symbols (Acquire_i s _ _) = [s]"
| "instr_symbols (AcquireBuffer_i s _ _) = [s]"
| "instr_symbols (MoveInto_i d s _) = [d, s]"
| "instr_symbols (Release_i s _) = [s]"
| "instr_symbols (Use_i s _) = [s]"
| "instr_symbols (Overspan_i s _) = [s]"
| "instr_symbols (Invoke_i _ args _) = concat (map (\<lambda>(s, _). opt_list s) args)"
| "instr_symbols (BorrowStart_i ow bi _ _) = [ow, bi]"
| "instr_symbols (BorrowEnd_i ow bi _ _) = [ow, bi]"
| "instr_symbols (AliasJoin_i h s _) = [s, h]"
| "instr_symbols (Return_i s _) = opt_list s"

definition cfg_symbols :: "CFG \<Rightarrow> Symbol list" where
  "cfg_symbols c = cf_params c
     @ concat (map (\<lambda>b. concat (map instr_symbols (bl_instrs b))) (cf_blocks c))"

definition sym_by_id :: "CFG \<Rightarrow> nat \<Rightarrow> Symbol option" where
  "sym_by_id c i = map_of (rev (map (\<lambda>s. (sid s, s)) (cfg_symbols c))) i"

definition diag_on :: "string \<Rightarrow> string \<Rightarrow> int \<Rightarrow> Symbol \<Rightarrow> Diagnostic" where
  "diag_on code msg line s = (mk_diag code msg line)\<lparr>dg_subject := sy_origin s\<rparr>"

definition with_kind :: "Symbol \<Rightarrow> Diagnostic \<Rightarrow> Diagnostic" where
  "with_kind s d = d\<lparr>dg_resource_kind := sy_resource_kind s\<rparr>"

definition with_evidence :: "Evidence list \<Rightarrow> Diagnostic \<Rightarrow> Diagnostic" where
  "with_evidence ev d = d\<lparr>dg_evidence := ev\<rparr>"

definition moved_evidence :: "State \<Rightarrow> nat \<Rightarrow> Evidence list" where
  "moved_evidence st rid =
     (case dict_get (st_moved_at st) rid of
        None \<Rightarrow> []
      | Some (line, exact) \<Rightarrow>
          [mk_evidence line (if exact then ''moved here''
             else ''moved here (on one of several paths)'') ''moved''])"

definition acquired_evidence :: "CFG \<Rightarrow> State \<Rightarrow> nat \<Rightarrow> Evidence list" where
  "acquired_evidence c st rid =
     (case dict_get (st_acquired_at st) rid of
        None \<Rightarrow> []
      | Some (line, exact) \<Rightarrow>
          [mk_evidence line
             ((case sym_by_id c rid of None \<Rightarrow> [] | Some s \<Rightarrow> quoted (sy_name s) @ '' '')
              @ ''acquired here'' @ (if exact then [] else '' (on one of several paths)''))
             ''acquired''])"

definition loans_on :: "State \<Rightarrow> Symbol \<Rightarrow> nat \<times> bool" where
  "loans_on st owner =
     (let mine = filter (\<lambda>ln. ln_owner ln = rid_of st owner) (map snd (st_loans st))
      in (length (filter (\<lambda>ln. ln_kind ln = SHARED_loan) mine),
          \<exists>ln\<in>set mine. ln_kind ln \<noteq> SHARED_loan))"

definition borrowed :: "State \<Rightarrow> Symbol \<Rightarrow> bool" where
  "borrowed st s = (case loans_on st s of (shared, mut) \<Rightarrow> shared > 0 \<or> mut)"

definition binding_live :: "State \<Rightarrow> Symbol \<Rightarrow> bool" where
  "binding_live st s \<longleftrightarrow> sy_is_param_borrow s
     \<or> (\<exists>ln\<in>set (map snd (st_loans st)). ln_binding ln = sid s)"

definition msg_after :: "string \<Rightarrow> string \<Rightarrow> string \<Rightarrow> string" where
  "msg_after verb n what = verb @ '' '' @ quoted n @ '' after it was '' @ what"

definition msg_maybe :: "string \<Rightarrow> string \<Rightarrow> string \<Rightarrow> string" where
  "msg_maybe verb n what = verb @ '' '' @ quoted n @ '', which may have been '' @ what @ '' on some path''"

text \<open>\<open>_state_problem\<close>: the gone and maybe-gone cases, as the diagnostic to report.\<close>

definition state_problem :: "State \<Rightarrow> Symbol \<Rightarrow> string \<Rightarrow> int \<Rightarrow> Diagnostic option" where
  "state_problem st sy verb line =
     (let S = var_of st (rid_of st sy); n = sy_name sy
      in if OWNED \<notin> S then
           (if MOVED \<in> S then
              Some (with_evidence (moved_evidence st (rid_of st sy))
                (with_kind sy (diag_on ''OWN005'' (msg_after verb n ''moved'') line sy)))
            else if ESCAPED \<in> S \<and> RELEASED \<notin> S then
              Some (with_kind sy (diag_on ''OWN002'' (msg_after verb n ''consumed'') line sy))
            else Some (with_kind sy (diag_on ''OWN002'' (msg_after verb n ''released'') line sy)))
         else if S \<inter> {RELEASED, ESCAPED} \<noteq> {} then
           Some (with_kind sy (diag_on ''OWN009'' (msg_maybe verb n ''released'') line sy))
         else if MOVED \<in> S then
           Some (with_kind sy (diag_on ''OWN010'' (msg_maybe verb n ''moved'') line sy))
         else None)"

definition msg_cannot_while :: "string \<Rightarrow> string \<Rightarrow> string" where
  "msg_cannot_while verb n = ''cannot '' @ verb @ '' '' @ quoted n @ '' while it is borrowed''"

definition consume_like :: "State \<Rightarrow> Symbol \<Rightarrow> string \<Rightarrow> int \<Rightarrow> string \<Rightarrow> Diagnostic list" where
  "consume_like st sy verb line code_borrowed =
     (case state_problem st sy verb line of
        Some d \<Rightarrow> [d]
      | None \<Rightarrow> if borrowed st sy
                then [diag_on code_borrowed (msg_cannot_while verb (sy_name sy)) line sy]
                else [])"

definition check_mut_borrowable :: "State \<Rightarrow> Symbol \<Rightarrow> int \<Rightarrow> Diagnostic list" where
  "check_mut_borrowable st owner line =
     (case state_problem st owner ''mutably borrow'' line of
        Some d \<Rightarrow> [d]
      | None \<Rightarrow>
          (case loans_on st owner of (shared, mut) \<Rightarrow>
             if shared > 0 then [diag_on ''OWN006'' (''cannot mutably borrow '' @ quoted (sy_name owner)
                @ '': a shared borrow is live'') line owner]
             else if mut then [diag_on ''OWN011'' (''cannot mutably borrow '' @ quoted (sy_name owner)
                @ '': it is already mutably borrowed'') line owner]
             else []))"

definition check_shared_borrowable :: "State \<Rightarrow> Symbol \<Rightarrow> int \<Rightarrow> Diagnostic list" where
  "check_shared_borrowable st owner line =
     (case state_problem st owner ''borrow'' line of
        Some d \<Rightarrow> [d]
      | None \<Rightarrow>
          (case loans_on st owner of (shared, mut) \<Rightarrow>
             if mut then [diag_on ''OWN012'' (''cannot share-borrow '' @ quoted (sy_name owner)
                @ '': it is mutably borrowed'') line owner]
             else []))"

definition leak_check :: "CFG \<Rightarrow> State \<Rightarrow> int \<Rightarrow> string \<Rightarrow> Symbol option \<Rightarrow> Diagnostic list" where
  "leak_check c st at_line context_text exclude =
     (let excl = map_option (rid_of st) exclude
      in concat (map (\<lambda>(rid, states).
           if Some rid = excl then []
           else if OWNED \<in> states then
             (let sy = sym_by_id c rid;
                  name = (case sy of Some s \<Rightarrow> sy_name s | None \<Rightarrow> ''#'' @ nat_str rid)
              in [(mk_diag ''OWN001'' (quoted name @ '' is owned but not released '' @ context_text
                     @ '' (leaks on at least one path)'') at_line)
                  \<lparr>dg_subject := (case sy of Some s \<Rightarrow> sy_origin s | None \<Rightarrow> None),
                   dg_resource_kind := (case sy of Some s \<Rightarrow> sy_resource_kind s | None \<Rightarrow> None),
                   dg_evidence := acquired_evidence c st rid\<rparr>])
           else []) (st_var st)))"

subsection \<open>Calls\<close>

definition msg_buffer_consumed :: "Symbol \<Rightarrow> BufferInfo \<Rightarrow> string \<Rightarrow> string" where
  "msg_buffer_consumed s i callee = quoted (sy_name s) @ '' is a '' @ mode_value (bi_mode i)
     @ '' buffer and may be stack-backed; it cannot be moved to a longer-lived owner by ''
     @ ''consuming it in '' @ quoted callee"

definition msg_buffer_no_lowering :: "Symbol \<Rightarrow> BufferInfo \<Rightarrow> string \<Rightarrow> string" where
  "msg_buffer_no_lowering s i callee = quoted (sy_name s) @ '' is a '' @ mode_value (bi_mode i)
     @ '' buffer; the PoC code generator cannot lower an escaping buffer, so consuming it in ''
     @ quoted callee @ '' is rejected''"

definition buffer_consumed_diags :: "Symbol \<Rightarrow> string \<Rightarrow> int \<Rightarrow> Diagnostic list" where
  "buffer_consumed_diags s callee line =
     (case sy_buffer s of
        None \<Rightarrow> []
      | Some i \<Rightarrow>
          if stack_backed i then
            [with_evidence
               [mk_evidence (bi_line i) (quoted (sy_name s) @ '' allocated here'') ''acquired'',
                mk_evidence line (''consumed by '' @ quoted callee @ '' here'') ''consumed'']
               (diag_on ''OWN016'' (msg_buffer_consumed s i callee) line s)]
          else [diag_on ''OWN017'' (msg_buffer_no_lowering s i callee) line s])"

definition msg_arg :: "string \<Rightarrow> string \<Rightarrow> string \<Rightarrow> string" where
  "msg_arg n callee what = ''argument '' @ quoted n @ '' to '' @ quoted callee @ what"

definition msg_outside_region :: "string \<Rightarrow> string" where
  "msg_outside_region n = ''borrow '' @ quoted n @ '' used outside its live region''"

definition set_var :: "nat \<Rightarrow> VarState \<Rightarrow> State \<Rightarrow> State" where
  "set_var rid v st = st\<lparr>st_var := dict_set (st_var st) rid {v}\<rparr>"

text \<open>\<open>_apply_effect\<close>: the state after one argument and the diagnostics.\<close>

definition apply_effect ::
  "State \<Rightarrow> Symbol \<Rightarrow> Effect \<Rightarrow> string \<Rightarrow> int \<Rightarrow> State \<times> Diagnostic list" where
  "apply_effect st sy eff callee line =
     (let n = sy_name sy
      in (case sy_kind sy of
            OWNED_kind \<Rightarrow>
              (case eff of
                 CONSUME_eff \<Rightarrow>
                   (set_var (rid_of st sy) ESCAPED st,
                    consume_like st sy ''consume'' line ''OWN007''
                    @ buffer_consumed_diags sy callee line)
               | BORROW_MUT_eff \<Rightarrow> (st, check_mut_borrowable st sy line)
               | BORROW_eff \<Rightarrow> (st, check_shared_borrowable st sy line)
               | PLAIN_eff \<Rightarrow> (st, [mk_diag ''OWN041''
                   (msg_arg n callee '' is an owned resource but the parameter is a plain value'') line]))
          | BORROW_kind \<Rightarrow>
              (case eff of
                 BORROW_eff \<Rightarrow>
                   (st, if binding_live st sy then []
                        else [mk_diag ''OWN004'' (msg_outside_region n) line])
               | BORROW_MUT_eff \<Rightarrow>
                   (st, if sy_borrow_is_mut sy = Some False
                        then [mk_diag ''OWN041'' (''cannot pass shared borrow '' @ quoted n @ '' to ''
                               @ quoted callee @ '': a mutable borrow is required'') line]
                        else [])
               | CONSUME_eff \<Rightarrow> (st, [mk_diag ''OWN034'' (''cannot consume '' @ quoted n
                   @ '': it is a borrow, not an owned resource'') line])
               | PLAIN_eff \<Rightarrow> (st, [mk_diag ''OWN041''
                   (msg_arg n callee '': a borrow cannot be passed as a plain value'') line]))
          | PLAIN_kind \<Rightarrow>
              (st, if eff \<in> {BORROW_eff, BORROW_MUT_eff, CONSUME_eff}
                   then [mk_diag ''OWN041''
                     (msg_arg n callee '': a plain value cannot satisfy a resource parameter'') line]
                   else [])))"

fun apply_effects ::
  "State \<Rightarrow> (Symbol option \<times> Effect) list \<Rightarrow> string \<Rightarrow> int \<Rightarrow> State \<times> Diagnostic list" where
  "apply_effects st [] callee line = (st, [])"
| "apply_effects st ((None, eff) # args) callee line = apply_effects st args callee line"
| "apply_effects st ((Some sy, eff) # args) callee line =
     (let (st1, ds1) = apply_effect st sy eff callee line;
          (st2, ds2) = apply_effects st1 args callee line
      in (st2, ds1 @ ds2))"

section \<open>Transfer\<close>

definition acquire_at :: "Symbol \<Rightarrow> int \<Rightarrow> State \<Rightarrow> State" where
  "acquire_at sy line st =
     (let (rid, st1) = mint sy st; st2 = set_var rid OWNED st1
      in st2\<lparr>st_acquired_at := dict_set (st_acquired_at st2) rid (line, True)\<rparr>)"

definition move_into :: "Symbol \<Rightarrow> Symbol \<Rightarrow> int \<Rightarrow> State \<Rightarrow> State" where
  "move_into dst src line st =
     (let src_rid = rid_of st src;
          st1 = (if OWNED \<in> var_of st src_rid
                 then st\<lparr>st_moved_at := dict_set (st_moved_at st) src_rid (line, True)\<rparr> else st)
      in acquire_at dst line (set_var src_rid MOVED st1))"

definition release_diags :: "State \<Rightarrow> Symbol \<Rightarrow> int \<Rightarrow> Diagnostic list" where
  "release_diags st sy line =
     (let S = var_of st (rid_of st sy); n = sy_name sy
      in if S = {RELEASED} then
           [with_kind sy (diag_on ''OWN003'' (quoted n @ '' is released twice'') line sy)]
         else if RELEASED \<in> S then
           [with_kind sy (diag_on ''OWN003'' (quoted n
              @ '' may already be released on some path before this release'') line sy)]
         else
           (case state_problem st sy ''release'' line of
              Some d \<Rightarrow> [d]
            | None \<Rightarrow> if borrowed st sy
                then [with_kind sy (diag_on ''OWN008'' (msg_cannot_while ''release'' n) line sy)]
                else []))"

definition use_diags :: "State \<Rightarrow> Symbol \<Rightarrow> int \<Rightarrow> Diagnostic list" where
  "use_diags st sy line =
     (case sy_kind sy of
        OWNED_kind \<Rightarrow>
          (case state_problem st sy ''use'' line of
             Some d \<Rightarrow> [d]
           | None \<Rightarrow> if snd (loans_on st sy)
               then [diag_on ''OWN013'' (''cannot use '' @ quoted (sy_name sy)
                      @ '' directly while it is mutably borrowed'') line sy]
               else [])
      | BORROW_kind \<Rightarrow>
          (if binding_live st sy then []
           else [mk_diag ''OWN004'' (msg_outside_region (sy_name sy)) line])
      | PLAIN_kind \<Rightarrow> [])"

definition overspan_diags :: "Symbol \<Rightarrow> int \<Rightarrow> Diagnostic list" where
  "overspan_diags sy line = [with_kind sy (diag_on ''OWN025'' (quoted (sy_name sy)
     @ '' is viewed at its full backing length, past the logical length it was rented for ''
     @ ''(over-read / over-clear)'') line sy)]"

definition borrow_start :: "Symbol \<Rightarrow> Symbol \<Rightarrow> bool \<Rightarrow> State \<Rightarrow> State" where
  "borrow_start owner binding mut st = st\<lparr>st_loans := dict_set (st_loans st) (sid binding)
     \<lparr>ln_loan_id = sid binding, ln_owner = rid_of st owner, ln_binding = sid binding,
      ln_kind = (if mut then MUT_loan else SHARED_loan)\<rparr>\<rparr>"

definition msg_stack_escape :: "Symbol \<Rightarrow> BufferInfo \<Rightarrow> string" where
  "msg_stack_escape s i = quoted (sy_name s) @ '' is a '' @ mode_value (bi_mode i)
     @ '' buffer and may be stack-backed; it cannot escape the current function''"

definition msg_movable_escape :: "Symbol \<Rightarrow> BufferInfo \<Rightarrow> string" where
  "msg_movable_escape s i = quoted (sy_name s) @ '' is a '' @ mode_value (bi_mode i)
     @ '' buffer; the PoC code generator cannot lower an escaping buffer to faithful .NET ''
     @ ''(the caller gets no handle to Return/Free), so returning it is rejected''"

definition buffer_returned_diags :: "Symbol \<Rightarrow> int \<Rightarrow> Diagnostic list" where
  "buffer_returned_diags s line =
     (case sy_buffer s of
        None \<Rightarrow> []
      | Some i \<Rightarrow>
          if stack_backed i then
            [with_evidence
               [mk_evidence (bi_line i) (quoted (sy_name s) @ '' allocated here'') ''acquired'',
                mk_evidence line ''escapes the function by return here'' ''escaped'']
               (diag_on ''OWN015'' (msg_stack_escape s i) line s)]
          else [diag_on ''OWN017'' (msg_movable_escape s i) line s])"

definition return_diags :: "State \<Rightarrow> Symbol \<Rightarrow> int \<Rightarrow> Diagnostic list" where
  "return_diags st sy line =
     (let S = var_of st (rid_of st sy); n = sy_name sy
      in if OWNED \<notin> S then
           (if MOVED \<in> S then
              [with_evidence (moved_evidence st (rid_of st sy))
                 (with_kind sy (diag_on ''OWN005'' (quoted n @ '' returned after it was moved'') line sy))]
            else [with_kind sy (diag_on ''OWN002'' (quoted n @ '' returned after it was released'') line sy)])
         else if borrowed st sy then
           [with_kind sy (diag_on ''OWN007'' (msg_cannot_while ''return'' n) line sy)]
         else buffer_returned_diags sy line)"

fun step :: "CFG \<Rightarrow> Instr \<Rightarrow> State \<Rightarrow> State \<times> Diagnostic list" where
  "step c (Acquire_i sy res line) st = (acquire_at sy line st, [])"
| "step c (AcquireBuffer_i sy info line) st = (acquire_at sy line st, [])"
| "step c (MoveInto_i dst src line) st =
     (move_into dst src line st, consume_like st src ''move'' line ''OWN007'')"
| "step c (AliasJoin_i handle src line) st =
     (st\<lparr>st_handle_rid := dict_set (st_handle_rid st) (sid handle) (rid_of st src)\<rparr>, [])"
| "step c (Release_i sy line) st =
     (set_var (rid_of st sy) RELEASED st, release_diags st sy line)"
| "step c (Use_i sy line) st = (st, use_diags st sy line)"
| "step c (Overspan_i sy line) st = (st, overspan_diags sy line)"
| "step c (Invoke_i callee args line) st = apply_effects st args callee line"
| "step c (BorrowStart_i owner binding mut line) st =
     (borrow_start owner binding mut st,
      if mut then check_mut_borrowable st owner line else check_shared_borrowable st owner line)"
| "step c (BorrowEnd_i owner binding mut line) st =
     (st\<lparr>st_loans := dict_del (st_loans st) (sid binding)\<rparr>, [])"
| "step c (Return_i None line) st = (st, leak_check c st line ''before return'' None)"
| "step c (Return_i (Some sy) line) st =
     (set_var (rid_of st sy) ESCAPED st,
      leak_check c st line ''before return'' (Some sy) @ return_diags st sy line)"

fun steps :: "CFG \<Rightarrow> Instr list \<Rightarrow> State \<Rightarrow> State \<times> Diagnostic list" where
  "steps c [] st = (st, [])"
| "steps c (i # is) st =
     (let (st1, ds1) = step c i st; (st2, ds2) = steps c is st1 in (st2, ds1 @ ds2))"

definition transfer :: "CFG \<Rightarrow> Block \<Rightarrow> State \<Rightarrow> State" where
  "transfer c blk st = fst (steps c (bl_instrs blk) st)"

definition block_diags :: "CFG \<Rightarrow> Block \<Rightarrow> State \<Rightarrow> Diagnostic list" where
  "block_diags c blk st = snd (steps c (bl_instrs blk) st)"

section \<open>Reachability and the worklist\<close>

definition initial_state :: "CFG \<Rightarrow> State" where
  "initial_state c = foldl (\<lambda>st p. if sy_kind p = OWNED_kind
       then (case mint p st of (rid, st1) \<Rightarrow> set_var rid OWNED st1) else st)
     empty_state (cf_params c)"

text \<open>\<open>self.blocks[id]\<close>: the last block with that id, or a \<open>KeyError\<close>.\<close>

definition block_at :: "CFG \<Rightarrow> nat \<Rightarrow> Block option" where
  "block_at c i = map_of (rev (map (\<lambda>b. (bl_id b, b)) (cf_blocks c))) i"

lemma block_at_SomeD: "block_at c i = Some b \<Longrightarrow> b \<in> set (cf_blocks c) \<and> bl_id b = i"
  by (auto simp: block_at_def dest!: map_of_SomeD)

text \<open>
  The depth-first walk pops the last element of the stack and pushes the successors; the stack
  is kept with its top first, so the pushed successors come reversed.
\<close>

function reach_loop :: "CFG \<Rightarrow> nat list \<Rightarrow> nat set \<Rightarrow> nat set option" where
  "reach_loop c [] seen = Some seen"
| "reach_loop c (x # stack) seen =
     (if x \<in> seen then reach_loop c stack seen
      else (case block_at c x of
              None \<Rightarrow> None
            | Some b \<Rightarrow> reach_loop c (rev (bl_succ b) @ stack) (insert x seen)))"
  by pat_completeness auto
termination
proof (relation "inv_image (less_than <*lex*> less_than)
    (\<lambda>(c, stack, seen). (card (bl_id ` set (cf_blocks c) - seen), length stack))", goal_cases)
  case 1
  then show ?case by auto
next
  case 2
  then show ?case by simp
next
  case (3 c x stack seen b)
  then have "x \<in> bl_id ` set (cf_blocks c) - seen"
    by (auto dest: block_at_SomeD)
  then have "card (bl_id ` set (cf_blocks c) - insert x seen) < card (bl_id ` set (cf_blocks c) - seen)"
    by (intro psubset_card_mono) auto
  then show ?case by simp
qed

definition reachable :: "CFG \<Rightarrow> nat set option" where
  "reachable c = reach_loop c [cf_entry c] {}"

fun join_all :: "State \<Rightarrow> State list \<Rightarrow> (AnalysisError, State) result" where
  "join_all st [] = Inr st"
| "join_all st (s # ss) = rbind (join st s) (\<lambda>st'. join_all st' ss)"

definition in_state_of ::
  "CFG \<Rightarrow> nat \<Rightarrow> (nat, nat list) dict \<Rightarrow> nat set \<Rightarrow> (nat, State) dict
   \<Rightarrow> (AnalysisError, State) result" where
  "in_state_of c bid ps reach outs =
     (if bid = cf_entry c then Inr (initial_state c)
      else
        (case concat (map (\<lambda>p. if p \<in> reach then opt_list (dict_get outs p) else [])
                (dict_get_or ps bid [])) of
           [] \<Rightarrow> Inr empty_state
         | s # ss \<Rightarrow> join_all s ss))"

text \<open>\<open>for s in succ: if s in reachable and s not in queued\<close>, on the queue and the queued set.\<close>

fun requeue :: "nat list \<Rightarrow> nat set \<Rightarrow> nat list \<Rightarrow> nat set \<Rightarrow> nat list \<times> nat set" where
  "requeue [] reach work queued = (work, queued)"
| "requeue (s # ss) reach work queued =
     (if s \<in> reach \<and> s \<notin> queued then requeue ss reach (work @ [s]) (insert s queued)
      else requeue ss reach work queued)"

text \<open>
  The worklist loop: \<open>None\<close> is a loop that does not return. Its state is the in-states, the
  out-states, the queue and the queued set.
\<close>

partial_function (option) fixpoint_loop ::
  "CFG \<Rightarrow> (nat, nat list) dict \<Rightarrow> nat set \<Rightarrow> (nat, State) dict \<Rightarrow> (nat, State) dict \<Rightarrow> nat list
   \<Rightarrow> nat set \<Rightarrow> (AnalysisError, (nat, State) dict) result option" where
  "fixpoint_loop c ps reach ins outs work queued =
     (case work of
        [] \<Rightarrow> Some (Inr ins)
      | bid # rest \<Rightarrow>
          (case (block_at c bid, in_state_of c bid ps reach outs) of
             (None, _) \<Rightarrow> Some (Inl BlockKeyError)
           | (Some blk, Inl e) \<Rightarrow> Some (Inl e)
           | (Some blk, Inr st) \<Rightarrow>
               (let ins' = dict_set ins bid st;
                    new_out = transfer c blk st;
                    queued' = queued - {bid}
                in if dict_get outs bid = None \<or> \<not> state_eq new_out (the (dict_get outs bid))
                   then (case requeue (bl_succ blk) reach rest queued' of (work', queued'') \<Rightarrow>
                           fixpoint_loop c ps reach ins' (dict_set outs bid new_out) work' queued'')
                   else fixpoint_loop c ps reach ins' outs rest queued')))"

text \<open>One turn of the loop, for evaluation: \<open>fixpoint_loop\<close> takes turns until the queue is empty.\<close>

definition loop_turn ::
  "CFG \<Rightarrow> (nat, nat list) dict \<Rightarrow> nat set \<Rightarrow> (nat, State) dict \<Rightarrow> (nat, State) dict \<Rightarrow> nat \<Rightarrow> nat list
   \<Rightarrow> nat set \<Rightarrow> (AnalysisError, (nat, State) dict \<times> (nat, State) dict \<times> nat list \<times> nat set) result" where
  "loop_turn c ps reach ins outs bid rest queued =
     (case (block_at c bid, in_state_of c bid ps reach outs) of
        (None, _) \<Rightarrow> Inl BlockKeyError
      | (Some blk, Inl e) \<Rightarrow> Inl e
      | (Some blk, Inr st) \<Rightarrow>
          (let new_out = transfer c blk st
           in if dict_get outs bid = None \<or> \<not> state_eq new_out (the (dict_get outs bid))
              then (case requeue (bl_succ blk) reach rest (queued - {bid}) of (work', queued') \<Rightarrow>
                      Inr (dict_set ins bid st, dict_set outs bid new_out, work', queued'))
              else Inr (dict_set ins bid st, outs, rest, queued - {bid})))"

lemma fixpoint_loop_code [code]:
  "fixpoint_loop c ps reach ins outs [] queued = Some (Inr ins)"
  "fixpoint_loop c ps reach ins outs (bid # rest) queued =
     (case loop_turn c ps reach ins outs bid rest queued of
        Inl e \<Rightarrow> Some (Inl e)
      | Inr (ins', outs', work', queued') \<Rightarrow> fixpoint_loop c ps reach ins' outs' work' queued')"
  by (simp_all add: fixpoint_loop.simps [of c ps reach ins outs] loop_turn_def Let_def split: option.split sum.split prod.split)

definition fixpoint :: "CFG \<Rightarrow> nat set \<Rightarrow> (AnalysisError, (nat, State) dict) result option" where
  "fixpoint c reach =
     (case preds c of
        None \<Rightarrow> Some (Inl BlockKeyError)
      | Some ps \<Rightarrow> fixpoint_loop c ps reach [] [] (sorted_list_of_set reach) reach)"

section \<open>The two passes\<close>

definition first_line :: "CFG \<Rightarrow> int" where
  "first_line c = (case filter (\<lambda>b. bl_instrs b \<noteq> []) (cf_blocks c) of
       [] \<Rightarrow> 0 | b # _ \<Rightarrow> instr_line (hd (bl_instrs b)))"

definition last_line :: "CFG \<Rightarrow> Block \<Rightarrow> int" where
  "last_line c b = (if bl_instrs b = [] then first_line c else instr_line (last (bl_instrs b)))"

definition ends_in_return :: "Block \<Rightarrow> bool" where
  "ends_in_return b \<longleftrightarrow> bl_instrs b \<noteq> []
     \<and> (case last (bl_instrs b) of Return_i _ _ \<Rightarrow> True | _ \<Rightarrow> False)"

definition exit_diags :: "CFG \<Rightarrow> Block \<Rightarrow> State \<Rightarrow> Diagnostic list" where
  "exit_diags c b st =
     (if bl_succ b \<noteq> [] \<or> ends_in_return b then []
      else leak_check c (transfer c b st) (last_line c b) ''at end of function'' None)"

text \<open>
  \<open>run\<close>: the emitting transfer of every reachable block in id order, then the leak check of the
  blocks that fall off the end.
\<close>

definition emit_all :: "CFG \<Rightarrow> nat set \<Rightarrow> (nat, State) dict \<Rightarrow> Diagnostic list" where
  "emit_all c reach ins =
     (let order = sorted_list_of_set reach;
          at = (\<lambda>f bid. case (block_at c bid, dict_get ins bid) of
                  (Some b, Some st) \<Rightarrow> f b st | _ \<Rightarrow> [])
      in concat (map (at (block_diags c)) order) @ concat (map (at (exit_diags c)) order))"

definition analyze :: "CFG \<Rightarrow> (AnalysisError, Diagnostic list) result option" where
  "analyze c =
     (case reachable c of
        None \<Rightarrow> Some (Inl BlockKeyError)
      | Some reach \<Rightarrow>
          (case fixpoint c reach of
             None \<Rightarrow> None
           | Some r \<Rightarrow> Some (rbind r (\<lambda>ins. Inr (emit_all c reach ins)))))"

text \<open>Unfolding everything, for evaluation by the simplifier.\<close>

lemmas analysis_eval =
  empty_state_def state_eq_def rid_of_def mint_def var_of_def join_site_def join_var_def
  join_def cfg_symbols_def sym_by_id_def diag_on_def with_kind_def with_evidence_def
  moved_evidence_def acquired_evidence_def loans_on_def borrowed_def binding_live_def
  msg_after_def msg_maybe_def state_problem_def msg_cannot_while_def consume_like_def
  check_mut_borrowable_def check_shared_borrowable_def leak_check_def msg_buffer_consumed_def
  msg_buffer_no_lowering_def buffer_consumed_diags_def msg_arg_def msg_outside_region_def
  set_var_def apply_effect_def acquire_at_def move_into_def release_diags_def use_diags_def
  overspan_diags_def borrow_start_def msg_stack_escape_def msg_movable_escape_def
  buffer_returned_diags_def return_diags_def transfer_def block_diags_def initial_state_def
  block_at_def reachable_def in_state_of_def loop_turn_def fixpoint_def first_line_def
  last_line_def ends_in_return_def exit_diags_def emit_all_def analyze_def dict_eq_def
  dict_del_def opt_list_def fixpoint_loop_code steps.simps apply_effects.simps

end
