(* ===== verification/Own_Machine.thy ===== *)
theory Own_Machine
  imports Own_Analysis
begin

text \<open>
  What a function body does at run time, independently of the analysis: one status per resource
  instead of a set, the handles bound so far and the live loans. An instruction either succeeds,
  faults (the misuse the OWN codes name) or uses a handle that nothing bound. \<open>reaches\<close> collects
  the states with which executions enter a block; every branch of the graph may be taken.
\<close>

record Conc =
  cs_var :: "(nat, VarState) dict"
  cs_handle :: "(nat, nat) dict"
  cs_loans :: "(nat \<times> nat \<times> bool) set"

text \<open>
  \<open>GoneReturn\<close>: handing the caller a resource that is already gone; every other misuse is
  \<open>Misuse\<close>.
\<close>

datatype FaultKind = Misuse | GoneReturn

datatype 'a outcome = Ok 'a | Fault FaultKind | Unbound

definition obind :: "'a outcome \<Rightarrow> ('a \<Rightarrow> 'b outcome) \<Rightarrow> 'b outcome" where
  "obind r f = (case r of Ok x \<Rightarrow> f x | Fault k \<Rightarrow> Fault k | Unbound \<Rightarrow> Unbound)"

lemma obind_simps [simp]:
  "obind (Ok x) f = f x" "obind (Fault k) f = Fault k" "obind Unbound f = Unbound"
  by (simp_all add: obind_def)

lemma obind_eq_Ok: "obind r f = Ok y \<longleftrightarrow> (\<exists>x. r = Ok x \<and> f x = Ok y)"
  by (cases r) simp_all

lemma obind_eq_Fault: "obind r f = Fault k \<longleftrightarrow> r = Fault k \<or> (\<exists>x. r = Ok x \<and> f x = Fault k)"
  by (cases r) simp_all

definition cset :: "nat \<Rightarrow> VarState \<Rightarrow> Conc \<Rightarrow> Conc" where
  "cset r v \<sigma> = \<sigma>\<lparr>cs_var := dict_set (cs_var \<sigma>) r v\<rparr>"

definition cown :: "Symbol \<Rightarrow> Conc \<Rightarrow> Conc" where
  "cown s \<sigma> = (cset (sid s) OWNED \<sigma>)\<lparr>cs_handle := dict_set (cs_handle \<sigma>) (sid s) (sid s)\<rparr>"

text \<open>The resource a handle denotes, with its status.\<close>

definition status :: "Conc \<Rightarrow> Symbol \<Rightarrow> (nat \<times> VarState) option" where
  "status \<sigma> s = (case dict_get (cs_handle \<sigma>) (sid s) of
       None \<Rightarrow> None | Some r \<Rightarrow> map_option (Pair r) (dict_get (cs_var \<sigma>) r))"

definition loaned :: "Conc \<Rightarrow> nat \<Rightarrow> bool" where
  "loaned \<sigma> r \<longleftrightarrow> (\<exists>l\<in>cs_loans \<sigma>. fst (snd l) = r)"

definition mut_loaned :: "Conc \<Rightarrow> nat \<Rightarrow> bool" where
  "mut_loaned \<sigma> r \<longleftrightarrow> (\<exists>l\<in>cs_loans \<sigma>. snd l = (r, True))"

definition live_binding :: "Conc \<Rightarrow> Symbol \<Rightarrow> bool" where
  "live_binding \<sigma> s \<longleftrightarrow> sy_is_param_borrow s \<or> (\<exists>l\<in>cs_loans \<sigma>. fst l = sid s)"

definition leaks :: "Conc \<Rightarrow> nat option \<Rightarrow> bool" where
  "leaks \<sigma> ex \<longleftrightarrow> (\<exists>r\<in>set (dict_keys (cs_var \<sigma>)). Some r \<noteq> ex \<and> dict_get (cs_var \<sigma>) r = Some OWNED)"

text \<open>An operation that needs its operand owned and \<open>ok\<close>.\<close>

definition need_owned ::
  "Conc \<Rightarrow> Symbol \<Rightarrow> (nat \<Rightarrow> bool) \<Rightarrow> (nat \<Rightarrow> Conc) \<Rightarrow> Conc outcome" where
  "need_owned \<sigma> s ok k = (case status \<sigma> s of
       None \<Rightarrow> Unbound
     | Some (r, v) \<Rightarrow> if v = OWNED \<and> ok r then Ok (k r) else Fault Misuse)"

definition may_lend :: "Conc \<Rightarrow> bool \<Rightarrow> nat \<Rightarrow> bool" where
  "may_lend \<sigma> mut r \<longleftrightarrow> (if mut then \<not> loaned \<sigma> r else \<not> mut_loaned \<sigma> r)"

definition carg :: "Symbol \<Rightarrow> Effect \<Rightarrow> Conc \<Rightarrow> Conc outcome" where
  "carg s eff \<sigma> = (case (sy_kind s, eff) of
       (OWNED_kind, CONSUME_eff) \<Rightarrow>
         need_owned \<sigma> s (\<lambda>r. \<not> loaned \<sigma> r \<and> sy_buffer s = None) (\<lambda>r. cset r ESCAPED \<sigma>)
     | (OWNED_kind, BORROW_MUT_eff) \<Rightarrow> need_owned \<sigma> s (may_lend \<sigma> True) (\<lambda>_. \<sigma>)
     | (OWNED_kind, BORROW_eff) \<Rightarrow> need_owned \<sigma> s (may_lend \<sigma> False) (\<lambda>_. \<sigma>)
     | (OWNED_kind, PLAIN_eff) \<Rightarrow> Fault Misuse
     | (BORROW_kind, BORROW_eff) \<Rightarrow> if live_binding \<sigma> s then Ok \<sigma> else Fault Misuse
     | (BORROW_kind, BORROW_MUT_eff) \<Rightarrow> if sy_borrow_is_mut s = Some False then Fault Misuse else Ok \<sigma>
     | (BORROW_kind, _) \<Rightarrow> Fault Misuse
     | (PLAIN_kind, PLAIN_eff) \<Rightarrow> Ok \<sigma>
     | (PLAIN_kind, _) \<Rightarrow> Fault Misuse)"

fun cargs :: "(Symbol option \<times> Effect) list \<Rightarrow> Conc \<Rightarrow> Conc outcome" where
  "cargs [] \<sigma> = Ok \<sigma>"
| "cargs ((None, eff) # as) \<sigma> = cargs as \<sigma>"
| "cargs ((Some s, eff) # as) \<sigma> = obind (carg s eff \<sigma>) (cargs as)"

fun cstep :: "Instr \<Rightarrow> Conc \<Rightarrow> Conc outcome" where
  "cstep (Acquire_i s res line) \<sigma> = Ok (cown s \<sigma>)"
| "cstep (AcquireBuffer_i s info line) \<sigma> = Ok (cown s \<sigma>)"
| "cstep (MoveInto_i dst src line) \<sigma> =
     need_owned \<sigma> src (\<lambda>r. \<not> loaned \<sigma> r) (\<lambda>r. cown dst (cset r MOVED \<sigma>))"
| "cstep (AliasJoin_i h src line) \<sigma> =
     (case dict_get (cs_handle \<sigma>) (sid src) of
        None \<Rightarrow> Unbound
      | Some r \<Rightarrow> Ok (\<sigma>\<lparr>cs_handle := dict_set (cs_handle \<sigma>) (sid h) r\<rparr>))"
| "cstep (Release_i s line) \<sigma> = need_owned \<sigma> s (\<lambda>r. \<not> loaned \<sigma> r) (\<lambda>r. cset r RELEASED \<sigma>)"
| "cstep (Use_i s line) \<sigma> =
     (case sy_kind s of
        OWNED_kind \<Rightarrow> need_owned \<sigma> s (\<lambda>r. \<not> mut_loaned \<sigma> r) (\<lambda>_. \<sigma>)
      | BORROW_kind \<Rightarrow> if live_binding \<sigma> s then Ok \<sigma> else Fault Misuse
      | PLAIN_kind \<Rightarrow> Ok \<sigma>)"
| "cstep (Overspan_i s line) \<sigma> = Fault Misuse"
| "cstep (Invoke_i f as line) \<sigma> = cargs as \<sigma>"
| "cstep (BorrowStart_i ow bd mut line) \<sigma> =
     need_owned \<sigma> ow (may_lend \<sigma> mut)
       (\<lambda>r. \<sigma>\<lparr>cs_loans := insert (sid bd, r, mut) {l \<in> cs_loans \<sigma>. fst l \<noteq> sid bd}\<rparr>)"
| "cstep (BorrowEnd_i ow bd mut line) \<sigma> =
     Ok (\<sigma>\<lparr>cs_loans := {l \<in> cs_loans \<sigma>. fst l \<noteq> sid bd}\<rparr>)"
| "cstep (Return_i None line) \<sigma> = (if leaks \<sigma> None then Fault Misuse else Ok \<sigma>)"
| "cstep (Return_i (Some s) line) \<sigma> =
     (case status \<sigma> s of
        None \<Rightarrow> Unbound
      | Some (r, v) \<Rightarrow>
          if leaks \<sigma> (Some r) then Fault Misuse
          else if v \<noteq> OWNED then Fault GoneReturn
          else if loaned \<sigma> r \<or> sy_buffer s \<noteq> None then Fault Misuse
          else Ok (cset r ESCAPED \<sigma>))"

fun csteps :: "Instr list \<Rightarrow> Conc \<Rightarrow> Conc outcome" where
  "csteps [] \<sigma> = Ok \<sigma>"
| "csteps (i # is) \<sigma> = obind (cstep i \<sigma>) (csteps is)"

text \<open>A block that falls off the end of the function must leave nothing owned behind.\<close>

definition run_block :: "Block \<Rightarrow> Conc \<Rightarrow> Conc outcome" where
  "run_block b \<sigma> = obind (csteps (bl_instrs b) \<sigma>)
     (\<lambda>\<sigma>'. if bl_succ b = [] \<and> \<not> ends_in_return b \<and> leaks \<sigma>' None then Fault Misuse else Ok \<sigma>')"

definition conc_init :: "CFG \<Rightarrow> Conc" where
  "conc_init c = foldl (\<lambda>\<sigma> p. if sy_kind p = OWNED_kind then cown p \<sigma> else \<sigma>)
     \<lparr>cs_var = [], cs_handle = [], cs_loans = {}\<rparr> (cf_params c)"

inductive reaches :: "CFG \<Rightarrow> nat \<Rightarrow> Conc \<Rightarrow> bool" for c where
  start: "reaches c (cf_entry c) (conc_init c)"
| edge: "reaches c b \<sigma> \<Longrightarrow> block_at c b = Some blk \<Longrightarrow> run_block blk \<sigma> = Ok \<sigma>'
    \<Longrightarrow> s \<in> set (bl_succ blk) \<Longrightarrow> reaches c s \<sigma>'"

inductive_cases reachesE: "reaches c b \<sigma>"

text \<open>Some execution faults; some execution uses a handle nothing bound.\<close>

definition faults :: "CFG \<Rightarrow> FaultKind \<Rightarrow> bool" where
  "faults c k \<longleftrightarrow> (\<exists>b \<sigma> blk. reaches c b \<sigma> \<and> block_at c b = Some blk \<and> run_block blk \<sigma> = Fault k)"

definition gets_unbound :: "CFG \<Rightarrow> bool" where
  "gets_unbound c \<longleftrightarrow> (\<exists>b \<sigma> blk. reaches c b \<sigma> \<and> block_at c b = Some blk \<and> run_block blk \<sigma> = Unbound)"

text \<open>One execution, given by the blocks it visits.\<close>

fun run_path :: "CFG \<Rightarrow> nat list \<Rightarrow> Conc \<Rightarrow> Conc outcome" where
  "run_path c [] \<sigma> = Ok \<sigma>"
| "run_path c [b] \<sigma> = (case block_at c b of None \<Rightarrow> Unbound | Some blk \<Rightarrow> run_block blk \<sigma>)"
| "run_path c (b # b' # bs) \<sigma> =
     (case block_at c b of
        None \<Rightarrow> Unbound
      | Some blk \<Rightarrow> if b' \<in> set (bl_succ blk) then obind (run_block blk \<sigma>) (run_path c (b' # bs))
                   else Unbound)"

lemma run_path_faults:
  "run_path c bs \<sigma> = Fault k \<Longrightarrow> bs \<noteq> [] \<Longrightarrow> reaches c (hd bs) \<sigma> \<Longrightarrow> faults c k"
proof (induction c bs \<sigma> rule: run_path.induct)
  case (2 c b \<sigma>)
  then show ?case by (auto simp: faults_def split: option.splits)
next
  case (3 c b b' bs \<sigma>)
  from "3.prems" obtain blk where blk: "block_at c b = Some blk" "b' \<in> set (bl_succ blk)"
    and f: "obind (run_block blk \<sigma>) (run_path c (b' # bs)) = Fault k"
    by (auto split: option.splits if_splits)
  show ?case
  proof (cases "run_block blk \<sigma>")
    case (Ok \<sigma>')
    with f "3.prems"(3) blk have "run_path c (b' # bs) \<sigma>' = Fault k" "reaches c b' \<sigma>'"
      by (auto intro: reaches.edge)
    with "3.IH" [OF blk] show ?thesis by simp
  next
    case (Fault k')
    with f "3.prems"(3) blk show ?thesis by (auto simp: faults_def)
  next
    case Unbound
    with f show ?thesis by simp
  qed
qed simp

section \<open>Abstract and concrete states\<close>

definition conc_loans :: "State \<Rightarrow> (nat \<times> nat \<times> bool) set" where
  "conc_loans st = {(k, ln_owner l, ln_kind l = MUT_loan) | k l. dict_get (st_loans st) k = Some l}"

text \<open>
  \<open>wf_state\<close>: the dictionaries have one entry per key and a loan is filed under its binding.
  \<open>gam st \<sigma>\<close>: the abstract state describes the concrete one.
\<close>

definition wf_state :: "State \<Rightarrow> bool" where
  "wf_state st \<longleftrightarrow> distinct (map fst (st_var st)) \<and> distinct (map fst (st_loans st))
     \<and> (\<forall>kl\<in>set (st_loans st). ln_binding (snd kl) = fst kl)"

definition handles_in :: "Conc \<Rightarrow> State \<Rightarrow> bool" where
  "handles_in \<sigma> st \<longleftrightarrow> (\<forall>h r. dict_get (cs_handle \<sigma>) h = Some r \<longrightarrow> dict_get (st_handle_rid st) h = Some r)"

definition gam :: "State \<Rightarrow> Conc \<Rightarrow> bool" where
  "gam st \<sigma> \<longleftrightarrow> handles_in \<sigma> st \<and> cs_loans \<sigma> = conc_loans st
     \<and> (\<forall>r v. dict_get (cs_var \<sigma>) r = Some v \<longrightarrow> v \<in> dict_get_or (st_var st) r {})"

text \<open>Unfolding everything, for evaluation by the simplifier.\<close>

lemmas machine_eval =
  cset_def cown_def status_def loaned_def mut_loaned_def live_binding_def leaks_def
  need_owned_def may_lend_def carg_def run_block_def conc_init_def dict_keys_def

end
