(* ===== verification/Own_Steps.thy ===== *)
theory Own_Steps
  imports Own_Machine
begin

text \<open>
  Abstract and concrete steps. \<open>gam\<close> is preserved by every instruction (\<open>step_gam\<close>), an
  instruction that reports nothing does not fault (\<open>step_quiet\<close>), and a state all of whose facts
  are realised by executions that succeed reports nothing (\<open>exact_quiet\<close>).
\<close>

lemma var_of_nonempty: "v \<in> dict_get_or (st_var st) r {} \<Longrightarrow> var_of st r = dict_get_or (st_var st) r {}"
  by (auto simp: var_of_def dict_get_or_def split: option.splits)

lemma wf_set_var [simp]: "wf_state st \<Longrightarrow> wf_state (set_var r v st)"
  by (simp add: wf_state_def set_var_def)

lemma wf_acquire_at [simp]: "wf_state st \<Longrightarrow> wf_state (acquire_at s line st)"
  by (simp add: wf_state_def set_var_def acquire_at_def mint_def)

lemma wf_move_into [simp]: "wf_state st \<Longrightarrow> wf_state (move_into d s line st)"
  by (simp add: wf_state_def set_var_def acquire_at_def mint_def move_into_def Let_def)

lemma wf_set_sites [simp]:
  "wf_state (st\<lparr>st_handle_rid := hr\<rparr>) = wf_state st"
  by (simp add: wf_state_def)

lemma wf_borrow_start [simp]: "wf_state st \<Longrightarrow> wf_state (borrow_start ow bd m st)"
  by (auto simp: wf_state_def borrow_start_def dest!: set_dict_set)

lemma wf_borrow_end [simp]:
  "wf_state st \<Longrightarrow> wf_state (st\<lparr>st_loans := dict_del (st_loans st) k\<rparr>)"
  by (auto simp: wf_state_def) (auto simp: dict_del_def)

lemma wf_apply_effect [simp]: "wf_state st \<Longrightarrow> wf_state (fst (apply_effect st s eff f line))"
  by (simp add: apply_effect_def Let_def split: Kind.split Effect.split)

lemma apply_effects_Cons:
  "fst (apply_effects st ((Some s, eff) # as) f line)
     = fst (apply_effects (fst (apply_effect st s eff f line)) as f line)"
  "snd (apply_effects st ((Some s, eff) # as) f line) = snd (apply_effect st s eff f line)
     @ snd (apply_effects (fst (apply_effect st s eff f line)) as f line)"
  by (simp_all add: split_beta)

declare apply_effects.simps(3) [simp del]

lemma effect_args_induct [case_names Nil Plain Arg]:
  assumes "P []" "\<And>eff as. P as \<Longrightarrow> P ((None, eff) # as)" "\<And>s eff as. P as \<Longrightarrow> P ((Some s, eff) # as)"
  shows "P as"
proof (induction as)
  case (Cons a as)
  then show ?case using assms by (cases a; cases "fst a") auto
qed (simp add: assms)

lemma wf_apply_effects [simp]: "wf_state st \<Longrightarrow> wf_state (fst (apply_effects st as f line))"
  by (induction as arbitrary: st rule: effect_args_induct) (simp_all add: apply_effects_Cons)

lemma wf_step [simp]: "wf_state st \<Longrightarrow> wf_state (fst (step c i st))"
  by (induction c i st rule: step.induct) simp_all

lemma fst_steps: "fst (steps c (i # is) st) = fst (steps c is (fst (step c i st)))"
  by (simp add: split_beta)

lemma snd_steps: "snd (steps c (i # is) st) = snd (step c i st) @ snd (steps c is (fst (step c i st)))"
  by (simp add: split_beta)

declare steps.simps(2) [simp del]

lemma wf_steps [simp]: "wf_state st \<Longrightarrow> wf_state (fst (steps c is st))"
  by (induction "is" arbitrary: st) (simp_all add: fst_steps)

lemma conc_loans_iff:
  "wf_state st \<Longrightarrow> (k, ow, m) \<in> conc_loans st
     \<longleftrightarrow> (\<exists>l\<in>set (map snd (st_loans st)). ln_binding l = k \<and> ln_owner l = ow \<and> (ln_kind l = MUT_loan) = m)"
  unfolding wf_state_def conc_loans_def
  by (auto simp: mem_dict_get_distinct Bex_def)

lemma status_gam:
  assumes "gam st \<sigma>" "status \<sigma> s = Some (r, v)"
  shows "rid_of st s = r" "v \<in> var_of st r" "v \<in> dict_get_or (st_var st) r {}"
proof -
  from assms(2) have h: "dict_get (cs_handle \<sigma>) (sid s) = Some r" and v: "dict_get (cs_var \<sigma>) r = Some v"
    by (auto simp: status_def split: option.splits)
  from h assms(1) show "rid_of st s = r"
    by (simp add: gam_def handles_in_def rid_of_def dict_get_or_def)
  from v assms(1) show *: "v \<in> dict_get_or (st_var st) r {}"
    by (simp add: gam_def)
  from var_of_nonempty [OF this] * show "v \<in> var_of st r" by simp
qed

lemma loans_on_gam:
  assumes "wf_state st" "gam st \<sigma>" "rid_of st s = r"
  shows "snd (loans_on st s) = mut_loaned \<sigma> r" "borrowed st s = loaned \<sigma> r"
proof -
  have *: "(k, ow, m) \<in> cs_loans \<sigma> \<longleftrightarrow> (\<exists>l\<in>set (map snd (st_loans st)). ln_binding l = k \<and> ln_owner l = ow
        \<and> (ln_kind l = MUT_loan) = m)" for k ow m
    using conc_loans_iff [OF assms(1)] assms(2) by (simp add: gam_def)
  have k: "x \<noteq> SHARED_loan \<longleftrightarrow> x = MUT_loan" for x by (cases x) auto
  have mut: "mut_loaned \<sigma> r \<longleftrightarrow> (\<exists>k. (k, r, True) \<in> cs_loans \<sigma>)"
    and any: "loaned \<sigma> r \<longleftrightarrow> (\<exists>k m. (k, r, m) \<in> cs_loans \<sigma>)"
    by (force simp: mut_loaned_def loaned_def)+
  have m': "snd (loans_on st s) \<longleftrightarrow> (\<exists>l\<in>set (map snd (st_loans st)). ln_owner l = r \<and> ln_kind l = MUT_loan)"
    using assms(3) by (auto simp: loans_on_def Let_def k)
  have s': "0 < fst (loans_on st s) \<longleftrightarrow> (\<exists>l\<in>set (map snd (st_loans st)). ln_owner l = r \<and> ln_kind l \<noteq> MUT_loan)"
    using assms(3) k by (auto simp: loans_on_def Let_def filter_empty_conv)
  show "snd (loans_on st s) = mut_loaned \<sigma> r"
    unfolding m' mut * by blast
  have "borrowed st s \<longleftrightarrow> 0 < fst (loans_on st s) \<or> snd (loans_on st s)"
    by (simp add: borrowed_def split_beta)
  also have "\<dots> \<longleftrightarrow> loaned \<sigma> r"
    unfolding m' s' any * by blast
  finally show "borrowed st s = loaned \<sigma> r" .
qed

lemma binding_live_gam:
  assumes "wf_state st" "gam st \<sigma>"
  shows "binding_live st s = live_binding \<sigma> s"
proof -
  have *: "(k, ow, m) \<in> cs_loans \<sigma> \<longleftrightarrow> (\<exists>l\<in>set (map snd (st_loans st)). ln_binding l = k \<and> ln_owner l = ow
        \<and> (ln_kind l = MUT_loan) = m)" for k ow m
    using conc_loans_iff [OF assms(1)] assms(2) by (simp add: gam_def)
  have live: "live_binding \<sigma> s \<longleftrightarrow> sy_is_param_borrow s \<or> (\<exists>ow m. (sid s, ow, m) \<in> cs_loans \<sigma>)"
    by (force simp: live_binding_def)
  show ?thesis
    unfolding live binding_live_def * by blast
qed

lemma state_problem_None:
  "v \<in> var_of st (rid_of st s) \<Longrightarrow> state_problem st s verb line = None \<longleftrightarrow> var_of st (rid_of st s) = {OWNED}"
proof -
  have "(OWNED \<in> S \<and> S \<inter> {RELEASED, ESCAPED} = {} \<and> MOVED \<notin> S) \<longleftrightarrow> S = {OWNED}" for S
    by (auto) (metis VarState.exhaust)
  then show ?thesis
    by (auto simp: state_problem_def Let_def)
qed

text \<open>The checks of an owner pass exactly when it is owned on every path and lent to nobody who matters.\<close>

lemma check_iffs:
  assumes "v \<in> var_of st (rid_of st s)"
  shows "consume_like st s verb line code = [] \<longleftrightarrow> var_of st (rid_of st s) = {OWNED} \<and> \<not> borrowed st s"
    "check_mut_borrowable st s line = [] \<longleftrightarrow> var_of st (rid_of st s) = {OWNED} \<and> \<not> borrowed st s"
    "check_shared_borrowable st s line = [] \<longleftrightarrow> var_of st (rid_of st s) = {OWNED} \<and> \<not> snd (loans_on st s)"
    "release_diags st s line = [] \<longleftrightarrow> var_of st (rid_of st s) = {OWNED} \<and> \<not> borrowed st s"
    "return_diags st s line = [] \<longleftrightarrow>
       OWNED \<in> var_of st (rid_of st s) \<and> \<not> borrowed st s \<and> sy_buffer s = None"
proof -
  note sp = state_problem_None [OF assms]
  have b: "borrowed st s \<longleftrightarrow> 0 < fst (loans_on st s) \<or> snd (loans_on st s)"
    by (simp add: borrowed_def split_beta)
  show "consume_like st s verb line code = [] \<longleftrightarrow> var_of st (rid_of st s) = {OWNED} \<and> \<not> borrowed st s"
    unfolding consume_like_def sp [symmetric, of verb line] by (cases "state_problem st s verb line") simp_all
  show "check_mut_borrowable st s line = [] \<longleftrightarrow> var_of st (rid_of st s) = {OWNED} \<and> \<not> borrowed st s"
    unfolding check_mut_borrowable_def b sp [symmetric, of "''mutably borrow''" line]
    by (cases "state_problem st s ''mutably borrow'' line") (auto split: prod.splits)
  show "check_shared_borrowable st s line = [] \<longleftrightarrow> var_of st (rid_of st s) = {OWNED} \<and> \<not> snd (loans_on st s)"
    unfolding check_shared_borrowable_def sp [symmetric, of "''borrow''" line]
    by (cases "state_problem st s ''borrow'' line") (auto split: prod.splits)
  have r: "RELEASED \<in> S \<Longrightarrow> S \<noteq> {OWNED}" "S = {RELEASED} \<Longrightarrow> S \<noteq> {OWNED}" for S by auto
  show "release_diags st s line = [] \<longleftrightarrow> var_of st (rid_of st s) = {OWNED} \<and> \<not> borrowed st s"
    using r [of "var_of st (rid_of st s)"]
    unfolding release_diags_def Let_def sp [symmetric, of "''release''" line]
    by (cases "state_problem st s ''release'' line") (auto split: if_splits)
  show "return_diags st s line = [] \<longleftrightarrow> OWNED \<in> var_of st (rid_of st s) \<and> \<not> borrowed st s \<and> sy_buffer s = None"
    by (simp add: return_diags_def Let_def buffer_returned_diags_def split: option.split)
qed

section \<open>A step describes what it did\<close>

lemma gam_set_var:
  "gam st \<sigma> \<Longrightarrow> gam (set_var r v st) (cset r v \<sigma>)"
  by (simp add: gam_def handles_in_def conc_loans_def set_var_def cset_def)

lemma gam_acquire_at: "gam st \<sigma> \<Longrightarrow> gam (acquire_at s line st) (cown s \<sigma>)"
  by (simp add: gam_def handles_in_def conc_loans_def set_var_def cset_def cown_def acquire_at_def mint_def)

lemma gam_moved_at: "gam (st\<lparr>st_moved_at := m\<rparr>) \<sigma> = gam st \<sigma>"
  by (simp add: gam_def handles_in_def conc_loans_def)

lemma gam_move_into:
  "gam st \<sigma> \<Longrightarrow> rid_of st s = r \<Longrightarrow> gam (move_into d s line st) (cown d (cset r MOVED \<sigma>))"
  by (auto simp: move_into_def Let_def gam_moved_at intro!: gam_acquire_at gam_set_var)

lemma need_owned_Ok:
  "need_owned \<sigma> s ok k = Ok \<sigma>' \<longleftrightarrow> (\<exists>r. status \<sigma> s = Some (r, OWNED) \<and> ok r \<and> \<sigma>' = k r)"
  by (auto simp: need_owned_def split: option.splits)

lemma need_owned_Fault:
  "need_owned \<sigma> s ok k = Fault q
     \<longleftrightarrow> q = Misuse \<and> (\<exists>r v. status \<sigma> s = Some (r, v) \<and> (v \<noteq> OWNED \<or> \<not> ok r))"
  by (auto simp: need_owned_def split: option.splits)

lemma conc_loans_borrow_start:
  "conc_loans (borrow_start ow bd m st)
     = insert (sid bd, rid_of st ow, m) {l \<in> conc_loans st. fst l \<noteq> sid bd}"
  by (auto simp: conc_loans_def borrow_start_def)

lemma conc_loans_borrow_end:
  "conc_loans (st\<lparr>st_loans := dict_del (st_loans st) k\<rparr>) = {l \<in> conc_loans st. fst l \<noteq> k}"
  by (auto simp: conc_loans_def)

lemma carg_gam:
  "gam st \<sigma> \<Longrightarrow> carg s eff \<sigma> = Ok \<sigma>' \<Longrightarrow> gam (fst (apply_effect st s eff f line)) \<sigma>'"
  by (auto simp: carg_def apply_effect_def Let_def need_owned_Ok status_gam gam_set_var
      split: Kind.splits Effect.splits if_splits)

lemma cargs_gam:
  "gam st \<sigma> \<Longrightarrow> cargs as \<sigma> = Ok \<sigma>' \<Longrightarrow> gam (fst (apply_effects st as f line)) \<sigma>'"
  by (induction as arbitrary: st \<sigma> rule: effect_args_induct)
    (auto simp: apply_effects_Cons obind_eq_Ok intro: carg_gam)

lemma gam_alias:
  "gam st \<sigma> \<Longrightarrow> dict_get (cs_handle \<sigma>) k = Some r \<Longrightarrow> dict_get (st_handle_rid st) k = Some r
    \<and> gam (st\<lparr>st_handle_rid := dict_set (st_handle_rid st) h r\<rparr>)
         (\<sigma>\<lparr>cs_handle := dict_set (cs_handle \<sigma>) h r\<rparr>)"
  by (simp add: gam_def handles_in_def conc_loans_def)

lemma step_gam:
  "gam st \<sigma> \<Longrightarrow> cstep i \<sigma> = Ok \<sigma>' \<Longrightarrow> gam (fst (step c i st)) \<sigma>'"
proof (induction i \<sigma> rule: cstep.induct)
  case (9 ow bd mut line \<sigma>)
  then obtain r where "status \<sigma> ow = Some (r, OWNED)"
    and "\<sigma>' = \<sigma>\<lparr>cs_loans := insert (sid bd, r, mut) {l \<in> cs_loans \<sigma>. fst l \<noteq> sid bd}\<rparr>"
    by (auto simp: need_owned_Ok)
  with 9 show ?case
    using status_gam(1) [of st \<sigma> ow r OWNED]
    by (auto simp: gam_def conc_loans_borrow_start) (auto simp: handles_in_def borrow_start_def)
next
  case (10 ow bd mut line \<sigma>)
  then show ?case
    by (auto simp: gam_def conc_loans_borrow_end) (auto simp: handles_in_def)
next
  case (4 h src line \<sigma>)
  then show ?case
    using gam_alias [of st \<sigma> "sid src"]
    by (auto simp: rid_of_def dict_get_or_def split: option.splits)
qed (auto simp: need_owned_Ok status_gam gam_set_var gam_acquire_at gam_move_into
      split: Kind.splits if_splits option.splits intro: cargs_gam)

lemma steps_gam:
  "gam st \<sigma> \<Longrightarrow> csteps is \<sigma> = Ok \<sigma>' \<Longrightarrow> gam (fst (steps c is st)) \<sigma>'"
  by (induction "is" arbitrary: st \<sigma>) (auto simp: fst_steps obind_eq_Ok intro: step_gam)

section \<open>A quiet step does not fault\<close>

lemma leak_check_quiet:
  assumes "wf_state st" "gam st \<sigma>" "leak_check c st line t ex = []"
    "map_option (rid_of st) ex = x"
  shows "\<not> leaks \<sigma> x"
proof
  assume "leaks \<sigma> x"
  then obtain r where r: "Some r \<noteq> x" "dict_get (cs_var \<sigma>) r = Some OWNED"
    by (auto simp: leaks_def)
  with assms(2) have "OWNED \<in> dict_get_or (st_var st) r {}" by (simp add: gam_def)
  then obtain S where "dict_get (st_var st) r = Some S" "OWNED \<in> S"
    by (auto simp: dict_get_or_def split: option.splits)
  then have "(r, S) \<in> set (st_var st)" "OWNED \<in> S" by (auto dest: dict_get_SomeD)
  with assms(3,4) r(1) show False
    by (fastforce simp: leak_check_def Let_def)
qed


text \<open>The operand of a check that is quiet: an owned resource, seen with its loans.\<close>

lemma need_owned_quiet:
  assumes "gam st \<sigma>" "need_owned \<sigma> s ok k = Fault q"
  obtains r v where "rid_of st s = r" "v \<in> var_of st (rid_of st s)" "v \<noteq> OWNED \<or> \<not> ok r"
  using assms status_gam [OF assms(1)] by (fastforce simp: need_owned_Fault)

lemma carg_quiet:
  assumes "wf_state st" "gam st \<sigma>" "snd (apply_effect st s eff f line) = []"
  shows "carg s eff \<sigma> \<noteq> Fault q"
proof
  assume F: "carg s eff \<sigma> = Fault q"
  note L = loans_on_gam [OF assms(1,2) refl]
  show False
    using F assms(3) binding_live_gam [OF assms(1,2)]
    by (cases "sy_kind s"; cases eff)
      (auto simp: carg_def apply_effect_def Let_def may_lend_def check_iffs L buffer_consumed_diags_def
        elim!: need_owned_quiet [OF assms(2)] split: if_splits option.splits)
qed

lemma cargs_quiet:
  "wf_state st \<Longrightarrow> gam st \<sigma> \<Longrightarrow> snd (apply_effects st as f line) = [] \<Longrightarrow> cargs as \<sigma> \<noteq> Fault q"
proof (induction as arbitrary: st \<sigma> rule: effect_args_induct)
  case (Arg s eff as)
  then have q: "snd (apply_effect st s eff f line) = []"
      "snd (apply_effects (fst (apply_effect st s eff f line)) as f line) = []"
    by (simp_all add: apply_effects_Cons)
  have "cargs as \<sigma>1 \<noteq> Fault q" if "carg s eff \<sigma> = Ok \<sigma>1" for \<sigma>1
    using Arg.IH [OF wf_apply_effect carg_gam [OF _ that] q(2)] Arg.prems by blast
  with q(1) Arg.prems show ?case by (auto simp: obind_eq_Fault carg_quiet)
qed simp_all

lemma return_quiet:
  assumes "wf_state st" "gam st \<sigma>" "snd (step c (Return_i (Some s) line) st) = []"
  shows "cstep (Return_i (Some s) line) \<sigma> \<noteq> Fault Misuse"
proof (cases "status \<sigma> s")
  case (Some rv)
  obtain r v where rv: "rv = (r, v)" by (cases rv)
  note S = status_gam [OF assms(2) Some [unfolded rv]]
  from assms(3) have "leak_check c st line ''before return'' (Some s) = []" "return_diags st s line = []"
    by simp_all
  moreover have "map_option (rid_of st) (Some s) = Some r" using S by simp
  ultimately have "\<not> leaks \<sigma> (Some r)" and "\<not> loaned \<sigma> r \<and> sy_buffer s = None"
    using leak_check_quiet [OF assms(1,2)] check_iffs(5) S loans_on_gam [OF assms(1,2) S(1)] by auto
  then show ?thesis by (simp add: Some rv)
qed simp

lemma step_quiet:
  assumes "wf_state st" "gam st \<sigma>" "snd (step c i st) = []"
  shows "cstep i \<sigma> \<noteq> Fault Misuse"
proof -
  note L = loans_on_gam [OF assms(1,2) refl] and B = binding_live_gam [OF assms(1,2)]
  note E = need_owned_quiet [OF assms(2)]
  show ?thesis
  proof (cases i)
    case (Return_i so line)
    then show ?thesis
      using return_quiet [OF assms(1,2)] leak_check_quiet [OF assms(1,2), of c line "''before return''" None None] assms(3)
      by (cases so) auto
  next
    case (Use_i s line)
    then show ?thesis
      using assms(3)
      by (auto simp: B L use_diags_def state_problem_None elim!: E split: Kind.splits option.splits if_splits)
  next
    case (Invoke_i f as line)
    then show ?thesis using assms cargs_quiet by auto
  next
    case (Overspan_i s line)
    then show ?thesis using assms(3) by (simp add: overspan_diags_def)
  next
    case (BorrowStart_i ow bd m line)
    then show ?thesis
      using assms(3) by (auto simp: may_lend_def check_iffs L elim!: E split: if_splits)
  qed (use assms(3) in \<open>auto simp: check_iffs L elim!: E split: option.splits\<close>)
qed


lemma steps_quiet:
  "wf_state st \<Longrightarrow> gam st \<sigma> \<Longrightarrow> snd (steps c is st) = [] \<Longrightarrow> csteps is \<sigma> \<noteq> Fault Misuse"
proof (induction "is" arbitrary: st \<sigma>)
  case (Cons i "is")
  then have q: "snd (step c i st) = []" "snd (steps c is (fst (step c i st))) = []"
    by (simp_all add: snd_steps)
  have "csteps is \<sigma>1 \<noteq> Fault Misuse" if "cstep i \<sigma> = Ok \<sigma>1" for \<sigma>1
    using Cons.IH [OF wf_step step_gam [OF _ that] q(2)] Cons.prems by blast
  with step_quiet [OF Cons.prems(1,2) q(1)] show ?case by (auto simp: obind_eq_Fault)
qed simp

section \<open>Nothing is reported of executions that all succeed\<close>

text \<open>
  \<open>covered st S\<close>: every fact of the abstract state is realised by a concrete state of \<open>S\<close>.
  \<open>post f S\<close>: the states in which \<open>f\<close> ends from \<open>S\<close>.
\<close>

definition covered :: "State \<Rightarrow> Conc set \<Rightarrow> bool" where
  "covered st S \<longleftrightarrow> (\<exists>\<sigma>\<in>S. handles_in \<sigma> st)
     \<and> (\<forall>r v. v \<in> dict_get_or (st_var st) r {}
          \<longrightarrow> (\<exists>\<sigma>\<in>S. handles_in \<sigma> st \<and> dict_get (cs_var \<sigma>) r = Some v))"

lemma coveredD:
  "covered st S \<Longrightarrow> v \<in> dict_get_or (st_var st) r {}
    \<Longrightarrow> \<exists>\<sigma>\<in>S. handles_in \<sigma> st \<and> dict_get (cs_var \<sigma>) r = Some v"
  by (simp add: covered_def)

definition post :: "(Conc \<Rightarrow> Conc outcome) \<Rightarrow> Conc set \<Rightarrow> Conc set" where
  "post f S = {\<sigma>'. \<exists>\<sigma>\<in>S. f \<sigma> = Ok \<sigma>'}"

definition all_ok :: "(Conc \<Rightarrow> Conc outcome) \<Rightarrow> Conc set \<Rightarrow> bool" where
  "all_ok f S \<longleftrightarrow> (\<forall>\<sigma>\<in>S. \<exists>\<sigma>'. f \<sigma> = Ok \<sigma>')"

lemma post_obind: "post (\<lambda>\<sigma>. obind (f \<sigma>) g) S = post g (post f S)"
  by (auto simp: post_def obind_eq_Ok)

lemma all_ok_obind: "all_ok (\<lambda>\<sigma>. obind (f \<sigma>) g) S \<longleftrightarrow> all_ok f S \<and> all_ok g (post f S)"
proof
  assume "all_ok (\<lambda>\<sigma>. obind (f \<sigma>) g) S"
  then have "\<exists>x. f \<sigma> = Ok x \<and> (\<exists>y. g x = Ok y)" if "\<sigma> \<in> S" for \<sigma>
    using that by (auto simp: all_ok_def obind_eq_Ok)
  then show "all_ok f S \<and> all_ok g (post f S)"
    by (fastforce simp: all_ok_def post_def)
next
  assume "all_ok f S \<and> all_ok g (post f S)"
  then have "\<exists>x. f \<sigma> = Ok x \<and> (\<exists>y. g x = Ok y)" if "\<sigma> \<in> S" for \<sigma>
    using that unfolding all_ok_def post_def by blast
  then show "all_ok (\<lambda>\<sigma>. obind (f \<sigma>) g) S"
    unfolding all_ok_def obind_eq_Ok by blast
qed

lemma post_Ok [simp]: "post Ok S = S"
  by (auto simp: post_def)

text \<open>An operation that overwrites the statuses \<open>u\<close> names, in both worlds.\<close>

lemma covered_update:
  assumes c: "covered st S"
    and st': "\<And>r. dict_get_or (st_var st') r {}
          = (case u r of Some v \<Rightarrow> {v} | None \<Rightarrow> dict_get_or (st_var st) r {})"
    and f: "\<And>\<sigma>. \<sigma> \<in> S \<Longrightarrow> handles_in \<sigma> st \<Longrightarrow> \<exists>\<sigma>'. f \<sigma> = Ok \<sigma>' \<and> handles_in \<sigma>' st'
          \<and> (\<forall>r. dict_get (cs_var \<sigma>') r = (case u r of Some v \<Rightarrow> Some v | None \<Rightarrow> dict_get (cs_var \<sigma>) r))"
  shows "covered st' (post f S)"
proof -
  have *: "\<exists>\<sigma>'\<in>post f S. handles_in \<sigma>' st' \<and> (\<forall>r. dict_get (cs_var \<sigma>') r
      = (case u r of Some v \<Rightarrow> Some v | None \<Rightarrow> dict_get (cs_var \<sigma>) r))"
    if "\<sigma> \<in> S" "handles_in \<sigma> st" for \<sigma>
    using f [OF that] that(1) by (auto simp: post_def)
  from c have "\<exists>\<sigma>\<in>S. handles_in \<sigma> st" by (simp add: covered_def)
  with * have 1: "\<exists>\<sigma>\<in>post f S. handles_in \<sigma> st'" by blast
  moreover have "\<exists>\<sigma>\<in>post f S. handles_in \<sigma> st' \<and> dict_get (cs_var \<sigma>) r = Some v"
    if v: "v \<in> dict_get_or (st_var st') r {}" for r v
  proof (cases "u r")
    case None
    with v c obtain \<sigma> where "\<sigma> \<in> S" "handles_in \<sigma> st" "dict_get (cs_var \<sigma>) r = Some v"
      unfolding st' covered_def by auto
    with * [of \<sigma>] None show ?thesis by fastforce
  next
    case (Some w)
    from c obtain \<sigma> where "\<sigma> \<in> S" "handles_in \<sigma> st" by (auto simp: covered_def)
    with * [of \<sigma>] Some v show ?thesis unfolding st' by fastforce
  qed
  ultimately show ?thesis by (simp add: covered_def)
qed

lemma status_handles:
  "handles_in \<sigma> st \<Longrightarrow> status \<sigma> s = Some (r, v) \<Longrightarrow> r = rid_of st s"
  by (auto simp: status_def handles_in_def rid_of_def dict_get_or_def split: option.splits)

lemma covered_same: "covered st S \<Longrightarrow> all_ok f S \<Longrightarrow> (\<And>\<sigma> \<sigma>'. f \<sigma> = Ok \<sigma>' \<Longrightarrow> \<sigma>' = \<sigma>) \<Longrightarrow> covered st (post f S)"
  by (rule covered_update [where u = "\<lambda>_. None"]) (fastforce simp: all_ok_def)+

lemma covered_need_owned:
  assumes "covered st S" "all_ok f S"
    and "\<And>\<sigma> \<sigma>'. f \<sigma> = Ok \<sigma>' \<Longrightarrow> \<exists>r. status \<sigma> s = Some (r, OWNED) \<and> \<sigma>' = cset r w \<sigma>"
  shows "covered (set_var (rid_of st s) w st) (post f S)"
proof (rule covered_update [OF assms(1), where u = "[rid_of st s \<mapsto> w]"])
  fix r
  show "dict_get_or (st_var (set_var (rid_of st s) w st)) r {}
      = (case [rid_of st s \<mapsto> w] r of Some v \<Rightarrow> {v} | None \<Rightarrow> dict_get_or (st_var st) r {})"
    by (simp add: set_var_def)
next
  fix \<sigma> assume "\<sigma> \<in> S" and h: "handles_in \<sigma> st"
  then obtain \<sigma>' where f: "f \<sigma> = Ok \<sigma>'" using assms(2) by (auto simp: all_ok_def)
  then obtain r where "status \<sigma> s = Some (r, OWNED)" and \<sigma>': "\<sigma>' = cset r w \<sigma>" using assms(3) by blast
  then have "r = rid_of st s" using status_handles [OF h] by blast
  with \<sigma>' h f show "\<exists>\<sigma>'. f \<sigma> = Ok \<sigma>' \<and> handles_in \<sigma>' (set_var (rid_of st s) w st)
      \<and> (\<forall>r'. dict_get (cs_var \<sigma>') r' = (case [rid_of st s \<mapsto> w] r' of Some v \<Rightarrow> Some v
           | None \<Rightarrow> dict_get (cs_var \<sigma>) r'))"
    by (auto simp: handles_in_def set_var_def cset_def)
qed


lemma covered_carg:
  assumes "covered st S" "all_ok (carg s eff) S"
  shows "covered (fst (apply_effect st s eff f line)) (post (carg s eff) S)"
proof (cases "sy_kind s = OWNED_kind \<and> eff = CONSUME_eff")
  case True
  then show ?thesis
    using covered_need_owned [OF assms, of s ESCAPED]
    by (auto simp: apply_effect_def Let_def carg_def need_owned_Ok)
next
  case False
  then have "fst (apply_effect st s eff f line) = st"
    by (auto simp: apply_effect_def Let_def split: Kind.split Effect.split)
  moreover have "covered st (post (carg s eff) S)"
    using False
    by (intro covered_same [OF assms])
      (auto simp: carg_def need_owned_Ok split: Kind.splits Effect.splits if_splits)
  ultimately show ?thesis by simp
qed

lemma covered_cargs:
  "covered st S \<Longrightarrow> all_ok (cargs as) S \<Longrightarrow> covered (fst (apply_effects st as f line)) (post (cargs as) S)"
proof (induction as arbitrary: st S rule: effect_args_induct)
  case (Arg s eff as)
  have *: "cargs ((Some s, eff) # as) = (\<lambda>\<sigma>. obind (carg s eff \<sigma>) (cargs as))" by (simp add: fun_eq_iff)
  from Arg.prems have ok: "all_ok (carg s eff) S" "all_ok (cargs as) (post (carg s eff) S)"
    by (simp_all add: * all_ok_obind)
  from Arg.IH [OF covered_carg [OF Arg.prems(1) ok(1)] ok(2)] show ?case
    by (simp add: apply_effects_Cons * post_obind)
next
  case (Plain eff as)
  then show ?case by (simp add: all_ok_def post_def)
qed (simp_all add: post_def)

lemma covered_acquire:
  "covered st S \<Longrightarrow> covered (acquire_at s line st) (post (\<lambda>\<sigma>. Ok (cown s \<sigma>)) S)"
  by (rule covered_update [where u = "[sid s \<mapsto> OWNED]"])
    (auto simp: acquire_at_def mint_def set_var_def cown_def cset_def handles_in_def)

lemma covered_moved_at [simp]: "covered (st\<lparr>st_moved_at := m\<rparr>) S = covered st S"
  by (simp add: covered_def handles_in_def)

lemma covered_move_into:
  assumes "covered st S" "all_ok (cstep (MoveInto_i d s line)) S"
  shows "covered (move_into d s line st) (post (cstep (MoveInto_i d s line)) S)"
proof -
  let ?f = "\<lambda>\<sigma>. need_owned \<sigma> s (\<lambda>r. \<not> loaned \<sigma> r) (\<lambda>r. cset r MOVED \<sigma>)"
  have *: "cstep (MoveInto_i d s line) = (\<lambda>\<sigma>. obind (?f \<sigma>) (\<lambda>\<sigma>. Ok (cown d \<sigma>)))"
    by (auto simp: fun_eq_iff need_owned_def split: option.split)
  from assms(2) have "all_ok ?f S" unfolding * all_ok_obind by blast
  with assms(1) have moved: "covered (set_var (rid_of st s) MOVED st) (post ?f S)"
    by (rule covered_need_owned) (auto simp: need_owned_Ok)
  then have "covered (set_var (rid_of st s) MOVED (st\<lparr>st_moved_at := m\<rparr>)) (post ?f S)" for m
    by (simp add: covered_def handles_in_def set_var_def)
  with moved show ?thesis
    unfolding * post_obind move_into_def Let_def by (intro covered_acquire) (simp split: if_split)
qed

lemma covered_alias:
  assumes "covered st S" "all_ok (cstep (AliasJoin_i h s line)) S"
  shows "covered (fst (step c (AliasJoin_i h s line) st)) (post (cstep (AliasJoin_i h s line)) S)"
proof (rule covered_update [OF assms(1), where u = "\<lambda>_. None"])
  fix \<sigma> assume "\<sigma> \<in> S" and h: "handles_in \<sigma> st"
  with assms(2) obtain r where r: "dict_get (cs_handle \<sigma>) (sid s) = Some r"
    unfolding all_ok_def by (fastforce split: option.splits)
  with h have "rid_of st s = r" by (simp add: handles_in_def rid_of_def dict_get_or_def)
  with r h show "\<exists>\<sigma>'. cstep (AliasJoin_i h s line) \<sigma> = Ok \<sigma>'
      \<and> handles_in \<sigma>' (fst (step c (AliasJoin_i h s line) st))
      \<and> (\<forall>r. dict_get (cs_var \<sigma>') r = (case None of Some v \<Rightarrow> Some v | None \<Rightarrow> dict_get (cs_var \<sigma>) r))"
    by (auto simp: handles_in_def)
qed simp

lemma covered_loans:
  assumes "covered st S" "all_ok f S"
    and "\<And>\<sigma> \<sigma>'. f \<sigma> = Ok \<sigma>' \<Longrightarrow> cs_var \<sigma>' = cs_var \<sigma> \<and> cs_handle \<sigma>' = cs_handle \<sigma>"
  shows "covered (st\<lparr>st_loans := l\<rparr>) (post f S)"
  by (rule covered_update [OF assms(1), where u = "\<lambda>_. None"])
    (use assms(2,3) in \<open>fastforce simp: all_ok_def handles_in_def\<close>)+

lemma covered_step:
  assumes "covered st S" "all_ok (cstep i) S"
  shows "covered (fst (step c i st)) (post (cstep i) S)"
proof (cases i)
  case (Acquire_i s res line)
  then show ?thesis using covered_acquire [OF assms(1)] by (simp add: post_def)
next
  case (AcquireBuffer_i s info line)
  then show ?thesis using covered_acquire [OF assms(1)] by (simp add: post_def)
next
  case (MoveInto_i d s line)
  then show ?thesis using covered_move_into assms by simp
next
  case (AliasJoin_i h s line)
  then show ?thesis using covered_alias assms by simp
next
  case (Release_i s line)
  then show ?thesis
    using covered_need_owned [OF assms, of s RELEASED] by (auto simp: need_owned_Ok)
next
  case (Use_i s line)
  then have "covered st (post (cstep i) S)"
    by (intro covered_same [OF assms]) (auto simp: need_owned_Ok split: Kind.splits if_splits)
  with Use_i show ?thesis by simp
next
  case (Overspan_i s line)
  then show ?thesis using covered_same [OF assms] by auto
next
  case (Invoke_i f as line)
  then have "cstep i = cargs as" by (simp add: fun_eq_iff)
  with Invoke_i show ?thesis using covered_cargs assms by simp
next
  case (BorrowStart_i ow bd m line)
  have "covered (st\<lparr>st_loans := l\<rparr>) (post (cstep i) S)" for l
    using BorrowStart_i by (intro covered_loans [OF assms]) (auto simp: need_owned_Ok)
  with BorrowStart_i show ?thesis by (simp add: borrow_start_def)
next
  case (BorrowEnd_i ow bd m line)
  then show ?thesis using covered_loans [OF assms] by auto
next
  case (Return_i so line)
  show ?thesis
  proof (cases so)
    case None
    with Return_i have "covered st (post (cstep i) S)"
      by (intro covered_same [OF assms]) (auto split: if_splits)
    with None Return_i show ?thesis by simp
  next
    case (Some s)
    with Return_i have "covered (set_var (rid_of st s) ESCAPED st) (post (cstep i) S)"
      by (intro covered_need_owned [OF assms]) (auto split: option.splits if_splits)
    with Some Return_i show ?thesis by simp
  qed
qed

lemma csteps_Cons_fun: "csteps (i # is) = (\<lambda>\<sigma>. obind (cstep i \<sigma>) (csteps is))"
  by (simp add: fun_eq_iff)

lemma covered_steps:
  "covered st S \<Longrightarrow> all_ok (csteps is) S \<Longrightarrow> covered (fst (steps c is st)) (post (csteps is) S)"
proof (induction "is" arbitrary: st S)
  case (Cons i "is")
  from Cons.prems have ok: "all_ok (cstep i) S" "all_ok (csteps is) (post (cstep i) S)"
    by (simp_all add: csteps_Cons_fun all_ok_obind)
  from Cons.IH [OF covered_step [OF Cons.prems(1) ok(1)] ok(2)] show ?case
    by (simp add: fst_steps csteps_Cons_fun post_obind)
qed (simp add: post_def)

section \<open>Exact states report nothing\<close>

definition exact :: "State \<Rightarrow> Conc set \<Rightarrow> bool" where
  "exact st S \<longleftrightarrow> wf_state st \<and> covered st S \<and> (\<forall>\<sigma>\<in>S. gam st \<sigma>)"

lemma exact_step:
  "exact st S \<Longrightarrow> all_ok (cstep i) S \<Longrightarrow> exact (fst (step c i st)) (post (cstep i) S)"
  using covered_step step_gam by (auto simp: exact_def post_def)

lemma exact_owned:
  assumes "exact st S" "\<And>\<sigma>. \<sigma> \<in> S \<Longrightarrow> \<exists>r. status \<sigma> s = Some (r, OWNED) \<and> ok \<sigma> r"
  shows "\<exists>v. v \<in> var_of st (rid_of st s)" "var_of st (rid_of st s) = {OWNED}"
    "\<exists>\<sigma>\<in>S. gam st \<sigma> \<and> status \<sigma> s = Some (rid_of st s, OWNED) \<and> ok \<sigma> (rid_of st s)"
proof -
  have all: "status \<sigma> s = Some (rid_of st s, OWNED) \<and> ok \<sigma> (rid_of st s) \<and> gam st \<sigma>" if "\<sigma> \<in> S" for \<sigma>
    using assms(2) [OF that] assms(1) status_gam that by (fastforce simp: exact_def)
  obtain \<sigma> where "\<sigma> \<in> S" using assms(1) by (auto simp: exact_def covered_def)
  with all show "\<exists>\<sigma>\<in>S. gam st \<sigma> \<and> status \<sigma> s = Some (rid_of st s, OWNED) \<and> ok \<sigma> (rid_of st s)" by blast
  from all [OF \<open>\<sigma> \<in> S\<close>] have o: "OWNED \<in> dict_get_or (st_var st) (rid_of st s) {}" by (blast dest: status_gam)
  then show "\<exists>v. v \<in> var_of st (rid_of st s)" using var_of_nonempty [OF o] by blast
  have "v = OWNED" if "v \<in> dict_get_or (st_var st) (rid_of st s) {}" for v
  proof -
    from that assms(1) obtain \<sigma> where "\<sigma> \<in> S" "dict_get (cs_var \<sigma>) (rid_of st s) = Some v"
      using coveredD by (fastforce simp: exact_def)
    with all [of \<sigma>] show ?thesis by (auto simp: status_def split: option.splits)
  qed
  with o show "var_of st (rid_of st s) = {OWNED}" by (auto simp: var_of_nonempty [OF o])
qed

lemma exact_leak_check:
  assumes "exact st S" "\<And>\<sigma>. \<sigma> \<in> S \<Longrightarrow> \<not> leaks \<sigma> (map_option (rid_of st) ex)"
  shows "leak_check c st line t ex = []"
proof -
  have "OWNED \<notin> V" if "(r, V) \<in> set (st_var st)" "Some r \<noteq> map_option (rid_of st) ex" for r V
  proof
    assume "OWNED \<in> V"
    moreover from that assms(1) have "dict_get (st_var st) r = Some V"
      by (simp add: exact_def wf_state_def mem_dict_get_distinct)
    ultimately have "OWNED \<in> dict_get_or (st_var st) r {}" by (simp add: dict_get_or_def)
    with assms(1) obtain \<sigma> where "\<sigma> \<in> S" "dict_get (cs_var \<sigma>) r = Some OWNED"
      using coveredD by (fastforce simp: exact_def)
    then have "leaks \<sigma> (map_option (rid_of st) ex)"
      using that(2) by (force simp: leaks_def dict_keys_get)
    with assms(2) \<open>\<sigma> \<in> S\<close> show False by blast
  qed
  then show ?thesis by (fastforce simp: leak_check_def Let_def)
qed


lemma exact_carg:
  assumes "exact st S" "all_ok (carg s eff) S"
  shows "snd (apply_effect st s eff f line) = []"
proof -
  have ok: "\<exists>r. status \<sigma> s = Some (r, OWNED) \<and> P \<sigma> r"
    if "\<sigma> \<in> S" "\<And>\<sigma>. carg s eff \<sigma> = need_owned \<sigma> s (P \<sigma>) (k \<sigma>)" for \<sigma> P k
    using assms(2) that by (fastforce simp: all_ok_def need_owned_Ok)
  obtain \<sigma> where \<sigma>: "\<sigma> \<in> S" using assms(1) by (auto simp: exact_def covered_def)
  with assms obtain \<sigma>' where s': "carg s eff \<sigma> = Ok \<sigma>'" and "wf_state st" and "gam st \<sigma>"
    by (auto simp: exact_def all_ok_def)
  note B = binding_live_gam [OF \<open>wf_state st\<close> \<open>gam st \<sigma>\<close>] and L = loans_on_gam [OF \<open>wf_state st\<close> \<open>gam st \<sigma>\<close> refl]
  have o: "\<exists>v. v \<in> var_of st (rid_of st s)" "var_of st (rid_of st s) = {OWNED}" "P \<sigma> (rid_of st s)"
    if "\<And>\<sigma>. carg s eff \<sigma> = need_owned \<sigma> s (P \<sigma>) (k \<sigma>)" for P k
    using exact_owned [OF assms(1), of s P] ok [OF _ that] \<sigma> status_gam(1) [OF \<open>gam st \<sigma>\<close>] by fastforce+
  show ?thesis
  proof (cases "sy_kind s")
    case OWNED_kind
    show ?thesis
    proof (cases eff)
      case CONSUME_eff
      then have "carg s eff \<sigma> = need_owned \<sigma> s (\<lambda>r. \<not> loaned \<sigma> r \<and> sy_buffer s = None) (\<lambda>r. cset r ESCAPED \<sigma>)" for \<sigma>
        by (simp add: carg_def OWNED_kind)
      from o [OF this] CONSUME_eff OWNED_kind show ?thesis
        by (auto simp: apply_effect_def buffer_consumed_diags_def check_iffs L)
    next
      case BORROW_MUT_eff
      then have "carg s eff \<sigma> = need_owned \<sigma> s (may_lend \<sigma> True) (\<lambda>_. \<sigma>)" for \<sigma>
        by (simp add: carg_def OWNED_kind)
      from o [OF this] BORROW_MUT_eff OWNED_kind show ?thesis
        by (auto simp: apply_effect_def check_iffs L may_lend_def)
    next
      case BORROW_eff
      then have "carg s eff \<sigma> = need_owned \<sigma> s (may_lend \<sigma> False) (\<lambda>_. \<sigma>)" for \<sigma>
        by (simp add: carg_def OWNED_kind)
      from o [OF this] BORROW_eff OWNED_kind show ?thesis
        by (auto simp: apply_effect_def check_iffs L may_lend_def)
    next
      case PLAIN_eff
      with s' show ?thesis by (simp add: carg_def OWNED_kind)
    qed
  qed (use s' B in \<open>auto simp: carg_def apply_effect_def split: Effect.splits if_splits\<close>)
qed

lemma exact_post_carg:
  "exact st S \<Longrightarrow> all_ok (carg s eff) S \<Longrightarrow> exact (fst (apply_effect st s eff f line)) (post (carg s eff) S)"
  using covered_carg carg_gam by (auto simp: exact_def post_def)

lemma exact_cargs:
  "exact st S \<Longrightarrow> all_ok (cargs as) S \<Longrightarrow> snd (apply_effects st as f line) = []"
proof (induction as arbitrary: st S rule: effect_args_induct)
  case (Arg s eff as)
  have "cargs ((Some s, eff) # as) = (\<lambda>\<sigma>. obind (carg s eff \<sigma>) (cargs as))" by (simp add: fun_eq_iff)
  with Arg.prems have ok: "all_ok (carg s eff) S" "all_ok (cargs as) (post (carg s eff) S)"
    by (simp_all add: all_ok_obind)
  from Arg.IH [OF exact_post_carg [OF Arg.prems(1) ok(1)] ok(2)] exact_carg [OF Arg.prems(1) ok(1)]
  show ?case by (simp add: apply_effects_Cons)
qed (simp_all add: all_ok_def)


lemma exact_need_owned:
  assumes "exact st S" "all_ok f S" "\<And>\<sigma>. f \<sigma> = need_owned \<sigma> s (P \<sigma>) (k \<sigma>)"
  obtains \<sigma> v where "\<sigma> \<in> S" "v \<in> var_of st (rid_of st s)" "var_of st (rid_of st s) = {OWNED}"
    "P \<sigma> (rid_of st s)" "snd (loans_on st s) = mut_loaned \<sigma> (rid_of st s)"
    "borrowed st s = loaned \<sigma> (rid_of st s)"
proof -
  have ok: "\<exists>r. status \<sigma> s = Some (r, OWNED) \<and> P \<sigma> r" if "\<sigma> \<in> S" for \<sigma>
    using assms(2,3) that by (fastforce simp: all_ok_def need_owned_Ok)
  from exact_owned [OF assms(1) ok] obtain v \<sigma> where
    "v \<in> var_of st (rid_of st s)" "var_of st (rid_of st s) = {OWNED}" "\<sigma> \<in> S" "gam st \<sigma>" "P \<sigma> (rid_of st s)"
    by blast
  moreover have "wf_state st" using assms(1) by (simp add: exact_def)
  ultimately show ?thesis using that loans_on_gam(1,2) [OF _ _ refl] by blast
qed

lemma exact_return:
  assumes "exact st S" "all_ok (cstep (Return_i (Some s) line)) S"
  shows "snd (step c (Return_i (Some s) line) st) = []"
proof -
  let ?P = "\<lambda>\<sigma> r. \<not> leaks \<sigma> (Some r) \<and> \<not> loaned \<sigma> r \<and> sy_buffer s = None"
  have ok: "\<exists>r. status \<sigma> s = Some (r, OWNED) \<and> ?P \<sigma> r" if "\<sigma> \<in> S" for \<sigma>
  proof -
    from assms(2) that obtain \<sigma>' where "cstep (Return_i (Some s) line) \<sigma> = Ok \<sigma>'"
      unfolding all_ok_def by blast
    then show ?thesis by (auto split: option.splits if_splits)
  qed
  from exact_owned [OF assms(1) ok] obtain v \<sigma> where v: "v \<in> var_of st (rid_of st s)"
    and o: "var_of st (rid_of st s) = {OWNED}" and \<sigma>: "\<sigma> \<in> S" "gam st \<sigma>" "?P \<sigma> (rid_of st s)"
    by blast
  have "\<not> leaks \<sigma> (Some (rid_of st s))" if "\<sigma> \<in> S" for \<sigma>
    using ok [OF that] assms(1) that status_gam(1) by (fastforce simp: exact_def)
  then have "leak_check c st line ''before return'' (Some s) = []"
    by (intro exact_leak_check [OF assms(1)]) simp
  moreover have "return_diags st s line = []"
    using \<sigma> o v assms(1) loans_on_gam(2) [OF _ \<sigma>(2) refl] by (simp add: check_iffs exact_def)
  ultimately show ?thesis by simp
qed

lemma exact_quiet:
  assumes "exact st S" "all_ok (cstep i) S"
  shows "snd (step c i st) = []"
proof (cases i)
  case (Return_i so line)
  then show ?thesis
  proof (cases so)
    case None
    with assms Return_i have "\<not> leaks \<sigma> None" if "\<sigma> \<in> S" for \<sigma>
      using that by (fastforce simp: all_ok_def split: if_splits)
    then have "leak_check c st line ''before return'' None = []"
      by (intro exact_leak_check [OF assms(1)]) simp
    with None Return_i show ?thesis by simp
  next
    case (Some s)
    with exact_return assms Return_i show ?thesis by blast
  qed
next
  case (Invoke_i f as line)
  moreover from this have "cstep i = cargs as" by (simp add: fun_eq_iff)
  ultimately show ?thesis using exact_cargs assms by simp
next
  case (Overspan_i s line)
  then show ?thesis using assms by (auto simp: all_ok_def exact_def covered_def)
next
  case (MoveInto_i d s line)
  obtain \<sigma> v where "v \<in> var_of st (rid_of st s)" "var_of st (rid_of st s) = {OWNED}"
    "\<not> loaned \<sigma> (rid_of st s)" "borrowed st s = loaned \<sigma> (rid_of st s)"
    by (rule exact_need_owned [OF assms, of s "\<lambda>\<sigma> r. \<not> loaned \<sigma> r" "\<lambda>\<sigma> r. cown d (cset r MOVED \<sigma>)"]) (use MoveInto_i in auto)
  with MoveInto_i show ?thesis by (simp add: check_iffs)
next
  case (Release_i s line)
  obtain \<sigma> v where "v \<in> var_of st (rid_of st s)" "var_of st (rid_of st s) = {OWNED}"
    "\<not> loaned \<sigma> (rid_of st s)" "borrowed st s = loaned \<sigma> (rid_of st s)"
    by (rule exact_need_owned [OF assms, of s "\<lambda>\<sigma> r. \<not> loaned \<sigma> r" "\<lambda>\<sigma> r. cset r RELEASED \<sigma>"]) (use Release_i in auto)
  with Release_i show ?thesis by (simp add: check_iffs)
next
  case (BorrowStart_i ow bd m line)
  obtain \<sigma> v where "v \<in> var_of st (rid_of st ow)" "var_of st (rid_of st ow) = {OWNED}"
    "may_lend \<sigma> m (rid_of st ow)" "snd (loans_on st ow) = mut_loaned \<sigma> (rid_of st ow)"
    "borrowed st ow = loaned \<sigma> (rid_of st ow)"
    by (rule exact_need_owned [OF assms, of ow "\<lambda>\<sigma>. may_lend \<sigma> m" "\<lambda>\<sigma> r. \<sigma>\<lparr>cs_loans := insert (sid bd, r, m) {l \<in> cs_loans \<sigma>. fst l \<noteq> sid bd}\<rparr>"]) (use BorrowStart_i in auto)
  with BorrowStart_i show ?thesis by (auto simp: check_iffs may_lend_def)
next
  case (Use_i s line)
  show ?thesis
  proof (cases "sy_kind s")
    case OWNED_kind
    obtain \<sigma> v where "v \<in> var_of st (rid_of st s)" "var_of st (rid_of st s) = {OWNED}"
      "\<not> mut_loaned \<sigma> (rid_of st s)" "snd (loans_on st s) = mut_loaned \<sigma> (rid_of st s)"
      by (rule exact_need_owned [OF assms, of s "\<lambda>\<sigma> r. \<not> mut_loaned \<sigma> r" "\<lambda>\<sigma> _. \<sigma>"]) (use Use_i OWNED_kind in auto)
    then show ?thesis
      using state_problem_None [of _ st s "''use''" line] by (simp add: Use_i use_diags_def OWNED_kind)
  next
    case BORROW_kind
    obtain \<sigma> where "\<sigma> \<in> S" using assms(1) by (auto simp: exact_def covered_def)
    with assms have "live_binding \<sigma> s" "gam st \<sigma>" "wf_state st"
      by (auto simp: all_ok_def exact_def Use_i BORROW_kind split: if_splits)
    then show ?thesis by (simp add: Use_i use_diags_def BORROW_kind binding_live_gam)
  qed (simp add: Use_i use_diags_def)
qed simp_all

lemma exact_steps:
  "exact st S \<Longrightarrow> all_ok (csteps is) S
    \<Longrightarrow> snd (steps c is st) = [] \<and> exact (fst (steps c is st)) (post (csteps is) S)"
proof (induction "is" arbitrary: st S)
  case (Cons i "is")
  from Cons.prems have ok: "all_ok (cstep i) S" "all_ok (csteps is) (post (cstep i) S)"
    by (simp_all add: csteps_Cons_fun all_ok_obind)
  from Cons.IH [OF exact_step [OF Cons.prems(1) ok(1)] ok(2)] exact_quiet [OF Cons.prems(1) ok(1)]
  show ?case by (simp add: fst_steps snd_steps csteps_Cons_fun post_obind)
qed (simp add: post_def)

end
