(* ===== verification/Own_Fixpoint.thy ===== *)
theory Own_Fixpoint
  imports Own_Steps
begin

text \<open>
  The worklist. Joins keep descriptions and realisations; the loop ends with every block settled
  (\<open>fixpoint_settles\<close>) and, when no execution fails, with facts that executions realise
  (\<open>fixpoint_covers\<close>). Together with the per-instruction lemmas this makes an empty report
  equivalent to the absence of misuse.
\<close>

section \<open>Joins\<close>

lemma join_handle_rid_Cons:
  assumes "join_handle_rid out ((k, q) # b) = Inr c"
  obtains out' where "join_handle_rid out' b = Inr c" "dict_get out' k = Some q"
    "\<And>h. h \<noteq> k \<Longrightarrow> dict_get out' h = dict_get out h" "dict_get out k = None \<or> dict_get out k = Some q"
proof (cases "dict_get out k")
  case None
  with assms that [of "dict_set out k q"] show ?thesis by simp
next
  case (Some q')
  with assms that [of out] show ?thesis by (auto split: if_splits)
qed

lemma join_handle_rid_keeps:
  "join_handle_rid a b = Inr c \<Longrightarrow> dict_get a h = Some r \<Longrightarrow> dict_get c h = Some r"
proof (induction b arbitrary: a)
  case (Cons kq b)
  obtain k q where kq: "kq = (k, q)" by (cases kq)
  from Cons.prems(1) [unfolded kq] obtain out' where o: "join_handle_rid out' b = Inr c"
    "dict_get out' k = Some q" "\<And>h. h \<noteq> k \<Longrightarrow> dict_get out' h = dict_get a h" "dict_get a k = None \<or> dict_get a k = Some q"
    by (rule join_handle_rid_Cons) blast
  then have "dict_get out' h = Some r" using Cons.prems(2) by (cases "h = k") auto
  from Cons.IH [OF o(1) this] show ?case .
qed simp

lemma join_handle_rid_takes:
  "join_handle_rid a b = Inr c \<Longrightarrow> dict_get b h = Some r \<Longrightarrow> dict_get c h = Some r"
proof (induction b arbitrary: a)
  case (Cons kq b)
  obtain k q where kq: "kq = (k, q)" by (cases kq)
  from Cons.prems(1) [unfolded kq] obtain out' where o: "join_handle_rid out' b = Inr c"
    "dict_get out' k = Some q"
    by (rule join_handle_rid_Cons) blast
  show ?case
  proof (cases "h = k")
    case True
    with Cons.prems(2) join_handle_rid_keeps [OF o] show ?thesis by (simp add: kq dict_get_Cons)
  next
    case False
    with Cons.prems(2) Cons.IH [OF o(1)] show ?thesis by (simp add: kq dict_get_Cons)
  qed
qed simp

lemma join_var_get: "dict_get_or (join_var a b) k {} = dict_get_or a k {} \<union> dict_get_or b k {}"
proof -
  let ?f = "\<lambda>k. dict_get_or a k {} \<union> dict_get_or b k {}"
  have "map_of (map (\<lambda>k. (k, ?f k)) ks) k = (if k \<in> set ks then Some (?f k) else None)" for ks
    by (induction ks) auto
  moreover have "k \<notin> fst ` set a \<Longrightarrow> dict_get_or a k {} = {}" "k \<notin> fst ` set b \<Longrightarrow> dict_get_or b k {} = {}"
    by (auto simp: dict_get_or_def dict_get_None_iff split: option.split dest: dict_get_SomeD)
       (metis dict_get_None_iff fst_conv image_eqI option.distinct(1))+
  ultimately show ?thesis
    by (auto simp: dict_get_or_def dict_get_def join_var_def)
qed

lemma join_Inr:
  assumes "join a b = Inr c"
  shows "dict_get_or (st_var c) r {} = dict_get_or (st_var a) r {} \<union> dict_get_or (st_var b) r {}"
    "conc_loans c = conc_loans a" "conc_loans c = conc_loans b"
    "handles_in \<sigma> a \<Longrightarrow> handles_in \<sigma> c" "handles_in \<sigma> b \<Longrightarrow> handles_in \<sigma> c"
    "wf_state a \<Longrightarrow> wf_state c"
proof -
  from assms obtain hr where h: "join_handle_rid (st_handle_rid a) (st_handle_rid b) = Inr hr"
    and l: "dict_eq (st_loans a) (st_loans b)"
    and c: "c = \<lparr>st_var = join_var (st_var a) (st_var b), st_loans = st_loans a, st_handle_rid = hr,
             st_moved_at = join_sites (st_moved_at a) (st_moved_at b),
             st_acquired_at = join_sites (st_acquired_at a) (st_acquired_at b)\<rparr>"
    by (auto simp: join_def rbind_eq_Inr split: if_splits)
  show "dict_get_or (st_var c) r {} = dict_get_or (st_var a) r {} \<union> dict_get_or (st_var b) r {}"
    by (simp add: c join_var_get)
  show "conc_loans c = conc_loans a" by (simp add: c conc_loans_def)
  then show "conc_loans c = conc_loans b" using l by (simp add: conc_loans_def dict_eq_iff)
  show "handles_in \<sigma> a \<Longrightarrow> handles_in \<sigma> c" "handles_in \<sigma> b \<Longrightarrow> handles_in \<sigma> c"
    using join_handle_rid_keeps [OF h] join_handle_rid_takes [OF h] by (auto simp: handles_in_def c)
  have "distinct (map fst (join_var x y))" for x y
    by (simp add: join_var_def comp_def)
  then show "wf_state a \<Longrightarrow> wf_state c" by (simp add: wf_state_def c)
qed

lemma join_gam:
  assumes "join a b = Inr c"
  shows "gam a \<sigma> \<Longrightarrow> gam c \<sigma>" "gam b \<sigma> \<Longrightarrow> gam c \<sigma>"
  using join_Inr [OF assms] by (auto simp: gam_def)

lemma join_covered:
  assumes "join a b = Inr c" "covered a S" "covered b S"
  shows "covered c S"
proof -
  note J = join_Inr [OF assms(1)]
  have "\<exists>\<sigma>\<in>S. handles_in \<sigma> c" using assms(2) J(4) by (auto simp: covered_def)
  moreover have "\<exists>\<sigma>\<in>S. handles_in \<sigma> c \<and> dict_get (cs_var \<sigma>) r = Some v"
    if "v \<in> dict_get_or (st_var c) r {}" for r v
  proof -
    from that J(1) have "v \<in> dict_get_or (st_var a) r {} \<or> v \<in> dict_get_or (st_var b) r {}" by simp
    then show ?thesis
      using coveredD [OF assms(2)] coveredD [OF assms(3)] J(4,5) by blast
  qed
  ultimately show ?thesis by (simp add: covered_def)
qed

lemma join_all_gam:
  "join_all a ss = Inr c \<Longrightarrow> s \<in> set (a # ss) \<Longrightarrow> gam s \<sigma> \<Longrightarrow> gam c \<sigma>"
proof (induction ss arbitrary: a s)
  case (Cons x ss)
  then obtain y where y: "join a x = Inr y" "join_all y ss = Inr c" by (auto simp: rbind_eq_Inr)
  from Cons.prems(2) consider "s = a" | "s = x" | "s \<in> set ss" by auto
  then show ?case
  proof cases
    case 3
    then show ?thesis using Cons.IH [OF y(2), of s] Cons.prems(3) by simp
  qed (use Cons.IH [OF y(2), of y] join_gam [OF y(1)] Cons.prems(3) in auto)
qed simp

lemma join_all_covered:
  "join_all a ss = Inr c \<Longrightarrow> \<forall>s\<in>set (a # ss). covered s S \<Longrightarrow> covered c S"
  by (induction ss arbitrary: a) (auto simp: rbind_eq_Inr dest: join_covered)

lemma join_all_wf: "join_all a ss = Inr c \<Longrightarrow> wf_state a \<Longrightarrow> wf_state c"
  by (induction ss arbitrary: a) (auto simp: rbind_eq_Inr dest: join_Inr(6))

section \<open>Predecessors and reachable blocks\<close>

definition wf_graph :: "CFG \<Rightarrow> bool" where
  "wf_graph c \<longleftrightarrow> distinct (map bl_id (cf_blocks c))
     \<and> (\<forall>b\<in>set (cf_blocks c). cf_entry c \<notin> set (bl_succ b)
          \<and> (bl_id b \<noteq> cf_entry c
               \<longrightarrow> (\<exists>p\<in>set (cf_blocks c). bl_id p < bl_id b \<and> bl_id b \<in> set (bl_succ p))))"

lemma block_at_iff:
  assumes "distinct (map bl_id (cf_blocks c))"
  shows "block_at c i = Some b \<longleftrightarrow> b \<in> set (cf_blocks c) \<and> bl_id b = i"
proof
  assume *: "b \<in> set (cf_blocks c) \<and> bl_id b = i"
  let ?l = "rev (map (\<lambda>b. (bl_id b, b)) (cf_blocks c))"
  have "distinct (map fst ?l)" using assms by (simp add: rev_map [symmetric] comp_def)
  moreover have "(i, b) \<in> set ?l" using * by auto
  ultimately show "block_at c i = Some b" by (simp add: block_at_def)
qed (rule block_at_SomeD)

lemma add_pred_get:
  "add_pred b ss p = Some q \<Longrightarrow> x \<in> set (dict_get_or q s []) \<longleftrightarrow> x \<in> set (dict_get_or p s []) \<or> (x = b \<and> s \<in> set ss)"
proof (induction b ss p arbitrary: q rule: add_pred.induct)
  case (2 b t ss p)
  then show ?case
    by (auto split: option.splits) (auto simp: dict_get_or_def split: if_splits)
qed simp

lemma add_preds_get:
  "add_preds bs p = Some q \<Longrightarrow> x \<in> set (dict_get_or q s [])
     \<longleftrightarrow> x \<in> set (dict_get_or p s []) \<or> (\<exists>b\<in>set bs. bl_id b = x \<and> s \<in> set (bl_succ b))"
  by (induction bs p arbitrary: q rule: add_preds.induct) (auto simp: add_pred_get split: option.splits)

lemma foldl_empty_preds:
  "\<forall>k. set (dict_get_or p k []) = {} \<Longrightarrow> set (dict_get_or (foldl (\<lambda>p b. dict_set p (bl_id b) []) p bs) k []) = {}"
  by (induction bs arbitrary: p) auto

lemma preds_get:
  assumes "preds c = Some ps"
  shows "x \<in> set (dict_get_or ps s []) \<longleftrightarrow> (\<exists>b\<in>set (cf_blocks c). bl_id b = x \<and> s \<in> set (bl_succ b))"
  unfolding add_preds_get [OF assms [unfolded preds_def]]
  using foldl_empty_preds [of "[] :: (nat, nat list) dict" "cf_blocks c" s] by simp

lemma reach_loop_sound:
  "reach_loop c stack seen = Some R \<Longrightarrow> seen \<subseteq> R \<and> set stack \<subseteq> R
     \<and> (\<forall>x\<in>R. x \<in> seen \<or> (\<exists>b. block_at c x = Some b \<and> set (bl_succ b) \<subseteq> R))"
proof (induction c stack seen rule: reach_loop.induct)
  case (2 c x stack seen)
  show ?case
  proof (cases "x \<in> seen")
    case True
    with 2 show ?thesis by auto
  next
    case False
    with 2 obtain b where "block_at c x = Some b" "reach_loop c (rev (bl_succ b) @ stack) (insert x seen) = Some R"
      by (auto split: option.splits)
    with 2(2) [OF False, of b] show ?thesis by auto
  qed
qed simp

lemma reachable_closed:
  assumes "reachable c = Some R"
  shows "cf_entry c \<in> R" "x \<in> R \<Longrightarrow> \<exists>b. block_at c x = Some b \<and> set (bl_succ b) \<subseteq> R"
  using reach_loop_sound [OF assms [unfolded reachable_def]] by auto

lemma wf_graph_lower_pred:
  assumes "wf_graph c" "reachable c = Some R" "x \<in> R" "x \<noteq> cf_entry c"
  shows "\<exists>p b. p \<in> R \<and> p < x \<and> block_at c p = Some b \<and> x \<in> set (bl_succ b)"
proof -
  have all: "b \<in> set (cf_blocks c) \<Longrightarrow> bl_id b \<in> R" for b
  proof (induction "bl_id b" arbitrary: b rule: less_induct)
    case less
    show ?case
    proof (cases "bl_id b = cf_entry c")
      case True
      then show ?thesis using reachable_closed(1) [OF assms(2)] by simp
    next
      case False
      with assms(1) less.prems obtain p where p: "p \<in> set (cf_blocks c)" "bl_id p < bl_id b" "bl_id b \<in> set (bl_succ p)"
        by (auto simp: wf_graph_def)
      with less.hyps have "bl_id p \<in> R" by blast
      moreover have "block_at c (bl_id p) = Some p"
        using p(1) assms(1) by (simp add: block_at_iff wf_graph_def)
      ultimately show ?thesis using reachable_closed(2) [OF assms(2)] p(3) by fastforce
    qed
  qed
  from assms(3) obtain b where "block_at c x = Some b" using reachable_closed(2) [OF assms(2)] by blast
  then have "b \<in> set (cf_blocks c)" "bl_id b = x" by (auto dest: block_at_SomeD)
  with assms(1,4) obtain p where p: "p \<in> set (cf_blocks c)" "bl_id p < x" "x \<in> set (bl_succ p)"
    unfolding wf_graph_def by blast
  with all [OF p(1)] assms(1) show ?thesis by (auto simp: block_at_iff wf_graph_def)
qed


section \<open>The worklist\<close>

text \<open>
  \<open>settled\<close>: a block's recorded states are the join of its predecessors' current out-states and
  its own transfer. The loop keeps every block settled that is not waiting in the queue.
\<close>

definition settled ::
  "CFG \<Rightarrow> (nat, nat list) dict \<Rightarrow> nat set \<Rightarrow> (nat, State) dict \<Rightarrow> (nat, State) dict \<Rightarrow> nat \<Rightarrow> bool" where
  "settled c ps R ins outs b \<longleftrightarrow> (\<exists>blk st ot. block_at c b = Some blk \<and> dict_get ins b = Some st
     \<and> in_state_of c b ps R outs = Inr st \<and> dict_get outs b = Some ot \<and> state_eq (transfer c blk st) ot)"

type_synonym LoopInv = "(nat, State) dict \<Rightarrow> (nat, State) dict \<Rightarrow> nat list \<Rightarrow> nat set \<Rightarrow> bool"

text \<open>\<open>loop_keeps\<close>: one turn of the loop, on either of its branches, keeps \<open>I\<close>.\<close>

definition loop_keeps :: "CFG \<Rightarrow> (nat, nat list) dict \<Rightarrow> nat set \<Rightarrow> LoopInv \<Rightarrow> bool" where
  "loop_keeps c ps R I \<longleftrightarrow> (\<forall>ins outs bid rest queued blk st.
     I ins outs (bid # rest) queued \<longrightarrow> block_at c bid = Some blk
     \<longrightarrow> in_state_of c bid ps R outs = Inr st
     \<longrightarrow> (if dict_get outs bid = None \<or> \<not> state_eq (transfer c blk st) (the (dict_get outs bid))
         then (case requeue (bl_succ blk) R rest (queued - {bid}) of (work', queued') \<Rightarrow>
                 I (dict_set ins bid st) (dict_set outs bid (transfer c blk st)) work' queued')
         else I (dict_set ins bid st) outs rest (queued - {bid})))"

lemma fixpoint_loop_invariant:
  assumes "loop_keeps c ps R I" "fixpoint_loop c ps R ins outs work queued = Some r"
    "r = Inr fin" "I ins outs work queued"
  shows "\<exists>outs' queued'. I fin outs' [] queued'"
  using assms(2,1,3,4)
proof (induction c ps R ins outs work queued r rule: fixpoint_loop.raw_induct [rotated, consumes 1])
  case (1 loop c ps R ins outs work queued r)
  show ?case
  proof (cases work)
    case Nil
    with 1 show ?thesis by auto
  next
    case (Cons bid rest)
    obtain blk where b: "block_at c bid = Some blk"
      using 1(2) 1(4) Cons
      by (cases "block_at c bid"; cases "in_state_of c bid ps R outs") auto
    moreover from this obtain st where st: "in_state_of c bid ps R outs = Inr st"
      using 1(2) 1(4) Cons by (cases "in_state_of c bid ps R outs") auto
    note keep = 1(3) [unfolded loop_keeps_def, rule_format, OF 1(5) [unfolded Cons] b st]
    show ?thesis
    proof (cases "dict_get outs bid = None \<or> \<not> state_eq (transfer c blk st) (the (dict_get outs bid))")
      case True
      obtain work' queued' where q: "requeue (bl_succ blk) R rest (queued - {bid}) = (work', queued')"
        by (cases "requeue (bl_succ blk) R rest (queued - {bid})")
      with True 1(2) have "loop c ps R (dict_set ins bid st) (dict_set outs bid (transfer c blk st)) work' queued' = Some r"
        by (simp add: Cons b st Let_def)
      from 1(1) [OF this 1(3,4)] keep True q show ?thesis by simp
    next
      case False
      with 1(2) have "loop c ps R (dict_set ins bid st) outs rest (queued - {bid}) = Some r"
        by (simp add: Cons b st Let_def)
      from 1(1) [OF this 1(3,4)] keep False show ?thesis by simp
    qed
  qed
qed

lemma requeue_spec:
  "requeue ss R work queued = (work', queued') \<Longrightarrow> queued \<subseteq> set work
     \<Longrightarrow> set work \<subseteq> set work' \<and> queued' \<subseteq> set work' \<and> set ss \<inter> R \<subseteq> set work'
       \<and> set work' \<subseteq> set work \<union> (set ss \<inter> R) \<and> (\<exists>more. work' = work @ more)"
  by (induction ss R work queued rule: requeue.induct) (force split: if_splits)+


lemma in_state_of_cong:
  assumes "\<And>p. p \<in> set (dict_get_or ps b []) \<Longrightarrow> p \<in> R \<Longrightarrow> dict_get outs p = dict_get outs' p"
  shows "in_state_of c b ps R outs = in_state_of c b ps R outs'"
proof -
  have "map (\<lambda>p. if p \<in> R then opt_list (dict_get outs p) else []) (dict_get_or ps b [])
      = map (\<lambda>p. if p \<in> R then opt_list (dict_get outs' p) else []) (dict_get_or ps b [])"
    using assms by (intro map_cong) auto
  then show ?thesis unfolding in_state_of_def by (simp only:)
qed

lemma state_eq_refl [simp]: "state_eq s s"
  by (simp add: state_eq_def)

lemma wf_empty_state [simp]: "wf_state empty_state"
  by (simp add: wf_state_def empty_state_def)

lemma wf_initial_state [simp]: "wf_state (initial_state c)"
proof -
  let ?f = "\<lambda>st p. if sy_kind p = OWNED_kind
       then (case mint p st of (rid, st1) \<Rightarrow> set_var rid OWNED st1) else st"
  have "wf_state (foldl ?f st ps)" if "wf_state st" for st ps
    using that by (induction ps arbitrary: st) (simp_all add: mint_def)
  then show ?thesis by (simp add: initial_state_def)
qed

lemma in_state_of_cases:
  assumes "in_state_of c b ps R outs = Inr st"
  obtains "b = cf_entry c" "st = initial_state c"
  | "b \<noteq> cf_entry c" "\<forall>p\<in>set (dict_get_or ps b []). p \<in> R \<longrightarrow> dict_get outs p = None" "st = empty_state"
  | s ss where "b \<noteq> cf_entry c" "join_all s ss = Inr st"
      "set (s # ss) = {t. \<exists>p\<in>set (dict_get_or ps b []). p \<in> R \<and> dict_get outs p = Some t}"
proof (cases "b = cf_entry c")
  case False
  define l where "l = concat (map (\<lambda>p. if p \<in> R then opt_list (dict_get outs p) else []) (dict_get_or ps b []))"
  have l: "set l = {t. \<exists>p\<in>set (dict_get_or ps b []). p \<in> R \<and> dict_get outs p = Some t}"
    by (auto simp: l_def opt_list_def split: option.splits)
  show ?thesis
  proof (cases l)
    case Nil
    then have "\<forall>p\<in>set (dict_get_or ps b []). p \<in> R \<longrightarrow> dict_get outs p = None"
      using l by (auto simp del: not_None_eq) (metis not_Some_eq)
    moreover have "st = empty_state" using assms False Nil by (simp add: in_state_of_def l_def [symmetric])
    ultimately show ?thesis using that(2) False by blast
  next
    case (Cons s ss)
    then show ?thesis
      using that(3) [of s ss] l assms False by (simp add: in_state_of_def l_def [symmetric])
  qed
qed (use assms that in \<open>simp add: in_state_of_def\<close>)

definition wf_states :: "(nat, State) dict \<Rightarrow> bool" where
  "wf_states d \<longleftrightarrow> (\<forall>b st. dict_get d b = Some st \<longrightarrow> wf_state st)"

lemma wf_states_set [simp]: "wf_states d \<Longrightarrow> wf_state st \<Longrightarrow> wf_states (dict_set d b st)"
  by (simp add: wf_states_def)

lemma in_state_of_wf: "in_state_of c b ps R outs = Inr st \<Longrightarrow> wf_states outs \<Longrightarrow> wf_state st"
proof (erule in_state_of_cases)
  fix s ss
  assume o: "wf_states outs" and j: "join_all s ss = Inr st"
    and l: "set (s # ss) = {t. \<exists>p\<in>set (dict_get_or ps b []). p \<in> R \<and> dict_get outs p = Some t}"
  have "s \<in> set (s # ss)" by simp
  with o have "wf_state s" unfolding l by (auto simp: wf_states_def)
  with j show ?thesis by (rule join_all_wf)
qed simp_all

lemma wf_transfer [simp]: "wf_state st \<Longrightarrow> wf_state (transfer c blk st)"
  by (simp add: transfer_def)

definition settled_inv :: "CFG \<Rightarrow> (nat, nat list) dict \<Rightarrow> nat set \<Rightarrow> LoopInv" where
  "settled_inv c ps R ins outs work queued \<longleftrightarrow> queued \<subseteq> set work \<and> wf_states ins \<and> wf_states outs
     \<and> (\<forall>b\<in>R. b \<notin> set work \<longrightarrow> settled c ps R ins outs b)"

lemma settled_inv_keeps:
  assumes "distinct (map bl_id (cf_blocks c))" "preds c = Some ps"
  shows "loop_keeps c ps R (settled_inv c ps R)"
  unfolding loop_keeps_def
proof (intro allI impI)
  fix ins outs bid rest queued blk st
  assume I: "settled_inv c ps R ins outs (bid # rest) queued" and b: "block_at c bid = Some blk"
    and st: "in_state_of c bid ps R outs = Inr st"
  have pred: "bid \<in> set (dict_get_or ps s []) \<longleftrightarrow> s \<in> set (bl_succ blk)" for s
    using b by (auto simp: preds_get [OF assms(2)] block_at_iff [OF assms(1)] dest: inj_onD [OF distinct_map [THEN iffD1, OF assms(1), THEN conjunct2]])
  have wf: "wf_state st" "wf_states (dict_set ins bid st)" "wf_states (dict_set outs bid (transfer c blk st))"
    using in_state_of_wf [OF st] I by (simp_all add: settled_inv_def)
  have same: "in_state_of c s ps R (dict_set outs bid ot) = in_state_of c s ps R outs"
    if "s \<notin> set (bl_succ blk)" for s ot
    using that pred [of s] by (intro in_state_of_cong) auto
  show "if dict_get outs bid = None \<or> \<not> state_eq (transfer c blk st) (the (dict_get outs bid))
       then case requeue (bl_succ blk) R rest (queued - {bid}) of (work', queued') \<Rightarrow>
              settled_inv c ps R (dict_set ins bid st) (dict_set outs bid (transfer c blk st)) work' queued'
       else settled_inv c ps R (dict_set ins bid st) outs rest (queued - {bid})"
  proof (cases "dict_get outs bid = None \<or> \<not> state_eq (transfer c blk st) (the (dict_get outs bid))")
    case True
    obtain work' queued' where q: "requeue (bl_succ blk) R rest (queued - {bid}) = (work', queued')"
      by (cases "requeue (bl_succ blk) R rest (queued - {bid})")
    have rq: "set rest \<subseteq> set work'" "queued' \<subseteq> set work'" "set (bl_succ blk) \<inter> R \<subseteq> set work'"
      using requeue_spec [OF q] I by (auto simp: settled_inv_def)
    have "settled c ps R (dict_set ins bid st) (dict_set outs bid (transfer c blk st)) s"
      if "s \<in> R" "s \<notin> set work'" for s
    proof (cases "s = bid")
      case True
      with that rq b st same [of bid] show ?thesis by (auto simp: settled_def)
    next
      case False
      then have "settled c ps R ins outs s" using I that rq by (auto simp: settled_inv_def)
      moreover have "s \<notin> set (bl_succ blk)" using that rq by auto
      ultimately show ?thesis using False same by (auto simp: settled_def)
    qed
    with True q wf rq show ?thesis by (simp add: settled_inv_def)
  next
    case False
    then obtain ot where ot: "dict_get outs bid = Some ot" "state_eq (transfer c blk st) ot" by auto
    have "settled c ps R (dict_set ins bid st) outs s" if "s \<in> R" "s \<notin> set rest" for s
      using that I b st ot by (cases "s = bid") (auto simp: settled_inv_def settled_def)
    with False I wf(2) show ?thesis by (auto simp: settled_inv_def)
  qed
qed

lemma finite_reachable: "reachable c = Some R \<Longrightarrow> finite R"
  by (rule finite_subset [of _ "bl_id ` set (cf_blocks c)"])
    (auto dest: reachable_closed(2) block_at_SomeD)

lemma fixpoint_settles:
  assumes "distinct (map bl_id (cf_blocks c))" "reachable c = Some R" "preds c = Some ps"
    "fixpoint c R = Some (Inr ins)"
  shows "\<exists>outs. wf_states ins \<and> wf_states outs \<and> (\<forall>b\<in>R. settled c ps R ins outs b)"
proof -
  have "settled_inv c ps R [] [] (sorted_list_of_set R) R"
    using finite_reachable [OF assms(2)] by (simp add: settled_inv_def wf_states_def)
  moreover have "fixpoint_loop c ps R [] [] (sorted_list_of_set R) R = Some (Inr ins)"
    using assms(3,4) by (simp add: fixpoint_def)
  ultimately obtain outs q where "settled_inv c ps R ins outs [] q"
    using fixpoint_loop_invariant [OF settled_inv_keeps [OF assms(1,3)] _ refl] by blast
  then show ?thesis by (auto simp: settled_inv_def)
qed

section \<open>Soundness\<close>

lemma gam_state_eq: "gam st \<sigma> \<Longrightarrow> state_eq st st' \<Longrightarrow> gam st' \<sigma>"
  by (simp add: gam_def state_eq_def handles_in_def conc_loans_def dict_get_or_def dict_eq_iff)

lemma gam_initial: "gam (initial_state c) (conc_init c)"
proof -
  let ?f = "\<lambda>st p. if sy_kind p = OWNED_kind
       then (case mint p st of (rid, st1) \<Rightarrow> set_var rid OWNED st1) else st"
  let ?g = "\<lambda>\<sigma> p. if sy_kind p = OWNED_kind then cown p \<sigma> else \<sigma>"
  have "gam (foldl ?f st ps) (foldl ?g \<sigma> ps)" if "gam st \<sigma>" for st \<sigma> ps
    using that
  proof (induction ps arbitrary: st \<sigma>)
    case (Cons p ps)
    have "gam (?f st p) (?g \<sigma> p)"
      using Cons.prems by (simp add: mint_def gam_def handles_in_def conc_loans_def set_var_def cown_def cset_def)
    from Cons.IH [OF this] show ?case by simp
  qed simp
  moreover have "gam empty_state \<lparr>cs_var = [], cs_handle = [], cs_loans = {}\<rparr>"
    by (simp add: gam_def empty_state_def handles_in_def conc_loans_def)
  ultimately show ?thesis by (simp add: initial_state_def conc_init_def)
qed

lemma run_block_Ok: "run_block blk \<sigma> = Ok \<sigma>' \<Longrightarrow> csteps (bl_instrs blk) \<sigma> = Ok \<sigma>'"
  by (auto simp: run_block_def obind_eq_Ok split: if_splits)

lemma reaches_gam:
  assumes wf: "wf_graph c" and R: "reachable c = Some R" and ps: "preds c = Some ps"
    and set: "\<forall>b\<in>R. settled c ps R ins outs b" and r: "reaches c b \<sigma>"
  shows "b \<in> R \<and> (\<exists>st. dict_get ins b = Some st \<and> gam st \<sigma>)"
  using r
proof induction
  case start
  have e: "cf_entry c \<in> R" using reachable_closed(1) [OF R] .
  with set have "settled c ps R ins outs (cf_entry c)" by blast
  with e gam_initial show ?case by (auto simp: settled_def in_state_of_def)
next
  case (edge b \<sigma> blk \<sigma>' s)
  then obtain st where b: "b \<in> R" "dict_get ins b = Some st" "gam st \<sigma>" by blast
  with edge set obtain ot where ot: "dict_get outs b = Some ot" "state_eq (transfer c blk st) ot"
    by (fastforce simp: settled_def)
  have gt: "gam ot \<sigma>'"
    using gam_state_eq [OF _ ot(2)] steps_gam [OF b(3) run_block_Ok [OF edge.hyps(3)]]
    by (simp add: transfer_def)
  have s: "s \<in> R" "s \<noteq> cf_entry c"
    using reachable_closed(2) [OF R b(1)] edge.hyps wf by (auto simp: wf_graph_def dest: block_at_SomeD)
  with set obtain st' where st': "dict_get ins s = Some st'" "in_state_of c s ps R outs = Inr st'"
    by (auto simp: settled_def)
  have p: "b \<in> set (dict_get_or ps s [])"
    using edge.hyps by (auto simp: preds_get [OF ps] dest: block_at_SomeD)
  have "gam st' \<sigma>'"
    using st'(2)
  proof (cases rule: in_state_of_cases)
    case (3 x xs)
    have "ot \<in> set (x # xs)" unfolding 3(3) using p b(1) ot(1) by blast
    from join_all_gam [OF 3(2) this gt] show ?thesis .
  qed (use s p b(1) ot in auto)
  with s st' show ?case by simp
qed

lemma emit_all_Nil:
  assumes "finite R" "emit_all c R ins = []" "b \<in> R" "block_at c b = Some blk" "dict_get ins b = Some st"
  shows "block_diags c blk st = []" "exit_diags c blk st = []"
proof -
  define f where "f = (\<lambda>g bid. case (block_at c bid, dict_get ins bid) of
                  (Some b, Some st) \<Rightarrow> g b st | _ \<Rightarrow> ([] :: Diagnostic list))"
  have "\<forall>x\<in>R. f (block_diags c) x = [] \<and> f (exit_diags c) x = []"
    using assms(1,2) by (simp add: emit_all_def f_def Let_def)
  then show "block_diags c blk st = []" "exit_diags c blk st = []"
    using assms(3-5) by (auto simp: f_def)
qed

lemma analyze_Inr:
  assumes "analyze c = Some (Inr ds)"
  obtains R ps ins where "reachable c = Some R" "preds c = Some ps" "fixpoint c R = Some (Inr ins)"
    "ds = emit_all c R ins"
  using assms
  by (auto simp: analyze_def rbind_eq_Inr fixpoint_def split: option.splits)

lemma analyze_quiet_sound:
  assumes "wf_graph c" "analyze c = Some (Inr [])"
  shows "\<not> faults c Misuse"
proof
  assume "faults c Misuse"
  then obtain b \<sigma> blk where r: "reaches c b \<sigma>" and blk: "block_at c b = Some blk"
    and F: "run_block blk \<sigma> = Fault Misuse" by (auto simp: faults_def)
  from assms(2) obtain R ps ins where R: "reachable c = Some R" and ps: "preds c = Some ps"
    and fp: "fixpoint c R = Some (Inr ins)" and ds: "emit_all c R ins = []" by (rule analyze_Inr) simp
  from assms(1) have d: "distinct (map bl_id (cf_blocks c))" by (simp add: wf_graph_def)
  from fixpoint_settles [OF d R ps fp] obtain outs where wfs: "wf_states ins"
    and "\<forall>b\<in>R. settled c ps R ins outs b" by blast
  from reaches_gam [OF assms(1) R ps this(2) r] obtain st where b: "b \<in> R" "dict_get ins b = Some st" "gam st \<sigma>"
    by blast
  have wf: "wf_state st" using wfs b by (simp add: wf_states_def)
  note q = emit_all_Nil [OF finite_reachable [OF R] ds b(1) blk b(2)]
  from steps_quiet [OF wf b(3)] q(1) have "csteps (bl_instrs blk) \<sigma> \<noteq> Fault Misuse"
    by (simp add: block_diags_def)
  with F obtain \<sigma>' where \<sigma>': "csteps (bl_instrs blk) \<sigma> = Ok \<sigma>'" "bl_succ blk = []" "\<not> ends_in_return blk" "leaks \<sigma>' None"
    by (auto simp: run_block_def obind_eq_Fault split: if_splits)
  then have "leak_check c (transfer c blk st) (last_line c blk) ''at end of function'' None = []"
    using q(2) by (simp add: exit_diags_def)
  moreover have "gam (transfer c blk st) \<sigma>'"
    using steps_gam [OF b(3) \<sigma>'(1)] by (simp add: transfer_def)
  ultimately show False using leak_check_quiet [of "transfer c blk st" \<sigma>'] wf \<sigma>'(4) by simp
qed


section \<open>Completeness\<close>

abbreviation entering :: "CFG \<Rightarrow> nat \<Rightarrow> Conc set" where
  "entering c b \<equiv> {\<sigma>. reaches c b \<sigma>}"

definition never_fails :: "CFG \<Rightarrow> bool" where
  "never_fails c \<longleftrightarrow> (\<forall>b blk. block_at c b = Some blk \<longrightarrow> all_ok (run_block blk) (entering c b))"

lemma never_fails_iff: "never_fails c \<longleftrightarrow> (\<forall>k. \<not> faults c k) \<and> \<not> gets_unbound c"
proof -
  have "(\<exists>x. r = Ok x) \<longleftrightarrow> (\<forall>k. r \<noteq> Fault k) \<and> r \<noteq> Unbound" for r :: "Conc outcome"
    by (cases r) simp_all
  then show ?thesis
    unfolding never_fails_def all_ok_def faults_def gets_unbound_def by auto
qed

lemma covered_mono: "covered st S \<Longrightarrow> S \<subseteq> T \<Longrightarrow> covered st T"
  unfolding covered_def by (meson subsetD)

lemma covered_initial: "reaches c b \<sigma> \<Longrightarrow> \<sigma> = conc_init c \<Longrightarrow> covered (initial_state c) (entering c b)"
proof -
  let ?f = "\<lambda>st p. if sy_kind p = OWNED_kind
       then (case mint p st of (rid, st1) \<Rightarrow> set_var rid OWNED st1) else st"
  let ?g = "\<lambda>\<sigma> p. if sy_kind p = OWNED_kind then cown p \<sigma> else \<sigma>"
  have "\<forall>r v. v \<in> dict_get_or (st_var (foldl ?f st ps)) r {} \<longrightarrow> dict_get (cs_var (foldl ?g \<sigma> ps)) r = Some v"
    if "\<forall>r v. v \<in> dict_get_or (st_var st) r {} \<longrightarrow> dict_get (cs_var \<sigma>) r = Some v" for st \<sigma> ps
    using that
  proof (induction ps arbitrary: st \<sigma>)
    case (Cons p ps)
    have "\<forall>r v. v \<in> dict_get_or (st_var (?f st p)) r {} \<longrightarrow> dict_get (cs_var (?g \<sigma> p)) r = Some v"
      using Cons.prems by (simp add: mint_def set_var_def cown_def cset_def)
    from Cons.IH [OF this] show ?case unfolding foldl_Cons .
  qed simp
  from this [of empty_state "\<lparr>cs_var = [], cs_handle = [], cs_loans = {}\<rparr>" "cf_params c"]
  have "\<forall>r v. v \<in> dict_get_or (st_var (initial_state c)) r {} \<longrightarrow> dict_get (cs_var (conc_init c)) r = Some v"
    by (simp add: initial_state_def conc_init_def empty_state_def)
  moreover assume "reaches c b \<sigma>" "\<sigma> = conc_init c"
  moreover have "handles_in (conc_init c) (initial_state c)"
    using gam_initial [of c] by (simp add: gam_def)
  ultimately show ?thesis by (simp only: covered_def mem_Collect_eq) blast
qed

lemma post_run_block: "block_at c p = Some blk \<Longrightarrow> s \<in> set (bl_succ blk) \<Longrightarrow> never_fails c
    \<Longrightarrow> all_ok (csteps (bl_instrs blk)) (entering c p) \<and> post (csteps (bl_instrs blk)) (entering c p) \<subseteq> entering c s"
proof -
  assume b: "block_at c p = Some blk" and s: "s \<in> set (bl_succ blk)" and nf: "never_fails c"
  have run: "run_block blk \<sigma> = csteps (bl_instrs blk) \<sigma>" for \<sigma>
    using s by (cases "csteps (bl_instrs blk) \<sigma>") (auto simp: run_block_def)
  have e: "reaches c p \<sigma> \<Longrightarrow> csteps (bl_instrs blk) \<sigma> = Ok \<sigma>' \<Longrightarrow> reaches c s \<sigma>'" for \<sigma> \<sigma>'
    using reaches.edge [OF _ b _ s] by (simp add: run)
  have "all_ok (run_block blk) (entering c p)" using nf b by (simp add: never_fails_def)
  then have "all_ok (csteps (bl_instrs blk)) (entering c p)" by (simp add: all_ok_def run)
  with e show ?thesis by (auto simp: post_def)
qed

text \<open>
  The loop only records facts that some execution realises, and a block is first visited after
  one of its predecessors: \<open>new\<close> is the part of the queue that is still the initial ascending one.
\<close>

definition covers :: "CFG \<Rightarrow> (nat, State) dict \<Rightarrow> (nat, State) dict \<Rightarrow> bool" where
  "covers c ins outs \<longleftrightarrow> (\<forall>b st. dict_get ins b = Some st \<longrightarrow> covered st (entering c b))
     \<and> (\<forall>b ot s blk. dict_get outs b = Some ot \<longrightarrow> block_at c b = Some blk \<longrightarrow> s \<in> set (bl_succ blk)
          \<longrightarrow> covered ot (entering c s))"

definition covers_inv :: "CFG \<Rightarrow> nat set \<Rightarrow> LoopInv" where
  "covers_inv c R ins outs work queued \<longleftrightarrow> covers c ins outs \<and> set work \<subseteq> R \<and> queued \<subseteq> set work
     \<and> (\<exists>new old. work = new @ old \<and> sorted new \<and> (\<forall>b\<in>R. b \<notin> set new \<longrightarrow> dict_get outs b \<noteq> None))"

lemma covered_in_state:
  assumes wf: "wf_graph c" and R: "reachable c = Some R" and ps: "preds c = Some ps"
    and I: "covers_inv c R ins outs (bid # rest) queued" and st: "in_state_of c bid ps R outs = Inr st"
  shows "covered st (entering c bid)"
  using st
proof (cases rule: in_state_of_cases)
  case 1
  then show ?thesis using covered_initial [OF reaches.start refl] by simp
next
  case 2
  have "bid \<in> R" using I by (simp add: covers_inv_def)
  from wf_graph_lower_pred [OF wf R this 2(1)] obtain p blk where p: "p \<in> R" "p < bid"
    "block_at c p = Some blk" "bid \<in> set (bl_succ blk)" by blast
  from I obtain new old where w: "bid # rest = new @ old" "sorted new" "\<forall>b\<in>R. b \<notin> set new \<longrightarrow> dict_get outs b \<noteq> None"
    unfolding covers_inv_def by blast
  have "p \<notin> set new"
    using w(1,2) p(2) by (cases new) auto
  with w(3) p(1) have "dict_get outs p \<noteq> None" by blast
  moreover have "p \<in> set (dict_get_or ps bid [])"
    using p by (auto simp: preds_get [OF ps] dest: block_at_SomeD)
  ultimately have False using 2(2) p(1) by simp
  then show ?thesis ..
next
  case (3 s ss)
  have d: "distinct (map bl_id (cf_blocks c))" using wf by (simp add: wf_graph_def)
  have "covered t (entering c bid)" if "t \<in> set (s # ss)" for t
  proof -
    from that obtain p where "p \<in> set (dict_get_or ps bid [])" "dict_get outs p = Some t"
      unfolding 3(3) by blast
    moreover from this(1) obtain blk where "block_at c p = Some blk" "bid \<in> set (bl_succ blk)"
      by (auto simp: preds_get [OF ps] block_at_iff [OF d])
    ultimately show ?thesis using I by (auto simp: covers_inv_def covers_def)
  qed
  with join_all_covered [OF 3(2)] show ?thesis by blast
qed

lemma covers_inv_keeps:
  assumes wf: "wf_graph c" and R: "reachable c = Some R" and ps: "preds c = Some ps" and nf: "never_fails c"
  shows "loop_keeps c ps R (covers_inv c R)"
  unfolding loop_keeps_def
proof (intro allI impI)
  fix ins outs bid rest queued blk st
  assume I: "covers_inv c R ins outs (bid # rest) queued" and b: "block_at c bid = Some blk"
    and st: "in_state_of c bid ps R outs = Inr st"
  have cst: "covered st (entering c bid)" by (rule covered_in_state [OF wf R ps I st])
  have out: "covered (transfer c blk st) (entering c s)" if "s \<in> set (bl_succ blk)" for s
    using covered_steps [OF cst] post_run_block [OF b that nf] covered_mono unfolding transfer_def by blast
  from I obtain new old where w: "bid # rest = new @ old" "sorted new" "\<forall>b\<in>R. b \<notin> set new \<longrightarrow> dict_get outs b \<noteq> None"
    and sub: "bid \<in> R" "set rest \<subseteq> R" "queued - {bid} \<subseteq> set rest" and cv: "covers c ins outs"
    unfolding covers_inv_def by auto
  obtain new' old' where w': "rest = new' @ old'" "sorted new'" "set new \<subseteq> insert bid (set new')"
    using w(1,2) by (cases new) (auto intro: that)
  have cv': "covers c (dict_set ins bid st) outs" "covers c (dict_set ins bid st) (dict_set outs bid (transfer c blk st))"
    using cv cst out b by (auto simp: covers_def)
  show "if dict_get outs bid = None \<or> \<not> state_eq (transfer c blk st) (the (dict_get outs bid))
       then case requeue (bl_succ blk) R rest (queued - {bid}) of (work', queued') \<Rightarrow>
              covers_inv c R (dict_set ins bid st) (dict_set outs bid (transfer c blk st)) work' queued'
       else covers_inv c R (dict_set ins bid st) outs rest (queued - {bid})"
  proof (cases "dict_get outs bid = None \<or> \<not> state_eq (transfer c blk st) (the (dict_get outs bid))")
    case True
    obtain work' queued' where q: "requeue (bl_succ blk) R rest (queued - {bid}) = (work', queued')"
      by (cases "requeue (bl_succ blk) R rest (queued - {bid})")
    from requeue_spec [OF q sub(3)] sub(2) obtain more where m: "work' = rest @ more" "set work' \<subseteq> R" "queued' \<subseteq> set work'"
      by blast
    have "\<exists>n l. work' = n @ l \<and> sorted n \<and> (\<forall>b\<in>R. b \<notin> set n \<longrightarrow> dict_get (dict_set outs bid (transfer c blk st)) b \<noteq> None)"
      by (rule exI [of _ new'], rule exI [of _ "old' @ more"]) (use w' w(3) m(1) in auto)
    with True q m cv'(2) show ?thesis by (simp add: covers_inv_def)
  next
    case False
    have "\<exists>n l. rest = n @ l \<and> sorted n \<and> (\<forall>b\<in>R. b \<notin> set n \<longrightarrow> dict_get outs b \<noteq> None)"
      by (rule exI [of _ new'], rule exI [of _ old']) (use w' w(3) False in auto)
    with sub cv'(1) have "covers_inv c R (dict_set ins bid st) outs rest (queued - {bid})"
      by (simp add: covers_inv_def)
    with False show ?thesis by (simp only: if_False)
  qed
qed

lemma fixpoint_covers:
  assumes wf: "wf_graph c" and R: "reachable c = Some R" and ps: "preds c = Some ps" and nf: "never_fails c"
    and "fixpoint c R = Some (Inr ins)"
  shows "dict_get ins b = Some st \<Longrightarrow> covered st (entering c b)"
proof -
  have "covers_inv c R [] [] (sorted_list_of_set R) R"
    unfolding covers_inv_def
    using finite_reachable [OF R]
    by (simp add: covers_def) (rule exI [of _ "sorted_list_of_set R"], simp)
  moreover have "fixpoint_loop c ps R [] [] (sorted_list_of_set R) R = Some (Inr ins)"
    using assms(3,5) by (simp add: fixpoint_def)
  ultimately obtain outs q where "covers_inv c R ins outs [] q"
    using fixpoint_loop_invariant [OF covers_inv_keeps [OF wf R ps nf] _ refl] by blast
  then show "dict_get ins b = Some st \<Longrightarrow> covered st (entering c b)"
    by (auto simp: covers_inv_def covers_def)
qed

lemma analyze_quiet_complete:
  assumes "wf_graph c" "never_fails c" "analyze c = Some (Inr ds)"
  shows "ds = []"
proof -
  from assms(3) obtain R ps ins where R: "reachable c = Some R" and ps: "preds c = Some ps"
    and fp: "fixpoint c R = Some (Inr ins)" and ds: "ds = emit_all c R ins" by (rule analyze_Inr)
  from assms(1) have d: "distinct (map bl_id (cf_blocks c))" by (simp add: wf_graph_def)
  from fixpoint_settles [OF d R ps fp] obtain outs where wfs: "wf_states ins"
    and st: "\<forall>b\<in>R. settled c ps R ins outs b" by blast
  have q: "block_diags c blk s = [] \<and> exit_diags c blk s = []"
    if b: "b \<in> R" "block_at c b = Some blk" "dict_get ins b = Some s" for b blk s
  proof -
    have ok: "all_ok (run_block blk) (entering c b)" using assms(2) b(2) by (simp add: never_fails_def)
    then have ok': "all_ok (csteps (bl_instrs blk)) (entering c b)"
      unfolding all_ok_def using run_block_Ok by blast
    have "gam s \<sigma>" if "\<sigma> \<in> entering c b" for \<sigma>
      using reaches_gam [OF assms(1) R ps st, of b \<sigma>] that b(3) by auto
    then have "exact s (entering c b)"
      using fixpoint_covers [OF assms(1) R ps assms(2) fp b(3)] wfs b(3) by (simp add: exact_def wf_states_def)
    note e = exact_steps [OF this ok', of c]
    have "exit_diags c blk s = []"
    proof (cases "bl_succ blk = [] \<and> \<not> ends_in_return blk")
      case True
      have "\<not> leaks \<sigma> None" if "\<sigma> \<in> post (csteps (bl_instrs blk)) (entering c b)" for \<sigma>
        using that ok True unfolding post_def all_ok_def
        by (auto simp: run_block_def obind_eq_Ok split: if_splits)
      then have "leak_check c (transfer c blk s) (last_line c blk) ''at end of function'' None = []"
        using e by (intro exact_leak_check [where S = "post (csteps (bl_instrs blk)) (entering c b)"])
          (simp_all add: transfer_def)
      then show ?thesis by (simp add: exit_diags_def)
    qed (auto simp: exit_diags_def)
    with e show ?thesis by (simp add: block_diags_def)
  qed
  then show ?thesis
    using finite_reachable [OF R] unfolding ds by (auto simp: emit_all_def Let_def split: option.splits)
qed

end
