(* ===== verification/Own_Build.thy ===== *)
theory Own_Build
  imports Own_Fixpoint
begin

text \<open>
  Every graph the builder returns is well formed (\<open>build_wf_blocks\<close>): ids are positions, edges stay
  inside, nothing leads back to the entry, and each block follows an earlier one. The proof is an
  induction over \<open>lower_stmt\<close> and \<open>lower_seq\<close> with the contract \<open>lowers\<close>: what is lowered from an
  open block leaves every other old block alone and ends in an open block.
\<close>

section \<open>The graph under construction\<close>

text \<open>
  \<open>wf_blocks\<close>: block \<open>i\<close> has id \<open>i\<close>, edges stay inside the graph and never lead to the entry, and
  every other block is the successor of an earlier one. A block is open while it has no successor.
\<close>

definition wf_blocks :: "Block list \<Rightarrow> bool" where
  "wf_blocks B \<longleftrightarrow> (\<forall>i<length B. bl_id (B ! i) = i \<and> (\<forall>s\<in>set (bl_succ (B ! i)). 0 < s \<and> s < length B)
     \<and> (i \<noteq> 0 \<longrightarrow> (\<exists>p<i. i \<in> set (bl_succ (B ! p)))))"

definition open_at :: "Block list \<Rightarrow> nat \<Rightarrow> bool" where
  "open_at B i \<longleftrightarrow> i < length B \<and> bl_succ (B ! i) = []"

definition instrs_only :: "nat \<Rightarrow> Builder \<Rightarrow> Builder \<Rightarrow> bool" where
  "instrs_only cur b b' \<longleftrightarrow> (\<exists>xs. bu_blocks b'
     = (bu_blocks b)[cur := (bu_blocks b ! cur)\<lparr>bl_instrs := bl_instrs (bu_blocks b ! cur) @ xs\<rparr>])"

named_theorems same_blocks

lemma add_diags_blocks [same_blocks]: "bu_blocks (add_diags ds b) = bu_blocks b"
  by (simp add: add_diags_def)

lemma scope_blocks [same_blocks]: "bu_blocks (push_scope b) = bu_blocks b" "bu_blocks (pop_scope b) = bu_blocks b"
  by (simp_all add: push_scope_def pop_scope_def)

lemma declare_blocks [same_blocks]: "bu_blocks (snd (declare_sym s b)) = bu_blocks b"
  by (simp add: declare_sym_def Let_def)

lemma lookup_blocks [same_blocks]: "bu_blocks (snd (lookup_sym n l b)) = bu_blocks b"
  by (simp add: lookup_sym_def add_diags_def split: option.split)

lemma owned_source_blocks [same_blocks]: "bu_blocks (snd (owned_source v l m b)) = bu_blocks b"
  by (simp add: owned_source_def split_beta same_blocks split: option.split)

lemma resolve_args_blocks [same_blocks]: "bu_blocks (snd (resolve_args as b)) = bu_blocks b"
proof (induction as arbitrary: b)
  case (Cons a as)
  then show ?case by (cases a) (simp_all add: split_beta same_blocks)
qed simp

lemma check_buffer_size_blocks [same_blocks]: "bu_blocks (check_buffer_size n e l b) = bu_blocks b"
  by (simp add: check_buffer_size_def split_beta same_blocks split: option.split Atom.split)

lemma blocks_instrs_only: "bu_blocks b' = bu_blocks b \<Longrightarrow> instrs_only cur b b'"
  by (auto simp: instrs_only_def intro!: exI [of _ "[]"])

lemma emit_instrs_only:
  "bu_blocks b1 = bu_blocks b \<Longrightarrow> instrs_only cur b (emit cur i b1)"
  by (auto simp: instrs_only_def emit_def)

lemma lower_let_instrs_only: "instrs_only cur b (lower_let cx name rhs line cur b)"
  by (auto simp: lower_let_def lower_let_acquire_def lower_buffer_def lower_let_move_def lower_let_copy_def
      Let_def split_beta same_blocks intro!: emit_instrs_only intro: blocks_instrs_only
      split: Expr.split Atom.split option.split)

lemma lower_simple_instrs_only:
  "instrs_only cur b (lower_release v line cur b)"
  "instrs_only cur b (lower_use v line cur b)"
  "instrs_only cur b (lower_overspan v line cur b)"
  "instrs_only cur b (lower_call cx f args line cur b)"
  "instrs_only cur b (lower_alias_join name v line cur b)"
  by (auto simp: lower_release_def lower_use_def lower_overspan_def lower_call_def lower_alias_join_def
      Let_def split_beta same_blocks intro!: emit_instrs_only intro: blocks_instrs_only split: option.split)

text \<open>What lowering a statement from the open block \<open>cur\<close> promises.\<close>

definition lowers :: "nat \<Rightarrow> Builder \<Rightarrow> nat option \<Rightarrow> Builder \<Rightarrow> bool" where
  "lowers cur b out b' \<longleftrightarrow> wf_blocks (bu_blocks b') \<and> length (bu_blocks b) \<le> length (bu_blocks b')
     \<and> (\<forall>i<length (bu_blocks b). i \<noteq> cur \<longrightarrow> bu_blocks b' ! i = bu_blocks b ! i)
     \<and> (\<forall>c. out = Some c \<longrightarrow> open_at (bu_blocks b') c \<and> (c = cur \<or> length (bu_blocks b) \<le> c))"

definition ready :: "nat \<Rightarrow> Builder \<Rightarrow> bool" where
  "ready cur b \<longleftrightarrow> wf_blocks (bu_blocks b) \<and> open_at (bu_blocks b) cur"

lemma bl_update: "bl_succ (B[cur := (B ! cur)\<lparr>bl_instrs := xs\<rparr>] ! i) = bl_succ (B ! i)"
  "bl_id (B[cur := (B ! cur)\<lparr>bl_instrs := xs\<rparr>] ! i) = bl_id (B ! i)"
  by (cases "cur < length B"; cases "i = cur"; simp add: list_update_beyond)+

lemma instrs_only_lowers:
  assumes "ready cur b" "instrs_only cur b b'"
  shows "lowers cur b (Some cur) b'" "ready cur b'"
proof -
  from assms(2) obtain xs where b': "bu_blocks b'
     = (bu_blocks b)[cur := (bu_blocks b ! cur)\<lparr>bl_instrs := bl_instrs (bu_blocks b ! cur) @ xs\<rparr>]"
    by (auto simp: instrs_only_def)
  have "wf_blocks (bu_blocks b')" "open_at (bu_blocks b') cur"
    using assms(1) unfolding b' ready_def wf_blocks_def open_at_def bl_update length_list_update by simp_all
  then show "lowers cur b (Some cur) b'" "ready cur b'"
    by (auto simp: lowers_def ready_def b' nth_list_update)
qed

text \<open>Closing an open block with edges to blocks other than the entry.\<close>

lemma succ_update: "i < length B \<Longrightarrow>
    bl_succ (B[cur := x\<lparr>bl_succ := ss\<rparr>] ! i) = (if i = cur then ss else bl_succ (B ! i))"
  by (simp add: nth_list_update)

lemma id_update: "i < length B \<Longrightarrow>
    bl_id (B[cur := x\<lparr>bl_succ := ss\<rparr>] ! i) = (if i = cur then bl_id x else bl_id (B ! i))"
  by (simp add: nth_list_update)

lemma set_succ_wf:
  assumes "wf_blocks B" "open_at B cur" "\<forall>s\<in>set ss. 0 < s \<and> s < length B"
  shows "wf_blocks (B[cur := (B ! cur)\<lparr>bl_succ := ss\<rparr>])"
  unfolding wf_blocks_def
proof (intro allI impI)
  fix i
  assume i: "i < length (B[cur := (B ! cur)\<lparr>bl_succ := ss\<rparr>])"
  then have "\<exists>p<i. i \<in> set (bl_succ (B[cur := (B ! cur)\<lparr>bl_succ := ss\<rparr>] ! p))" if "i \<noteq> 0"
  proof -
    from that i assms(1) obtain p where p: "p < i" "i \<in> set (bl_succ (B ! p))"
      by (auto simp: wf_blocks_def)
    then have "p \<noteq> cur" using assms(2) by (auto simp: open_at_def)
    with p i show ?thesis by (auto simp: succ_update)
  qed
  with i assms show "bl_id (B[cur := (B ! cur)\<lparr>bl_succ := ss\<rparr>] ! i) = i
      \<and> (\<forall>s\<in>set (bl_succ (B[cur := (B ! cur)\<lparr>bl_succ := ss\<rparr>] ! i)). 0 < s \<and> s < length (B[cur := (B ! cur)\<lparr>bl_succ := ss\<rparr>]))
      \<and> (i \<noteq> 0 \<longrightarrow> (\<exists>p<i. i \<in> set (bl_succ (B[cur := (B ! cur)\<lparr>bl_succ := ss\<rparr>] ! p))))"
    by (auto simp: succ_update id_update wf_blocks_def)
qed

text \<open>New blocks together with the edges that lead to them.\<close>

definition fresh_block :: "nat \<Rightarrow> string \<Rightarrow> Block" where
  "fresh_block i l = \<lparr>bl_id = i, bl_instrs = [], bl_succ = [], bl_label = l\<rparr>"

lemma new_block_eq: "new_block l b = (length (bu_blocks b),
    b\<lparr>bu_blocks := bu_blocks b @ [fresh_block (length (bu_blocks b)) l]\<rparr>)"
  by (simp add: new_block_def fresh_block_def Let_def)

lemma extend_wf:
  assumes "wf_blocks B" "open_at B cur" "new = map (\<lambda>k. fresh_block (length B + k) (l k)) [0..<n]"
    and "set ss = {length B..<length B + n}"
  shows "wf_blocks ((B @ new)[cur := ((B @ new) ! cur)\<lparr>bl_succ := ss\<rparr>])"
  unfolding wf_blocks_def
proof (intro allI impI)
  let ?B = "(B @ new)[cur := ((B @ new) ! cur)\<lparr>bl_succ := ss\<rparr>]"
  fix i
  assume i: "i < length ?B"
  have cur: "cur < length B" "bl_succ (B ! cur) = []" using assms(2) by (auto simp: open_at_def)
  show "bl_id (?B ! i) = i \<and> (\<forall>s\<in>set (bl_succ (?B ! i)). 0 < s \<and> s < length ?B)
      \<and> (i \<noteq> 0 \<longrightarrow> (\<exists>p<i. i \<in> set (bl_succ (?B ! p))))"
  proof (cases "i < length B")
    case True
    have "\<exists>p<i. i \<in> set (bl_succ (?B ! p))" if "i \<noteq> 0"
    proof -
      from that True assms(1) obtain p where p: "p < i" "i \<in> set (bl_succ (B ! p))"
        by (auto simp: wf_blocks_def)
      then have "p \<noteq> cur" using cur by auto
      with p True i show ?thesis by (auto simp: succ_update nth_append)
    qed
    moreover have "bl_id (B ! i) = i" "\<forall>s\<in>set (bl_succ (B ! i)). 0 < s \<and> s < length B + n"
      using assms(1) True by (auto simp: wf_blocks_def intro: trans_less_add1)
    then have "bl_id (?B ! i) = i" "\<forall>s\<in>set (bl_succ (?B ! i)). 0 < s \<and> s < length ?B"
      using True i assms(3,4) cur by (auto simp: succ_update id_update nth_append)
    ultimately show ?thesis by blast
  next
    case False
    then have "bl_id (?B ! i) = i" "bl_succ (?B ! i) = []"
      using i cur assms(3) by (auto simp: succ_update id_update nth_append fresh_block_def)
    moreover have "i \<in> set (bl_succ (?B ! cur))" "cur < i"
      using False i cur assms(3,4) by (auto simp: succ_update)
    ultimately show ?thesis by auto
  qed
qed


lemma lowers_trans:
  assumes "lowers cur b (Some c) b1" "lowers c b1 out b2" "cur < length (bu_blocks b)"
  shows "lowers cur b out b2"
  using assms unfolding lowers_def by (fastforce simp: open_at_def)

lemma lowers_same: "ready cur b \<Longrightarrow> lowers cur b (Some cur) b"
  by (simp add: ready_def lowers_def)

lemma lowers_ready: "lowers cur b (Some c) b' \<Longrightarrow> ready c b'"
  by (simp add: lowers_def ready_def)

lemma ready_cong: "bu_blocks b' = bu_blocks b \<Longrightarrow> ready cur b' = ready cur b"
  by (simp add: ready_def)

lemma lowers_cong:
  "bu_blocks b1 = bu_blocks b \<Longrightarrow> bu_blocks b2 = bu_blocks b' \<Longrightarrow> lowers cur b1 out b2 = lowers cur b out b'"
  by (simp add: lowers_def)

lemma set_succ_blocks: "bu_blocks (set_succ cur ss b) = (bu_blocks b)[cur := (bu_blocks b ! cur)\<lparr>bl_succ := ss\<rparr>]"
  by (simp add: set_succ_def)

lemma resolve_return_blocks [same_blocks]: "bu_blocks (snd (resolve_return cx var line b)) = bu_blocks b"
  by (simp add: resolve_return_def split_beta same_blocks split: option.split)

lemma lower_return_lowers:
  assumes "ready cur b"
  shows "lowers cur b None (lower_return cx var line cur b)"
proof -
  define b1 where "b1 = emit cur (Return_i (fst (resolve_return cx var line b)) line) (snd (resolve_return cx var line b))"
  have "instrs_only cur b b1" unfolding b1_def by (rule emit_instrs_only) (simp add: same_blocks)
  from instrs_only_lowers [OF assms this]
  have "lowers cur b None (set_succ cur [] b1)"
    using set_succ_wf [of "bu_blocks b1" cur "[]"]
    by (auto simp: lowers_def ready_def set_succ_blocks nth_list_update)
  then show ?thesis by (simp add: lower_return_def split_beta b1_def)
qed

text \<open>The two ways the builder adds blocks: successors of the current block, or a merge block.\<close>

lemma branch_ready:
  assumes "ready cur b" "bu_blocks b' = (bu_blocks b @ new)[cur := ((bu_blocks b @ new) ! cur)\<lparr>bl_succ := ss\<rparr>]"
    and "new = map (\<lambda>k. fresh_block (length (bu_blocks b) + k) (l k)) [0..<n]"
    and "set ss = {length (bu_blocks b)..<length (bu_blocks b) + n}"
  shows "wf_blocks (bu_blocks b')" "k < n \<Longrightarrow> open_at (bu_blocks b') (length (bu_blocks b) + k)"
    "length (bu_blocks b') = length (bu_blocks b) + n"
    "\<forall>i<length (bu_blocks b). i \<noteq> cur \<longrightarrow> bu_blocks b' ! i = bu_blocks b ! i"
proof -
  show "wf_blocks (bu_blocks b')"
    using extend_wf [OF _ _ assms(3,4), of cur] assms(1,2) by (simp add: ready_def)
  show len: "length (bu_blocks b') = length (bu_blocks b) + n" using assms(2,3) by simp
  have "cur < length (bu_blocks b)" using assms(1) by (simp add: ready_def open_at_def)
  then show "k < n \<Longrightarrow> open_at (bu_blocks b') (length (bu_blocks b) + k)"
      "\<forall>i<length (bu_blocks b). i \<noteq> cur \<longrightarrow> bu_blocks b' ! i = bu_blocks b ! i"
    using len assms(3) unfolding open_at_def assms(2)
    by (auto simp: succ_update nth_append fresh_block_def nth_list_update)
qed

text \<open>A merge: one new block, reached from every open exit that is left.\<close>

lemma merge_step:
  assumes "ready x b" "bu_blocks b' = (bu_blocks b @ [fresh_block (length (bu_blocks b)) l])
      [x := ((bu_blocks b @ [fresh_block (length (bu_blocks b)) l]) ! x)\<lparr>bl_succ := [length (bu_blocks b)]\<rparr>]"
  shows "ready (length (bu_blocks b)) b'" "length (bu_blocks b') = Suc (length (bu_blocks b))"
    "\<forall>i<length (bu_blocks b). i \<noteq> x \<longrightarrow> bu_blocks b' ! i = bu_blocks b ! i"
proof -
  have new: "[fresh_block (length (bu_blocks b)) l] = map (\<lambda>k. fresh_block (length (bu_blocks b) + k) l) [0..<1]"
    and ss: "set [length (bu_blocks b)] = {length (bu_blocks b)..<length (bu_blocks b) + 1}"
    by auto
  note B = branch_ready [OF assms new ss]
  show "ready (length (bu_blocks b)) b'" using B(1) B(2) [of 0] by (simp add: ready_def)
  show "length (bu_blocks b') = Suc (length (bu_blocks b))" using B(3) by simp
  show "\<forall>i<length (bu_blocks b). i \<noteq> x \<longrightarrow> bu_blocks b' ! i = bu_blocks b ! i" by (rule B(4))
qed

lemma edge_step:
  assumes "wf_blocks (bu_blocks b)" "open_at (bu_blocks b) x" "0 < m" "m < length (bu_blocks b)"
  shows "wf_blocks (bu_blocks (set_succ x [m] b))"
    "length (bu_blocks (set_succ x [m] b)) = length (bu_blocks b)"
    "\<forall>i. i \<noteq> x \<longrightarrow> bu_blocks (set_succ x [m] b) ! i = bu_blocks b ! i"
    "m \<noteq> x \<Longrightarrow> open_at (bu_blocks b) m \<Longrightarrow> open_at (bu_blocks (set_succ x [m] b)) m"
  using set_succ_wf [OF assms(1,2), of "[m]"] assms(3,4)
  by (auto simp: set_succ_blocks open_at_def)

text \<open>\<open>grows\<close>: blocks of \<open>b\<close> other than \<open>cur\<close> are as they were.\<close>

definition grows :: "nat \<Rightarrow> Builder \<Rightarrow> Builder \<Rightarrow> bool" where
  "grows cur b b' \<longleftrightarrow> length (bu_blocks b) \<le> length (bu_blocks b')
     \<and> (\<forall>i<length (bu_blocks b). i \<noteq> cur \<longrightarrow> bu_blocks b' ! i = bu_blocks b ! i)"

lemma lowers_grows: "lowers cur b out b' \<Longrightarrow> grows cur b b'"
  by (simp add: lowers_def grows_def)

lemma grows_trans:
  "grows cur b b1 \<Longrightarrow> grows x b1 b2 \<Longrightarrow> x = cur \<or> length (bu_blocks b) \<le> x \<Longrightarrow> grows cur b b2"
  unfolding grows_def by fastforce

lemma grows_open: "grows x b b' \<Longrightarrow> open_at (bu_blocks b) i \<Longrightarrow> i \<noteq> x \<Longrightarrow> open_at (bu_blocks b') i"
  by (simp add: grows_def open_at_def)

lemma lowersI:
  "wf_blocks (bu_blocks b') \<Longrightarrow> grows cur b b'
    \<Longrightarrow> (\<And>c. out = Some c \<Longrightarrow> open_at (bu_blocks b') c \<and> (c = cur \<or> length (bu_blocks b) \<le> c))
    \<Longrightarrow> lowers cur b out b'"
  by (simp add: lowers_def grows_def)

lemma merge_grows:
  assumes "ready x b" "bu_blocks b' = (bu_blocks b @ [fresh_block (length (bu_blocks b)) l])
      [x := ((bu_blocks b @ [fresh_block (length (bu_blocks b)) l]) ! x)\<lparr>bl_succ := [length (bu_blocks b)]\<rparr>]"
  shows "grows x b b'" "ready (length (bu_blocks b)) b'"
  using merge_step [OF assms] by (simp_all add: grows_def)

lemma set_succ_new_block:
  "bu_blocks (set_succ x [length (bu_blocks b)] (snd (new_block l b)))
     = (bu_blocks b @ [fresh_block (length (bu_blocks b)) l])
         [x := ((bu_blocks b @ [fresh_block (length (bu_blocks b)) l]) ! x)\<lparr>bl_succ := [length (bu_blocks b)]\<rparr>]"
  by (simp add: set_succ_blocks new_block_eq)

lemma edge_grows:
  assumes "wf_blocks (bu_blocks b)" "open_at (bu_blocks b) x" "open_at (bu_blocks b) m" "0 < m" "m \<noteq> x"
  shows "grows x b (set_succ x [m] b)" "ready m (set_succ x [m] b)"
  using edge_step [OF assms(1,2,4)] assms(3,5) by (simp_all add: grows_def ready_def open_at_def)

lemma merge_lowers:
  assumes wf: "wf_blocks (bu_blocks b5)" and g: "grows cur b b5"
    and tx: "\<And>x. tx = Some x \<Longrightarrow> open_at (bu_blocks b5) x \<and> length (bu_blocks b) \<le> x"
    and ex: "\<And>y. ex = Some y \<Longrightarrow> open_at (bu_blocks b5) y \<and> length (bu_blocks b) \<le> y"
    and ne: "\<And>x y. tx = Some x \<Longrightarrow> ex = Some y \<Longrightarrow> x \<noteq> y"
    and some: "tx \<noteq> None \<or> ex \<noteq> None"
    and m: "m = length (bu_blocks b5)" "b6 = snd (new_block l b5)"
    and b7: "b7 = (case tx of None \<Rightarrow> b6 | Some x \<Rightarrow> set_succ x [m] b6)"
    and b8: "b8 = (case ex of None \<Rightarrow> b7 | Some x \<Rightarrow> set_succ x [m] b7)"
  shows "lowers cur b (Some m) b8"
proof -
  have one: "grows cur b (set_succ x [m] b6) \<and> grows x b5 (set_succ x [m] b6) \<and> ready m (set_succ x [m] b6)"
    if "open_at (bu_blocks b5) x" "length (bu_blocks b) \<le> x" for x
    using merge_grows [of x b5 "set_succ x [m] b6" l] that wf grows_trans [OF g]
    by (simp add: m set_succ_new_block ready_def)
  have le: "length (bu_blocks b) \<le> m" "m \<noteq> 0" using g wf some tx ex
    by (auto simp: grows_def m open_at_def)
  have fin: "lowers cur b (Some m) b'" if "grows cur b b'" "ready m b'" for b'
    using that le by (intro lowersI) (auto simp: ready_def)
  show ?thesis
  proof (cases tx)
    case None
    with some obtain y where y: "ex = Some y" by auto
    with None one [of y] ex fin show ?thesis by (simp add: b7 b8)
  next
    case tx': (Some x)
    note X = one [of x, OF conjunct1 [OF tx [OF tx']] conjunct2 [OF tx [OF tx']]]
    show ?thesis
    proof (cases ex)
      case None
      with tx' X fin show ?thesis by (simp add: b7 b8)
    next
      case (Some y)
      have y: "open_at (bu_blocks b5) y" "length (bu_blocks b) \<le> y" "y \<noteq> x" "y < m"
        using ex [OF Some] ne [OF tx' Some] by (auto simp: m open_at_def)
      have yb: "open_at (bu_blocks (set_succ x [m] b6)) y" using grows_open X y by blast
      have mo: "wf_blocks (bu_blocks (set_succ x [m] b6))" "open_at (bu_blocks (set_succ x [m] b6)) m"
        using X by (simp_all add: ready_def)
      from edge_grows [OF mo(1) yb mo(2)] y le X grows_trans [of cur b]
      show ?thesis by (auto simp: b7 b8 tx' Some intro!: fin)
    qed
  qed
qed

lemma two_blocks:
  assumes r: "ready cur b" and n: "n = length (bu_blocks b)"
    and bs: "bu_blocks bs = (bu_blocks b @ [fresh_block n l1, fresh_block (Suc n) l2])
      [cur := ((bu_blocks b @ [fresh_block n l1, fresh_block (Suc n) l2]) ! cur)\<lparr>bl_succ := [n, Suc n]\<rparr>]"
  shows "wf_blocks (bu_blocks bs)" "open_at (bu_blocks bs) n" "open_at (bu_blocks bs) (Suc n)"
    "grows cur b bs" "length (bu_blocks bs) = Suc (Suc n)"
proof -
  have new: "[fresh_block n l1, fresh_block (Suc n) l2]
      = map (\<lambda>k. fresh_block (length (bu_blocks b) + k) (if k = 0 then l1 else l2)) [0..<2]"
    by (simp add: n upt_rec)
  have ss: "set [n, Suc n] = {length (bu_blocks b)..<length (bu_blocks b) + 2}" by (auto simp: n)
  note B = branch_ready [OF r bs new ss]
  show "wf_blocks (bu_blocks bs)" by (rule B(1))
  show "open_at (bu_blocks bs) n" using B(2) [of 0] n by simp
  show "open_at (bu_blocks bs) (Suc n)" using B(2) [of 1] n by simp
  show "grows cur b bs" "length (bu_blocks bs) = Suc (Suc n)" using B(3,4) n by (simp_all add: grows_def)
qed

lemma if_core:
  assumes r: "ready cur b" and n: "n = length (bu_blocks b)"
    and bs: "bs = push_scope (set_succ cur [n, Suc n] (snd (new_block l2 (snd (new_block l1 b)))))"
    and t: "ready n bs \<Longrightarrow> lowers n bs tx b3"
    and e: "ready (Suc n) (push_scope (pop_scope b3)) \<Longrightarrow> lowers (Suc n) (push_scope (pop_scope b3)) ex b4"
  shows "wf_blocks (bu_blocks b4)" "grows cur b b4"
    "tx = Some x \<Longrightarrow> open_at (bu_blocks b4) x \<and> n \<le> x"
    "ex = Some y \<Longrightarrow> open_at (bu_blocks b4) y \<and> n \<le> y"
    "tx = Some x \<Longrightarrow> ex = Some y \<Longrightarrow> x \<noteq> y"
proof -
  have "bu_blocks bs = (bu_blocks b @ [fresh_block n l1, fresh_block (Suc n) l2])
      [cur := ((bu_blocks b @ [fresh_block n l1, fresh_block (Suc n) l2]) ! cur)\<lparr>bl_succ := [n, Suc n]\<rparr>]"
    by (simp add: bs same_blocks set_succ_blocks new_block_eq n)
  note s = two_blocks [OF r n this]
  let ?b3 = "push_scope (pop_scope b3)"
  have L3: "lowers n bs tx b3" using t s by (simp add: ready_def)
  then have L3': "wf_blocks (bu_blocks ?b3)" "grows n bs ?b3"
    by (simp_all add: lowers_def grows_def same_blocks)
  then have "open_at (bu_blocks ?b3) (Suc n)" using s(3) grows_open by auto
  with L3' e have L4: "lowers (Suc n) ?b3 ex b4" by (simp add: ready_def)
  show "wf_blocks (bu_blocks b4)" using L4 by (simp add: lowers_def)
  have le: "Suc (Suc n) \<le> length (bu_blocks ?b3)" using L3' s by (simp add: grows_def)
  show "grows cur b b4"
    using grows_trans [OF grows_trans [OF s(4) L3'(2)] lowers_grows [OF L4]] n by simp
  show X: "open_at (bu_blocks b4) x \<and> n \<le> x" if "tx = Some x" for x
  proof -
    from L3 that s(5) have "open_at (bu_blocks ?b3) x" "x = n \<or> Suc (Suc n) \<le> x"
      by (auto simp: lowers_def same_blocks)
    then show ?thesis using grows_open [OF lowers_grows [OF L4], of x] by auto
  qed
  show Y: "open_at (bu_blocks b4) y \<and> n \<le> y" if "ex = Some y" for y
    using L4 that le by (auto simp: lowers_def)
  show "x \<noteq> y" if "tx = Some x" "ex = Some y"
  proof -
    from L3 that s(5) have "x = n \<or> Suc (Suc n) \<le> x" "x < length (bu_blocks ?b3)"
      by (auto simp: lowers_def open_at_def same_blocks)
    moreover from L4 that have "y = Suc n \<or> length (bu_blocks ?b3) \<le> y" by (auto simp: lowers_def)
    ultimately show ?thesis by auto
  qed
qed


lemma while_core:
  assumes r: "ready cur b" and n: "n = length (bu_blocks b)"
    and b1: "b1 = set_succ cur [n] (snd (new_block l1 b))"
    and b3: "b3 = push_scope (set_succ n [Suc n, Suc (Suc n)] (snd (new_block l3 (snd (new_block l2 b1)))))"
    and l: "ready (Suc n) b3 \<Longrightarrow> lowers (Suc n) b3 bx b4"
    and b5: "b5 = (case bx of None \<Rightarrow> pop_scope b4 | Some x \<Rightarrow> set_succ x [n] (pop_scope b4))"
  shows "lowers cur b (Some (Suc (Suc n))) b5"
proof -
  have h: "grows cur b b1" "ready n b1" "length (bu_blocks b1) = Suc n"
    using merge_grows [OF r set_succ_new_block [of cur b l1]] merge_step(2) [OF r set_succ_new_block [of cur b l1]]
    unfolding b1 n by blast+
  have "bu_blocks b3 = (bu_blocks b1 @ [fresh_block (Suc n) l2, fresh_block (Suc (Suc n)) l3])
      [n := ((bu_blocks b1 @ [fresh_block (Suc n) l2, fresh_block (Suc (Suc n)) l3]) ! n)\<lparr>bl_succ := [Suc n, Suc (Suc n)]\<rparr>]"
    by (simp add: b3 same_blocks set_succ_blocks new_block_eq h)
  note s = two_blocks [OF h(2) h(3) [symmetric] this]
  have L: "lowers (Suc n) b3 bx b4" using l s by (simp add: ready_def)
  have g3: "grows cur b b3" using grows_trans [OF h(1) s(4)] n by simp
  have g4: "grows cur b (pop_scope b4)"
    using grows_trans [OF g3 lowers_grows [OF L]] n by (simp add: grows_def same_blocks)
  have af: "open_at (bu_blocks (pop_scope b4)) (Suc (Suc n))"
    using grows_open [OF lowers_grows [OF L] s(3)] by (simp add: same_blocks)
  have wf: "wf_blocks (bu_blocks (pop_scope b4))" using L by (simp add: lowers_def same_blocks)
  show ?thesis
  proof (cases bx)
    case None
    with g4 af wf n show ?thesis by (intro lowersI) (auto simp: b5)
  next
    case (Some x)
    have x: "open_at (bu_blocks (pop_scope b4)) x" "x = Suc n \<or> Suc (Suc (Suc n)) \<le> x"
      using L Some s(5) by (auto simp: lowers_def same_blocks)
    have n0: "0 < n" "n < length (bu_blocks (pop_scope b4))"
      using r x by (auto simp: n ready_def open_at_def)
    have "wf_blocks (bu_blocks b5)" "grows x (pop_scope b4) b5"
      using edge_step(1-3) [OF wf x(1) n0] by (simp_all add: b5 Some grows_def)
    moreover from this(2) have "open_at (bu_blocks b5) (Suc (Suc n))" using grows_open af x(2) by fastforce
    moreover have "grows cur b b5" using grows_trans [OF g4 \<open>grows x (pop_scope b4) b5\<close>] x(2) n by auto
    ultimately show ?thesis using n by (intro lowersI) auto
  qed
qed


lemma borrow_core:
  assumes r: "ready cur b" and b1: "bu_blocks b1 = bu_blocks b"
    and l: "ready cur (emit cur i b1) \<Longrightarrow> lowers cur (emit cur i b1) out b3"
  shows "lowers cur b (case out of None \<Rightarrow> None | Some a \<Rightarrow> Some a)
    (case out of None \<Rightarrow> pop_scope b3 | Some a \<Rightarrow> emit a j (pop_scope b3))"
proof -
  note I = instrs_only_lowers [OF r emit_instrs_only [OF b1, of cur i]]
  from l [OF I(2)] I(1) have L: "lowers cur b out b3"
    using lowers_trans r by (simp add: ready_def open_at_def)
  then have L': "lowers cur b out (pop_scope b3)" by (simp add: lowers_def same_blocks)
  show ?thesis
  proof (cases out)
    case None
    with L' show ?thesis by simp
  next
    case (Some a)
    have "instrs_only a (pop_scope b3) (emit a j (pop_scope b3))" by (rule emit_instrs_only) simp
    moreover have "ready a (pop_scope b3)" using L' Some by (simp add: lowers_ready)
    ultimately have "lowers a (pop_scope b3) (Some a) (emit a j (pop_scope b3))" by (rule instrs_only_lowers(1)[rotated])
    with L' Some r lowers_trans show ?thesis by (simp add: ready_def open_at_def)
  qed
qed

lemma lower_stmt_lowers:
  "ready cur b \<Longrightarrow> lowers cur b (fst (lower_stmt cx st cur b)) (snd (lower_stmt cx st cur b))"
  "(\<forall>cur. node = Some cur \<longrightarrow> ready cur b \<longrightarrow> lowers cur b (fst (lower_seq cx sts node b)) (snd (lower_seq cx sts node b)))
   \<and> (node = None \<longrightarrow> lower_seq cx sts node b = (None, b))"
proof (induction cx st cur b and cx sts node b rule: lower_stmt_lower_seq.induct)
  case (1 cx node b)
  then show ?case by (simp add: lowers_same)
next
  case (2 cx st sts node b)
  show ?case
  proof (cases node)
    case None
    then show ?thesis by simp
  next
    case (Some cur)
    obtain node' b' where l: "lower_stmt cx st cur b = (node', b')" by (cases "lower_stmt cx st cur b")
    note IH1 = 2(1) [OF Some] and IH2 = 2(2) [OF Some l [symmetric]]
    show ?thesis
    proof (cases node')
      case None
      with IH1 IH2 l Some show ?thesis by simp
    next
      case node': (Some c)
      have "lowers cur b (fst (lower_seq cx sts node' b')) (snd (lower_seq cx sts node' b'))" if r: "ready cur b"
      proof -
        have L: "lowers cur b (Some c) b'" using IH1 [OF r] l node' by simp
        then have "lowers c b' (fst (lower_seq cx sts node' b')) (snd (lower_seq cx sts node' b'))"
          using IH2 node' lowers_ready by blast
        with L r show ?thesis using lowers_trans by (simp add: ready_def open_at_def)
      qed
      with Some l show ?thesis by simp
    qed
  qed
next
  case (9 cx owner binding kind body line cur b)
  obtain s b1 where s: "lookup_sym owner line b = (s, b1)" by (cases "lookup_sym owner line b")
  then have b1: "bu_blocks b1 = bu_blocks b" using lookup_blocks [of owner line b] by simp
  show ?case
  proof (cases s)
    case None
    with 9(2) s b1 show ?thesis by (simp add: lowers_cong [OF refl b1] lowers_same)
  next
    case (Some sy)
    show ?thesis
    proof (cases "sy_kind sy = OWNED_kind")
      case False
      with Some s 9(2) show ?thesis
        by (simp add: lowers_cong [OF refl, of "add_diags _ b1" b] same_blocks b1 lowers_same)
    next
      case True
      define proto where "proto = (new_symbol binding BORROW_kind line)\<lparr>sy_borrow_is_mut := Some (kind = MUT_k)\<rparr>"
      obtain bs b2 where d: "declare_sym proto (push_scope b1) = (bs, b2)" by (cases "declare_sym proto (push_scope b1)")
      then have b2: "bu_blocks b2 = bu_blocks b"
        using declare_blocks [of proto "push_scope b1"] by (simp add: same_blocks b1)
      let ?e = "emit cur (BorrowStart_i sy bs (kind = MUT_k) line) b2"
      obtain out b3 where q: "lower_seq cx body (Some cur) ?e = (out, b3)" by (cases "lower_seq cx body (Some cur) ?e")
      have "ready cur ?e \<Longrightarrow> lowers cur ?e out b3"
        using 9(1) [OF s [symmetric] refl Some _ refl d [unfolded proto_def, symmetric]] True q by simp
      from borrow_core [OF 9(2) b2 this] show ?thesis
        using s Some True d q by (cases out) (simp_all add: proto_def)
    qed
  qed
next
  case (10 cx c then_body else_body line cur b)
  define n where "n = length (bu_blocks b)"
  define bt where "bt = snd (new_block ''then'' b)"
  define b2 where "b2 = snd (new_block ''else'' bt)"
  define bs where "bs = push_scope (set_succ cur [n, Suc n] b2)"
  obtain tx b3 where q1: "lower_seq cx then_body (Some n) bs = (tx, b3)" by (cases "lower_seq cx then_body (Some n) bs")
  obtain ex b4 where q2: "lower_seq cx else_body (Some (Suc n)) (push_scope (pop_scope b3)) = (ex, b4)"
    by (cases "lower_seq cx else_body (Some (Suc n)) (push_scope (pop_scope b3))")
  have nb: "new_block ''then'' b = (n, bt)" "new_block ''else'' bt = (Suc n, b2)"
    by (simp_all add: new_block_eq n_def b2_def bt_def)
  have l1: "ready n bs \<Longrightarrow> lowers n bs tx b3"
    using 10(1) [OF nb(1) [symmetric] refl nb(2) [symmetric] refl] q1 by (simp add: bs_def)
  have l2: "ready (Suc n) (push_scope (pop_scope b3)) \<Longrightarrow> lowers (Suc n) (push_scope (pop_scope b3)) ex b4"
    using 10(2) [OF nb(1) [symmetric] refl nb(2) [symmetric] refl q1 [unfolded bs_def, symmetric] refl] q2 by simp
  note C = if_core [OF 10(3) n_def bs_def [unfolded b2_def bt_def] l1 l2]
  have wf5: "wf_blocks (bu_blocks (pop_scope b4))" "grows cur b (pop_scope b4)"
    using C(1,2) by (simp_all add: grows_def same_blocks)
  show ?case
  proof (cases "tx = None \<and> ex = None")
    case True
    with nb q1 q2 wf5 show ?thesis
      by (auto simp: bs_def intro!: lowersI)
  next
    case False
    define m where "m = length (bu_blocks (pop_scope b4))"
    define b6 where "b6 = snd (new_block ''merge'' (pop_scope b4))"
    define b7 where "b7 = (case tx of None \<Rightarrow> b6 | Some x \<Rightarrow> set_succ x [m] b6)"
    have "lowers cur b (Some m) (case ex of None \<Rightarrow> b7 | Some x \<Rightarrow> set_succ x [m] b7)"
      using False C(3-5)
      by (intro merge_lowers [OF wf5 _ _ _ _ m_def b6_def b7_def refl]) (auto simp: n_def same_blocks)
    moreover have "new_block ''merge'' (pop_scope b4) = (m, b6)"
      by (simp add: new_block_eq m_def b6_def)
    ultimately show ?thesis
      using False nb q1 q2 unfolding b7_def by (cases tx; cases ex) (simp_all add: bs_def)
  qed
next
  case (11 cx c body line cur b)
  define n where "n = length (bu_blocks b)"
  define bh where "bh = snd (new_block ''while.header'' b)"
  define b1 where "b1 = set_succ cur [n] bh"
  define bb where "bb = snd (new_block ''while.body'' b1)"
  define b2 where "b2 = snd (new_block ''while.after'' bb)"
  define b3 where "b3 = push_scope (set_succ n [Suc n, Suc (Suc n)] b2)"
  obtain bx b4 where q: "lower_seq cx body (Some (Suc n)) b3 = (bx, b4)" by (cases "lower_seq cx body (Some (Suc n)) b3")
  have nb: "new_block ''while.header'' b = (n, bh)" "new_block ''while.body'' b1 = (Suc n, bb)"
      "new_block ''while.after'' bb = (Suc (Suc n), b2)"
    by (simp_all add: new_block_eq n_def bh_def b1_def bb_def b2_def set_succ_def)
  have l: "ready (Suc n) b3 \<Longrightarrow> lowers (Suc n) b3 bx b4"
    using 11(1) [OF nb(1) [symmetric] refl nb(2) [unfolded b1_def, symmetric] refl nb(3) [unfolded b1_def, symmetric] refl] q
    by (simp add: b3_def)
  from while_core [OF 11(2) n_def b1_def [unfolded bh_def] b3_def [unfolded b2_def bb_def] l refl]
  show ?case
    using nb q by (simp add: b1_def [symmetric] b3_def [symmetric] Let_def)
next
  case (12 cx var line cur b)
  then show ?case by (simp add: lower_return_lowers)
qed (simp_all add: lowers_same instrs_only_lowers(1) lower_let_instrs_only lower_simple_instrs_only)

lemma declare_params_blocks [same_blocks]: "bu_blocks (declare_params cx ps b) = bu_blocks b"
  by (induction ps arbitrary: b) (simp_all add: split_beta same_blocks)

lemma wf_blocks_graph:
  assumes "wf_blocks (cf_blocks c)" "cf_entry c = 0"
  shows "wf_graph c"
proof -
  let ?B = "cf_blocks c"
  have id: "bl_id (?B ! i) = i" if "i < length ?B" for i using assms(1) that by (simp add: wf_blocks_def)
  have "map bl_id ?B = [0..<length ?B]" by (rule nth_equalityI) (simp_all add: id)
  then have "distinct (map bl_id ?B)" by simp
  moreover have "0 \<notin> set (bl_succ b) \<and> (bl_id b \<noteq> 0
      \<longrightarrow> (\<exists>p\<in>set ?B. bl_id p < bl_id b \<and> bl_id b \<in> set (bl_succ p)))" if "b \<in> set ?B" for b
  proof -
    from that obtain i where i: "i < length ?B" "b = ?B ! i" by (auto simp: in_set_conv_nth)
    with assms(1) have w: "\<forall>s\<in>set (bl_succ b). 0 < s" "i \<noteq> 0 \<longrightarrow> (\<exists>p<i. i \<in> set (bl_succ (?B ! p)))"
      by (auto simp: wf_blocks_def)
    have "\<exists>q\<in>set ?B. bl_id q < i \<and> i \<in> set (bl_succ q)" if "i \<noteq> 0"
    proof -
      from w(2) that obtain p where p: "p < i" "i \<in> set (bl_succ (?B ! p))" by blast
      then have "?B ! p \<in> set ?B" "bl_id (?B ! p) = p" using i id by simp_all
      with p show ?thesis by (intro bexI [of _ "?B ! p"]) simp_all
    qed
    with w(1) i id show ?thesis by auto
  qed
  ultimately show ?thesis using assms(2) by (simp add: wf_graph_def)
qed

lemma build_wf_blocks: "wf_blocks (cf_blocks (fst (build cx))) \<and> cf_entry (fst (build cx)) = 0"
proof -
  define b1 where "b1 = declare_params cx (fd_params (bx_fn cx)) (push_scope bu_init)"
  have b1: "bu_blocks b1 = []" by (simp add: b1_def same_blocks bu_init_def)
  define b2 where "b2 = snd (new_block ''entry'' b1)"
  have nb: "new_block ''entry'' b1 = (0, b2)" by (simp add: b2_def new_block_eq b1)
  have r: "ready 0 b2" by (simp add: b2_def new_block_eq b1 ready_def wf_blocks_def open_at_def fresh_block_def)
  obtain ex b3 where q: "lower_seq cx (fd_body (bx_fn cx)) (Some 0) b2 = (ex, b3)"
    by (cases "lower_seq cx (fd_body (bx_fn cx)) (Some 0) b2")
  from lower_stmt_lowers(2) r have "lowers 0 b2 (fst (lower_seq cx (fd_body (bx_fn cx)) (Some 0) b2))
      (snd (lower_seq cx (fd_body (bx_fn cx)) (Some 0) b2))" by blast
  then have "wf_blocks (bu_blocks b3)" by (simp add: q lowers_def)
  then show ?thesis
    using nb q by (simp add: build_def b1_def [symmetric] Let_def same_blocks)
qed

end
