(* ===== verification/Own_Lifetimes.thy ===== *)
theory Own_Lifetimes
  imports Own_Ast Own_Diagnostics
begin

text \<open>
  The region-escape analysis (\<open>ownlang/lifetimes.py\<close>): the declared order of lifetimes, its
  transitive closure by a depth-first walk, the structural diagnostics and the escape check of
  one function. A Python set of names is the list of its elements in the order of insertion;
  the walk's answer does not depend on that order.
\<close>

section \<open>The declared order\<close>

text \<open>\<open>_iter_subscribes\<close>: the (source, line) of every \<open>subscribe\<close> in a body, in order.\<close>

fun iter_subscribe :: "Stmt \<Rightarrow> (string \<times> int) list" where
  "iter_subscribe (Subscribe_s source line) = [(source, line)]"
| "iter_subscribe (If_s c th el line) = concat (map iter_subscribe th) @ concat (map iter_subscribe el)"
| "iter_subscribe (While_s c body line) = concat (map iter_subscribe body)"
| "iter_subscribe (BorrowBlock_s owner b k body line) = concat (map iter_subscribe body)"
| "iter_subscribe _ = []"

definition iter_subscribes :: "Stmt list \<Rightarrow> (string \<times> int) list" where
  "iter_subscribes stmts = concat (map iter_subscribe stmts)"

type_synonym Regions = "(string, string list) dict"

definition setdefault :: "'k \<Rightarrow> 'v \<Rightarrow> ('k, 'v) dict \<Rightarrow> ('k, 'v) dict" where
  "setdefault k v d = (if dict_get d k = None then dict_set d k v else d)"

definition add_direct :: "LifetimeDecl \<Rightarrow> Regions \<Rightarrow> Regions" where
  "add_direct d direct =
     (let direct1 = setdefault (ld_name d) [] direct
      in case ld_longer d of
           None \<Rightarrow> direct1
         | Some l \<Rightarrow> (let direct2 = setdefault l [] direct1
             in dict_set direct2 (ld_name d) (List.insert l (dict_get_or direct2 (ld_name d) []))))"

definition direct_of :: "LifetimeDecl list \<Rightarrow> Regions" where
  "direct_of decls = fold add_direct decls []"

text \<open>One closure walk: pop the stack's top, skip it when already known, push what is directly longer.\<close>

function close_from :: "Regions \<Rightarrow> string list \<Rightarrow> string list \<Rightarrow> string list" where
  "close_from direct [] seen = seen"
| "close_from direct (cur # stack) seen =
     (if cur \<in> set seen then close_from direct stack seen
      else close_from direct (dict_get_or direct cur [] @ stack) (cur # seen))"
  by pat_completeness auto
termination
proof (relation "inv_image (less_than <*lex*> less_than)
    (\<lambda>(direct, stack, seen). (card ((set stack \<union> (\<Union>kv\<in>set direct. set (snd kv))) - set seen), length stack))",
    goal_cases)
  case 1
  then show ?case by auto
next
  case (2 direct cur stack seen)
  have "(set stack \<union> (\<Union>kv\<in>set direct. set (snd kv))) - set seen
      = (set (cur # stack) \<union> (\<Union>kv\<in>set direct. set (snd kv))) - set seen"
    using 2 by auto
  then show ?case by (simp del: set_simps)
next
  case (3 direct cur stack seen)
  let ?A = "(set (cur # stack) \<union> (\<Union>kv\<in>set direct. set (snd kv))) - set seen"
  let ?B = "(set (dict_get_or direct cur [] @ stack) \<union> (\<Union>kv\<in>set direct. set (snd kv))) - set (cur # seen)"
  have "set (dict_get_or direct cur []) \<subseteq> (\<Union>kv\<in>set direct. set (snd kv))"
    by (cases "dict_get direct cur") (force simp: dict_get_or_def dest: dict_get_SomeD)+
  with 3 have "?B \<subset> ?A" by auto
  then have "card ?B < card ?A" by (intro psubset_card_mono) auto
  then show ?case by simp
qed

definition strictly_longer :: "LifetimeDecl list \<Rightarrow> Regions" where
  "strictly_longer decls = (let direct = direct_of decls
     in map (\<lambda>kv. (fst kv, close_from direct (snd kv) [])) direct)"

section \<open>Diagnostics\<close>

definition msg_lifetime_defined :: "string \<Rightarrow> string" where
  "msg_lifetime_defined n = ''lifetime '' @ quoted n @ '' is already defined''"

definition msg_undefined_lifetime :: "string \<Rightarrow> string" where
  "msg_undefined_lifetime n = ''undefined lifetime '' @ quoted n"

definition msg_cyclic :: "string \<Rightarrow> string" where
  "msg_cyclic n = ''lifetime '' @ quoted n @ '' is part of a cyclic ordering (it ends up strictly longer than itself)''"

definition msg_escape :: "string \<Rightarrow> string \<Rightarrow> string \<Rightarrow> string \<Rightarrow> string" where
  "msg_escape source src_lt fn self_lt = quoted source @ '' (lifetime '' @ quoted src_lt
     @ '') outlives the captured object '' @ quoted fn @ '' (lifetime '' @ quoted self_lt
     @ ''); the strong subscription promotes '' @ quoted fn @ '' to '' @ quoted src_lt @ '' and it leaks (no release path)''"

fun redeclared :: "string list \<Rightarrow> LifetimeDecl list \<Rightarrow> Diagnostic list" where
  "redeclared names [] = []"
| "redeclared names (d # ds) =
     (if ld_name d \<in> set names then [mk_diag ''OWN031'' (msg_lifetime_defined (ld_name d)) (ld_line d)] else [])
     @ redeclared (List.insert (ld_name d) names) ds"

definition undefined_longer :: "string list \<Rightarrow> LifetimeDecl list \<Rightarrow> Diagnostic list" where
  "undefined_longer names decls = concat (map (\<lambda>d. case ld_longer d of
       None \<Rightarrow> []
     | Some l \<Rightarrow> if l \<in> set names then [] else [mk_diag ''OWN030'' (msg_undefined_lifetime l) (ld_line d)]) decls)"

definition cyclic_diags :: "Regions \<Rightarrow> LifetimeDecl list \<Rightarrow> Diagnostic list" where
  "cyclic_diags longer decls = concat (map (\<lambda>d.
       if ld_name d \<in> set (dict_get_or longer (ld_name d) [])
       then [mk_diag ''OWN036'' (msg_cyclic (ld_name d)) (ld_line d)] else []) decls)"

definition order_diags :: "LifetimeDecl list \<Rightarrow> Diagnostic list" where
  "order_diags decls = redeclared [] decls @ undefined_longer (map ld_name decls) decls
     @ cyclic_diags (strictly_longer decls) decls"

text \<open>The parameters of a function: their undefined annotations, and the region of each other.\<close>

fun param_lifetimes :: "string list \<Rightarrow> Param list \<Rightarrow> (string, string) dict
    \<Rightarrow> Diagnostic list \<times> (string, string) dict" where
  "param_lifetimes names [] lts = ([], lts)"
| "param_lifetimes names (p # ps) lts =
     (case pa_lifetime p of
        None \<Rightarrow> param_lifetimes names ps lts
      | Some l \<Rightarrow>
          if l \<in> set names then param_lifetimes names ps (dict_set lts (pa_name p) l)
          else (case param_lifetimes names ps lts of (ds, lts1) \<Rightarrow>
                  (mk_diag ''OWN030'' (msg_undefined_lifetime l) (pa_line p) # ds, lts1)))"

definition declared_lifetime :: "string list \<Rightarrow> FnDecl \<Rightarrow> string option" where
  "declared_lifetime names fn = (case fd_lifetime fn of
       None \<Rightarrow> None
     | Some l \<Rightarrow> if l \<in> set names then Some l else None)"

definition escape_diag :: "FnDecl \<Rightarrow> string option \<Rightarrow> (string, string) dict \<Rightarrow> Regions
    \<Rightarrow> string \<times> int \<Rightarrow> Diagnostic list" where
  "escape_diag fn self_lt lts longer sub =
     (case (self_lt, dict_get lts (fst sub)) of
        (Some l, Some s) \<Rightarrow>
          if s \<in> set (dict_get_or longer l [])
          then [(mk_diag ''OWN014'' (msg_escape (fst sub) s (fd_name fn) l) (snd sub))
                  \<lparr>dg_subject := Some (fst sub @ ''#'' @ int_str (snd sub))\<rparr>]
          else []
      | _ \<Rightarrow> [])"

definition check_fn :: "string list \<Rightarrow> Regions \<Rightarrow> FnDecl \<Rightarrow> Diagnostic list" where
  "check_fn names longer fn =
     (let bad = (case fd_lifetime fn of
            None \<Rightarrow> []
          | Some l \<Rightarrow> if l \<in> set names then [] else [mk_diag ''OWN030'' (msg_undefined_lifetime l) (fd_line fn)])
      in case param_lifetimes names (fd_params fn) [] of (pds, lts) \<Rightarrow>
           bad @ pds @ concat (map (escape_diag fn (declared_lifetime names fn) lts longer)
                                 (iter_subscribes (fd_body fn))))"

definition check_lifetimes :: "Module \<Rightarrow> Diagnostic list" where
  "check_lifetimes m =
     (let names = map ld_name (md_lifetimes m);
          longer = strictly_longer (md_lifetimes m)
      in order_diags (md_lifetimes m) @ concat (map (check_fn names longer) (md_functions m)))"

section \<open>The closure is the transitive closure\<close>

text \<open>\<open>shorter decls\<close>: the pairs (X, Y) that a declaration \<open>lifetime X < Y\<close> states.\<close>

definition shorter :: "LifetimeDecl list \<Rightarrow> (string \<times> string) set" where
  "shorter decls = {(ld_name d, l) | d l. d \<in> set decls \<and> ld_longer d = Some l}"

definition direct_rel :: "Regions \<Rightarrow> (string \<times> string) set" where
  "direct_rel r = {(x, y). y \<in> set (dict_get_or r x [])}"

lemma setdefault_rel [simp]: "direct_rel (setdefault k [] d) = direct_rel d"
  by (auto simp: direct_rel_def setdefault_def dict_get_or_def split: option.splits if_splits)

lemma setdefault_distinct [simp]:
  "distinct (map fst d) \<Longrightarrow> distinct (map fst (setdefault k v d))"
  by (simp add: setdefault_def)

lemma add_direct_rel: "direct_rel (add_direct d r) = direct_rel r \<union> shorter [d]"
proof (cases "ld_longer d")
  case None
  then show ?thesis by (simp add: add_direct_def shorter_def)
next
  case (Some l)
  let ?r = "setdefault l [] (setdefault (ld_name d) [] r)"
  have "direct_rel (add_direct d r) = direct_rel ?r \<union> {(ld_name d, l)}"
    using Some by (auto simp: add_direct_def Let_def direct_rel_def split: if_splits)
  then show ?thesis using Some by (auto simp: shorter_def)
qed

lemma fold_add_direct_rel: "direct_rel (fold add_direct decls r) = direct_rel r \<union> shorter decls"
  by (induction decls arbitrary: r) (auto simp: add_direct_rel shorter_def)

lemma direct_of_rel: "direct_rel (direct_of decls) = shorter decls"
  by (simp add: direct_of_def fold_add_direct_rel) (simp add: direct_rel_def)

lemma add_direct_distinct: "distinct (map fst r) \<Longrightarrow> distinct (map fst (add_direct d r))"
  by (simp add: add_direct_def Let_def split: option.split)

lemma direct_of_distinct: "distinct (map fst (direct_of decls))"
proof -
  have "distinct (map fst r) \<Longrightarrow> distinct (map fst (fold add_direct decls r))" for r
    by (induction decls arbitrary: r) (simp_all add: add_direct_distinct)
  then show ?thesis by (simp add: direct_of_def)
qed

lemma close_from_sound:
  "y \<in> set (close_from direct stack seen) \<Longrightarrow>
     y \<in> set seen \<or> (\<exists>x\<in>set stack. (x, y) \<in> (direct_rel direct)\<^sup>*)"
proof (induction direct stack seen rule: close_from.induct)
  case (2 direct cur stack seen)
  show ?case
  proof (cases "cur \<in> set seen")
    case True
    with 2 show ?thesis by auto
  next
    case False
    with 2 consider "y \<in> set (cur # seen)"
      | x where "x \<in> set (dict_get_or direct cur [] @ stack)" "(x, y) \<in> (direct_rel direct)\<^sup>*"
      by auto
    then show ?thesis
    proof cases
      case 2
      then show ?thesis
        by (auto simp: direct_rel_def intro: converse_rtrancl_into_rtrancl)
    qed auto
  qed
qed simp

lemma close_from_includes: "set seen \<union> set stack \<subseteq> set (close_from direct stack seen)"
  by (induction direct stack seen rule: close_from.induct) auto

lemma close_from_closed:
  "(\<And>x. x \<in> set seen \<Longrightarrow> set (dict_get_or direct x []) \<subseteq> set seen \<union> set stack)
     \<Longrightarrow> x \<in> set (close_from direct stack seen)
     \<Longrightarrow> set (dict_get_or direct x []) \<subseteq> set (close_from direct stack seen)"
proof (induction direct stack seen rule: close_from.induct)
  case (2 direct cur stack seen)
  show ?case
  proof (cases "cur \<in> set seen")
    case True
    with 2(1) [OF True] 2(3,4) show ?thesis by fastforce
  next
    case False
    have "set (dict_get_or direct z []) \<subseteq> set (cur # seen) \<union> set (dict_get_or direct cur [] @ stack)"
      if "z \<in> set (cur # seen)" for z
      using that 2(3) by fastforce
    with 2(2) [OF False] 2(4) False show ?thesis by simp
  qed
qed fastforce

lemma close_from_iff:
  "y \<in> set (close_from direct (dict_get_or direct x []) []) \<longleftrightarrow> (x, y) \<in> (direct_rel direct)\<^sup>+"
proof
  assume "y \<in> set (close_from direct (dict_get_or direct x []) [])"
  then obtain z where "z \<in> set (dict_get_or direct x [])" "(z, y) \<in> (direct_rel direct)\<^sup>*"
    using close_from_sound by fastforce
  then show "(x, y) \<in> (direct_rel direct)\<^sup>+"
    by (simp add: direct_rel_def rtrancl_into_trancl2)
next
  let ?C = "set (close_from direct (dict_get_or direct x []) [])"
  assume "(x, y) \<in> (direct_rel direct)\<^sup>+"
  then show "y \<in> ?C"
  proof (induction rule: trancl.induct)
    case (r_into_trancl x y)
    then show ?case using close_from_includes by (fastforce simp: direct_rel_def)
  next
    case (trancl_into_trancl x y z)
    then show ?case using close_from_closed [of "[]"] by (fastforce simp: direct_rel_def)
  qed
qed

lemma shorter_key: "(x, y) \<in> direct_rel r \<Longrightarrow> dict_get r x \<noteq> None"
  by (cases "dict_get r x") (simp_all add: direct_rel_def dict_get_or_def)

lemma strictly_longer_get:
  "dict_get (strictly_longer decls) x
     = map_option (\<lambda>l. close_from (direct_of decls) l []) (dict_get (direct_of decls) x)"
  using dict_get_map [of "\<lambda>l. close_from (direct_of decls) l []" "direct_of decls" x]
  by (simp add: strictly_longer_def Let_def)

lemma strictly_longer_iff:
  "y \<in> set (dict_get_or (strictly_longer decls) x []) \<longleftrightarrow> (x, y) \<in> (shorter decls)\<^sup>+"
proof (cases "dict_get (direct_of decls) x")
  case None
  then have "(x, y) \<notin> (shorter decls)\<^sup>+"
    using shorter_key [of x _ "direct_of decls"] by (auto simp: direct_of_rel dest: tranclD)
  with None show ?thesis by (simp add: dict_get_or_def strictly_longer_get)
next
  case (Some l)
  then show ?thesis
    using close_from_iff [of y "direct_of decls" x]
    by (simp add: dict_get_or_def strictly_longer_get direct_of_rel)
qed

section \<open>What a clean order means\<close>

lemma redeclared_empty:
  "redeclared names decls = [] \<longleftrightarrow> distinct (map ld_name decls) \<and> set names \<inter> ld_name ` set decls = {}"
  by (induction decls arbitrary: names) auto

lemma undefined_longer_empty:
  "undefined_longer names decls = [] \<longleftrightarrow> snd ` shorter decls \<subseteq> set names"
proof
  assume "undefined_longer names decls = []"
  then show "snd ` shorter decls \<subseteq> set names"
    by (fastforce simp: undefined_longer_def shorter_def split: option.splits if_splits)
next
  assume "snd ` shorter decls \<subseteq> set names"
  then have "l \<in> set names" if "d \<in> set decls" "ld_longer d = Some l" for d l
    using that by (force simp: shorter_def image_subset_iff)
  then show "undefined_longer names decls = []"
    by (auto simp: undefined_longer_def split: option.split)
qed

lemma shorter_fst: "fst ` shorter decls \<subseteq> ld_name ` set decls"
  by (auto simp: shorter_def)

lemma cyclic_diags_empty:
  "cyclic_diags (strictly_longer decls) decls = [] \<longleftrightarrow> acyclic (shorter decls)"
proof -
  have "x \<in> ld_name ` set decls" if "(x, x) \<in> (shorter decls)\<^sup>+" for x
    using that shorter_fst by (metis tranclD fst_conv image_eqI subset_iff)
  then have "acyclic (shorter decls)
      \<longleftrightarrow> (\<forall>d\<in>set decls. ld_name d \<notin> set (dict_get_or (strictly_longer decls) (ld_name d) []))"
    by (auto simp: acyclic_def strictly_longer_iff)
  moreover have "cyclic_diags longer ds = []
      \<longleftrightarrow> (\<forall>d\<in>set ds. ld_name d \<notin> set (dict_get_or longer (ld_name d) []))" for longer ds
    by (induction ds) (auto simp: cyclic_diags_def)
  ultimately show ?thesis by blast
qed

lemma order_clean_iff:
  "order_diags decls = [] \<longleftrightarrow> distinct (map ld_name decls) \<and>
     snd ` shorter decls \<subseteq> ld_name ` set decls \<and> acyclic (shorter decls)"
  by (simp add: order_diags_def redeclared_empty undefined_longer_empty cyclic_diags_empty)

section \<open>Timings of the regions\<close>

text \<open>
  A timing gives every region the moment it ends; it fits the declarations when a region declared
  shorter ends earlier. In an acyclic order the closure relates two regions exactly when the one
  ends before the other under every timing that fits: the analysis decides, for all runs at once,
  whether a capture outlives.
\<close>

definition fits :: "LifetimeDecl list \<Rightarrow> (string \<Rightarrow> nat) \<Rightarrow> bool" where
  "fits decls ends \<longleftrightarrow> (\<forall>(x, y) \<in> shorter decls. ends x < ends y)"

definition always_outlives :: "LifetimeDecl list \<Rightarrow> string \<Rightarrow> string \<Rightarrow> bool" where
  "always_outlives decls x y \<longleftrightarrow> (\<forall>ends. fits decls ends \<longrightarrow> ends x < ends y)"

lemma fits_trancl: "(x, y) \<in> (shorter decls)\<^sup>+ \<Longrightarrow> fits decls ends \<Longrightarrow> ends x < ends y"
  by (induction rule: trancl.induct) (force simp: fits_def)+

lemma finite_shorter: "finite (shorter decls)"
proof -
  have "shorter decls \<subseteq> (\<lambda>d. (ld_name d, the (ld_longer d))) ` set decls"
    by (force simp: shorter_def)
  then show ?thesis by (rule finite_subset) simp
qed

definition depth :: "(string \<times> string) set \<Rightarrow> string \<Rightarrow> nat" where
  "depth r x = card {z. (z, x) \<in> r\<^sup>+}"

lemma depth_less:
  assumes "finite r" "acyclic r" "(x, y) \<in> r"
  shows "depth r x < depth r y"
proof -
  have "{z. (z, y) \<in> r\<^sup>+} \<subseteq> fst ` (r\<^sup>+)" by force
  then have fin: "finite {z. (z, y) \<in> r\<^sup>+}"
    using assms(1) by (simp add: finite_subset)
  have "{z. (z, x) \<in> r\<^sup>+} \<subseteq> {z. (z, y) \<in> r\<^sup>+}"
    using assms(3) by (auto intro: trancl_into_trancl)
  moreover have "x \<in> {z. (z, y) \<in> r\<^sup>+} - {z. (z, x) \<in> r\<^sup>+}"
    using assms(2,3) by (auto simp: acyclic_def)
  ultimately show ?thesis unfolding depth_def by (intro psubset_card_mono [OF fin]) auto
qed

lemma depth_bound: "finite r \<Longrightarrow> depth r x \<le> card (fst ` (r\<^sup>+))"
  unfolding depth_def by (rule card_mono) (simp, force)

lemma separating_timing:
  assumes "acyclic (shorter decls)" "(x, y) \<notin> (shorter decls)\<^sup>+"
  shows "\<exists>ends. fits decls ends \<and> ends y \<le> ends x"
proof -
  let ?r = "shorter decls"
  let ?ends = "\<lambda>z. depth ?r z + (if (x, z) \<in> ?r\<^sup>* then card (fst ` (?r\<^sup>+)) else 0)"
  have "?ends a < ?ends b" if "(a, b) \<in> ?r" for a b
    using depth_less [OF finite_shorter assms(1) that] that
    by (auto dest: rtrancl_into_rtrancl [of x a _ b])
  then have "fits decls ?ends" unfolding fits_def by blast
  moreover have "?ends y \<le> ?ends x"
    using assms(2) depth_bound [OF finite_shorter, of decls y] by (auto simp: rtrancl_eq_or_trancl)
  ultimately show ?thesis by blast
qed

lemma outlives_iff_longer:
  assumes "acyclic (shorter decls)"
  shows "always_outlives decls x y \<longleftrightarrow> (x, y) \<in> (shorter decls)\<^sup>+"
  using assms separating_timing [of decls x y] fits_trancl
  by (metis always_outlives_def leD)

section \<open>The escape check is exact\<close>

text \<open>The region that the last annotated parameter of a name carries.\<close>

definition regions_of :: "string list \<Rightarrow> Param list \<Rightarrow> (string \<times> string) list" where
  "regions_of names ps = concat (map (\<lambda>p. case pa_lifetime p of
       None \<Rightarrow> [] | Some l \<Rightarrow> if l \<in> set names then [(pa_name p, l)] else []) ps)"

definition source_region :: "string list \<Rightarrow> FnDecl \<Rightarrow> string \<Rightarrow> string option" where
  "source_region names fn source = map_of (rev (regions_of names (fd_params fn))) source"

lemma param_lifetimes_get:
  "dict_get (snd (param_lifetimes names ps lts)) n
     = (case map_of (rev (regions_of names ps)) n of None \<Rightarrow> dict_get lts n | Some l \<Rightarrow> Some l)"
  by (induction names ps lts rule: param_lifetimes.induct)
    (auto simp: regions_of_def map_add_def split: option.splits prod.splits)

lemma param_lifetimes_codes:
  "d \<in> set (fst (param_lifetimes names ps lts)) \<Longrightarrow> dg_code d = ''OWN030''"
  by (induction names ps lts rule: param_lifetimes.induct)
    (auto simp: mk_diag_def split: option.splits prod.splits if_splits)

lemma order_diags_codes: "d \<in> set (order_diags decls) \<Longrightarrow> dg_code d \<in> {''OWN030'', ''OWN031'', ''OWN036''}"
proof -
  have "d \<in> set (redeclared names ds) \<Longrightarrow> dg_code d = ''OWN031''" for names ds
    by (induction ds arbitrary: names) (auto simp: mk_diag_def split: if_splits)
  then show "d \<in> set (order_diags decls) \<Longrightarrow> ?thesis"
    by (auto simp: order_diags_def undefined_longer_def cyclic_diags_def mk_diag_def
        split: option.splits if_splits)
qed

text \<open>A subscription that outlives its object under every timing.\<close>

definition escapes_by :: "LifetimeDecl list \<Rightarrow> FnDecl \<Rightarrow> string \<Rightarrow> bool" where
  "escapes_by decls fn source \<longleftrightarrow>
     (\<exists>l s. declared_lifetime (map ld_name decls) fn = Some l
        \<and> source_region (map ld_name decls) fn source = Some s \<and> always_outlives decls l s)"

lemma check_fn_escapes:
  assumes "acyclic (shorter decls)"
  shows "(\<exists>d\<in>set (check_fn (map ld_name decls) (strictly_longer decls) fn). dg_code d = ''OWN014'')
    \<longleftrightarrow> (\<exists>sub\<in>set (iter_subscribes (fd_body fn)). escapes_by decls fn (fst sub))"
proof -
  obtain pds lts where pl: "param_lifetimes (map ld_name decls) (fd_params fn) [] = (pds, lts)"
    by (cases "param_lifetimes (map ld_name decls) (fd_params fn) []")
  have get: "dict_get lts n = source_region (map ld_name decls) fn n" for n
    using param_lifetimes_get [of "map ld_name decls" "fd_params fn" "[]" n] pl
    by (simp add: source_region_def option.case_eq_if)
  have esc: "(\<exists>d\<in>set (escape_diag fn (declared_lifetime (map ld_name decls) fn) lts
        (strictly_longer decls) sub). dg_code d = ''OWN014'') \<longleftrightarrow> escapes_by decls fn (fst sub)" for sub
    by (cases "declared_lifetime (map ld_name decls) fn";
        cases "source_region (map ld_name decls) fn (fst sub)")
      (simp_all add: escape_diag_def get strictly_longer_iff escapes_by_def
        outlives_iff_longer [OF assms] mk_diag_def)
  have "\<not> (\<exists>d\<in>set pds. dg_code d = ''OWN014'')"
    using param_lifetimes_codes [of _ "map ld_name decls" "fd_params fn" "[]"] pl by fastforce
  then show ?thesis
    by (auto simp: check_fn_def pl esc [symmetric] mk_diag_def split: option.splits if_splits)
qed

lemma check_lifetimes_exact:
  assumes "order_diags (md_lifetimes m) = []"
  shows "(\<exists>d\<in>set (check_lifetimes m). dg_code d = ''OWN014'') \<longleftrightarrow>
    (\<exists>fn\<in>set (md_functions m). \<exists>sub\<in>set (iter_subscribes (fd_body fn)).
       escapes_by (md_lifetimes m) fn (fst sub))"
proof -
  have "acyclic (shorter (md_lifetimes m))" using assms by (simp add: order_clean_iff)
  from check_fn_escapes [OF this, symmetric] show ?thesis
    by (simp add: check_lifetimes_def assms Let_def)
qed

end
