(* ===== verification/Own_Effects.thy ===== *)
theory Own_Effects
  imports Own_Lexer "HOL-Library.Char_ord" "HOL-Library.List_Lexorder" "HOL-Library.Product_Lexorder"
begin

text \<open>
  The effect-storm analysis (\<open>ownlang/effects.py\<close>, EFF001): the stability lattice, the
  memoised resolution of a binding with its cycle guard, and the search for IO effects that
  depend on an identity made fresh at every render. The three dictionaries of \<open>_Lattice\<close>
  (\<open>_stab\<close>, \<open>_origin\<close>, \<open>_path\<close>) always get the same key together, so they are one
  dictionary of triples.
\<close>

section \<open>The stability lattice\<close>

datatype Stability = STABLE | UNKNOWN | UNSTABLE

fun rank :: "Stability \<Rightarrow> nat" where
  "rank STABLE = 0"
| "rank UNKNOWN = 1"
| "rank UNSTABLE = 2"

instantiation Stability :: linorder
begin

definition less_eq_Stability :: "Stability \<Rightarrow> Stability \<Rightarrow> bool" where
  "less_eq_Stability a b \<longleftrightarrow> rank a \<le> rank b"

definition less_Stability :: "Stability \<Rightarrow> Stability \<Rightarrow> bool" where
  "less_Stability a b \<longleftrightarrow> rank a < rank b"

instance
proof
  fix a b :: Stability
  show "a \<le> b \<Longrightarrow> b \<le> a \<Longrightarrow> a = b"
    by (cases a; cases b) (simp_all add: less_eq_Stability_def)
qed (auto simp: less_eq_Stability_def less_Stability_def)

end

definition stab_join :: "Stability \<Rightarrow> Stability \<Rightarrow> Stability" where
  "stab_join a b = (if rank a \<ge> rank b then a else b)"

lemma rank_inject: "rank a = rank b \<longleftrightarrow> a = b"
  by (cases a; cases b) simp_all

lemma rank_le [simp]: "\<not> 2 < rank s"
  by (cases s) simp_all

interpretation stab: join_lattice "(\<le>) :: Stability \<Rightarrow> Stability \<Rightarrow> bool" stab_join
  by unfold_locales (auto simp: stab_join_def less_eq_Stability_def rank_inject)

lemma stab_top [simp]: "s \<le> UNSTABLE" "UNSTABLE \<le> s \<longleftrightarrow> s = UNSTABLE" "\<not> UNSTABLE < s"
  by (cases s; simp add: less_eq_Stability_def less_Stability_def)+

section \<open>Bindings and effects\<close>

definition FRESH :: "string list" where "FRESH = [''object'', ''array'', ''new'']"
definition MEMOISED :: "string list" where "MEMOISED = [''memo'', ''callback'', ''ref'']"
definition REFERENTIAL :: "string list" where
  "REFERENTIAL = [''prop'', ''state'', ''primitive'', ''import'', ''fn'', ''param'']"
definition DERIVED :: "string list" where "DERIVED = [''ident'', ''spread'', ''ternary'', ''derive'']"

record Binding =
  bd_name :: string
  bd_init :: string
  bd_refs :: "string list"
  bd_line :: int

record ReactEffect =
  re_component :: string
  re_deps :: "string list"
  re_io :: bool
  re_bindings :: "Binding list"
  re_file :: string
  re_line :: int

record EffectStorm =
  es_component :: string
  es_dep :: string
  es_origin :: string
  es_origin_kind :: string
  es_file :: string
  es_line :: int
  es_decl_line :: int
  es_path :: "string list"

definition kind_phrase :: "EffectStorm \<Rightarrow> string" where
  "kind_phrase f = dict_get_or [(''object'', ''an object literal''), (''array'', ''an array literal''),
       (''new'', ''a freshly constructed object'')] (es_origin_kind f) ''a value with an unstable identity''"

definition storm_message :: "EffectStorm \<Rightarrow> string" where
  "storm_message f =
     (let via = (if length (es_path f) > 1 then '' (via '' @ join_str '' -> '' (es_path f) @ '')'' else []);
          root = (if es_origin f = es_dep f
            then ''dependency '' @ quoted (es_dep f) @ '' is '' @ kind_phrase f
              @ '' created in render scope, so its identity changes on every render''
            else ''dependency '' @ quoted (es_dep f) @ '' derives from '' @ quoted (es_origin f) @ '', '' @ kind_phrase f
              @ '' created in render scope'' @ via @ '', so its identity changes on every render'')
      in ''effect re-runs on every render: '' @ root @ ''; the effect performs IO, which can become a request storm'' @ em_dash
         @ ''stabilise '' @ quoted (es_origin f) @ '' with useMemo/useCallback (or move it out of render)'')"

text \<open>
  \<open>_IDENT\<close>: a member chain of identifiers. The pattern ends in \<open>$\<close>, which also matches before a
  final newline; \<open>[\w$]\<close> contains no dot, so the chain splits at its dots in one way.
\<close>

definition ident_start :: "char \<Rightarrow> bool" where
  "ident_start c \<longleftrightarrow> CHR ''A'' \<le> c \<and> c \<le> CHR ''Z'' \<or> CHR ''a'' \<le> c \<and> c \<le> CHR ''z'' \<or> c = CHR ''_'' \<or> c = CHR ''$''"

definition ident_part :: "char \<Rightarrow> bool" where
  "ident_part c \<longleftrightarrow> isalnum c \<or> c = CHR ''_'' \<or> c = CHR ''$''"

fun ident_chain :: "bool \<Rightarrow> string \<Rightarrow> bool" where
  "ident_chain inside [] = inside"
| "ident_chain False (c # cs) = (ident_start c \<and> ident_chain True cs)"
| "ident_chain True (c # cs) = (if c = newline \<and> cs = [] then True
     else if c = CHR ''.'' then ident_chain False cs else ident_part c \<and> ident_chain True cs)"

definition is_ident :: "string \<Rightarrow> bool" where
  "is_ident s = ident_chain False s"

section \<open>Resolution\<close>

datatype Verdict = Verdict (vd_stab: Stability) (vd_origin: string) (vd_path: "string list")
type_synonym Memo = "(string, Verdict) dict"

definition by_name :: "Binding list \<Rightarrow> string \<Rightarrow> Binding option" where
  "by_name bs n = map_of (rev (map (\<lambda>b. (bd_name b, b)) bs)) n"

definition worse :: "Verdict \<Rightarrow> Verdict \<Rightarrow> string \<Rightarrow> Verdict" where
  "worse w v name = (if rank (vd_stab v) > rank (vd_stab w) then Verdict (vd_stab v) (vd_origin v) (name # vd_path v) else w)"

lemma by_name_SomeD: "by_name bs n = Some b \<Longrightarrow> b \<in> set bs \<and> bd_name b = n"
  by (auto simp: by_name_def dest!: map_of_SomeD)

function resolve_name :: "Binding list \<Rightarrow> string \<Rightarrow> string list \<Rightarrow> Memo \<Rightarrow> Verdict \<times> Memo"
  and resolve_refs :: "Binding list \<Rightarrow> string \<Rightarrow> string list \<Rightarrow> string list \<Rightarrow> Verdict \<Rightarrow> Memo
    \<Rightarrow> Verdict \<times> Memo" where
  "resolve_name bs name on_stack memo =
     (case dict_get memo name of
        Some v \<Rightarrow> (v, memo)
      | None \<Rightarrow> (case by_name bs name of
          None \<Rightarrow> (Verdict (if is_ident name then STABLE else UNKNOWN) name [name], memo)
        | Some b \<Rightarrow>
            if name \<in> set on_stack then (Verdict UNKNOWN name [name], memo)
            else (case (if bd_init b \<in> set FRESH then (Verdict UNSTABLE name [name], memo)
                   else if bd_init b \<in> set MEMOISED \<or> bd_init b \<in> set REFERENTIAL
                   then (Verdict STABLE name [name], memo)
                   else if bd_init b \<in> set DERIVED
                   then (if bd_refs b = [] then (Verdict UNKNOWN name [name], memo)
                         else resolve_refs bs name (bd_refs b) (name # on_stack) (Verdict STABLE name [name]) memo)
                   else (Verdict UNKNOWN name [name], memo)) of
               (v, memo1) \<Rightarrow> (v, dict_set memo1 name v))))"
| "resolve_refs bs name [] on_stack worst memo = (worst, memo)"
| "resolve_refs bs name (r # rs) on_stack worst memo =
     (case resolve_name bs r on_stack memo of (v, memo1) \<Rightarrow>
        resolve_refs bs name rs on_stack (worse worst v name) memo1)"
  by pat_completeness auto
termination
proof (relation "inv_image (less_than <*lex*> less_than)
    (\<lambda>x. case x of
       Inl (bs, name, on_stack, memo) \<Rightarrow> (card (bd_name ` set bs - set on_stack), 0)
     | Inr (bs, name, refs, on_stack, worst, memo) \<Rightarrow> (card (bd_name ` set bs - set on_stack), Suc (length refs)))",
    goal_cases)
  case 1
  then show ?case by auto
next
  case (2 bs name on_stack memo b)
  then have "name \<in> bd_name ` set bs - set on_stack" by (auto dest: by_name_SomeD)
  then have "card (bd_name ` set bs - set (name # on_stack)) < card (bd_name ` set bs - set on_stack)"
    by (intro psubset_card_mono) auto
  then show ?case by simp
qed simp_all

declare resolve_name.simps [simp del] resolve_refs.simps [simp del]

text \<open>The dependencies of one effect, in order, up to the first unstable one.\<close>

fun first_unstable :: "Binding list \<Rightarrow> string list \<Rightarrow> Memo \<Rightarrow> (string \<times> Verdict) option" where
  "first_unstable bs [] memo = None"
| "first_unstable bs (d # ds) memo =
     (case resolve_name bs d [] memo of (v, memo1) \<Rightarrow>
        if vd_stab v \<noteq> UNSTABLE then first_unstable bs ds memo1
        else Some (d, Verdict UNSTABLE (case dict_get memo1 d of None \<Rightarrow> d | Some w \<Rightarrow> vd_origin w)
                        (case dict_get memo1 d of None \<Rightarrow> [d] | Some w \<Rightarrow> vd_path w)))"

definition storm_of :: "ReactEffect \<Rightarrow> EffectStorm option" where
  "storm_of e =
     (if \<not> re_io e then None
      else map_option (\<lambda>(dep, v).
        \<lparr>es_component = re_component e, es_dep = dep, es_origin = vd_origin v,
         es_origin_kind = (case find (\<lambda>x. bd_name x = vd_origin v) (re_bindings e) of
            None \<Rightarrow> ''object'' | Some b \<Rightarrow> bd_init b),
         es_file = re_file e, es_line = re_line e,
         es_decl_line = (case by_name (re_bindings e) (vd_origin v) of None \<Rightarrow> re_line e | Some b \<Rightarrow> bd_line b),
         es_path = vd_path v\<rparr>)
        (first_unstable (re_bindings e) (re_deps e) []))"

definition find_effect_storms :: "ReactEffect list \<Rightarrow> EffectStorm list" where
  "find_effect_storms effects =
     sort_key (\<lambda>f. (es_file f, es_line f, es_dep f)) (List.map_filter storm_of effects)"

section \<open>What an unstable name is\<close>

text \<open>
  \<open>derives bs x p y\<close>: \<open>p\<close> is a chain of derivations from \<open>x\<close> to the fresh binding \<open>y\<close>.
\<close>

inductive derives :: "Binding list \<Rightarrow> string \<Rightarrow> string list \<Rightarrow> string \<Rightarrow> bool" for bs where
  fresh: "by_name bs x = Some b \<Longrightarrow> bd_init b \<in> set FRESH \<Longrightarrow> derives bs x [x] x"
| derived: "by_name bs x = Some b \<Longrightarrow> bd_init b \<in> set DERIVED \<Longrightarrow> r \<in> set (bd_refs b)
     \<Longrightarrow> derives bs r p y \<Longrightarrow> derives bs x (x # p) y"

definition sound_verdict :: "Binding list \<Rightarrow> string \<Rightarrow> Verdict \<Rightarrow> bool" where
  "sound_verdict bs name v \<longleftrightarrow> (vd_stab v = UNSTABLE \<longrightarrow> derives bs name (vd_path v) (vd_origin v))"

definition sound_memo :: "Binding list \<Rightarrow> Memo \<Rightarrow> bool" where
  "sound_memo bs memo \<longleftrightarrow> (\<forall>n v. dict_get memo n = Some v \<longrightarrow> sound_verdict bs n v)"

lemma sound_memo_set: "sound_memo bs memo \<Longrightarrow> sound_verdict bs n v \<Longrightarrow> sound_memo bs (dict_set memo n v)"
  by (simp add: sound_memo_def)

lemma init_kinds_disjoint:
  "i \<in> set DERIVED \<Longrightarrow> i \<notin> set FRESH \<and> i \<notin> set MEMOISED \<and> i \<notin> set REFERENTIAL"
  by (auto simp: DERIVED_def FRESH_def MEMOISED_def REFERENTIAL_def)

lemma resolve_sound:
  "sound_memo bs memo \<Longrightarrow> sound_verdict bs name (fst (resolve_name bs name on_stack memo))
     \<and> sound_memo bs (snd (resolve_name bs name on_stack memo))"
  "sound_memo bs memo \<Longrightarrow> by_name bs name = Some b \<Longrightarrow> bd_init b \<in> set DERIVED \<Longrightarrow> set refs \<subseteq> set (bd_refs b)
     \<Longrightarrow> sound_verdict bs name worst
     \<Longrightarrow> sound_verdict bs name (fst (resolve_refs bs name refs on_stack worst memo))
       \<and> sound_memo bs (snd (resolve_refs bs name refs on_stack worst memo))"
proof (induction bs name on_stack memo and bs name refs on_stack worst memo
    arbitrary: and b rule: resolve_name_resolve_refs.induct)
  case (1 bs name on_stack memo)
  show ?case
  proof (cases "dict_get memo name")
    case (Some v)
    with 1(2) show ?thesis by (simp add: resolve_name.simps [of bs name] sound_memo_def)
  next
    case None
    show ?thesis
    proof (cases "by_name bs name")
      case None
      with \<open>dict_get memo name = None\<close> 1(2) show ?thesis
        by (simp add: resolve_name.simps [of bs name] sound_verdict_def)
    next
      case (Some b)
      show ?thesis
      proof (cases "name \<in> set on_stack")
        case True
        with None Some 1(2) show ?thesis by (simp add: resolve_name.simps [of bs name] sound_verdict_def)
      next
        case False
        let ?rec = "resolve_refs bs name (bd_refs b) (name # on_stack) (Verdict STABLE name [name]) memo"
        have rec: "sound_verdict bs name (fst ?rec) \<and> sound_memo bs (snd ?rec)"
          if "bd_init b \<in> set DERIVED" "bd_refs b \<noteq> []"
          using 1(1) [OF None Some False _ _ that(1,2) _ Some] that 1(2) init_kinds_disjoint [OF that(1)]
          by (simp add: sound_verdict_def)
        show ?thesis
          using None Some False 1(2) rec derives.fresh [OF Some]
          by (auto simp: resolve_name.simps [of bs name] sound_verdict_def
              intro!: sound_memo_set split: prod.split)
      qed
    qed
  qed
next
  case (2 bs name on_stack worst memo)
  then show ?case by (simp add: resolve_refs.simps)
next
  case (3 bs name r rs on_stack worst memo)
  obtain v memo1 where r: "resolve_name bs r on_stack memo = (v, memo1)"
    by (cases "resolve_name bs r on_stack memo")
  have "sound_verdict bs r v \<and> sound_memo bs memo1" using 3(1,3) r by simp
  then have "sound_verdict bs name (worse worst v name)" "sound_memo bs memo1"
    using 3(4-7) derives.derived [of bs name b r] by (auto simp: worse_def sound_verdict_def)
  with 3(2) [OF r [symmetric] _ 3(4,5)] 3(6) show ?case by (simp add: resolve_refs.simps r)
qed

section \<open>Nothing unstable is missed\<close>

text \<open>
  The memo of a name resolved inside a cycle can depend on where the resolution started, so a
  single memo entry may be too low. A whole resolution is still exact: as long as it is not
  unstable, its memo is closed under references and holds no fresh binding.
\<close>

definition settled_name :: "Binding list \<Rightarrow> Memo \<Rightarrow> string set \<Rightarrow> string \<Rightarrow> bool" where
  "settled_name bs memo S r \<longleftrightarrow> dict_get memo r \<noteq> None \<or> by_name bs r = None \<or> r \<in> S"

definition calm :: "Binding list \<Rightarrow> Memo \<Rightarrow> string set \<Rightarrow> bool" where
  "calm bs memo S \<longleftrightarrow> (\<forall>n b. dict_get memo n \<noteq> None \<longrightarrow> by_name bs n = Some b \<longrightarrow>
     vd_stab (the (dict_get memo n)) \<noteq> UNSTABLE \<and> bd_init b \<notin> set FRESH \<and>
     (bd_init b \<in> set DERIVED \<longrightarrow> (\<forall>r\<in>set (bd_refs b). settled_name bs memo S r)))"

definition extends :: "Memo \<Rightarrow> Memo \<Rightarrow> bool" where
  "extends memo memo' \<longleftrightarrow> (\<forall>n. dict_get memo n \<noteq> None \<longrightarrow> dict_get memo' n \<noteq> None)"

lemma settled_extends: "settled_name bs memo S r \<Longrightarrow> extends memo memo' \<Longrightarrow> settled_name bs memo' S r"
  by (auto simp: settled_name_def extends_def)

lemma calm_set:
  assumes "calm bs memo (insert name S)" "vd_stab v \<noteq> UNSTABLE" "by_name bs name = Some b"
    "bd_init b \<notin> set FRESH"
    "bd_init b \<in> set DERIVED \<longrightarrow> (\<forall>r\<in>set (bd_refs b). settled_name bs memo (insert name S) r)"
  shows "calm bs (dict_set memo name v) S"
proof -
  have "settled_name bs (dict_set memo name v) S r" if "settled_name bs memo (insert name S) r" for r
    using that by (auto simp: settled_name_def)
  then show ?thesis using assms by (auto simp: calm_def)
qed

lemma calm_insert: "calm bs memo S \<Longrightarrow> calm bs memo (insert x S)"
  unfolding calm_def settled_name_def by (meson insertCI)

lemma resolve_calm:
  "calm bs memo (set on_stack) \<Longrightarrow> resolve_name bs name on_stack memo = (v, memo') \<Longrightarrow> vd_stab v \<noteq> UNSTABLE
     \<Longrightarrow> calm bs memo' (set on_stack) \<and> settled_name bs memo' (set on_stack) name \<and> extends memo memo'"
  "calm bs memo (set on_stack) \<Longrightarrow> resolve_refs bs name refs on_stack worst memo = (v, memo')
     \<Longrightarrow> vd_stab v \<noteq> UNSTABLE
     \<Longrightarrow> vd_stab worst \<noteq> UNSTABLE \<and> calm bs memo' (set on_stack)
       \<and> (\<forall>r\<in>set refs. settled_name bs memo' (set on_stack) r) \<and> extends memo memo'"
proof (induction bs name on_stack memo and bs name refs on_stack worst memo
    arbitrary: v memo' and v memo' rule: resolve_name_resolve_refs.induct)
  case (1 bs name on_stack memo)
  show ?case
  proof (cases "dict_get memo name = None \<and> by_name bs name \<noteq> None \<and> name \<notin> set on_stack")
    case False
    then have "memo' = memo \<and> settled_name bs memo (set on_stack) name"
      using 1(3) by (auto simp: resolve_name.simps [of bs name] settled_name_def split: option.splits if_splits)
    with 1(2) show ?thesis by (simp add: extends_def)
  next
    case True
    then obtain b where b: "by_name bs name = Some b" and n: "dict_get memo name = None" "name \<notin> set on_stack"
      by auto
    have done1: ?thesis if "memo' = dict_set memo1 name v" "bd_init b \<notin> set FRESH" "extends memo memo1"
      "calm bs memo1 (insert name (set on_stack))"
      "bd_init b \<in> set DERIVED \<longrightarrow> (\<forall>r\<in>set (bd_refs b). settled_name bs memo1 (insert name (set on_stack)) r)"
      for memo1
      using calm_set [OF that(4) 1(4) b that(2,5)] that(1,3)
      by (auto simp: settled_name_def extends_def)
    have same: "extends memo memo" by (simp add: extends_def)
    show ?thesis
    proof (cases "bd_init b \<in> set DERIVED \<and> bd_refs b \<noteq> []")
      case False
      then show ?thesis
        using 1(3,4) n b same done1 [of memo] calm_insert [OF 1(2)]
        by (auto simp: resolve_name.simps [of bs name] split: if_splits)
    next
      case True
      let ?rec = "resolve_refs bs name (bd_refs b) (name # on_stack) (Verdict STABLE name [name]) memo"
      obtain w memo1 where rec: "?rec = (w, memo1)" by (cases ?rec)
      have nk: "bd_init b \<notin> set FRESH" "bd_init b \<notin> set MEMOISED" "bd_init b \<notin> set REFERENTIAL"
        using init_kinds_disjoint True by auto
      then have eq: "w = v" "memo' = dict_set memo1 name v"
        using 1(3) n b True rec by (auto simp: resolve_name.simps [of bs name])
      show ?thesis
        using 1(1) [OF n(1) b n(2) nk(1) _ _ _ _ rec] nk True calm_insert [OF 1(2)] 1(4) eq done1 [of memo1]
        by simp
    qed
  qed
next
  case (2 bs name on_stack worst memo)
  then show ?case by (simp add: resolve_refs.simps extends_def)
next
  case (3 bs name r rs on_stack worst memo)
  obtain u memo1 where r: "resolve_name bs r on_stack memo = (u, memo1)"
    by (cases "resolve_name bs r on_stack memo")
  have rest: "resolve_refs bs name rs on_stack (worse worst u name) memo1 = (v, memo')"
    using 3(4) by (simp add: resolve_refs.simps r)
  have step: "vd_stab (worse worst u name) \<noteq> UNSTABLE \<Longrightarrow> vd_stab worst \<noteq> UNSTABLE \<and> vd_stab u \<noteq> UNSTABLE"
    by (cases "vd_stab worst"; cases "vd_stab u") (auto simp: worse_def)
  show ?case
  proof (cases "vd_stab u = UNSTABLE")
    case False
    have c1: "calm bs memo1 (set on_stack) \<and> settled_name bs memo1 (set on_stack) r \<and> extends memo memo1"
      using 3(1) [OF 3(3) r False] .
    have "vd_stab (worse worst u name) \<noteq> UNSTABLE \<and> calm bs memo' (set on_stack)
       \<and> (\<forall>r\<in>set rs. settled_name bs memo' (set on_stack) r) \<and> extends memo1 memo'"
      using 3(2) [OF r [symmetric] _ rest 3(5)] c1 by blast
    with c1 step show ?thesis by (auto simp: extends_def intro: settled_extends)
  next
    case True
    have "vd_stab (fst (resolve_refs bs name rs on_stack w m)) = UNSTABLE" if "vd_stab w = UNSTABLE" for w m
      using that
    proof (induction rs arbitrary: w m)
      case (Cons a rs)
      then show ?case by (simp add: resolve_refs.simps worse_def split: prod.split)
    qed (simp add: resolve_refs.simps)
    with rest 3(5) True have "vd_stab (worse worst u name) \<noteq> UNSTABLE" by (metis fst_conv)
    with step True show ?thesis by simp
  qed
qed

lemma calm_never_derives: "derives bs x p y \<Longrightarrow> calm bs memo {} \<Longrightarrow> dict_get memo x = None"
proof (induction rule: derives.induct)
  case (derived x b r p y)
  have "by_name bs r \<noteq> None" using derived(4) by (auto elim: derives.cases)
  then have "\<not> settled_name bs memo {} r" using derived by (simp add: settled_name_def)
  then show ?case using derived(1-3,6) unfolding calm_def by blast
qed (auto simp: calm_def)

lemma resolve_exact:
  assumes "calm bs memo {}" "sound_memo bs memo" "resolve_name bs d [] memo = (v, memo')"
  shows "vd_stab v = UNSTABLE \<longleftrightarrow> (\<exists>p y. derives bs d p y)"
    and "vd_stab v = UNSTABLE \<Longrightarrow> derives bs d (vd_path v) (vd_origin v)"
    and "vd_stab v \<noteq> UNSTABLE \<Longrightarrow> calm bs memo' {} \<and> sound_memo bs memo'"
proof -
  show sound: "vd_stab v = UNSTABLE \<Longrightarrow> derives bs d (vd_path v) (vd_origin v)"
    using resolve_sound(1) [OF assms(2), of d "[]"] assms(3) by (simp add: sound_verdict_def)
  have cm: "vd_stab v \<noteq> UNSTABLE \<Longrightarrow> calm bs memo' {} \<and> settled_name bs memo' {} d"
    using resolve_calm(1) [of bs memo "[]" d v memo'] assms by simp
  then show "vd_stab v \<noteq> UNSTABLE \<Longrightarrow> calm bs memo' {} \<and> sound_memo bs memo'"
    using resolve_sound(1) [OF assms(2), of d "[]"] assms(3) by simp
  show "vd_stab v = UNSTABLE \<longleftrightarrow> (\<exists>p y. derives bs d p y)"
  proof
    assume "\<exists>p y. derives bs d p y"
    then obtain p y where d: "derives bs d p y" by blast
    then have "by_name bs d \<noteq> None" by (auto elim: derives.cases)
    then show "vd_stab v = UNSTABLE"
      using cm calm_never_derives [OF d, of memo']
      by (cases "vd_stab v = UNSTABLE") (auto simp: settled_name_def)
  qed (use sound in blast)
qed

lemma resolve_memoised: "dict_get (snd (resolve_name bs d [] memo)) d = Some v'
    \<Longrightarrow> v' = fst (resolve_name bs d [] memo)"
  by (auto simp: resolve_name.simps [of bs d] split: option.splits prod.splits if_splits)

lemma resolve_bound_memoised:
  "by_name bs d \<noteq> None \<Longrightarrow> dict_get (snd (resolve_name bs d [] memo)) d = Some (fst (resolve_name bs d [] memo))"
  by (auto simp: resolve_name.simps [of bs d] split: option.splits prod.splits)

lemma first_unstable_exact:
  "calm bs memo {} \<Longrightarrow> sound_memo bs memo \<Longrightarrow>
     (case first_unstable bs ds memo of
        None \<Rightarrow> \<forall>d\<in>set ds. \<forall>p y. \<not> derives bs d p y
      | Some (d, u) \<Rightarrow> d \<in> set ds \<and> derives bs d (vd_path u) (vd_origin u))"
proof (induction ds arbitrary: memo)
  case (Cons a ds)
  obtain v memo' where r: "resolve_name bs a [] memo = (v, memo')"
    by (cases "resolve_name bs a [] memo")
  note ex = resolve_exact [OF Cons(2,3) r]
  show ?case
  proof (cases "vd_stab v = UNSTABLE")
    case True
    then have "by_name bs a \<noteq> None" using ex(2) by (auto elim: derives.cases)
    then have "dict_get memo' a = Some v" using resolve_bound_memoised [of bs a memo] r by simp
    with True ex(2) show ?thesis by (simp add: r)
  next
    case False
    with ex(1,3) Cons.IH [of memo'] show ?thesis by (auto simp: r split: option.splits)
  qed
qed simp

lemma calm_Nil: "calm bs [] S" "sound_memo bs []"
  by (simp_all add: calm_def sound_memo_def)

text \<open>An effect storms when it does IO and one of its dependencies derives from a fresh binding.\<close>

definition storms :: "ReactEffect \<Rightarrow> bool" where
  "storms e \<longleftrightarrow> re_io e \<and> (\<exists>d\<in>set (re_deps e). \<exists>p y. derives (re_bindings e) d p y)"

lemma storm_of_exact: "storm_of e \<noteq> None \<longleftrightarrow> storms e"
  using first_unstable_exact [where memo = "[]" and bs = "re_bindings e" and ds = "re_deps e", OF calm_Nil]
  by (cases "first_unstable (re_bindings e) (re_deps e) []") (auto simp: storm_of_def storms_def)

lemma storm_of_evidence:
  "storm_of e = Some f \<Longrightarrow> es_dep f \<in> set (re_deps e) \<and> derives (re_bindings e) (es_dep f) (es_path f) (es_origin f)"
  using first_unstable_exact [where memo = "[]" and bs = "re_bindings e" and ds = "re_deps e", OF calm_Nil]
  by (cases "first_unstable (re_bindings e) (re_deps e) []") (auto simp: storm_of_def split: if_splits)

lemma storms_found: "set (find_effect_storms es) = {f. \<exists>e\<in>set es. storm_of e = Some f}"
  by (auto simp: find_effect_storms_def List.map_filter_def image_iff) (force)?

lemma storms_counted: "length (find_effect_storms es) = length (filter storms es)"
  by (induction es) (simp_all add: find_effect_storms_def map_filter_simps storm_of_exact [symmetric] split: option.split)

end
