(* ===== verification/Own_Di.thy ===== *)
theory Own_Di
  imports Own_Prelude "HOL-Library.Char_ord" "HOL-Library.List_Lexorder" "HOL-Library.Product_Lexorder"
begin

text \<open>
  The dependency-injection checks (\<open>ownlang/di.py\<close>, DI001 to DI005) over the registration graph.
  The five searches differ in which services they report and follow (\<open>captive_rule\<close>,
  \<open>disposable_rule\<close>), in where they start, and in whether they judge a service when it is pushed
  (\<open>walk_deps\<close>: DI001, DI003) or when it is popped (\<open>walk_pops\<close>: DI002, DI004, DI005). A stack is
  kept with its top first.
\<close>

section \<open>Registrations and findings\<close>

definition SINGLETON :: string where "SINGLETON = ''singleton''"
definition SCOPED :: string where "SCOPED = ''scoped''"
definition TRANSIENT :: string where "TRANSIENT = ''transient''"

type_synonym Sites = "(string \<times> string \<times> int) list"

record Service =
  sv_name :: string
  sv_lifetime :: string
  sv_deps :: "string list"
  sv_disposable :: bool
  sv_file :: string
  sv_line :: int
  sv_weak_deps :: "string list"
  sv_root_resolves :: "string list"
  sv_ctor_file :: string
  sv_ctor_line :: int
  sv_ctor_type :: string
  sv_root_resolve_sites :: Sites
  sv_scope_cached :: "string list"
  sv_scope_cache_sites :: Sites

text \<open>The fields of DI001, DI002 and DI003 findings, and those of DI004 and DI005.\<close>

record Capture =
  cp_singleton :: string
  cp_captured :: string
  cp_path :: "string list"
  cp_file :: string
  cp_line :: int
  cp_consumed_file :: string
  cp_consumed_line :: int
  cp_consumed_type :: string

record SiteCapture =
  sc_singleton :: string
  sc_captured :: string
  sc_path :: "string list"
  sc_file :: string
  sc_line :: int
  sc_site_file :: string
  sc_site_line :: int

definition consumed_suffix :: "string \<Rightarrow> string \<Rightarrow> int \<Rightarrow> string" where
  "consumed_suffix ctor_type file line =
     (if line < 1 then []
      else '' [consumed by '' @ (if ctor_type \<noteq> [] \<and> ctor_type \<noteq> ''?''
              then ''the '' @ quoted ctor_type @ '' constructor'' else ''the constructor'')
             @ '' at '' @ file @ '':'' @ int_str line @ '']'')"

definition captive_message :: "Capture \<Rightarrow> string" where
  "captive_message f = ''singleton '' @ quoted (cp_singleton f) @ '' captures scoped service ''
     @ quoted (cp_captured f) @ '' (captive dependency: '' @ join_str '' -> '' (cp_path f) @ '')''
     @ consumed_suffix (cp_consumed_type f) (cp_consumed_file f) (cp_consumed_line f)"

definition disposable_message :: "Capture \<Rightarrow> string" where
  "disposable_message f = ''singleton '' @ quoted (cp_singleton f) @ '' captures transient IDisposable ''
     @ quoted (cp_captured f) @ '': it is promoted to application lifetime and disposed only when the root provider is disposed (''
     @ join_str '' -> '' (cp_path f) @ '')''
     @ consumed_suffix (cp_consumed_type f) (cp_consumed_file f) (cp_consumed_line f)"

definition weak_message :: "Capture \<Rightarrow> string" where
  "weak_message f = ''singleton '' @ quoted (cp_singleton f) @ '' weakly captures scoped service '' @ quoted (cp_captured f)
     @ '' (WeakReference): '' @ quoted (cp_captured f)
     @ '' is still resolved from the root provider and promoted to application lifetime'' @ em_dash
     @ ''the weak reference avoids pinning it for the GC but does not fix the captive-dependency lifetime violation (''
     @ join_str '' -> '' (cp_path f) @ '')''
     @ consumed_suffix (cp_consumed_type f) (cp_consumed_file f) (cp_consumed_line f)"

definition registered_suffix :: "SiteCapture \<Rightarrow> string" where
  "registered_suffix f = (if sc_site_line f \<ge> 1 \<and> sc_line f \<ge> 1
     then '' [singleton registered at '' @ sc_file f @ '':'' @ int_str (sc_line f) @ '']'' else [])"

definition root_message :: "SiteCapture \<Rightarrow> string" where
  "root_message f = ''singleton '' @ quoted (sc_singleton f) @ '' resolves transient IDisposable '' @ quoted (sc_captured f)
     @ '' by hand from its injected root IServiceProvider (GetService/GetRequiredService'' @ em_dash
     @ ''the service-locator anti-pattern): the root provider tracks every IDisposable it resolves and frees them only at ''
     @ ''application shutdown, so each call leaks a transient that should be scope-lived'' @ em_dash
     @ ''resolve it from an IServiceScope instead ('' @ join_str '' -> '' (sc_path f) @ '')'' @ registered_suffix f"

definition cached_message :: "SiteCapture \<Rightarrow> string" where
  "cached_message f = ''singleton '' @ quoted (sc_singleton f) @ '' caches scoped service '' @ quoted (sc_captured f)
     @ '', resolved from a scope it creates, into a field: the scope is disposed when the operation ends, ''
     @ ''so the cached instance dangles (use-after-dispose) and '' @ quoted (sc_captured f)
     @ '' is promoted to application lifetime'' @ em_dash
     @ ''the captive the scope was meant to avoid. Resolve it inside the scope per use and do not cache it (''
     @ join_str '' -> '' (sc_path f) @ '')'' @ registered_suffix f"

text \<open>\<open>{s.name: s for s in services}\<close>: a later registration of a name replaces an earlier one.\<close>

definition service :: "Service list \<Rightarrow> string \<Rightarrow> Service option" where
  "service svcs n = map_of (rev (map (\<lambda>s. (sv_name s, s)) svcs)) n"

definition site_of :: "Sites \<Rightarrow> string \<Rightarrow> string \<times> int" where
  "site_of sites t = (case map_of (rev sites) t of None \<Rightarrow> (''?'', 0) | Some fl \<Rightarrow> fl)"

lemma service_SomeD: "service svcs n = Some s \<Longrightarrow> s \<in> set svcs \<and> sv_name s = n"
  by (auto simp: service_def dest!: map_of_SomeD)

section \<open>The two walks\<close>

text \<open>A rule says of a service whether a walk reports it and whether it follows its dependencies.\<close>

type_synonym Rule = "(Service \<Rightarrow> bool) \<times> (Service \<Rightarrow> bool)"
type_synonym Stack = "(string \<times> string list) list"

definition captive_rule :: Rule where
  "captive_rule = (\<lambda>n. sv_lifetime n = SCOPED, \<lambda>n. sv_lifetime n = TRANSIENT)"

definition disposable_rule :: Rule where
  "disposable_rule = (\<lambda>n. sv_lifetime n = TRANSIENT \<and> sv_disposable n, \<lambda>n. sv_lifetime n = TRANSIENT)"

record Walk =
  wk_stack :: Stack
  wk_reported :: "string list"
  wk_visited :: "string list"
  wk_found :: Stack

definition report :: "string \<Rightarrow> string list \<Rightarrow> Walk \<Rightarrow> Walk" where
  "report n path w = (if n \<in> set (wk_reported w) then w
     else w\<lparr>wk_reported := n # wk_reported w, wk_found := wk_found w @ [(n, path)]\<rparr>)"

fun scan_deps :: "Rule \<Rightarrow> Service list \<Rightarrow> string list \<Rightarrow> string list \<Rightarrow> Walk \<Rightarrow> Walk" where
  "scan_deps rule svcs path [] w = w"
| "scan_deps rule svcs path (dep # deps) w =
     (case service svcs dep of
        None \<Rightarrow> scan_deps rule svcs path deps w
      | Some n \<Rightarrow>
          (let w1 = (if fst rule n then report dep (path @ [dep]) w else w);
               w2 = (if snd rule n \<and> dep \<notin> set (wk_visited w1)
                     then w1\<lparr>wk_visited := dep # wk_visited w1, wk_stack := (dep, path @ [dep]) # wk_stack w1\<rparr>
                     else w1)
           in scan_deps rule svcs path deps w2))"

definition unvisited :: "Service list \<Rightarrow> Walk \<Rightarrow> nat" where
  "unvisited svcs w = card (sv_name ` set svcs - set (wk_visited w))"

lemma report_fields [simp]:
  "wk_visited (report n p w) = wk_visited w" "wk_stack (report n p w) = wk_stack w"
  "set (wk_reported (report n p w)) = insert n (set (wk_reported w))"
  by (auto simp: report_def)

lemma unvisited_visit:
  assumes "service svcs n = Some s" "n \<notin> set (wk_visited w)" "wk_visited w' = n # wk_visited w"
  shows "unvisited svcs w' < unvisited svcs w"
proof -
  have "n \<in> sv_name ` set svcs" using service_SomeD [OF assms(1)] by auto
  with assms(2,3) show ?thesis
    unfolding unvisited_def by (intro psubset_card_mono) auto
qed

lemma scan_deps_measure:
  "unvisited svcs (scan_deps rule svcs path deps w) < unvisited svcs w
     \<or> unvisited svcs (scan_deps rule svcs path deps w) = unvisited svcs w
       \<and> wk_stack (scan_deps rule svcs path deps w) = wk_stack w"
proof (induction deps arbitrary: w)
  case (Cons dep deps)
  show ?case
  proof (cases "service svcs dep")
    case (Some n)
    let ?w1 = "if fst rule n then report dep (path @ [dep]) w else w"
    let ?w2 = "?w1\<lparr>wk_visited := dep # wk_visited ?w1, wk_stack := (dep, path @ [dep]) # wk_stack ?w1\<rparr>"
    have same: "unvisited svcs ?w1 = unvisited svcs w" "wk_stack ?w1 = wk_stack w"
      by (simp_all add: unvisited_def)
    show ?thesis
    proof (cases "snd rule n \<and> dep \<notin> set (wk_visited ?w1)")
      case True
      then have "unvisited svcs ?w2 < unvisited svcs w"
        using unvisited_visit [OF Some, of ?w1 ?w2] same by simp
      with Cons [of ?w2] Some True show ?thesis by (auto simp: Let_def)
    next
      case False
      with Cons [of ?w1] Some same show ?thesis by (auto simp: Let_def)
    qed
  qed (use Cons [of w] in simp)
qed simp

function walk_deps :: "Rule \<Rightarrow> Service list \<Rightarrow> Walk \<Rightarrow> Walk" where
  "walk_deps rule svcs w =
     (case wk_stack w of
        [] \<Rightarrow> w
      | (x, path) # stack \<Rightarrow>
          (case service svcs x of
             None \<Rightarrow> walk_deps rule svcs (w\<lparr>wk_stack := stack\<rparr>)
           | Some n \<Rightarrow> walk_deps rule svcs (scan_deps rule svcs path (sv_deps n) (w\<lparr>wk_stack := stack\<rparr>))))"
  by pat_completeness auto
termination
proof (relation "inv_image (less_than <*lex*> less_than)
    (\<lambda>(rule, svcs, w). (unvisited svcs w, length (wk_stack w)))", goal_cases)
  case 1
  then show ?case by auto
next
  case 2
  then show ?case by (simp add: unvisited_def)
next
  case (3 rule svcs w kv stack x path n)
  have "unvisited svcs (w\<lparr>wk_stack := stack\<rparr>) = unvisited svcs w" by (simp add: unvisited_def)
  with 3 scan_deps_measure [of svcs rule path "sv_deps n" "w\<lparr>wk_stack := stack\<rparr>"]
  show ?case by auto
qed

function walk_pops :: "Rule \<Rightarrow> Service list \<Rightarrow> Walk \<Rightarrow> Walk" where
  "walk_pops rule svcs w =
     (case wk_stack w of
        [] \<Rightarrow> w
      | (x, path) # stack \<Rightarrow>
          (case service svcs x of
             None \<Rightarrow> walk_pops rule svcs (w\<lparr>wk_stack := stack\<rparr>)
           | Some n \<Rightarrow>
               (let w1 = (if fst rule n then report x path w else w)\<lparr>wk_stack := stack\<rparr>
                in walk_pops rule svcs
                     (if snd rule n \<and> x \<notin> set (wk_visited w1)
                      then w1\<lparr>wk_visited := x # wk_visited w1,
                             wk_stack := rev (map (\<lambda>d. (d, path @ [d])) (sv_deps n)) @ stack\<rparr>
                      else w1))))"
  by pat_completeness auto
termination
proof (relation "inv_image (less_than <*lex*> less_than)
    (\<lambda>(rule, svcs, w). (unvisited svcs w, length (wk_stack w)))", goal_cases)
  case 1
  then show ?case by auto
next
  case 2
  then show ?case by (simp add: unvisited_def)
next
  case (3 rule svcs w kv stack x path n w1)
  show ?case
  proof (cases "snd rule n \<and> x \<notin> set (wk_visited w1)")
    case True
    have "unvisited svcs (w1\<lparr>wk_visited := x # wk_visited w1,
        wk_stack := rev (map (\<lambda>d. (d, path @ [d])) (sv_deps n)) @ stack\<rparr>) < unvisited svcs w"
      by (rule unvisited_visit [OF 3(3)]) (use True 3(4) in \<open>auto split: if_splits\<close>)
    with True show ?thesis by simp
  next
    case False
    then have "(if snd rule n \<and> x \<notin> set (wk_visited w1)
        then w1\<lparr>wk_visited := x # wk_visited w1,
               wk_stack := rev (map (\<lambda>d. (d, path @ [d])) (sv_deps n)) @ stack\<rparr> else w1) = w1"
      by (rule if_not_P)
    moreover have "unvisited svcs w1 = unvisited svcs w" "wk_stack w1 = stack"
      using 3(4) by (simp_all add: unvisited_def)
    ultimately show ?thesis using 3(1) by (simp only:) simp
  qed
qed

declare walk_deps.simps [simp del] walk_pops.simps [simp del]

definition start :: "Stack \<Rightarrow> Walk" where
  "start stack = \<lparr>wk_stack = stack, wk_reported = [], wk_visited = [], wk_found = []\<rparr>"

section \<open>The five searches\<close>

definition capture_of :: "Service \<Rightarrow> string \<times> string list \<Rightarrow> Capture" where
  "capture_of s f = \<lparr>cp_singleton = sv_name s, cp_captured = fst f, cp_path = snd f,
     cp_file = sv_file s, cp_line = sv_line s, cp_consumed_file = sv_ctor_file s,
     cp_consumed_line = sv_ctor_line s, cp_consumed_type = sv_ctor_type s\<rparr>"

definition site_capture :: "Service \<Rightarrow> string \<times> int \<Rightarrow> string \<times> string list \<Rightarrow> SiteCapture" where
  "site_capture s site f = \<lparr>sc_singleton = sv_name s, sc_captured = fst f, sc_path = snd f,
     sc_file = sv_file s, sc_line = sv_line s, sc_site_file = fst site, sc_site_line = snd site\<rparr>"

definition capture_key :: "Capture \<Rightarrow> string \<times> int \<times> string \<times> string" where
  "capture_key f = (cp_file f, cp_line f, cp_singleton f, cp_captured f)"

definition site_key :: "SiteCapture \<Rightarrow> string \<times> int \<times> string \<times> string" where
  "site_key f = (sc_file f, sc_line f, sc_singleton f, sc_captured f)"

definition of_singletons :: "(Service \<Rightarrow> 'a list) \<Rightarrow> Service list \<Rightarrow> 'a list" where
  "of_singletons f svcs = concat (map f (filter (\<lambda>s. sv_lifetime s = SINGLETON) svcs))"

definition captive_of :: "Service list \<Rightarrow> Service \<Rightarrow> Capture list" where
  "captive_of svcs s =
     map (capture_of s) (wk_found (walk_deps captive_rule svcs (start [(sv_name s, [sv_name s])])))"

definition find_captive_dependencies :: "Service list \<Rightarrow> Capture list" where
  "find_captive_dependencies svcs = sort_key capture_key (of_singletons (captive_of svcs) svcs)"

definition weak_of :: "Service list \<Rightarrow> Service \<Rightarrow> Capture list" where
  "weak_of svcs s = map (capture_of s) (wk_found (walk_pops captive_rule svcs
     (start (rev (map (\<lambda>d. (d, [sv_name s, d])) (sv_weak_deps s))))))"

definition find_weak_captive_dependencies :: "Service list \<Rightarrow> Capture list" where
  "find_weak_captive_dependencies svcs = sort_key capture_key (of_singletons (weak_of svcs) svcs)"

definition disposables_of :: "Service list \<Rightarrow> Service \<Rightarrow> Capture list" where
  "disposables_of svcs s =
     map (capture_of s) (wk_found (walk_deps disposable_rule svcs (start [(sv_name s, [sv_name s])])))"

definition find_captured_transient_disposables :: "Service list \<Rightarrow> Capture list" where
  "find_captured_transient_disposables svcs = sort_key capture_key (of_singletons (disposables_of svcs) svcs)"

definition resolve_site :: "Service \<Rightarrow> string list \<Rightarrow> string \<times> int" where
  "resolve_site s path = (case path of
       _ # entry # _ \<Rightarrow> site_of (sv_root_resolve_sites s) entry
     | _ \<Rightarrow> (''?'', 0))"

definition resolutions_of :: "Service list \<Rightarrow> Service \<Rightarrow> SiteCapture list" where
  "resolutions_of svcs s = map (\<lambda>f. site_capture s (resolve_site s (snd f)) f)
     (wk_found (walk_pops disposable_rule svcs
        (start (rev (map (\<lambda>t. (t, [sv_name s, t])) (sv_root_resolves s))))))"

definition find_explicit_root_resolutions :: "Service list \<Rightarrow> SiteCapture list" where
  "find_explicit_root_resolutions svcs = sort_key site_key (of_singletons (resolutions_of svcs) svcs)"

text \<open>
  DI005 walks from each cached entry and stops at the first scoped service: the first finding of
  the walk, which suppresses none before it.
\<close>

definition cached_entry :: "Service list \<Rightarrow> Service \<Rightarrow> string \<Rightarrow> SiteCapture list" where
  "cached_entry svcs s entry =
     (case wk_found (walk_pops captive_rule svcs (start [(entry, [sv_name s, entry])])) of
        [] \<Rightarrow> []
      | f # _ \<Rightarrow> [site_capture s (site_of (sv_scope_cache_sites s) entry) f])"

fun cached_of :: "Service list \<Rightarrow> Service \<Rightarrow> string list \<Rightarrow> string list \<Rightarrow> SiteCapture list" where
  "cached_of svcs s reported [] = []"
| "cached_of svcs s reported (entry # entries) =
     (if entry \<in> set reported then cached_of svcs s reported entries
      else (case cached_entry svcs s entry of
              [] \<Rightarrow> cached_of svcs s reported entries
            | fs \<Rightarrow> fs @ cached_of svcs s (entry # reported) entries))"

definition find_scope_cached_captives :: "Service list \<Rightarrow> SiteCapture list" where
  "find_scope_cached_captives svcs =
     sort_key site_key (of_singletons (\<lambda>s. cached_of svcs s [] (sv_scope_cached s)) svcs)"

section \<open>What the walks compute\<close>

text \<open>
  \<open>pulls rule svcs x p t\<close>: building \<open>x\<close> builds the reported service \<open>t\<close>, through the followed
  services of the path \<open>p\<close> from \<open>x\<close> to \<open>t\<close>.
\<close>

inductive pulls :: "Rule \<Rightarrow> Service list \<Rightarrow> string \<Rightarrow> string list \<Rightarrow> string \<Rightarrow> bool" for rule svcs where
  here: "service svcs x = Some n \<Longrightarrow> fst rule n \<Longrightarrow> pulls rule svcs x [x] x"
| there: "service svcs x = Some n \<Longrightarrow> snd rule n \<Longrightarrow> d \<in> set (sv_deps n) \<Longrightarrow> pulls rule svcs d p t
     \<Longrightarrow> pulls rule svcs x (x # p) t"

definition depends :: "Service list \<Rightarrow> string \<Rightarrow> string \<Rightarrow> bool" where
  "depends svcs x d \<longleftrightarrow> (\<exists>n. service svcs x = Some n \<and> d \<in> set (sv_deps n))"

definition finished :: "Rule \<Rightarrow> Service list \<Rightarrow> Walk \<Rightarrow> string \<Rightarrow> bool" where
  "finished rule svcs w d \<longleftrightarrow> (\<forall>n. service svcs d = Some n \<longrightarrow>
     (fst rule n \<longrightarrow> d \<in> set (wk_reported w)) \<and> (snd rule n \<longrightarrow> d \<in> set (wk_visited w)))"

definition wgrows :: "Walk \<Rightarrow> Walk \<Rightarrow> bool" where
  "wgrows w w' \<longleftrightarrow> set (wk_reported w) \<subseteq> set (wk_reported w') \<and> set (wk_visited w) \<subseteq> set (wk_visited w')"

definition wf_found :: "Walk \<Rightarrow> bool" where
  "wf_found w \<longleftrightarrow> map fst (wk_found w) = rev (wk_reported w) \<and> distinct (wk_reported w)"

lemma finished_wgrows: "finished rule svcs w d \<Longrightarrow> wgrows w w' \<Longrightarrow> finished rule svcs w' d"
  by (auto simp: finished_def wgrows_def)

lemma wgrows_refl [simp]: "wgrows w w"
  by (simp add: wgrows_def)

lemma wgrows_trans: "wgrows w w' \<Longrightarrow> wgrows w' w'' \<Longrightarrow> wgrows w w''"
  by (auto simp: wgrows_def)

lemma wf_found_report: "wf_found w \<Longrightarrow> wf_found (report n p w)"
  by (simp add: wf_found_def report_def)

lemma wf_found_update [simp]:
  "wf_found (w\<lparr>wk_stack := s\<rparr>) = wf_found w" "wf_found (w\<lparr>wk_visited := v\<rparr>) = wf_found w"
  by (simp_all add: wf_found_def)

lemma wf_found_start [simp]: "wf_found (start s)"
  by (simp add: wf_found_def start_def)

lemma finished_pulls:
  "pulls rule svcs x p t \<Longrightarrow> finished rule svcs w x
     \<Longrightarrow> (\<And>v d. v \<in> set (wk_visited w) \<Longrightarrow> depends svcs v d \<Longrightarrow> finished rule svcs w d)
     \<Longrightarrow> t \<in> set (wk_reported w)"
proof (induction rule: pulls.induct)
  case (there x n d p t)
  have "finished rule svcs w d"
    using there by (auto simp: finished_def depends_def)
  with there show ?case by blast
qed (simp add: finished_def)

subsection \<open>Judging at the pop\<close>

definition pop_step :: "Rule \<Rightarrow> Service list \<Rightarrow> string \<Rightarrow> string list \<Rightarrow> Stack \<Rightarrow> Service \<Rightarrow> Walk \<Rightarrow> Walk" where
  "pop_step rule svcs x path stack n w =
     (let w1 = (if fst rule n then report x path w else w)\<lparr>wk_stack := stack\<rparr>
      in if snd rule n \<and> x \<notin> set (wk_visited w1)
         then w1\<lparr>wk_visited := x # wk_visited w1,
                wk_stack := rev (map (\<lambda>d. (d, path @ [d])) (sv_deps n)) @ stack\<rparr>
         else w1)"

lemma walk_pops_cases:
  "wk_stack w = [] \<Longrightarrow> walk_pops rule svcs w = w"
  "wk_stack w = (x, path) # stack \<Longrightarrow> service svcs x = None
     \<Longrightarrow> walk_pops rule svcs w = walk_pops rule svcs (w\<lparr>wk_stack := stack\<rparr>)"
  "wk_stack w = (x, path) # stack \<Longrightarrow> service svcs x = Some n
     \<Longrightarrow> walk_pops rule svcs w = walk_pops rule svcs (pop_step rule svcs x path stack n w)"
  by (simp_all add: walk_pops.simps [of rule svcs w] pop_step_def Let_def)

lemma pop_induct [case_names empty unknown known]:
  assumes "\<And>w. wk_stack w = [] \<Longrightarrow> P w"
    and "\<And>w x path stack. wk_stack w = (x, path) # stack \<Longrightarrow> service svcs x = None
           \<Longrightarrow> P (w\<lparr>wk_stack := stack\<rparr>) \<Longrightarrow> P w"
    and "\<And>w x path stack n. wk_stack w = (x, path) # stack \<Longrightarrow> service svcs x = Some n
           \<Longrightarrow> P (pop_step rule svcs x path stack n w) \<Longrightarrow> P w"
  shows "P w"
proof -
  have "rule' = rule \<Longrightarrow> svcs' = svcs \<Longrightarrow> P w" for rule' svcs'
  proof (induction rule' svcs' w rule: walk_pops.induct)
    case (1 rule' svcs' w)
    show ?case
    proof (cases "wk_stack w")
      case (Cons e stack)
      obtain x path where e: "e = (x, path)" by (cases e)
      show ?thesis
      proof (cases "service svcs x")
        case None
        with Cons e 1 show ?thesis by (auto intro: assms(2) [of w x path stack])
      next
        case (Some n)
        have "P (pop_step rule svcs x path stack n w)"
          unfolding pop_step_def Let_def
          using 1(2) [OF Cons e [symmetric]] 1(3,4) Some by (simp add: Let_def)
        with Cons e Some show ?thesis by (auto intro: assms(3) [of w x path stack n])
      qed
    qed (rule assms(1))
  qed
  then show ?thesis by simp
qed

lemma pop_step_reported:
  "set (wk_reported (pop_step rule svcs x path stack n w))
     = (if fst rule n then insert x (set (wk_reported w)) else set (wk_reported w))"
  by (simp add: pop_step_def Let_def)

lemma pop_step_visited:
  "set (wk_visited (pop_step rule svcs x path stack n w))
     = (if snd rule n then insert x (set (wk_visited w)) else set (wk_visited w))"
  by (auto simp: pop_step_def Let_def)

lemma pop_step_stack:
  "set (wk_stack (pop_step rule svcs x path stack n w)) = set stack \<union>
     (if snd rule n \<and> x \<notin> set (wk_visited w) then (\<lambda>d. (d, path @ [d])) ` set (sv_deps n) else {})"
  by (auto simp: pop_step_def Let_def)

lemma pop_step_wf: "wf_found w \<Longrightarrow> wf_found (pop_step rule svcs x path stack n w)"
  by (auto simp: pop_step_def Let_def wf_found_report wf_found_def report_def)

definition pending_pops :: "Rule \<Rightarrow> Service list \<Rightarrow> Walk \<Rightarrow> bool" where
  "pending_pops rule svcs w \<longleftrightarrow> (\<forall>v\<in>set (wk_visited w). \<forall>d. depends svcs v d \<longrightarrow>
     finished rule svcs w d \<or> d \<in> fst ` set (wk_stack w))"

lemma pop_step_wgrows: "wgrows w (pop_step rule svcs x path stack n w)"
  by (auto simp: wgrows_def pop_step_reported pop_step_visited)

lemma pop_step_finished:
  "service svcs x = Some n \<Longrightarrow> finished rule svcs (pop_step rule svcs x path stack n w) x"
  by (simp add: finished_def pop_step_reported pop_step_visited)

lemma pop_step_pending:
  assumes "pending_pops rule svcs w" "wk_stack w = (x, path) # stack" "service svcs x = Some n"
  shows "pending_pops rule svcs (pop_step rule svcs x path stack n w)"
  unfolding pending_pops_def
proof (intro ballI allI impI)
  let ?w = "pop_step rule svcs x path stack n w"
  fix v d assume v: "v \<in> set (wk_visited ?w)" and d: "depends svcs v d"
  show "finished rule svcs ?w d \<or> d \<in> fst ` set (wk_stack ?w)"
  proof (cases "v \<in> set (wk_visited w)")
    case True
    then have "finished rule svcs w d \<or> d \<in> fst ` set (wk_stack w)"
      using assms(1) d by (simp add: pending_pops_def)
    then consider "finished rule svcs w d" | "d = x" | "d \<in> fst ` set stack"
      using assms(2) by auto
    then show ?thesis
    proof cases
      case 1
      then show ?thesis using finished_wgrows [OF _ pop_step_wgrows] by blast
    next
      case 2
      then show ?thesis using pop_step_finished [OF assms(3)] by blast
    next
      case 3
      then show ?thesis unfolding pop_step_stack image_Un by blast
    qed
  next
    case False
    with v have "v = x" "snd rule n" by (auto simp: pop_step_visited split: if_splits)
    with False d assms(3) show ?thesis by (force simp: pop_step_stack depends_def)
  qed
qed

lemma walk_pops_complete:
  "pending_pops rule svcs w \<Longrightarrow> wf_found w \<Longrightarrow>
     wf_found (walk_pops rule svcs w) \<and> wgrows w (walk_pops rule svcs w)
     \<and> wk_stack (walk_pops rule svcs w) = [] \<and> pending_pops rule svcs (walk_pops rule svcs w)
     \<and> (\<forall>d\<in>fst ` set (wk_stack w). finished rule svcs (walk_pops rule svcs w) d)"
proof (induction w rule: pop_induct [where rule = rule and svcs = svcs])
  case (empty w)
  then show ?case by (simp add: walk_pops_cases)
next
  case (unknown w x path stack)
  have x: "finished rule svcs w' x" for w' using unknown(2) by (simp add: finished_def)
  have same: "finished rule svcs (w\<lparr>wk_stack := stack\<rparr>) d = finished rule svcs w d" for d
    by (simp add: finished_def)
  have "pending_pops rule svcs (w\<lparr>wk_stack := stack\<rparr>)"
    using unknown(1,4) x by (auto simp: pending_pops_def same)
  with unknown have "?case \<longleftrightarrow> finished rule svcs (walk_pops rule svcs w) x"
    by (auto simp: walk_pops_cases(2) [OF unknown(1,2)] wgrows_def)
  with unknown(2) show ?case by (simp add: finished_def)
next
  case (known w x path stack n)
  note ih = known(3) [OF pop_step_pending [OF known(4,1,2)] pop_step_wf [OF known(5)]]
  then have "finished rule svcs (walk_pops rule svcs (pop_step rule svcs x path stack n w)) x"
    using finished_wgrows [OF pop_step_finished [OF known(2), of rule path stack w]] by blast
  with ih show ?case
    using pop_step_wgrows [of w rule svcs x path stack n] known(1)
    by (auto simp: walk_pops_cases(3) [OF known(1,2)] pop_step_stack intro: wgrows_trans)
qed

lemma walk_pops_sound:
  assumes "\<And>x path. (x, path) \<in> set (wk_stack w) \<Longrightarrow>
      \<exists>q. path = q @ [x] \<and> (\<forall>p t. pulls rule svcs x p t \<longrightarrow> G (q @ p) t)"
    and "\<And>t path. (t, path) \<in> set (wk_found w) \<Longrightarrow> G path t"
  shows "(t, path) \<in> set (wk_found (walk_pops rule svcs w)) \<Longrightarrow> G path t"
  using assms
proof (induction w arbitrary: t path rule: pop_induct [where rule = rule and svcs = svcs])
  case (empty w)
  then show ?case by (simp add: walk_pops_cases)
next
  case (unknown w x path1 stack)
  show ?case
    by (rule unknown(3)) (use unknown in \<open>simp_all add: walk_pops_cases(2)\<close>)
next
  case (known w x path1 stack n)
  obtain q where q: "path1 = q @ [x]" "\<And>p t. pulls rule svcs x p t \<Longrightarrow> G (q @ p) t"
    using known(5) [of x path1] known(1) by auto
  show ?case
  proof (rule known(3))
    show "(t, path) \<in> set (wk_found (walk_pops rule svcs (pop_step rule svcs x path1 stack n w)))"
      using known(4) by (simp add: walk_pops_cases(3) [OF known(1,2)])
  next
    fix y path2 assume y: "(y, path2) \<in> set (wk_stack (pop_step rule svcs x path1 stack n w))"
    show "\<exists>q. path2 = q @ [y] \<and> (\<forall>p t. pulls rule svcs y p t \<longrightarrow> G (q @ p) t)"
    proof (cases "(y, path2) \<in> set stack")
      case True
      then show ?thesis using known(1,5) by simp
    next
      case False
      with y have "snd rule n" "y \<in> set (sv_deps n)" "path2 = path1 @ [y]"
        by (auto simp: pop_step_stack split: if_splits)
      with q pulls.there [of svcs x n rule y] known(2) show ?thesis by fastforce
    qed
  next
    fix u path2 assume "(u, path2) \<in> set (wk_found (pop_step rule svcs x path1 stack n w))"
    then have "(u, path2) \<in> set (wk_found w) \<or> fst rule n \<and> u = x \<and> path2 = path1"
      by (auto simp: pop_step_def Let_def report_def split: if_splits)
    with q pulls.here [OF known(2), of rule] known(6) show "G path2 u" by auto
  qed
qed

lemma pending_start [simp]: "pending_pops rule svcs (start s)"
  by (simp add: pending_pops_def start_def)

lemma walk_pops_found:
  assumes "\<And>x path. (x, path) \<in> set s \<Longrightarrow> \<exists>q. path = q @ [x]"
  shows "t \<in> fst ` set (wk_found (walk_pops rule svcs (start s)))
    \<longleftrightarrow> (\<exists>x\<in>fst ` set s. \<exists>p. pulls rule svcs x p t)"
proof
  let ?G = "\<lambda>path t. \<exists>x\<in>fst ` set s. \<exists>p. pulls rule svcs x p t"
  assume "t \<in> fst ` set (wk_found (walk_pops rule svcs (start s)))"
  then obtain path where t: "(t, path) \<in> set (wk_found (walk_pops rule svcs (start s)))" by auto
  have "?G path t"
  proof (rule walk_pops_sound [OF _ _ t])
    fix x path1 assume x: "(x, path1) \<in> set (wk_stack (start s))"
    then obtain q where "path1 = q @ [x]" using assms by (auto simp: start_def)
    moreover have "x \<in> fst ` set s" using x by (force simp: start_def)
    ultimately show "\<exists>q. path1 = q @ [x] \<and> (\<forall>p t. pulls rule svcs x p t \<longrightarrow> ?G (q @ p) t)"
      by blast
  qed (simp add: start_def)
  then show "\<exists>x\<in>fst ` set s. \<exists>p. pulls rule svcs x p t" .
next
  let ?w = "walk_pops rule svcs (start s)"
  assume "\<exists>x\<in>fst ` set s. \<exists>p. pulls rule svcs x p t"
  then obtain x p where x: "x \<in> fst ` set s" and p: "pulls rule svcs x p t" by blast
  note c = walk_pops_complete [OF pending_start wf_found_start, of rule svcs s]
  have "t \<in> set (wk_reported ?w)"
    by (rule finished_pulls [OF p])
      (use c x in \<open>auto simp: start_def pending_pops_def\<close>)
  moreover have "fst ` set (wk_found ?w) = set (wk_reported ?w)"
    using c unfolding wf_found_def by (metis set_map set_rev)
  ultimately show "t \<in> fst ` set (wk_found ?w)" by simp
qed

subsection \<open>Judging at the push\<close>

lemma walk_deps_cases:
  "wk_stack w = [] \<Longrightarrow> walk_deps rule svcs w = w"
  "wk_stack w = (x, path) # stack \<Longrightarrow> service svcs x = None
     \<Longrightarrow> walk_deps rule svcs w = walk_deps rule svcs (w\<lparr>wk_stack := stack\<rparr>)"
  "wk_stack w = (x, path) # stack \<Longrightarrow> service svcs x = Some n
     \<Longrightarrow> walk_deps rule svcs w = walk_deps rule svcs (scan_deps rule svcs path (sv_deps n) (w\<lparr>wk_stack := stack\<rparr>))"
  by (simp_all add: walk_deps.simps [of rule svcs w])

lemma deps_induct [case_names empty unknown known]:
  assumes "\<And>w. wk_stack w = [] \<Longrightarrow> P w"
    and "\<And>w x path stack. wk_stack w = (x, path) # stack \<Longrightarrow> service svcs x = None
           \<Longrightarrow> P (w\<lparr>wk_stack := stack\<rparr>) \<Longrightarrow> P w"
    and "\<And>w x path stack n. wk_stack w = (x, path) # stack \<Longrightarrow> service svcs x = Some n
           \<Longrightarrow> P (scan_deps rule svcs path (sv_deps n) (w\<lparr>wk_stack := stack\<rparr>)) \<Longrightarrow> P w"
  shows "P w"
proof -
  have "rule' = rule \<Longrightarrow> svcs' = svcs \<Longrightarrow> P w" for rule' svcs'
  proof (induction rule' svcs' w rule: walk_deps.induct)
    case (1 rule' svcs' w)
    show ?case
    proof (cases "wk_stack w")
      case (Cons e stack)
      obtain x path where e: "e = (x, path)" by (cases e)
      show ?thesis
      proof (cases "service svcs x")
        case None
        with Cons e 1 show ?thesis by (auto intro: assms(2) [of w x path stack])
      next
        case (Some n)
        with Cons e 1 show ?thesis by (auto intro: assms(3) [of w x path stack n])
      qed
    qed (rule assms(1))
  qed
  then show ?thesis by simp
qed

text \<open>The one push of the scan, as a step of its own.\<close>

definition push_dep :: "Rule \<Rightarrow> string list \<Rightarrow> string \<Rightarrow> Service \<Rightarrow> Walk \<Rightarrow> Walk" where
  "push_dep rule path dep n w =
     (let w1 = (if fst rule n then report dep (path @ [dep]) w else w)
      in if snd rule n \<and> dep \<notin> set (wk_visited w1)
         then w1\<lparr>wk_visited := dep # wk_visited w1, wk_stack := (dep, path @ [dep]) # wk_stack w1\<rparr>
         else w1)"

lemma scan_deps_Cons:
  "scan_deps rule svcs path (dep # deps) w = (case service svcs dep of
       None \<Rightarrow> scan_deps rule svcs path deps w
     | Some n \<Rightarrow> scan_deps rule svcs path deps (push_dep rule path dep n w))"
  by (simp add: push_dep_def Let_def split: option.split)

declare scan_deps.simps(2) [simp del]
declare scan_deps_Cons [simp]

lemma push_dep_reported:
  "set (wk_reported (push_dep rule path dep n w))
     = (if fst rule n then insert dep (set (wk_reported w)) else set (wk_reported w))"
  by (simp add: push_dep_def Let_def)

lemma push_dep_visited:
  "set (wk_visited (push_dep rule path dep n w))
     = (if snd rule n then insert dep (set (wk_visited w)) else set (wk_visited w))"
  by (auto simp: push_dep_def Let_def)

lemma push_dep_stack:
  "set (wk_stack (push_dep rule path dep n w)) = set (wk_stack w) \<union>
     (if snd rule n \<and> dep \<notin> set (wk_visited w) then {(dep, path @ [dep])} else {})"
  by (auto simp: push_dep_def Let_def)

lemma push_dep_wgrows: "wgrows w (push_dep rule path dep n w)"
  by (auto simp: wgrows_def push_dep_reported push_dep_visited)

lemma push_dep_wf: "wf_found w \<Longrightarrow> wf_found (push_dep rule path dep n w)"
  by (auto simp: push_dep_def Let_def wf_found_report wf_found_def report_def)

lemma push_dep_finished:
  "service svcs dep = Some n \<Longrightarrow> finished rule svcs (push_dep rule path dep n w) dep"
  by (simp add: finished_def push_dep_reported push_dep_visited)

text \<open>A visited service is still on the stack, or everything it depends on is finished.\<close>

definition scanned :: "Rule \<Rightarrow> Service list \<Rightarrow> Walk \<Rightarrow> string \<Rightarrow> bool" where
  "scanned rule svcs w x \<longleftrightarrow> (\<forall>d. depends svcs x d \<longrightarrow> finished rule svcs w d)"

lemma scanned_wgrows: "scanned rule svcs w x \<Longrightarrow> wgrows w w' \<Longrightarrow> scanned rule svcs w' x"
  by (auto simp: scanned_def intro: finished_wgrows)

lemma scan_deps_effect:
  "wgrows w (scan_deps rule svcs path deps w)
     \<and> (wf_found w \<longrightarrow> wf_found (scan_deps rule svcs path deps w))
     \<and> (\<forall>d\<in>set deps. finished rule svcs (scan_deps rule svcs path deps w) d)
     \<and> set (wk_visited (scan_deps rule svcs path deps w))
         \<subseteq> set (wk_visited w) \<union> fst ` set (wk_stack (scan_deps rule svcs path deps w))
     \<and> set (wk_stack w) \<subseteq> set (wk_stack (scan_deps rule svcs path deps w))"
proof (induction deps arbitrary: w)
  case Nil
  then show ?case by simp
next
  case (Cons dep deps)
  show ?case
  proof (cases "service svcs dep")
    case None
    then show ?thesis using Cons [of w] by (simp add: finished_def)
  next
    case (Some n)
    let ?w = "push_dep rule path dep n w"
    have "finished rule svcs (scan_deps rule svcs path deps ?w) dep"
      using finished_wgrows [OF push_dep_finished [OF Some]] Cons [of ?w] by blast
    moreover have "set (wk_visited (scan_deps rule svcs path deps ?w))
        \<subseteq> set (wk_visited w) \<union> fst ` set (wk_stack (scan_deps rule svcs path deps ?w))"
    proof -
      have "set (wk_visited ?w) \<subseteq> set (wk_visited w) \<union> fst ` set (wk_stack ?w)"
        by (auto simp: push_dep_visited push_dep_stack)
      moreover have "fst ` set (wk_stack ?w) \<subseteq> fst ` set (wk_stack (scan_deps rule svcs path deps ?w))"
        using Cons [of ?w] by (simp add: image_mono)
      ultimately show ?thesis using Cons [of ?w] by blast
    qed
    moreover have "set (wk_stack w) \<subseteq> set (wk_stack (scan_deps rule svcs path deps ?w))"
    proof -
      have "set (wk_stack w) \<subseteq> set (wk_stack ?w)" by (simp add: push_dep_stack)
      then show ?thesis using Cons [of ?w] by blast
    qed
    ultimately show ?thesis
      using Cons [of ?w] wgrows_trans [OF push_dep_wgrows [of w rule path dep n]]
        push_dep_wf [of w rule path dep n] Some
      by simp
  qed
qed

lemma walk_deps_complete:
  "(\<And>v. v \<in> set (wk_visited w) \<Longrightarrow> v \<in> fst ` set (wk_stack w) \<or> scanned rule svcs w v) \<Longrightarrow> wf_found w \<Longrightarrow>
     wf_found (walk_deps rule svcs w) \<and> wgrows w (walk_deps rule svcs w)
     \<and> (\<forall>v\<in>set (wk_visited (walk_deps rule svcs w)) \<union> fst ` set (wk_stack w).
          scanned rule svcs (walk_deps rule svcs w) v)"
proof (induction w rule: deps_induct [where rule = rule and svcs = svcs])
  case (empty w)
  then show ?case by (simp add: walk_deps_cases)
next
  case (unknown w x path stack)
  have x: "scanned rule svcs w' x" for w' using unknown(2) by (simp add: scanned_def depends_def)
  have same: "scanned rule svcs (w\<lparr>wk_stack := stack\<rparr>) v = scanned rule svcs w v" for v
    by (simp add: scanned_def finished_def)
  have "v \<in> fst ` set stack \<or> scanned rule svcs w v" if "v \<in> set (wk_visited w)" for v
    using unknown(4) [OF that] unknown(1) x by auto
  then show ?case
    using unknown(1,3,5) x by (simp add: walk_deps_cases(2) [OF unknown(1,2)] same wgrows_def)
next
  case (known w x path stack n)
  let ?w = "scan_deps rule svcs path (sv_deps n) (w\<lparr>wk_stack := stack\<rparr>)"
  note ef = scan_deps_effect [of "w\<lparr>wk_stack := stack\<rparr>" rule svcs path "sv_deps n"]
  have g: "wgrows w ?w" using ef by (simp add: wgrows_def)
  have x: "scanned rule svcs ?w x" using ef known(2) by (simp add: scanned_def depends_def)
  have inv: "v \<in> fst ` set (wk_stack ?w) \<or> scanned rule svcs ?w v" if "v \<in> set (wk_visited ?w)" for v
  proof (cases "v \<in> set (wk_visited w)")
    case True
    then consider "v = x" | "v \<in> fst ` set stack" | "scanned rule svcs w v"
      using known(1,4) by auto
    then show ?thesis
    proof cases
      case 2
      moreover have "set stack \<subseteq> set (wk_stack ?w)" using ef by simp
      ultimately show ?thesis by blast
    qed (use x scanned_wgrows [OF _ g] in blast)+
  next
    case False
    moreover have "set (wk_visited ?w) \<subseteq> set (wk_visited w) \<union> fst ` set (wk_stack ?w)" using ef by simp
    ultimately show ?thesis using that by blast
  qed
  note ih = known(3) [OF inv]
  have "wf_found ?w" using ef known(5) by simp
  note ih = known(3) [OF inv this]
  have "scanned rule svcs (walk_deps rule svcs ?w) x"
    using ih scanned_wgrows [OF x] by blast
  moreover have "\<forall>v\<in>fst ` set stack. scanned rule svcs (walk_deps rule svcs ?w) v"
  proof -
    have "fst ` set stack \<subseteq> fst ` set (wk_stack ?w)" using ef by (simp add: image_mono)
    then show ?thesis using ih by blast
  qed
  ultimately show ?case
    using ih wgrows_trans [OF g] known(1)
    by (simp add: walk_deps_cases(3) [OF known(1,2)] ball_Un)
qed

definition extends_to :: "Rule \<Rightarrow> Service list \<Rightarrow> (string list \<Rightarrow> string \<Rightarrow> bool) \<Rightarrow> string \<Rightarrow> string list \<Rightarrow> bool" where
  "extends_to rule svcs G x path \<longleftrightarrow>
     (\<forall>d p t. depends svcs x d \<longrightarrow> pulls rule svcs d p t \<longrightarrow> G (path @ p) t)"

lemma scan_deps_sound:
  "(\<And>x p. (x, p) \<in> set (wk_stack w) \<Longrightarrow> extends_to rule svcs G x p) \<Longrightarrow>
   (\<And>t p. (t, p) \<in> set (wk_found w) \<Longrightarrow> G p t) \<Longrightarrow>
   (\<And>d p t. d \<in> set deps \<Longrightarrow> pulls rule svcs d p t \<Longrightarrow> G (path @ p) t) \<Longrightarrow>
   (\<forall>(x, p) \<in> set (wk_stack (scan_deps rule svcs path deps w)). extends_to rule svcs G x p)
   \<and> (\<forall>(t, p) \<in> set (wk_found (scan_deps rule svcs path deps w)). G p t)"
proof (induction deps arbitrary: w)
  case (Cons dep deps)
  have rest: "G (path @ p) t" if "d \<in> set deps" "pulls rule svcs d p t" for d p t
    by (rule Cons(4) [OF _ that(2)]) (simp add: that(1))
  show ?case
  proof (cases "service svcs dep")
    case None
    have "(\<forall>(x, p) \<in> set (wk_stack (scan_deps rule svcs path deps w)). extends_to rule svcs G x p)
        \<and> (\<forall>(t, p) \<in> set (wk_found (scan_deps rule svcs path deps w)). G p t)"
      by (rule Cons(1) [OF Cons(2,3) rest])
    with None show ?thesis by (simp only: scan_deps_Cons option.case)
  next
    case (Some n)
    let ?w = "push_dep rule path dep n w"
    have st: "extends_to rule svcs G x p" if "(x, p) \<in> set (wk_stack ?w)" for x p
    proof (cases "(x, p) \<in> set (wk_stack w)")
      case False
      with that have "snd rule n" "x = dep" "p = path @ [dep]"
        by (auto simp: push_dep_stack split: if_splits)
      have "G (p @ q) t" if d: "depends svcs x d" and q: "pulls rule svcs d q t" for d q t
      proof -
        have "pulls rule svcs dep (dep # q) t"
          using d q Some \<open>x = dep\<close> \<open>snd rule n\<close> pulls.there [OF Some] by (simp add: depends_def)
        from Cons(4) [OF _ this] show ?thesis using \<open>p = path @ [dep]\<close> by simp
      qed
      then show ?thesis unfolding extends_to_def by blast
    qed (rule Cons(2))
    have fd: "G p t" if "(t, p) \<in> set (wk_found ?w)" for t p
    proof -
      have "(t, p) \<in> set (wk_found w) \<or> fst rule n \<and> t = dep \<and> p = path @ [dep]"
        using that by (auto simp: push_dep_def Let_def report_def split: if_splits)
      moreover have "G (path @ [dep]) dep" if "fst rule n"
        by (rule Cons(4) [of dep]) (simp, rule pulls.here [OF Some that])
      ultimately show ?thesis using Cons(3) by blast
    qed
    have "(\<forall>(x, p) \<in> set (wk_stack (scan_deps rule svcs path deps ?w)). extends_to rule svcs G x p)
        \<and> (\<forall>(t, p) \<in> set (wk_found (scan_deps rule svcs path deps ?w)). G p t)"
      by (rule Cons(1) [OF st fd rest])
    then show ?thesis by (simp only: scan_deps_Cons Some option.case)
  qed
qed auto

lemma walk_deps_sound:
  assumes "\<And>x p. (x, p) \<in> set (wk_stack w) \<Longrightarrow> extends_to rule svcs G x p"
    and "\<And>t p. (t, p) \<in> set (wk_found w) \<Longrightarrow> G p t"
  shows "(t, path) \<in> set (wk_found (walk_deps rule svcs w)) \<Longrightarrow> G path t"
  using assms
proof (induction w arbitrary: t path rule: deps_induct [where rule = rule and svcs = svcs])
  case (empty w)
  then show ?case by (simp add: walk_deps_cases)
next
  case (unknown w x path1 stack)
  show ?case
    by (rule unknown(3)) (use unknown in \<open>simp_all add: walk_deps_cases(2)\<close>)
next
  case (known w x path1 stack n)
  let ?v = "w\<lparr>wk_stack := stack\<rparr>"
  have "extends_to rule svcs G y p" if "(y, p) \<in> set (wk_stack ?v)" for y p
    using that known(1,5) by simp
  moreover have "G p t" if "(t, p) \<in> set (wk_found ?v)" for t p using that known(6) by simp
  moreover have "G (path1 @ p) t" if "d \<in> set (sv_deps n)" "pulls rule svcs d p t" for d p t
    using known(5) [of x path1] known(1,2) that by (auto simp: extends_to_def depends_def)
  ultimately have s: "(\<forall>(x, p) \<in> set (wk_stack (scan_deps rule svcs path1 (sv_deps n) ?v)). extends_to rule svcs G x p)
      \<and> (\<forall>(t, p) \<in> set (wk_found (scan_deps rule svcs path1 (sv_deps n) ?v)). G p t)"
    by (rule scan_deps_sound)
  show ?case
    by (rule known(3)) (use known(4) s in \<open>auto simp: walk_deps_cases(3) [OF known(1,2)]\<close>)
qed

lemma walk_deps_found:
  "t \<in> fst ` set (wk_found (walk_deps rule svcs (start [(x, [x])])))
    \<longleftrightarrow> (\<exists>d p. depends svcs x d \<and> pulls rule svcs d p t)"
proof
  let ?G = "\<lambda>path t. \<exists>d p. depends svcs x d \<and> pulls rule svcs d p t"
  assume "t \<in> fst ` set (wk_found (walk_deps rule svcs (start [(x, [x])])))"
  then obtain path where t: "(t, path) \<in> set (wk_found (walk_deps rule svcs (start [(x, [x])])))" by auto
  have "?G path t"
    by (rule walk_deps_sound [OF _ _ t]) (auto simp: start_def extends_to_def)
  then show "\<exists>d p. depends svcs x d \<and> pulls rule svcs d p t" .
next
  let ?w = "walk_deps rule svcs (start [(x, [x])])"
  assume "\<exists>d p. depends svcs x d \<and> pulls rule svcs d p t"
  then obtain d p where d: "depends svcs x d" and p: "pulls rule svcs d p t" by blast
  have "v \<in> fst ` set (wk_stack (start [(x, [x])])) \<or> scanned rule svcs (start [(x, [x])]) v"
    if "v \<in> set (wk_visited (start [(x, [x])]))" for v using that by (simp add: start_def)
  note c = walk_deps_complete [OF this wf_found_start]
  have "t \<in> set (wk_reported ?w)"
    by (rule finished_pulls [OF p]) (use c d in \<open>auto simp: start_def scanned_def\<close>)
  moreover have "fst ` set (wk_found ?w) = set (wk_reported ?w)"
    using c unfolding wf_found_def by (metis set_map set_rev)
  ultimately show "t \<in> fst ` set (wk_found ?w)" by simp
qed

lemma walk_deps_distinct: "distinct (map fst (wk_found (walk_deps rule svcs (start [(x, [x])]))))"
proof -
  have "wf_found (walk_deps rule svcs (start [(x, [x])]))"
    using walk_deps_complete [of "start [(x, [x])]" rule svcs] by (simp add: start_def wf_found_def)
  then show ?thesis by (simp add: wf_found_def)
qed

section \<open>The findings\<close>

lemma of_singletons_iff:
  "f \<in> set (of_singletons g svcs) \<longleftrightarrow> (\<exists>s\<in>set svcs. sv_lifetime s = SINGLETON \<and> f \<in> set (g s))"
  by (auto simp: of_singletons_def)

text \<open>
  A singleton registration that (transitively, through transients) is constructed with the scoped
  service \<open>c\<close>, along the path that the finding prints.
\<close>

definition constructs :: "Rule \<Rightarrow> Service list \<Rightarrow> string \<Rightarrow> string list \<Rightarrow> string \<Rightarrow> bool" where
  "constructs rule svcs x path t \<longleftrightarrow> (\<exists>d p. depends svcs x d \<and> pulls rule svcs d p t \<and> path = x # p)"

lemma walk_deps_path:
  "(t, path) \<in> set (wk_found (walk_deps rule svcs (start [(x, [x])]))) \<Longrightarrow> constructs rule svcs x path t"
  by (rule walk_deps_sound [where G = "constructs rule svcs x" and w = "start [(x, [x])]"])
    (auto simp: start_def extends_to_def constructs_def)

lemma walk_pops_path:
  "(t, path) \<in> set (wk_found (walk_pops rule svcs (start (rev (map (\<lambda>d. (d, [x, d])) ds)))))
     \<Longrightarrow> \<exists>d\<in>set ds. \<exists>p. pulls rule svcs d p t \<and> path = x # p"
  by (rule walk_pops_sound [where G = "\<lambda>path t. \<exists>d\<in>set ds. \<exists>p. pulls rule svcs d p t \<and> path = x # p"
        and w = "start (rev (map (\<lambda>d. (d, [x, d])) ds))"])
    (auto simp: start_def)

lemma captures_found:
  assumes "findings = sort_key capture_key (of_singletons (\<lambda>s. map (capture_of s) (found s)) svcs)"
    and "\<And>s t. s \<in> set svcs \<Longrightarrow> t \<in> fst ` set (found s) \<longleftrightarrow> R s t"
  shows "(\<exists>f\<in>set findings. cp_singleton f = a \<and> cp_captured f = c)
    \<longleftrightarrow> (\<exists>s\<in>set svcs. sv_name s = a \<and> sv_lifetime s = SINGLETON \<and> R s c)"
proof -
  have "(\<exists>f\<in>set findings. cp_singleton f = a \<and> cp_captured f = c)
      \<longleftrightarrow> (\<exists>s\<in>set svcs. sv_name s = a \<and> sv_lifetime s = SINGLETON \<and> c \<in> fst ` set (found s))"
    by (force simp: assms(1) of_singletons_iff capture_of_def)
  then show ?thesis using assms(2) by auto
qed

lemma captive_exact:
  "(\<exists>f\<in>set (find_captive_dependencies svcs). cp_singleton f = a \<and> cp_captured f = c)
    \<longleftrightarrow> (\<exists>s\<in>set svcs. sv_name s = a \<and> sv_lifetime s = SINGLETON
          \<and> (\<exists>d p. depends svcs (sv_name s) d \<and> pulls captive_rule svcs d p c))"
  by (rule captures_found [where found = "\<lambda>s. wk_found (walk_deps captive_rule svcs (start [(sv_name s, [sv_name s])]))"])
    (simp_all add: find_captive_dependencies_def captive_of_def [abs_def] walk_deps_found)

lemma disposable_exact:
  "(\<exists>f\<in>set (find_captured_transient_disposables svcs). cp_singleton f = a \<and> cp_captured f = c)
    \<longleftrightarrow> (\<exists>s\<in>set svcs. sv_name s = a \<and> sv_lifetime s = SINGLETON
          \<and> (\<exists>d p. depends svcs (sv_name s) d \<and> pulls disposable_rule svcs d p c))"
  by (rule captures_found [where found = "\<lambda>s. wk_found (walk_deps disposable_rule svcs (start [(sv_name s, [sv_name s])]))"])
    (simp_all add: find_captured_transient_disposables_def disposables_of_def [abs_def] walk_deps_found)

lemma walk_pops_found_from:
  "t \<in> fst ` set (wk_found (walk_pops rule svcs (start (rev (map (\<lambda>d. (d, [x, d])) ds)))))
    \<longleftrightarrow> (\<exists>d\<in>set ds. \<exists>p. pulls rule svcs d p t)"
  by (subst walk_pops_found) (auto simp: image_iff)

lemma weak_exact:
  "(\<exists>f\<in>set (find_weak_captive_dependencies svcs). cp_singleton f = a \<and> cp_captured f = c)
    \<longleftrightarrow> (\<exists>s\<in>set svcs. sv_name s = a \<and> sv_lifetime s = SINGLETON
          \<and> (\<exists>d\<in>set (sv_weak_deps s). \<exists>p. pulls captive_rule svcs d p c))"
  by (rule captures_found [where found = "\<lambda>s. wk_found (walk_pops captive_rule svcs
        (start (rev (map (\<lambda>d. (d, [sv_name s, d])) (sv_weak_deps s)))))"])
    (simp_all only: find_weak_captive_dependencies_def weak_of_def [abs_def] walk_pops_found_from)

lemma resolution_exact:
  "(\<exists>f\<in>set (find_explicit_root_resolutions svcs). sc_singleton f = a \<and> sc_captured f = c)
    \<longleftrightarrow> (\<exists>s\<in>set svcs. sv_name s = a \<and> sv_lifetime s = SINGLETON
          \<and> (\<exists>d\<in>set (sv_root_resolves s). \<exists>p. pulls disposable_rule svcs d p c))"
proof -
  let ?found = "\<lambda>s. wk_found (walk_pops disposable_rule svcs
      (start (rev (map (\<lambda>t. (t, [sv_name s, t])) (sv_root_resolves s)))))"
  have "(\<exists>f\<in>set (map (\<lambda>f. site_capture s (g f) f) fs). sc_singleton f = a \<and> sc_captured f = c)
      \<longleftrightarrow> sv_name s = a \<and> c \<in> fst ` set fs" for s g fs
    by (induction fs) (auto simp: site_capture_def)
  then have "(\<exists>f\<in>set (resolutions_of svcs s). sc_singleton f = a \<and> sc_captured f = c)
      \<longleftrightarrow> sv_name s = a \<and> c \<in> fst ` set (?found s)" for s
    unfolding resolutions_of_def .
  then have found: "(\<exists>f\<in>set (resolutions_of svcs s). sc_singleton f = a \<and> sc_captured f = c)
      \<longleftrightarrow> sv_name s = a \<and> (\<exists>d\<in>set (sv_root_resolves s). \<exists>p. pulls disposable_rule svcs d p c)" for s
    by (simp only: walk_pops_found_from)
  have "(\<exists>f\<in>set (find_explicit_root_resolutions svcs). sc_singleton f = a \<and> sc_captured f = c)
      \<longleftrightarrow> (\<exists>s\<in>set svcs. sv_lifetime s = SINGLETON
            \<and> (\<exists>f\<in>set (resolutions_of svcs s). sc_singleton f = a \<and> sc_captured f = c))"
    unfolding find_explicit_root_resolutions_def set_sort Bex_def of_singletons_iff by blast
  then show ?thesis unfolding found by blast
qed

lemma cached_entry_found:
  "cached_entry svcs s entry \<noteq> [] \<longleftrightarrow> (\<exists>p t. pulls captive_rule svcs entry p t)"
proof -
  let ?found = "wk_found (walk_pops captive_rule svcs (start [(entry, [sv_name s, entry])]))"
  have "t \<in> fst ` set ?found \<longleftrightarrow> (\<exists>p. pulls captive_rule svcs entry p t)" for t
    by (subst walk_pops_found) auto
  then have "?found \<noteq> [] \<longleftrightarrow> (\<exists>p t. pulls captive_rule svcs entry p t)"
    by (metis (no_types, lifting) image_is_empty list.set_intros(1) neq_Nil_conv set_empty all_not_in_conv)
  then show ?thesis by (cases ?found) (simp_all add: cached_entry_def)
qed

lemma cached_entry_path:
  assumes "f \<in> set (cached_entry svcs s entry)"
  shows "\<exists>p. sc_path f = sv_name s # p \<and> pulls captive_rule svcs entry p (sc_captured f)"
proof -
  let ?found = "wk_found (walk_pops captive_rule svcs (start (rev (map (\<lambda>d. (d, [sv_name s, d])) [entry]))))"
  obtain g gs where "?found = g # gs" "f = site_capture s (site_of (sv_scope_cache_sites s) entry) g"
    using assms by (cases ?found) (simp_all add: cached_entry_def del: split_paired_Ex)
  then have "(sc_captured f, sc_path f) \<in> set ?found" by (simp add: site_capture_def)
  from walk_pops_path [OF this] show ?thesis by auto
qed

lemma cached_of_iff:
  "f \<in> set (cached_of svcs s reported entries)
     \<longleftrightarrow> (\<exists>e\<in>set entries. e \<notin> set reported \<and> f \<in> set (cached_entry svcs s e))"
proof (induction entries arbitrary: reported)
  case (Cons e entries)
  show ?case
  proof (cases "e \<in> set reported")
    case True
    with Cons [of reported] show ?thesis by auto
  next
    case False
    show ?thesis
    proof (cases "cached_entry svcs s e")
      case Nil
      with False Cons [of reported] show ?thesis by auto
    next
      case (Cons x xs)
      with False \<open>\<And>reported. (f \<in> set (cached_of svcs s reported entries)) = (\<exists>e\<in>set entries. e \<notin> set reported \<and> f \<in> set (cached_entry svcs s e))\<close> [of "e # reported"]
      show ?thesis by auto (metis Cons set_ConsD)
    qed
  qed
qed simp

lemma cached_exact:
  "(\<exists>f\<in>set (find_scope_cached_captives svcs). sc_singleton f = a)
    \<longleftrightarrow> (\<exists>s\<in>set svcs. sv_name s = a \<and> sv_lifetime s = SINGLETON
          \<and> (\<exists>e\<in>set (sv_scope_cached s). \<exists>p t. pulls captive_rule svcs e p t))"
proof -
  have "(\<exists>f\<in>set (cached_of svcs s [] (sv_scope_cached s)). sc_singleton f = a)
      \<longleftrightarrow> sv_name s = a \<and> (\<exists>e\<in>set (sv_scope_cached s). cached_entry svcs s e \<noteq> [])" for s
  proof -
    have "sc_singleton f = sv_name s" if "f \<in> set (cached_entry svcs s e)" for f e
      using that by (auto simp: cached_entry_def site_capture_def split: list.splits)
    moreover have "cached_entry svcs s e \<noteq> [] \<longleftrightarrow> (\<exists>f. f \<in> set (cached_entry svcs s e))" for e
      by (cases "cached_entry svcs s e") auto
    ultimately show ?thesis unfolding Bex_def cached_of_iff by auto
  qed
  then have found: "(\<exists>f\<in>set (cached_of svcs s [] (sv_scope_cached s)). sc_singleton f = a)
      \<longleftrightarrow> sv_name s = a \<and> (\<exists>e\<in>set (sv_scope_cached s). \<exists>p t. pulls captive_rule svcs e p t)" for s
    by (simp only: cached_entry_found)
  have "(\<exists>f\<in>set (find_scope_cached_captives svcs). sc_singleton f = a)
      \<longleftrightarrow> (\<exists>s\<in>set svcs. sv_lifetime s = SINGLETON
            \<and> (\<exists>f\<in>set (cached_of svcs s [] (sv_scope_cached s)). sc_singleton f = a))"
    unfolding find_scope_cached_captives_def set_sort Bex_def of_singletons_iff by blast
  then show ?thesis unfolding found by blast
qed

end
