(* ===== verification/Own_Json.thy ===== *)
theory Own_Json
  imports Own_Prelude
begin

text \<open>
  JSON values as Python's \<open>json\<close> module returns them: the input of the fact parsers. A number that
  is not an integer is a \<open>float\<close>, kept as the text Python prints for it. \<open>True\<close> and
  \<open>False\<close> are \<open>int\<close> instances in Python; where the source excludes them with \<open>isinstance(v, bool)\<close>
  the constructors already do.
\<close>

datatype Json =
    JNull
  | JBool bool
  | JInt int
  | JFloat string
  | JStr string
  | JList "Json list"
  | JObj "(string \<times> Json) list"

text \<open>\<open>raw.get(key)\<close>: an absent key reads as \<open>None\<close>, which JSON \<open>null\<close> is too.\<close>

definition jget :: "(string, Json) dict \<Rightarrow> string \<Rightarrow> Json" where
  "jget d k = dict_get_or d k JNull"

fun as_str :: "Json \<Rightarrow> string option" where
  "as_str (JStr s) = Some s"
| "as_str _ = None"

text \<open>A list of strings, or none when some element is not one.\<close>

fun all_str :: "Json list \<Rightarrow> string list option" where
  "all_str [] = Some []"
| "all_str (j # js) = (case (as_str j, all_str js) of
     (Some s, Some ss) \<Rightarrow> Some (s # ss)
   | _ \<Rightarrow> None)"

text \<open>Errors are collected in order: the first element that fails decides.\<close>

fun rmap :: "('a \<Rightarrow> ('e, 'b) result) \<Rightarrow> 'a list \<Rightarrow> ('e, 'b list) result" where
  "rmap f [] = Inr []"
| "rmap f (x # xs) = rbind (f x) (\<lambda>y. rbind (rmap f xs) (\<lambda>ys. Inr (y # ys)))"

lemma rmap_cong [fundef_cong]:
  "xs = ys \<Longrightarrow> (\<And>x. x \<in> set ys \<Longrightarrow> f x = g x) \<Longrightarrow> rmap f xs = rmap g ys"
  by (induction ys arbitrary: xs) auto

lemma rmap_Inr_iff: "rmap f xs = Inr ys \<longleftrightarrow> list_all2 (\<lambda>x y. f x = Inr y) xs ys"
  by (induction xs arbitrary: ys) (auto simp: rbind_eq_Inr list_all2_Cons1)

lemma rmap_Inr_set: "rmap f xs = Inr ys \<Longrightarrow> y \<in> set ys \<Longrightarrow> \<exists>x\<in>set xs. f x = Inr y"
  by (induction xs arbitrary: ys) (auto simp: rbind_eq_Inr)

lemma all_str_map [simp]: "all_str (map JStr ss) = Some ss"
  by (induction ss) simp_all

end
