(* ===== verification/Own_Obligations.thy ===== *)
theory Own_Obligations
  imports Own_Json "HOL-Library.Char_ord" "HOL-Library.List_Lexorder" "HOL-Library.Product_Lexorder"
begin

text \<open>
  The obligation protocols (\<open>ownlang/obligations.py\<close>): matchers and protocols, the event tree of a
  method, the fact parsers with their two coordinate contracts, the path-sensitive walk with its
  loop fixpoint, and the collection of violations. The silent passes of the walk are the ones
  whose violations the caller drops.
\<close>

section \<open>Matchers, protocols and events\<close>

datatype Obl = OPEN | CLOSED

datatype Event =
    AssignEv string "bool option" int
  | CallEv string "string option" int
  | ReturnEv int
  | ThrowEv int
  | IfEv int "Event list" "Event list"
  | WhileEv int "Event list"

record Matcher =
  mt_kind :: string
  mt_target :: string
  mt_value :: "bool option"
  mt_args :: "string set"

record Protocol =
  pr_name :: string
  pr_opens :: Matcher
  pr_closes :: Matcher
  pr_barriers :: "Matcher list"
  pr_allow :: "Matcher list"
  pr_exit_barriers :: bool
  pr_methods :: "string list"
  pr_description :: string

record MethodEvents =
  me_name :: string
  me_file :: string
  me_events :: "Event list"

fun matches :: "Matcher \<Rightarrow> Event \<Rightarrow> bool" where
  "matches m (AssignEv target v line) =
     (mt_kind m = ''assign'' \<and> target = mt_target m \<and> (mt_value m = None \<or> v = mt_value m))"
| "matches m (CallEv callee arg line) =
     (mt_kind m = ''call'' \<and> callee = mt_target m
        \<and> (mt_args m = {} \<or> (case arg of None \<Rightarrow> False | Some a \<Rightarrow> a \<in> mt_args m)))"
| "matches m _ = False"

definition describe :: "Matcher \<Rightarrow> string" where
  "describe m = (if mt_kind m = ''assign'' then
       (case mt_value m of None \<Rightarrow> mt_target m @ '' = ...''
        | Some b \<Rightarrow> mt_target m @ '' = '' @ (if b then ''true'' else ''false''))
     else mt_target m @ ''()'')"

definition ends_with :: "string \<Rightarrow> string \<Rightarrow> bool" where
  "ends_with s t \<longleftrightarrow> take (length t) (rev s) = rev t"

definition applies_to :: "Protocol \<Rightarrow> string \<Rightarrow> bool" where
  "applies_to p fn \<longleftrightarrow> pr_methods p = []
     \<or> (\<exists>m\<in>set (pr_methods p). fn = m \<or> ends_with fn (CHR ''.'' # m))"

definition tracks_target :: "Protocol \<Rightarrow> string \<Rightarrow> bool" where
  "tracks_target p target \<longleftrightarrow> (\<exists>m\<in>{pr_opens p, pr_closes p}. mt_kind m = ''assign'' \<and> mt_target m = target)"

section \<open>Parsing facts\<close>

text \<open>
  A \<open>ProtocolFactsError\<close>, with the place it names, what was wrong there and the value; or the
  \<open>TypeError\<close> that the test \<open>kind not in MATCHER_KINDS\<close> raises on a list or an object, which a
  frozenset cannot hash.
\<close>

datatype FactsError = FactsError string string Json | Unhashable Json

fun unhashable :: "Json \<Rightarrow> bool" where
  "unhashable (JList js) = True"
| "unhashable (JObj kvs) = True"
| "unhashable _ = False"

type_synonym 'a parsed = "(FactsError, 'a) result"

definition require_str :: "(string, Json) dict \<Rightarrow> string \<Rightarrow> string \<Rightarrow> string parsed" where
  "require_str raw key ctx = (case jget raw key of
       JStr (c # cs) \<Rightarrow> Inr (c # cs)
     | v \<Rightarrow> Inl (FactsError ctx (quoted key @ '' must be a non-empty string'') v))"

definition INT64_MIN :: int where "INT64_MIN = - (2 ^ 63)"
definition INT64_MAX :: int where "INT64_MAX = 2 ^ 63 - 1"
definition LINE_MIN :: int where "LINE_MIN = 0"
definition LINE_MAX :: int where "LINE_MAX = 2 ^ 31 - 1"
definition MAX_NESTING_DEPTH :: nat where "MAX_NESTING_DEPTH = 32"

definition opt_line :: "(string, Json) dict \<Rightarrow> string \<Rightarrow> bool \<Rightarrow> int parsed" where
  "opt_line raw ctx strict = (case dict_get_or raw ''line'' (JInt 0) of
       JInt v \<Rightarrow>
         if \<not> (INT64_MIN \<le> v \<and> v \<le> INT64_MAX)
         then Inl (FactsError ctx (quoted ''line'' @ '' must fit a signed 64-bit integer'') (JInt v))
         else if LINE_MIN \<le> v \<and> v \<le> LINE_MAX then Inr v
         else if \<not> strict then Inr 0
         else Inl (FactsError ctx (quoted ''line'' @ '' must be a source line'') (JInt v))
     | v \<Rightarrow> Inl (FactsError ctx (quoted ''line'' @ '' must be an integer'') v))"

fun opt_bool :: "Json \<Rightarrow> bool option option" where
  "opt_bool JNull = Some None"
| "opt_bool (JBool b) = Some (Some b)"
| "opt_bool _ = None"

fun opt_string :: "Json \<Rightarrow> string option option" where
  "opt_string JNull = Some None"
| "opt_string (JStr s) = Some (Some s)"
| "opt_string _ = None"

fun parse_matcher :: "Json \<Rightarrow> string \<Rightarrow> bool \<Rightarrow> Matcher parsed" where
  "parse_matcher (JObj raw) ctx require_value =
     (if jget raw ''kind'' = JStr ''assign'' then
        rbind (require_str raw ''target'' ctx) (\<lambda>target.
          (case opt_bool (jget raw ''value'') of
             None \<Rightarrow> Inl (FactsError ctx ''assign 'value' must be a boolean'' (jget raw ''value''))
           | Some v \<Rightarrow>
               if require_value \<and> v = None
               then Inl (FactsError ctx (''an opens/closes assign matcher must state the written boolean '' @ quoted ''value'') JNull)
               else Inr \<lparr>mt_kind = ''assign'', mt_target = target, mt_value = v, mt_args = {}\<rparr>))
      else if jget raw ''kind'' = JStr ''call'' then
        rbind (require_str raw ''callee'' ctx) (\<lambda>callee.
          (case dict_get_or raw ''args'' (JList []) of
             JList js \<Rightarrow>
               (case all_str js of
                  Some ss \<Rightarrow> Inr \<lparr>mt_kind = ''call'', mt_target = callee, mt_value = None, mt_args = set ss\<rparr>
                | None \<Rightarrow> Inl (FactsError ctx ''call 'args' must be an array of strings'' (JList js)))
           | v \<Rightarrow> Inl (FactsError ctx ''call 'args' must be an array of strings'' v)))
      else if unhashable (jget raw ''kind'') then Inl (Unhashable (jget raw ''kind''))
      else Inl (FactsError ctx ''unknown matcher kind'' (jget raw ''kind'')))"
| "parse_matcher raw ctx require_value = Inl (FactsError ctx ''must be an object'' raw)"

definition parse_matchers :: "(string, Json) dict \<Rightarrow> string \<Rightarrow> string \<Rightarrow> string \<Rightarrow> Matcher list parsed" where
  "parse_matchers raw key ctx each = (case dict_get_or raw key (JList []) of
       JList js \<Rightarrow> rmap (\<lambda>j. parse_matcher j (ctx @ each) False) js
     | v \<Rightarrow> Inl (FactsError ctx (quoted key @ '' must be an array'') v))"

definition scope_methods :: "(string, Json) dict \<Rightarrow> string \<Rightarrow> string list parsed" where
  "scope_methods raw ctx = (case dict_get_or raw ''scope'' (JObj []) of
       JObj scope \<Rightarrow>
         (case dict_get_or scope ''methods'' (JList []) of
            JList js \<Rightarrow>
              (case all_str js of
                 Some ss \<Rightarrow> if [] \<in> set ss
                   then Inl (FactsError ctx (quoted ''scope.methods'' @ '' must be an array of non-empty strings'') (JList js))
                   else Inr ss
               | None \<Rightarrow> Inl (FactsError ctx (quoted ''scope.methods'' @ '' must be an array of non-empty strings'') (JList js)))
          | v \<Rightarrow> Inl (FactsError ctx (quoted ''scope.methods'' @ '' must be an array of non-empty strings'') v))
     | v \<Rightarrow> Inl (FactsError ctx (quoted ''scope'' @ '' must be an object'') v))"

text \<open>The part of \<open>parse_protocol\<close> after the name, the matchers and the barriers.\<close>

definition finish_protocol :: "(string, Json) dict \<Rightarrow> string \<Rightarrow> string \<Rightarrow> Matcher \<Rightarrow> Matcher
    \<Rightarrow> Matcher list \<Rightarrow> Matcher list \<Rightarrow> Protocol parsed" where
  "finish_protocol raw name ctx opens closes barriers allow =
     (case dict_get_or raw ''exit_barriers'' (JBool True) of
        JBool exits \<Rightarrow>
          if barriers = [] \<and> \<not> exits
          then Inl (FactsError ctx ''no barriers and exit_barriers is false: the protocol can never fire'' JNull)
          else if opens \<in> set barriers
          then Inl (FactsError ctx ''a barrier equals the opens matcher: the barrier can never fire'' JNull)
          else rbind (scope_methods raw ctx) (\<lambda>methods.
            (case dict_get_or raw ''description'' (JStr []) of
               JStr desc \<Rightarrow> Inr \<lparr>pr_name = name, pr_opens = opens, pr_closes = closes, pr_barriers = barriers,
                  pr_allow = allow, pr_exit_barriers = exits, pr_methods = methods, pr_description = desc\<rparr>
             | v \<Rightarrow> Inl (FactsError ctx (quoted ''description'' @ '' must be a string'') v)))
      | v \<Rightarrow> Inl (FactsError ctx (quoted ''exit_barriers'' @ '' must be a boolean'') v))"

fun parse_protocol :: "Json \<Rightarrow> Protocol parsed" where
  "parse_protocol (JObj raw) =
     rbind (require_str raw ''name'' ''protocol'') (\<lambda>name.
       let ctx = ''protocol '' @ quoted name
       in if dict_get raw ''opens'' = None \<or> dict_get raw ''closes'' = None
          then Inl (FactsError ctx (quoted ''opens'' @ '' and 'closes' are both required'') JNull)
          else
            rbind (parse_matcher (jget raw ''opens'') (ctx @ '' '' @ quoted ''opens'') True) (\<lambda>opens.
            rbind (parse_matcher (jget raw ''closes'') (ctx @ '' '' @ quoted ''closes'') True) (\<lambda>closes.
            rbind (parse_matchers raw ''barriers'' ctx '' barrier'') (\<lambda>barriers.
            rbind (parse_matchers raw ''allow'' ctx '' allow'') (\<lambda>allow.
              finish_protocol raw name ctx opens closes barriers allow)))))"
| "parse_protocol raw = Inl (FactsError ''protocol'' ''must be an object'' raw)"

text \<open>
  \<open>parse_events\<close>. The depth of the enclosing bodies is bounded; \<open>strict\<close> chooses the coordinate
  contract.
\<close>

definition leaf_event :: "(string, Json) dict \<Rightarrow> string \<Rightarrow> string \<Rightarrow> int \<Rightarrow> Event parsed" where
  "leaf_event e ctx ev line =
     (if ev = ''assign'' then
        rbind (require_str e ''target'' (ctx @ '' assign'')) (\<lambda>target.
          (case opt_bool (jget e ''value'') of
             None \<Rightarrow> Inl (FactsError ctx ''assign 'value' must be a boolean or absent'' (jget e ''value''))
           | Some v \<Rightarrow> Inr (AssignEv target v line)))
      else if ev = ''call'' then
        rbind (require_str e ''callee'' (ctx @ '' call'')) (\<lambda>callee.
          (case opt_string (jget e ''arg'') of
             None \<Rightarrow> Inl (FactsError ctx ''call 'arg' must be a string or absent'' (jget e ''arg''))
           | Some a \<Rightarrow> Inr (CallEv callee a line)))
      else if ev = ''return'' then Inr (ReturnEv line)
      else Inr (ThrowEv line))"

definition EVENT_KINDS :: "string list" where
  "EVENT_KINDS = [''assign'', ''call'', ''return'', ''throw'', ''if'', ''while'']"

definition event_kind :: "(string, Json) dict \<Rightarrow> string \<Rightarrow> string parsed" where
  "event_kind e ctx = (case jget e ''ev'' of
       JStr k \<Rightarrow> if k \<in> set EVENT_KINDS then Inr k else Inl (FactsError ctx ''unknown protocol event'' (JStr k))
     | v \<Rightarrow> if unhashable v then Inl (Unhashable v) else Inl (FactsError ctx ''unknown protocol event'' v))"

lemma json_member_size:
  "(if dict_get_or e k (JList []) = JList [] then 0 else size (dict_get_or e k (JList []))) < size (JObj e)"
proof (cases "dict_get e k")
  case (Some v)
  then have "(k, v) \<in> set e" by (rule dict_get_SomeD)
  then have "size v < size (JObj e)" by (induction e) auto
  with Some show ?thesis by (simp add: dict_get_or_def)
qed (simp add: dict_get_or_def)

function parse_events :: "Json \<Rightarrow> string \<Rightarrow> nat \<Rightarrow> bool \<Rightarrow> Event list parsed"
  and parse_event :: "Json \<Rightarrow> string \<Rightarrow> nat \<Rightarrow> bool \<Rightarrow> Event parsed" where
  "parse_events raw ctx depth strict =
     (if depth > MAX_NESTING_DEPTH then Inl (FactsError ctx ''events nested too deep'' JNull)
      else (case raw of
          JList js \<Rightarrow> rmap (\<lambda>j. parse_event j ctx depth strict) js
        | _ \<Rightarrow> Inl (FactsError ctx ''events must be an array'' raw)))"
| "parse_event j ctx depth strict =
     (case j of
        JObj e \<Rightarrow>
          rbind (event_kind e ctx) (\<lambda>ev.
          rbind (opt_line e ctx strict) (\<lambda>line.
            if ev = ''if'' then
              rbind (parse_events (dict_get_or e ''then'' (JList [])) ctx (Suc depth) strict) (\<lambda>th.
              rbind (parse_events (dict_get_or e ''else'' (JList [])) ctx (Suc depth) strict) (\<lambda>el.
                Inr (IfEv line th el)))
            else if ev = ''while'' then
              rbind (parse_events (dict_get_or e ''body'' (JList [])) ctx (Suc depth) strict) (\<lambda>body.
                Inr (WhileEv line body))
            else leaf_event e ctx ev line))
      | _ \<Rightarrow> Inl (FactsError ctx ''each event must be an object'' j))"
  by pat_completeness auto
termination
proof (relation "measure (\<lambda>x. case x of
       Inl (raw, ctx, depth, strict) \<Rightarrow> if raw = JList [] then 0 else size raw
     | Inr (j, ctx, depth, strict) \<Rightarrow> size j)", goal_cases)
  case 1
  then show ?case by simp
next
  case (2 raw ctx depth strict js j)
  then have "size j \<le> size_list size js" by (simp add: size_list_estimation')
  with 2 show ?case by (cases "js = []") simp_all
next
  case (3 j ctx depth strict e)
  then show ?case using json_member_size [of e "''then''"] by simp
next
  case (4 j ctx depth strict e)
  then show ?case using json_member_size [of e "''else''"] by simp
next
  case (5 j ctx depth strict e)
  then show ?case using json_member_size [of e "''body''"] by simp
qed

declare parse_events.simps [simp del] parse_event.simps [simp del]

fun parse_method :: "Json \<Rightarrow> bool \<Rightarrow> MethodEvents parsed" where
  "parse_method (JObj raw) strict =
     rbind (require_str raw ''name'' ''protocol function'') (\<lambda>name.
       (case dict_get_or raw ''file'' (JStr ''?'') of
          JStr file \<Rightarrow>
            rbind (parse_events (dict_get_or raw ''events'' (JList [])) (''protocol function '' @ quoted name) 0 strict)
              (\<lambda>events. Inr \<lparr>me_name = name, me_file = file, me_events = events\<rparr>)
        | v \<Rightarrow> Inl (FactsError (''protocol function '' @ quoted name) ''file must be a string'' v)))"
| "parse_method raw strict = Inl (FactsError ''protocol function'' ''must be an object'' raw)"

section \<open>The walk\<close>

record Violation =
  vi_protocol :: string
  vi_method :: string
  vi_file :: string
  vi_line :: int
  vi_kind :: string
  vi_definite :: bool
  vi_open_line :: int
  vi_barrier_desc :: string
  vi_close_line :: "int option"

text \<open>The possible obligation states, and the earliest open site among the open paths.\<close>

type_synonym PState = "Obl set \<times> int option"

definition BOTTOM :: PState where
  "BOTTOM = ({}, None)"

definition min_line :: "int option \<Rightarrow> int option \<Rightarrow> int option" where
  "min_line a b = (case (a, b) of (Some x, Some y) \<Rightarrow> Some (min x y) | (None, y) \<Rightarrow> y | (x, None) \<Rightarrow> x)"

definition pjoin :: "PState \<Rightarrow> PState \<Rightarrow> PState" where
  "pjoin a b = (fst a \<union> fst b, min_line (snd a) (snd b))"

text \<open>What the walker knows of the protocol and the method it checks.\<close>

record Walker =
  wa_proto :: Protocol
  wa_method :: string
  wa_file :: string

definition violation :: "Walker \<Rightarrow> string \<Rightarrow> int \<Rightarrow> PState \<Rightarrow> string \<Rightarrow> Violation" where
  "violation w kind line st desc = \<lparr>vi_protocol = pr_name (wa_proto w), vi_method = wa_method w,
     vi_file = wa_file w, vi_line = line, vi_kind = kind, vi_definite = (fst st = {OPEN}),
     vi_open_line = (case snd st of None \<Rightarrow> line | Some l \<Rightarrow> l), vi_barrier_desc = desc, vi_close_line = None\<rparr>"

fun event_line :: "Event \<Rightarrow> int" where
  "event_line (AssignEv t v l) = l"
| "event_line (CallEv c a l) = l"
| "event_line (ReturnEv l) = l"
| "event_line (ThrowEv l) = l"
| "event_line (IfEv l th el) = l"
| "event_line (WhileEv l body) = l"

fun barrier_desc :: "Event \<Rightarrow> string" where
  "barrier_desc (CallEv callee arg l) = callee @ ''('' @ (case arg of None \<Rightarrow> [] | Some a \<Rightarrow> a) @ '')''"
| "barrier_desc (AssignEv target v l) = target @ '' = ...''"
| "barrier_desc _ = []"

text \<open>An event that meets a barrier and no explicit allowance.\<close>

definition at_barrier :: "Protocol \<Rightarrow> Event \<Rightarrow> bool" where
  "at_barrier p ev \<longleftrightarrow> \<not> (\<exists>a\<in>set (pr_allow p). matches a ev) \<and> (\<exists>b\<in>set (pr_barriers p). matches b ev)"

fun opaque_write :: "Protocol \<Rightarrow> Event \<Rightarrow> bool" where
  "opaque_write p (AssignEv target None l) = tracks_target p target"
| "opaque_write p _ = False"

definition leaf :: "Walker \<Rightarrow> Event \<Rightarrow> PState \<Rightarrow> PState \<times> Violation list" where
  "leaf w ev st =
     (let p = wa_proto w
      in if matches (pr_opens p) ev then
           (({OPEN}, Some (case snd st of None \<Rightarrow> event_line ev | Some prev \<Rightarrow> min prev (event_line ev))), [])
         else if matches (pr_closes p) ev then (({CLOSED}, None), [])
         else if OPEN \<in> fst st then
           ((if opaque_write p ev then (insert CLOSED (fst st), snd st) else st),
            (if at_barrier p ev then [violation w ''barrier'' (event_line ev) st (barrier_desc ev)] else []))
         else (st, []))"

definition exit_at :: "Walker \<Rightarrow> int \<Rightarrow> PState \<Rightarrow> string \<Rightarrow> Violation list" where
  "exit_at w line st desc =
     (if pr_exit_barriers (wa_proto w) \<and> OPEN \<in> fst st then [violation w ''exit'' line st desc] else [])"

text \<open>The loop on the header state; the violations of its passes are dropped.\<close>

partial_function (option) settle ::
  "(PState \<Rightarrow> (PState \<times> bool \<times> Violation list) option) \<Rightarrow> PState \<Rightarrow> PState option" where
  "settle f header =
     (case f header of
        None \<Rightarrow> None
      | Some (out, alive, vs) \<Rightarrow>
          (let nxt = pjoin header (if alive then out else BOTTOM)
           in if nxt = header then Some header else settle f nxt))"

declare settle.simps [code]

fun walk :: "Walker \<Rightarrow> Event \<Rightarrow> PState \<Rightarrow> (PState \<times> bool \<times> Violation list) option"
  and walk_seq :: "Walker \<Rightarrow> Event list \<Rightarrow> PState \<Rightarrow> (PState \<times> bool \<times> Violation list) option" where
  "walk w (AssignEv t v l) st = (case leaf w (AssignEv t v l) st of (st1, vs) \<Rightarrow> Some (st1, True, vs))"
| "walk w (CallEv c a l) st = (case leaf w (CallEv c a l) st of (st1, vs) \<Rightarrow> Some (st1, True, vs))"
| "walk w (ReturnEv l) st = Some (BOTTOM, False, exit_at w l st ''return'')"
| "walk w (ThrowEv l) st = Some (BOTTOM, False, exit_at w l st ''throw'')"
| "walk w (IfEv l th el) st =
     (case walk_seq w th st of
        None \<Rightarrow> None
      | Some (s1, a1, vs1) \<Rightarrow>
          (case walk_seq w el st of
             None \<Rightarrow> None
           | Some (s2, a2, vs2) \<Rightarrow>
               if \<not> a1 \<and> \<not> a2 then Some (BOTTOM, False, vs1 @ vs2)
               else Some (pjoin (if a1 then s1 else BOTTOM) (if a2 then s2 else BOTTOM), True, vs1 @ vs2)))"
| "walk w (WhileEv l body) st =
     (case settle (walk_seq w body) st of
        None \<Rightarrow> None
      | Some header \<Rightarrow>
          (case walk_seq w body header of
             None \<Rightarrow> None
           | Some (s1, a1, vs) \<Rightarrow> Some (header, True, vs)))"
| "walk_seq w [] st = Some (st, True, [])"
| "walk_seq w (e # es) st =
     (case walk w e st of
        None \<Rightarrow> None
      | Some (st1, alive, vs) \<Rightarrow>
          if \<not> alive then Some (st1, False, vs)
          else (case walk_seq w es st1 of
                  None \<Rightarrow> None
                | Some (st2, alive2, vs2) \<Rightarrow> Some (st2, alive2, vs @ vs2)))"

definition run_walker :: "Walker \<Rightarrow> Event list \<Rightarrow> Violation list option" where
  "run_walker w events =
     (case walk_seq w events ({CLOSED}, None) of
        None \<Rightarrow> None
      | Some (st, alive, vs) \<Rightarrow>
          Some (vs @ (if alive then exit_at w (case snd st of None \<Rightarrow> 0 | Some l \<Rightarrow> l) st ''end of method'' else [])))"

section \<open>All protocols against all methods\<close>

fun close_lines :: "Protocol \<Rightarrow> Event \<Rightarrow> int list" where
  "close_lines p (IfEv l th el) = concat (map (close_lines p) th) @ concat (map (close_lines p) el)"
| "close_lines p (WhileEv l body) = concat (map (close_lines p) body)"
| "close_lines p ev = (if matches (pr_closes p) ev then [event_line ev] else [])"

definition late_close :: "int list \<Rightarrow> Violation \<Rightarrow> Violation" where
  "late_close closes v =
     (if vi_kind v = ''barrier'' then
        (case find (\<lambda>c. c > vi_line v) closes of
           None \<Rightarrow> v
         | Some c \<Rightarrow> v\<lparr>vi_close_line := Some c\<rparr>)
      else v)"

definition check_pair :: "Protocol \<Rightarrow> MethodEvents \<Rightarrow> Violation list option" where
  "check_pair p m =
     (if applies_to p (me_name m) then
        map_option (map (late_close (sort (concat (map (close_lines p) (me_events m))))))
          (run_walker \<lparr>wa_proto = p, wa_method = me_name m, wa_file = me_file m\<rparr> (me_events m))
      else Some [])"

fun collect :: "'a list option list \<Rightarrow> 'a list option" where
  "collect [] = Some []"
| "collect (None # xs) = None"
| "collect (Some x # xs) = map_option ((@) x) (collect xs)"

definition check_protocols :: "Protocol list \<Rightarrow> MethodEvents list \<Rightarrow> Violation list option" where
  "check_protocols protocols methods =
     map_option (sort_key (\<lambda>v. (vi_file v, vi_line v, vi_protocol v, vi_barrier_desc v)))
       (collect (concat (map (\<lambda>p. map (check_pair p) methods) protocols)))"

definition unmatched_scopes :: "Protocol list \<Rightarrow> MethodEvents list \<Rightarrow> Protocol list" where
  "unmatched_scopes protocols methods =
     filter (\<lambda>p. pr_methods p \<noteq> [] \<and> \<not> (\<exists>m\<in>set methods. applies_to p (me_name m))) protocols"

end
