(* ===== verification/Own_Paths.thy ===== *)
theory Own_Paths
  imports Own_Obligations
begin

text \<open>
  The obligation walk against the paths of a method. A path carries one concrete obligation
  (\<open>Opened\<close> since a line, or \<open>Shut\<close>), chooses branches and iterations freely, and lists the
  barriers it crosses. The walk is exact: on every event tree it returns, its state stands for the
  set of all path states, and its violations are the crossings of some path.
\<close>

section \<open>Paths\<close>

datatype Cob = Opened int | Shut

datatype End = Goes Cob | Leaves

type_synonym Crossing = "int \<times> string \<times> string"

definition leaf_next :: "Protocol \<Rightarrow> Event \<Rightarrow> Cob \<Rightarrow> Cob set" where
  "leaf_next p ev c =
     (if matches (pr_opens p) ev then
        {Opened (case c of Opened l \<Rightarrow> min l (event_line ev) | Shut \<Rightarrow> event_line ev)}
      else if matches (pr_closes p) ev then {Shut}
      else insert c (if c \<noteq> Shut \<and> opaque_write p ev then {Shut} else {}))"

definition leaf_cross :: "Protocol \<Rightarrow> Event \<Rightarrow> Cob \<Rightarrow> Crossing list" where
  "leaf_cross p ev c =
     (if \<not> matches (pr_opens p) ev \<and> \<not> matches (pr_closes p) ev \<and> c \<noteq> Shut \<and> at_barrier p ev
      then [(event_line ev, ''barrier'', barrier_desc ev)] else [])"

definition exit_cross :: "Protocol \<Rightarrow> int \<Rightarrow> string \<Rightarrow> Cob \<Rightarrow> Crossing list" where
  "exit_cross p line desc c = (if pr_exit_barriers p \<and> c \<noteq> Shut then [(line, ''exit'', desc)] else [])"

fun is_leaf :: "Event \<Rightarrow> bool" where
  "is_leaf (AssignEv t v l) = True"
| "is_leaf (CallEv c a l) = True"
| "is_leaf _ = False"

inductive run :: "Protocol \<Rightarrow> Event \<Rightarrow> Cob \<Rightarrow> Crossing list \<Rightarrow> End \<Rightarrow> bool"
  and run_seq :: "Protocol \<Rightarrow> Event list \<Rightarrow> Cob \<Rightarrow> Crossing list \<Rightarrow> End \<Rightarrow> bool" for p where
  leaf: "is_leaf ev \<Longrightarrow> c' \<in> leaf_next p ev c \<Longrightarrow> run p ev c (leaf_cross p ev c) (Goes c')"
| return: "run p (ReturnEv l) c (exit_cross p l ''return'' c) Leaves"
| throw: "run p (ThrowEv l) c (exit_cross p l ''throw'' c) Leaves"
| if_then: "run_seq p th c t r \<Longrightarrow> run p (IfEv l th el) c t r"
| if_else: "run_seq p el c t r \<Longrightarrow> run p (IfEv l th el) c t r"
| while_done: "run p (WhileEv l body) c [] (Goes c)"
| while_leaves: "run_seq p body c t Leaves \<Longrightarrow> run p (WhileEv l body) c t Leaves"
| while_again: "run_seq p body c t (Goes c') \<Longrightarrow> run p (WhileEv l body) c' t' r
     \<Longrightarrow> run p (WhileEv l body) c (t @ t') r"
| nil: "run_seq p [] c [] (Goes c)"
| cons_leaves: "run p e c t Leaves \<Longrightarrow> run_seq p (e # es) c t Leaves"
| cons_goes: "run p e c t (Goes c') \<Longrightarrow> run_seq p es c' t' r \<Longrightarrow> run_seq p (e # es) c (t @ t') r"

inductive_simps run_simps:
  "run p (AssignEv tg v l) c t r"
  "run p (CallEv cl a l) c t r"
  "run p (ReturnEv l) c t r"
  "run p (ThrowEv l) c t r"
  "run p (IfEv l th el) c t r"

inductive_simps run_while: "run p (WhileEv l body) c t r"

inductive_simps run_seq_simps:
  "run_seq p [] c t r"
  "run_seq p (e # es) c t r"

text \<open>Where the paths of a set of states go on, and what they cross.\<close>

definition goes :: "Protocol \<Rightarrow> Event \<Rightarrow> Cob set \<Rightarrow> Cob set" where
  "goes p ev C = {c'. \<exists>c\<in>C. \<exists>t. run p ev c t (Goes c')}"

definition crosses :: "Protocol \<Rightarrow> Event \<Rightarrow> Cob set \<Rightarrow> Crossing set" where
  "crosses p ev C = {x. \<exists>c\<in>C. \<exists>t r. run p ev c t r \<and> x \<in> set t}"

definition goes_seq :: "Protocol \<Rightarrow> Event list \<Rightarrow> Cob set \<Rightarrow> Cob set" where
  "goes_seq p es C = {c'. \<exists>c\<in>C. \<exists>t. run_seq p es c t (Goes c')}"

definition crosses_seq :: "Protocol \<Rightarrow> Event list \<Rightarrow> Cob set \<Rightarrow> Crossing set" where
  "crosses_seq p es C = {x. \<exists>c\<in>C. \<exists>t r. run_seq p es c t r \<and> x \<in> set t}"

lemma goes_seq_Un: "goes_seq p es (A \<union> B) = goes_seq p es A \<union> goes_seq p es B"
  by (auto simp: goes_seq_def)

lemma goes_if: "goes p (IfEv l th el) C = goes_seq p th C \<union> goes_seq p el C"
  by (auto simp: goes_def goes_seq_def run_simps)

lemma crosses_if: "crosses p (IfEv l th el) C = crosses_seq p th C \<union> crosses_seq p el C"
  by (auto simp: crosses_def crosses_seq_def run_simps; blast)

lemma goes_Cons: "goes_seq p (e # es) C = goes_seq p es (goes p e C)"
  by (auto simp: goes_def goes_seq_def run_seq_simps; blast)

text \<open>From every state an event has a path, so a path through the head extends through the tail.\<close>

lemma seq_total: "(\<And>e c. e \<in> set es \<Longrightarrow> \<exists>t r. run p e c t r) \<Longrightarrow> \<exists>t r. run_seq p es c t r"
proof (induction es arbitrary: c)
  case Nil
  then show ?case using nil by blast
next
  case (Cons e es)
  have "\<exists>t r. run p e c t r" by (rule Cons(2)) simp
  then obtain t r where e: "run p e c t r" by blast
  show ?case
  proof (cases r)
    case (Goes c')
    have "\<exists>t r. run_seq p es c' t r" by (rule Cons(1)) (simp add: Cons(2))
    with e Goes show ?thesis by (blast intro: cons_goes)
  qed (use e in \<open>blast intro: cons_leaves\<close>)
qed

lemma run_total: "\<exists>t r. run p ev c t r"
proof (induction ev arbitrary: c)
  case (AssignEv tg v l)
  have "\<exists>c'. c' \<in> leaf_next p (AssignEv tg v l) c" by (auto simp: leaf_next_def)
  then show ?case by (auto simp: run_simps)
next
  case (CallEv cl a l)
  have "\<exists>c'. c' \<in> leaf_next p (CallEv cl a l) c" by (auto simp: leaf_next_def)
  then show ?case by (auto simp: run_simps)
next
  case (IfEv l th el)
  then show ?case using seq_total [of th p c] if_then by blast
qed (blast intro: return throw while_done)+

lemma seq_run_total: "\<exists>t r. run_seq p es c t r"
  by (rule seq_total) (rule run_total)

lemma crosses_Cons: "crosses_seq p (e # es) C = crosses p e C \<union> crosses_seq p es (goes p e C)"
proof (intro equalityI subsetI)
  fix x assume "x \<in> crosses_seq p (e # es) C"
  then show "x \<in> crosses p e C \<union> crosses_seq p es (goes p e C)"
    by (auto simp: crosses_seq_def crosses_def goes_def run_seq_simps; blast)
next
  fix x assume "x \<in> crosses p e C \<union> crosses_seq p es (goes p e C)"
  then show "x \<in> crosses_seq p (e # es) C"
  proof
    assume "x \<in> crosses p e C"
    then obtain c t r where c: "c \<in> C" "run p e c t r" "x \<in> set t" by (auto simp: crosses_def)
    show ?thesis
    proof (cases r)
      case (Goes c')
      obtain t' r' where "run_seq p es c' t' r'" using seq_run_total by blast
      with c Goes have "run_seq p (e # es) c (t @ t') r'" by (blast intro: cons_goes)
      with c show ?thesis unfolding crosses_seq_def by fastforce
    next
      case Leaves
      with c show ?thesis unfolding crosses_seq_def by (blast intro: cons_leaves)
    qed
  next
    assume "x \<in> crosses_seq p es (goes p e C)"
    then obtain c c' t t' r where "c \<in> C" "run p e c t (Goes c')" "run_seq p es c' t' r" "x \<in> set t'"
      by (auto simp: crosses_seq_def goes_def)
    then show ?thesis unfolding crosses_seq_def by (fastforce intro: cons_goes)
  qed
qed

lemma goes_leaf: "is_leaf ev \<Longrightarrow> goes p ev C = (\<Union>c\<in>C. leaf_next p ev c)"
  by (cases ev) (auto simp: goes_def run_simps)

lemma crosses_leaf: "is_leaf ev \<Longrightarrow> crosses p ev C = (\<Union>c\<in>C. set (leaf_cross p ev c))"
proof -
  assume l: "is_leaf ev"
  have "leaf_next p ev c \<noteq> {}" for c by (auto simp: leaf_next_def)
  then have "\<exists>r. run p ev c (leaf_cross p ev c) r" for c using leaf [OF l] by blast
  moreover have "t = leaf_cross p ev c" if "run p ev c t r" for c t r
    using l that by (cases ev) (auto simp: run_simps)
  ultimately show ?thesis unfolding crosses_def by blast
qed

lemma goes_return: "goes p (ReturnEv l) C = {}" "goes p (ThrowEv l) C = {}"
  by (auto simp: goes_def run_simps)

lemma crosses_return:
  "crosses p (ReturnEv l) C = (\<Union>c\<in>C. set (exit_cross p l ''return'' c))"
  "crosses p (ThrowEv l) C = (\<Union>c\<in>C. set (exit_cross p l ''throw'' c))"
  by (auto simp: crosses_def run_simps)

section \<open>Loops\<close>

text \<open>One iteration that comes back to the header; the header states of a loop are its closure.\<close>

definition iterates :: "Protocol \<Rightarrow> Event list \<Rightarrow> Cob \<Rightarrow> Cob \<Rightarrow> bool" where
  "iterates p body c c' \<longleftrightarrow> (\<exists>t. run_seq p body c t (Goes c'))"

definition header_states :: "Protocol \<Rightarrow> Event list \<Rightarrow> Cob set \<Rightarrow> Cob set" where
  "header_states p body C = {c'. \<exists>c\<in>C. (iterates p body)\<^sup>*\<^sup>* c c'}"

lemma while_goes_iterates:
  "run p ev c t r \<Longrightarrow> ev = WhileEv l body \<Longrightarrow> r = Goes c' \<Longrightarrow> (iterates p body)\<^sup>*\<^sup>* c c'"
  and "run_seq p es c t r \<Longrightarrow> True"
proof (induction rule: run_run_seq.inducts)
  case (while_again body' c t c1 l' t' r)
  then have "iterates p body c c1" by (auto simp: iterates_def)
  with while_again show ?case by (meson converse_rtranclp_into_rtranclp)
qed auto

lemma while_crosses_iterates:
  "run p ev c t r \<Longrightarrow> ev = WhileEv l body \<Longrightarrow> x \<in> set t
     \<Longrightarrow> \<exists>c1 t1 r1. (iterates p body)\<^sup>*\<^sup>* c c1 \<and> run_seq p body c1 t1 r1 \<and> x \<in> set t1"
  and "run_seq p es c t r \<Longrightarrow> True"
proof (induction rule: run_run_seq.inducts)
  case (while_again body' c t c1 l' t' r)
  show ?case
  proof (cases "x \<in> set t")
    case True
    with while_again show ?thesis by blast
  next
    case False
    with while_again have "iterates p body c c1" "x \<in> set t'" by (auto simp: iterates_def)
    with while_again show ?thesis by (meson converse_rtranclp_into_rtranclp)
  qed
qed auto

lemma iterates_while_goes: "(iterates p body)\<^sup>*\<^sup>* c c' \<Longrightarrow> \<exists>t. run p (WhileEv l body) c t (Goes c')"
proof (induction rule: converse_rtranclp_induct)
  case base
  then show ?case by (blast intro: while_done)
next
  case (step c c1)
  then show ?case by (auto simp: iterates_def intro: while_again)
qed

lemma iterates_while_crosses:
  "(iterates p body)\<^sup>*\<^sup>* c c1 \<Longrightarrow> run_seq p body c1 t1 r1 \<Longrightarrow> x \<in> set t1
     \<Longrightarrow> \<exists>t r. run p (WhileEv l body) c t r \<and> x \<in> set t"
proof (induction rule: converse_rtranclp_induct)
  case base
  show ?case
  proof (cases r1)
    case (Goes c2)
    with base have "run p (WhileEv l body) c1 (t1 @ []) (Goes c2)" by (blast intro: while_again while_done)
    with base show ?thesis by fastforce
  qed (use base in \<open>blast intro: while_leaves\<close>)
next
  case (step c c2)
  then obtain t r t0 where "run p (WhileEv l body) c2 t r" "x \<in> set t" "run_seq p body c t0 (Goes c2)"
    by (auto simp: iterates_def)
  then have "run p (WhileEv l body) c (t0 @ t) r" "x \<in> set (t0 @ t)" by (auto intro: while_again)
  then show ?case by blast
qed

lemma goes_while: "goes p (WhileEv l body) C = header_states p body C"
  unfolding goes_def header_states_def using while_goes_iterates(1) iterates_while_goes by blast

lemma crosses_while: "crosses p (WhileEv l body) C = crosses_seq p body (header_states p body C)"
proof (intro equalityI subsetI)
  fix x assume "x \<in> crosses p (WhileEv l body) C"
  then show "x \<in> crosses_seq p body (header_states p body C)"
    using while_crosses_iterates(1) unfolding crosses_def crosses_seq_def header_states_def by blast
next
  fix x assume "x \<in> crosses_seq p body (header_states p body C)"
  then show "x \<in> crosses p (WhileEv l body) C"
    using iterates_while_crosses unfolding crosses_def crosses_seq_def header_states_def by blast
qed

lemma header_states_closed:
  "C \<subseteq> header_states p body C" "goes_seq p body (header_states p body C) \<subseteq> header_states p body C"
  by (auto simp: header_states_def goes_seq_def simp flip: iterates_def intro: rtranclp.rtrancl_into_rtrancl)

section \<open>Finitely many states\<close>

fun event_lines :: "Event \<Rightarrow> int set" where
  "event_lines (IfEv l th el) = (\<Union>e\<in>set th. event_lines e) \<union> (\<Union>e\<in>set el. event_lines e)"
| "event_lines (WhileEv l body) = (\<Union>e\<in>set body. event_lines e)"
| "event_lines ev = {event_line ev}"

lemma finite_event_lines [simp]: "finite (event_lines ev)"
  by (induction ev) auto

lemma run_lines:
  "run p ev c t r \<Longrightarrow> r = Goes (Opened l) \<Longrightarrow> l \<in> event_lines ev \<or> c = Opened l"
  "run_seq p es c t r \<Longrightarrow> r = Goes (Opened l) \<Longrightarrow> l \<in> (\<Union>e\<in>set es. event_lines e) \<or> c = Opened l"
proof (induction arbitrary: l and l rule: run_run_seq.inducts)
  case (leaf ev c' c)
  then show ?case
    by (cases ev) (auto simp: leaf_next_def min_def split: if_splits Cob.splits)
next
  case (cons_goes e c t c' es t' r)
  then show ?case by (cases c') auto
next
  case (while_again body c t c' l t' r)
  then show ?case by (cases c') auto
qed auto

lemma finite_goes: "finite C \<Longrightarrow> finite (goes p ev C)"
proof -
  assume f: "finite C"
  have "goes p ev C \<subseteq> insert Shut (C \<union> Opened ` event_lines ev)"
  proof
    fix c' assume "c' \<in> goes p ev C"
    then show "c' \<in> insert Shut (C \<union> Opened ` event_lines ev)"
      by (cases c') (auto simp: goes_def dest: run_lines(1))
  qed
  then show ?thesis by (rule finite_subset) (simp add: f)
qed

lemma finite_goes_seq: "finite C \<Longrightarrow> finite (goes_seq p es C)"
proof -
  assume f: "finite C"
  have "goes_seq p es C \<subseteq> insert Shut (C \<union> Opened ` (\<Union>e\<in>set es. event_lines e))"
  proof
    fix c' assume "c' \<in> goes_seq p es C"
    then show "c' \<in> insert Shut (C \<union> Opened ` (\<Union>e\<in>set es. event_lines e))"
      by (cases c') (auto simp: goes_seq_def dest!: run_lines(2))
  qed
  then show ?thesis by (rule finite_subset) (simp add: f)
qed

section \<open>States of the walk and sets of path states\<close>

definition obl_kinds :: "Cob set \<Rightarrow> Obl set" where
  "obl_kinds C = (if \<exists>l. Opened l \<in> C then {OPEN} else {}) \<union> (if Shut \<in> C then {CLOSED} else {})"

definition rep :: "PState \<Rightarrow> Cob set \<Rightarrow> bool" where
  "rep st C \<longleftrightarrow> fst st = obl_kinds C \<and> (case snd st of
       None \<Rightarrow> \<forall>l. Opened l \<notin> C
     | Some l \<Rightarrow> Opened l \<in> C \<and> (\<forall>l'. Opened l' \<in> C \<longrightarrow> l \<le> l'))"

text \<open>The order of the facts: more states are possible, and an open site may be earlier.\<close>

definition pstate_le :: "PState \<Rightarrow> PState \<Rightarrow> bool" where
  "pstate_le a b \<longleftrightarrow> fst a \<subseteq> fst b \<and> (case snd a of None \<Rightarrow> True
     | Some x \<Rightarrow> (case snd b of None \<Rightarrow> False | Some y \<Rightarrow> y \<le> x))"

interpretation oblig: join_lattice pstate_le pjoin
proof
  fix x y z :: PState
  show "pstate_le x x" by (auto simp: pstate_le_def split: option.split)
  show "pstate_le x (pjoin x y)" "pstate_le y (pjoin x y)"
    by (auto simp: pstate_le_def pjoin_def min_line_def split: option.split)
  show "pstate_le x y \<Longrightarrow> pstate_le y z \<Longrightarrow> pstate_le x z"
    by (auto simp: pstate_le_def split: option.splits)
  show "pstate_le x y \<Longrightarrow> pstate_le y x \<Longrightarrow> x = y"
    by (cases x; cases y) (auto simp: pstate_le_def split: option.splits)
  show "pstate_le x z \<Longrightarrow> pstate_le y z \<Longrightarrow> pstate_le (pjoin x y) z"
    by (auto simp: pstate_le_def pjoin_def min_line_def split: option.splits)
qed

lemma rep_OPEN: "rep st C \<Longrightarrow> OPEN \<in> fst st \<longleftrightarrow> (\<exists>l. Opened l \<in> C)"
  by (auto simp: rep_def obl_kinds_def)

lemma rep_CLOSED: "rep st C \<Longrightarrow> CLOSED \<in> fst st \<longleftrightarrow> Shut \<in> C"
  by (auto simp: rep_def obl_kinds_def)

lemma rep_empty: "rep BOTTOM {}"
  by (simp add: rep_def BOTTOM_def obl_kinds_def)

lemma rep_join: "rep a A \<Longrightarrow> rep b B \<Longrightarrow> rep (pjoin a b) (A \<union> B)"
  by (auto simp: rep_def pjoin_def min_line_def obl_kinds_def min_def split: option.splits)

lemma rep_Union:
  assumes "\<And>n :: nat. rep h (S n)"
  shows "rep h (\<Union>n. S n)"
proof -
  have "obl_kinds (\<Union>n. S n) = fst h"
  proof -
    have "OPEN \<in> fst h \<longleftrightarrow> (\<exists>l. Opened l \<in> S n)" "CLOSED \<in> fst h \<longleftrightarrow> Shut \<in> S n" for n
      using rep_OPEN [OF assms] rep_CLOSED [OF assms] by blast+
    moreover have "fst h = {k. k \<in> fst h}" by simp
    ultimately show ?thesis
      by (auto simp: obl_kinds_def) (metis (full_types) Obl.exhaust)+
  qed
  then show ?thesis using assms by (force simp: rep_def split: option.splits)
qed

lemma rep_leaf:
  assumes "rep st C" "C \<noteq> {}" "is_leaf ev"
  shows "rep (fst (leaf w ev st)) (goes (wa_proto w) ev C)"
    and "goes (wa_proto w) ev C \<noteq> {}"
proof -
  let ?p = "wa_proto w"
  show "goes ?p ev C \<noteq> {}" using assms(2) by (auto simp: goes_leaf [OF assms(3)] leaf_next_def)
  show "rep (fst (leaf w ev st)) (goes ?p ev C)"
  proof (cases "matches (pr_opens ?p) ev")
    case True
    let ?n = "event_line ev"
    have g: "goes ?p ev C = (\<lambda>c. Opened (case c of Opened l \<Rightarrow> min l ?n | Shut \<Rightarrow> ?n)) ` C"
      unfolding goes_leaf [OF assms(3)] using True by (auto simp: leaf_next_def)
    show ?thesis
    proof (cases "snd st")
      case None
      have "c = Shut" if "c \<in> C" for c using that None assms(1) by (cases c) (auto simp: rep_def)
      then have "C = {Shut}" using assms(2) by auto
      then have "goes ?p ev C = {Opened ?n}" unfolding g by simp
      with True None show ?thesis by (simp add: leaf_def rep_def obl_kinds_def)
    next
      case (Some l)
      then have l: "Opened l \<in> C" "\<And>l'. Opened l' \<in> C \<Longrightarrow> l \<le> l'" using assms(1) by (auto simp: rep_def)
      have "fst (leaf w ev st) = ({OPEN}, Some (min l ?n))" using True Some by (simp add: leaf_def)
      moreover have "Opened (min l ?n) \<in> goes ?p ev C" unfolding g using l(1) by force
      moreover have "min l ?n \<le> l'" if "Opened l' \<in> goes ?p ev C" for l'
        using that l(2) unfolding g by (fastforce split: Cob.splits)
      moreover have "Shut \<notin> goes ?p ev C" unfolding g by auto
      ultimately show ?thesis by (auto simp: rep_def obl_kinds_def)
    qed
  next
    case False
    show ?thesis
    proof (cases "matches (pr_closes ?p) ev")
      case True
      with False assms(2) show ?thesis unfolding goes_leaf [OF assms(3)]
        by (auto simp: leaf_def leaf_next_def rep_def obl_kinds_def Let_def)
    next
      case nc: False
      have g: "goes ?p ev C = C \<union> (if opaque_write ?p ev \<and> (\<exists>l. Opened l \<in> C) then {Shut} else {})"
      proof -
        have "(\<exists>c\<in>C. c \<noteq> Shut) \<longleftrightarrow> (\<exists>l. Opened l \<in> C)" by (metis Cob.exhaust Cob.distinct(1))
        then show ?thesis unfolding goes_leaf [OF assms(3)] using False nc by (auto simp: leaf_next_def split: if_splits)
      qed
      show ?thesis unfolding g using assms(1) False nc rep_OPEN [OF assms(1)]
        by (auto simp: leaf_def Let_def rep_def obl_kinds_def split: option.splits)
    qed
  qed
qed

definition keys :: "Violation list \<Rightarrow> Crossing set" where
  "keys vs = (\<lambda>v. (vi_line v, vi_kind v, vi_barrier_desc v)) ` set vs"

lemma keys_append [simp]: "keys (vs @ vs') = keys vs \<union> keys vs'"
  by (auto simp: keys_def)

lemma keys_Nil [simp]: "keys [] = {}"
  by (simp add: keys_def)

lemma keys_leaf:
  assumes "rep st C" "is_leaf ev"
  shows "keys (snd (leaf w ev st)) = crosses (wa_proto w) ev C"
proof -
  have "(\<exists>c\<in>C. c \<noteq> Shut) \<longleftrightarrow> OPEN \<in> fst st"
    using rep_OPEN [OF assms(1)] by (metis Cob.exhaust Cob.distinct(1))
  then show ?thesis unfolding crosses_leaf [OF assms(2)]
    by (auto simp: leaf_def leaf_cross_def Let_def keys_def violation_def)
qed

lemma keys_exit:
  assumes "rep st C"
  shows "keys (exit_at w l st d) = (\<Union>c\<in>C. set (exit_cross (wa_proto w) l d c))"
proof -
  have "(\<exists>c\<in>C. c \<noteq> Shut) \<longleftrightarrow> OPEN \<in> fst st"
    using rep_OPEN [OF assms] by (metis Cob.exhaust Cob.distinct(1))
  then show ?thesis by (auto simp: exit_at_def exit_cross_def keys_def violation_def)
qed

section \<open>The loop of the walk\<close>

text \<open>\<open>accounts N X r\<close>: the walk returned, its state stands for \<open>N\<close> and its violations are \<open>X\<close>.\<close>

definition accounts :: "Cob set \<Rightarrow> Crossing set \<Rightarrow> (PState \<times> bool \<times> Violation list) option \<Rightarrow> bool" where
  "accounts N X r \<longleftrightarrow> (\<exists>st vs. r = Some (st, N \<noteq> {}, vs) \<and> (N \<noteq> {} \<longrightarrow> rep st N) \<and> keys vs = X)"

lemma rep_step:
  assumes "accounts N X (Some (out, alive, vs))" "rep h D"
  shows "rep (pjoin h (if alive then out else BOTTOM)) (D \<union> N)"
  using assms rep_join [OF assms(2), of out N] rep_join [OF assms(2) rep_empty]
  by (auto simp: accounts_def)

definition progress :: "Cob set \<Rightarrow> PState \<Rightarrow> nat" where
  "progress W h = card ({OPEN, CLOSED} - fst h)
     + card {l. Opened l \<in> W \<and> (case snd h of None \<Rightarrow> True | Some x \<Rightarrow> l < x)}"

lemma progress_decreases:
  assumes "finite W" "D \<subseteq> W" "rep n D" "pstate_le h n" "n \<noteq> h"
  shows "progress W n < progress W h"
proof -
  let ?L = "\<lambda>h. {l. Opened l \<in> W \<and> (case snd h of None \<Rightarrow> True | Some x \<Rightarrow> l < x)}"
  have fin: "finite (?L h)"
  proof -
    have "finite (Opened -` W)" using assms(1) by (rule finite_vimageI) (simp add: inj_on_def)
    then show ?thesis by (rule rev_finite_subset) auto
  qed
  have L: "?L n \<subseteq> ?L h" using assms(4) by (auto simp: pstate_le_def split: option.splits)
  have K: "{OPEN, CLOSED} - fst n \<subseteq> {OPEN, CLOSED} - fst h" using assms(4) by (auto simp: pstate_le_def)
  have ne: "fst n \<noteq> fst h \<or> snd n \<noteq> snd h" using assms(5) by (metis prod.collapse)
  then show ?thesis
  proof
    assume "fst n \<noteq> fst h"
    then obtain k where "k \<in> fst n" "k \<notin> fst h" using assms(4) by (auto simp: pstate_le_def)
    then have "{OPEN, CLOSED} - fst n \<subset> {OPEN, CLOSED} - fst h" using K by (cases k) auto
    then have "card ({OPEN, CLOSED} - fst n) < card ({OPEN, CLOSED} - fst h)" by (rule psubset_card_mono [rotated]) simp
    moreover have "card (?L n) \<le> card (?L h)" by (rule card_mono [OF fin L])
    ultimately show ?thesis by (simp add: progress_def)
  next
    assume "snd n \<noteq> snd h"
    then obtain y where y: "snd n = Some y" using assms(4) by (cases "snd n") (auto simp: pstate_le_def split: option.splits)
    then have "Opened y \<in> W" using assms(2,3) by (auto simp: rep_def)
    with y \<open>snd n \<noteq> snd h\<close> assms(4) have "y \<in> ?L h - ?L n"
      by (auto simp: pstate_le_def split: option.splits)
    then have "card (?L n) < card (?L h)" using L by (intro psubset_card_mono [OF fin]) auto
    moreover have "card ({OPEN, CLOSED} - fst n) \<le> card ({OPEN, CLOSED} - fst h)" using K by (rule card_mono [rotated]) simp
    ultimately show ?thesis by (simp add: progress_def)
  qed
qed

lemma settle_accounts:
  assumes acc: "\<And>D st. rep st D \<Longrightarrow> D \<noteq> {} \<Longrightarrow> D \<subseteq> W \<Longrightarrow> accounts (goes_seq p body D) (crosses_seq p body D) (f st)"
    and W: "W = header_states p body C" "finite W"
  shows "rep h D \<Longrightarrow> C \<subseteq> D \<Longrightarrow> D \<noteq> {} \<Longrightarrow> D \<subseteq> W \<Longrightarrow> \<exists>h'. settle f h = Some h' \<and> rep h' W"
proof (induction "progress W h" arbitrary: h D rule: less_induct)
  case less
  have a: "accounts (goes_seq p body D) (crosses_seq p body D) (f h)" by (rule acc) (use less in auto)
  then obtain out vs where f: "f h = Some (out, goes_seq p body D \<noteq> {}, vs)" by (auto simp: accounts_def)
  let ?n = "pjoin h (if goes_seq p body D \<noteq> {} then out else BOTTOM)"
  let ?D = "D \<union> goes_seq p body D"
  have n: "rep ?n ?D" using rep_step [OF a [unfolded f] less(2)] .
  have sub: "?D \<subseteq> W" using less(5) header_states_closed(2) [of p body C]
    unfolding W(1) by (auto simp: goes_seq_def)
  show ?case
  proof (cases "?n = h")
    case False
    have "pstate_le h ?n" by (rule oblig.jn_upper1)
    then have "progress W ?n < progress W h"
      by (rule progress_decreases [OF W(2) sub n]) (rule False)
    then have "\<exists>h'. settle f ?n = Some h' \<and> rep h' W"
      by (rule less(1) [OF _ n]) (use less sub in auto)
    with False f show ?thesis by (simp add: settle.simps [of f h] Let_def)
  next
    case True
    define S where "S = rec_nat D (\<lambda>_ T. T \<union> goes_seq p body T)"
    have S0: "S 0 = D" and SS: "S (Suc k) = S k \<union> goes_seq p body (S k)" for k by (simp_all add: S_def)
    have S: "rep h (S k) \<and> S k \<subseteq> W \<and> S k \<noteq> {}" for k
    proof (induction k)
      case 0
      then show ?case using less by (simp add: S0)
    next
      case (Suc k)
      have ak: "accounts (goes_seq p body (S k)) (crosses_seq p body (S k)) (f h)"
        by (rule acc) (use Suc in auto)
      then have "goes_seq p body (S k) \<noteq> {} \<longleftrightarrow> goes_seq p body D \<noteq> {}" by (auto simp: accounts_def f)
      then have "rep h (S (Suc k))"
        using rep_step [OF ak [unfolded f], of h "S k"] Suc True by (simp add: SS)
      moreover have "goes_seq p body (S k) \<subseteq> W"
        using Suc header_states_closed(2) [of p body C] unfolding W(1) by (auto simp: goes_seq_def)
      ultimately show ?case using Suc by (simp add: SS)
    qed
    have "W \<subseteq> (\<Union>k. S k)"
    proof
      fix c' assume "c' \<in> W"
      then obtain c where c: "c \<in> C" "(iterates p body)\<^sup>*\<^sup>* c c'" by (auto simp: W(1) header_states_def)
      from c(2) show "c' \<in> (\<Union>k. S k)"
      proof (induction rule: rtranclp_induct)
        case base
        have "c \<in> S 0" using c(1) less(3) by (auto simp: S0)
        then show ?case by blast
      next
        case (step c1 c2)
        then obtain k where "c1 \<in> S k" by blast
        with step(2) have "c2 \<in> S (Suc k)" by (auto simp: SS goes_seq_def iterates_def)
        then show ?case by blast
      qed
    qed
    with S have "W = (\<Union>k. S k)" by blast
    then have "rep h W" using rep_Union [of h S] S by simp
    with True f show ?thesis by (simp add: settle.simps [of f h] Let_def)
  qed
qed

section \<open>The walk is exact\<close>

lemma accounts_leaf:
  assumes "rep st C" "C \<noteq> {}" "is_leaf ev"
  shows "accounts (goes (wa_proto w) ev C) (crosses (wa_proto w) ev C)
       (case leaf w ev st of (st1, vs) \<Rightarrow> Some (st1, True, vs))"
proof -
  obtain st1 vs where l: "leaf w ev st = (st1, vs)" by (cases "leaf w ev st")
  have "goes (wa_proto w) ev C \<noteq> {}" "rep st1 (goes (wa_proto w) ev C)" "keys vs = crosses (wa_proto w) ev C"
    using rep_leaf [OF assms, of w] keys_leaf [OF assms(1,3), of w] unfolding l by simp_all
  then show ?thesis unfolding l accounts_def by simp
qed

lemma accounts_left: "keys vs = X \<Longrightarrow> accounts {} X (Some (st, False, vs))"
  by (simp add: accounts_def)

lemma accounts_goes: "rep st N \<Longrightarrow> N \<noteq> {} \<Longrightarrow> keys vs = X \<Longrightarrow> accounts N X (Some (st, True, vs))"
  by (simp add: accounts_def)

lemma accountsE:
  assumes "accounts N X r"
  obtains st vs where "r = Some (st, N \<noteq> {}, vs)" "N \<noteq> {} \<longrightarrow> rep st N" "keys vs = X"
  using assms unfolding accounts_def by blast

text \<open>\<open>sound_at w e\<close>: the walk of \<open>e\<close> accounts for its paths from every state it can stand for.\<close>

definition sound_at :: "Walker \<Rightarrow> Event \<Rightarrow> bool" where
  "sound_at w e \<longleftrightarrow> (\<forall>st C. rep st C \<longrightarrow> C \<noteq> {} \<longrightarrow> finite C
     \<longrightarrow> accounts (goes (wa_proto w) e C) (crosses (wa_proto w) e C) (walk w e st))"

lemma accounts_seq:
  "\<forall>e\<in>set es. sound_at w e \<Longrightarrow> rep st C \<Longrightarrow> C \<noteq> {} \<Longrightarrow> finite C
      \<Longrightarrow> accounts (goes_seq (wa_proto w) es C) (crosses_seq (wa_proto w) es C) (walk_seq w es st)"
proof (induction es arbitrary: st C)
  case Nil
  have "goes_seq (wa_proto w) [] C = C" "crosses_seq (wa_proto w) [] C = {}"
    by (auto simp: goes_seq_def crosses_seq_def run_seq_simps)
  with Nil(2,3) show ?case by (simp add: accounts_goes)
next
  case (Cons e es)
  let ?p = "wa_proto w"
  let ?N = "goes ?p e C"
  have "accounts ?N (crosses ?p e C) (walk w e st)"
    using Cons(2) [unfolded sound_at_def] Cons(3-5) by (simp del: split_paired_All)
  then obtain st1 vs where h: "walk w e st = Some (st1, ?N \<noteq> {}, vs)"
    "?N \<noteq> {} \<longrightarrow> rep st1 ?N" "keys vs = crosses ?p e C" by (rule accountsE)
  show ?case
  proof (cases "?N = {}")
    case True
    have "goes_seq ?p es {} = {}" "crosses_seq ?p es {} = {}"
      by (simp_all add: goes_seq_def crosses_seq_def)
    with True h show ?thesis unfolding goes_Cons crosses_Cons by (simp add: accounts_left)
  next
    case False
    have tl: "\<forall>e\<in>set es. sound_at w e" using Cons(2) by simp
    have r: "rep st1 ?N" using h(2) False by blast
    have "accounts (goes_seq ?p es ?N) (crosses_seq ?p es ?N) (walk_seq w es st1)"
      by (rule Cons(1) [OF tl r False finite_goes [OF Cons(5)]])
    then obtain st2 vs2 where k: "walk_seq w es st1 = Some (st2, goes_seq ?p es ?N \<noteq> {}, vs2)"
      "goes_seq ?p es ?N \<noteq> {} \<longrightarrow> rep st2 (goes_seq ?p es ?N)" "keys vs2 = crosses_seq ?p es ?N"
      by (rule accountsE)
    have "walk_seq w (e # es) st = Some (st2, goes_seq ?p es ?N \<noteq> {}, vs @ vs2)"
      using h(1) k(1) False by simp
    then show ?thesis
      unfolding goes_Cons crosses_Cons accounts_def using k(2,3) h(3) by (simp del: walk_seq.simps)
  qed
qed

lemma walk_accounts:
  "rep st C \<Longrightarrow> C \<noteq> {} \<Longrightarrow> finite C
     \<Longrightarrow> accounts (goes (wa_proto w) ev C) (crosses (wa_proto w) ev C) (walk w ev st)"
proof (induction ev arbitrary: st C)
  case (AssignEv tg v l)
  then show ?case by (simp add: accounts_leaf)
next
  case (CallEv cl a l)
  then show ?case by (simp add: accounts_leaf)
next
  case (ReturnEv l)
  then show ?case by (simp add: goes_return crosses_return accounts_left keys_exit)
next
  case (ThrowEv l)
  then show ?case by (simp add: goes_return crosses_return accounts_left keys_exit)
next
  case (IfEv l th el)
  let ?p = "wa_proto w"
  have "accounts (goes_seq ?p th C) (crosses_seq ?p th C) (walk_seq w th st)"
    by (rule accounts_seq) (use IfEv in \<open>simp_all add: sound_at_def\<close>)
  then obtain s1 vs1 where 1: "walk_seq w th st = Some (s1, goes_seq ?p th C \<noteq> {}, vs1)"
    "goes_seq ?p th C \<noteq> {} \<Longrightarrow> rep s1 (goes_seq ?p th C)" "keys vs1 = crosses_seq ?p th C"
    by (auto simp: accounts_def)
  have "accounts (goes_seq ?p el C) (crosses_seq ?p el C) (walk_seq w el st)"
    by (rule accounts_seq) (use IfEv in \<open>simp_all add: sound_at_def\<close>)
  then obtain s2 vs2 where 2: "walk_seq w el st = Some (s2, goes_seq ?p el C \<noteq> {}, vs2)"
    "goes_seq ?p el C \<noteq> {} \<Longrightarrow> rep s2 (goes_seq ?p el C)" "keys vs2 = crosses_seq ?p el C"
    by (auto simp: accounts_def)
  have r: "rep (if N \<noteq> {} then s else BOTTOM) N" if "N \<noteq> {} \<Longrightarrow> rep s N" for s N
    using that rep_empty by auto
  show ?case
    using 1(1,3) 2(1,3) rep_join [OF r [OF 1(2)] r [OF 2(2)]]
    by (cases "goes_seq ?p th C = {}"; cases "goes_seq ?p el C = {}")
      (simp_all add: goes_if crosses_if accounts_def)
next
  case (WhileEv l body)
  let ?p = "wa_proto w"
  let ?W = "header_states ?p body C"
  have fin: "finite ?W" using finite_goes [OF WhileEv(4), of ?p "WhileEv l body"] by (simp add: goes_while)
  have acc: "accounts (goes_seq ?p body D) (crosses_seq ?p body D) (walk_seq w body st)"
    if "rep st D" "D \<noteq> {}" "D \<subseteq> ?W" for D st
    by (rule accounts_seq) (use WhileEv(1) that finite_subset [OF that(3) fin] in \<open>simp_all add: sound_at_def\<close>)
  obtain h where h: "settle (walk_seq w body) st = Some h" "rep h ?W"
    using settle_accounts [where f = "walk_seq w body", OF acc refl fin WhileEv(2)] header_states_closed(1) [of C ?p body] WhileEv(3) by blast
  have ne: "?W \<noteq> {}" using header_states_closed(1) [of C ?p body] WhileEv(3) by blast
  then obtain s1 a1 vs where "walk_seq w body h = Some (s1, a1, vs)" "keys vs = crosses_seq ?p body ?W"
    using acc [OF h(2)] by (auto simp: accounts_def)
  with h ne show ?case by (simp add: goes_while crosses_while accounts_goes)
qed

section \<open>Methods and protocols\<close>

text \<open>Everything the paths of a whole method cross; falling off its end counts as one exit.\<close>

definition ends_open :: "Protocol \<Rightarrow> Event list \<Rightarrow> int set" where
  "ends_open p events = {l. \<exists>t. run_seq p events Shut t (Goes (Opened l))}"

definition method_crossings :: "Protocol \<Rightarrow> Event list \<Rightarrow> Crossing set" where
  "method_crossings p events = {x. \<exists>t r. run_seq p events Shut t r \<and> x \<in> set t}
     \<union> {(l, ''exit'', ''end of method'') | l. pr_exit_barriers p \<and> l \<in> ends_open p events
          \<and> (\<forall>l'\<in>ends_open p events. l \<le> l')}"

lemma run_walker_exact:
  "\<exists>vs. run_walker w events = Some vs \<and> keys vs = method_crossings (wa_proto w) events"
proof -
  let ?p = "wa_proto w"
  let ?N = "goes_seq ?p events {Shut}"
  have "rep ({CLOSED}, None) {Shut}" by (simp add: rep_def obl_kinds_def)
  then have "accounts ?N (crosses_seq ?p events {Shut}) (walk_seq w events ({CLOSED}, None))"
    by (rule accounts_seq [rotated]) (simp_all add: sound_at_def walk_accounts)
  then obtain st vs where w: "walk_seq w events ({CLOSED}, None) = Some (st, ?N \<noteq> {}, vs)"
    "?N \<noteq> {} \<Longrightarrow> rep st ?N" "keys vs = crosses_seq ?p events {Shut}" by (auto simp: accounts_def)
  have eo: "Opened l \<in> ?N \<longleftrightarrow> l \<in> ends_open ?p events" for l by (simp add: goes_seq_def ends_open_def)
  let ?fall = "if ?N \<noteq> {} then exit_at w (case snd st of None \<Rightarrow> 0 | Some l \<Rightarrow> l) st ''end of method'' else []"
  have "keys ?fall = {(l, ''exit'', ''end of method'') | l. pr_exit_barriers ?p \<and> l \<in> ends_open ?p events
          \<and> (\<forall>l'\<in>ends_open ?p events. l \<le> l')}"
  proof (cases "snd st")
    case None
    then have "\<nexists>l. l \<in> ends_open ?p events" using w(2) eo by (cases "?N = {}") (auto simp: rep_def)
    moreover have "OPEN \<notin> fst st" if "?N \<noteq> {}"
      using rep_OPEN [OF w(2) [OF that]] eo calculation by simp
    ultimately show ?thesis by (auto simp: exit_at_def)
  next
    case (Some l)
    show ?thesis
    proof (cases "?N = {}")
      case False
      then have l: "l \<in> ends_open ?p events" "\<And>l'. l' \<in> ends_open ?p events \<Longrightarrow> l \<le> l'"
        using w(2) Some by (auto simp: rep_def eo [symmetric])
      moreover have "OPEN \<in> fst st" using rep_OPEN [OF w(2) [OF False]] l(1) eo by blast
      ultimately show ?thesis using False Some
        by (auto simp: exit_at_def keys_def violation_def intro: antisym)
    next
      case True
      then have "\<nexists>l. l \<in> ends_open ?p events" using eo by auto
      with True show ?thesis by auto
    qed
  qed
  then show ?thesis
    using w by (auto simp: run_walker_def method_crossings_def crosses_seq_def)
qed

lemma keys_late [simp]: "keys (map (late_close cs) vs) = keys vs"
proof -
  have "(\<lambda>v. (vi_line v, vi_kind v, vi_barrier_desc v)) (late_close cs v) = (vi_line v, vi_kind v, vi_barrier_desc v)" for v
    by (simp add: late_close_def split: option.split)
  then show ?thesis by (simp add: keys_def image_image)
qed

section \<open>All protocols against all methods\<close>

text \<open>A violation names the protocol, the method and the file of its walk.\<close>

definition tagged :: "Walker \<Rightarrow> Violation \<Rightarrow> bool" where
  "tagged w v \<longleftrightarrow> vi_protocol v = pr_name (wa_proto w) \<and> vi_method v = wa_method w \<and> vi_file v = wa_file w"

lemma tagged_emit [simp]:
  "v \<in> set (snd (leaf w ev st)) \<Longrightarrow> tagged w v"
  "v \<in> set (exit_at w l st d) \<Longrightarrow> tagged w v"
  by (auto simp: leaf_def exit_at_def tagged_def violation_def Let_def split: if_split_asm)

lemma tagged_walk:
  "walk w ev st = Some (st', a, vs) \<Longrightarrow> v \<in> set vs \<Longrightarrow> tagged w v"
  "walk_seq w es st = Some (st', a, vs) \<Longrightarrow> v \<in> set vs \<Longrightarrow> tagged w v"
proof (induction w ev st and w es st arbitrary: st' a vs and st' a vs rule: walk_walk_seq.induct)
  case (1 w t v' l st)
  then show ?case using tagged_emit(1) [of v w "AssignEv t v' l" st] by (cases "leaf w (AssignEv t v' l) st") auto
next
  case (2 w c a' l st)
  then show ?case using tagged_emit(1) [of v w "CallEv c a' l" st] by (cases "leaf w (CallEv c a' l) st") auto
qed (auto split: option.splits prod.splits if_split_asm)

lemma tagged_run: "run_walker w es = Some vs \<Longrightarrow> v \<in> set vs \<Longrightarrow> tagged w v"
  by (auto simp: run_walker_def dest: tagged_walk split: option.splits prod.splits if_split_asm)

text \<open>What a violation says, without the evidence lines.\<close>

datatype Verdict = Verdict (ve_protocol: string) (ve_method: string) (ve_file: string) (ve_crossing: Crossing)

definition verdict_of :: "Violation \<Rightarrow> Verdict" where
  "verdict_of v = Verdict (vi_protocol v) (vi_method v) (vi_file v) (vi_line v, vi_kind v, vi_barrier_desc v)"

definition pair_verdicts :: "Protocol \<Rightarrow> MethodEvents \<Rightarrow> Verdict set" where
  "pair_verdicts p m = (if applies_to p (me_name m)
     then Verdict (pr_name p) (me_name m) (me_file m) ` method_crossings p (me_events m) else {})"

lemma verdict_late [simp]: "verdict_of (late_close cs v) = verdict_of v"
  by (simp add: late_close_def verdict_of_def split: option.split)

lemma check_pair_exact: "\<exists>vs. check_pair p m = Some vs \<and> verdict_of ` set vs = pair_verdicts p m"
proof (cases "applies_to p (me_name m)")
  case True
  let ?w = "\<lparr>wa_proto = p, wa_method = me_name m, wa_file = me_file m\<rparr>"
  obtain vs where r: "run_walker ?w (me_events m) = Some vs" "keys vs = method_crossings p (me_events m)"
    using run_walker_exact [of ?w "me_events m"] by auto
  have "verdict_of v = Verdict (pr_name p) (me_name m) (me_file m) (vi_line v, vi_kind v, vi_barrier_desc v)" if "v \<in> set vs" for v
    using tagged_run [OF r(1) that] by (simp add: tagged_def verdict_of_def)
  then have "verdict_of ` set vs = Verdict (pr_name p) (me_name m) (me_file m) ` keys vs"
    by (force simp: keys_def)
  with True r show ?thesis by (simp add: check_pair_def pair_verdicts_def image_image)
qed (simp add: check_pair_def pair_verdicts_def)

lemma collect_total:
  "\<forall>x\<in>set xs. \<exists>y. f x = Some y \<and> g ` set y = h x \<Longrightarrow> \<exists>ys. collect (map f xs) = Some ys \<and> g ` set ys = (\<Union>x\<in>set xs. h x)"
  by (induction xs) (auto simp: image_Un)

lemma check_protocols_exact:
  "\<exists>vs. check_protocols protocols methods = Some vs
     \<and> sorted (map (\<lambda>v. (vi_file v, vi_line v, vi_protocol v, vi_barrier_desc v)) vs)
     \<and> verdict_of ` set vs = (\<Union>p\<in>set protocols. \<Union>m\<in>set methods. pair_verdicts p m)"
proof -
  define ps where "ps = concat (map (\<lambda>p. map (Pair p) methods) protocols)"
  have "concat (map (\<lambda>p. map (check_pair p) methods) protocols) = map (\<lambda>(p, m). check_pair p m) ps"
    by (simp add: ps_def map_concat comp_def)
  moreover have "\<exists>ys. collect (map (\<lambda>(p, m). check_pair p m) ps) = Some ys
      \<and> verdict_of ` set ys = (\<Union>x\<in>set ps. case x of (p, m) \<Rightarrow> pair_verdicts p m)"
    by (rule collect_total) (use check_pair_exact in auto)
  ultimately obtain ys where "collect (concat (map (\<lambda>p. map (check_pair p) methods) protocols)) = Some ys"
    "verdict_of ` set ys = (\<Union>x\<in>set ps. case x of (p, m) \<Rightarrow> pair_verdicts p m)" by auto
  then show ?thesis by (auto simp: check_protocols_def ps_def)
qed

end
