(* ===== verification/Own_Facts.thy ===== *)
theory Own_Facts
  imports Own_Obligations
begin

text \<open>
  What the fact parsers of \<open>obligations.py\<close> guarantee: the coordinates and the ev_nesting of every
  parsed event tree, the agreement of the strict and the tolerant door, and that no parsed protocol
  is structurally dead.
\<close>

section \<open>Shapes\<close>

text \<open>How deep the bodies of an event are nested, and the lines it names.\<close>

fun ev_nesting :: "Event \<Rightarrow> nat" where
  "ev_nesting (IfEv l th el) = Suc (Max (insert 0 (set (map ev_nesting th @ map ev_nesting el))))"
| "ev_nesting (WhileEv l body) = Suc (Max (insert 0 (set (map ev_nesting body))))"
| "ev_nesting _ = 0"

fun ev_lines :: "Event \<Rightarrow> int set" where
  "ev_lines (IfEv l th el) = insert l (\<Union> (set (map ev_lines th)) \<union> \<Union> (set (map ev_lines el)))"
| "ev_lines (WhileEv l body) = insert l (\<Union> (set (map ev_lines body)))"
| "ev_lines ev = {event_line ev}"

definition in_domain :: "int \<Rightarrow> bool" where
  "in_domain l \<longleftrightarrow> LINE_MIN \<le> l \<and> l \<le> LINE_MAX"

lemma in_domain_0 [simp]: "in_domain 0"
  by (simp add: in_domain_def LINE_MIN_def LINE_MAX_def)

lemma opt_line_domain: "opt_line raw ctx strict = Inr l \<Longrightarrow> in_domain l"
  by (auto simp: opt_line_def in_domain_def LINE_MIN_def LINE_MAX_def split: Json.splits if_splits)

lemma opt_line_tolerant: "opt_line raw ctx True = Inr l \<Longrightarrow> opt_line raw ctx False = Inr l"
  by (auto simp: opt_line_def split: Json.splits if_splits)

lemma leaf_event_shape: "leaf_event e ctx ev line = Inr x \<Longrightarrow> ev_nesting x = 0 \<and> ev_lines x = {line}"
  by (auto simp: leaf_event_def rbind_eq_Inr split: option.splits if_splits)

text \<open>The bodies that the bound on the depth still admits.\<close>

definition ev_fits :: "nat \<Rightarrow> Event \<Rightarrow> bool" where
  "ev_fits d x \<longleftrightarrow> ev_nesting x + d \<le> MAX_NESTING_DEPTH \<and> (\<forall>l\<in>ev_lines x. in_domain l)"

lemma Max_plus_less: "finite S \<Longrightarrow> Max (insert (0::nat) S) + d < k \<longleftrightarrow> d < k \<and> (\<forall>x\<in>S. x + d < k)"
  by (cases "S = {}") (auto simp: Max_less_iff [of _ "k - d", simplified less_diff_conv] less_diff_conv)

lemma ev_fits_If: "d < MAX_NESTING_DEPTH \<Longrightarrow> in_domain l \<Longrightarrow> \<forall>x\<in>set th. ev_fits (Suc d) x \<Longrightarrow> \<forall>x\<in>set el. ev_fits (Suc d) x
    \<Longrightarrow> ev_fits d (IfEv l th el)"
  by (auto simp: ev_fits_def Max_plus_less Suc_le_eq)

lemma ev_fits_While: "d < MAX_NESTING_DEPTH \<Longrightarrow> in_domain l \<Longrightarrow> \<forall>x\<in>set body. ev_fits (Suc d) x
    \<Longrightarrow> ev_fits d (WhileEv l body)"
  by (auto simp: ev_fits_def Max_plus_less Suc_le_eq)

lemma ev_fits_leaf: "d \<le> MAX_NESTING_DEPTH \<Longrightarrow> in_domain line \<Longrightarrow> leaf_event e ctx ev line = Inr x \<Longrightarrow> ev_fits d x"
  using leaf_event_shape [of e ctx ev line x] by (simp add: ev_fits_def)

lemma parse_events_depth: "parse_events raw ctx d strict = Inr es \<Longrightarrow> d \<le> MAX_NESTING_DEPTH"
  by (auto simp: parse_events.simps split: if_splits)

lemma parsed_events_fit:
  "parse_events raw ctx d strict = Inr es \<Longrightarrow> \<forall>x\<in>set es. ev_fits d x"
  "d \<le> MAX_NESTING_DEPTH \<Longrightarrow> parse_event j ctx d strict = Inr y \<Longrightarrow> ev_fits d y"
proof (induction raw ctx d strict and j ctx d strict arbitrary: es and y rule: parse_events_parse_event.induct)
  case (1 raw ctx depth strict)
  have d: "depth \<le> MAX_NESTING_DEPTH" using 1(2) by (rule parse_events_depth)
  then obtain js where js: "raw = JList js" "rmap (\<lambda>j. parse_event j ctx depth strict) js = Inr es"
    using 1(2) by (auto simp: parse_events.simps split: Json.splits)
  have "ev_fits depth x" if x: "x \<in> set es" for x
  proof -
    obtain j where j: "j \<in> set js" "parse_event j ctx depth strict = Inr x"
      using rmap_Inr_set [OF js(2) x] by blast
    show ?thesis by (rule 1(1) [OF _ js(1) j(1) d j(2)]) (use d in simp)
  qed
  then show ?case by blast
next
  case (2 j ctx depth strict)
  obtain e where j: "j = JObj e" using 2(5) by (auto simp: parse_event.simps split: Json.splits)
  obtain ev line where ev: "event_kind e ctx = Inr ev" "opt_line e ctx strict = Inr line"
    using 2(5) unfolding j by (auto simp: parse_event.simps rbind_eq_Inr)
  have l: "in_domain line" using ev(2) by (rule opt_line_domain)
  show ?case
  proof (cases "ev = ''if''")
    case True
    then obtain th el where "parse_events (dict_get_or e ''then'' (JList [])) ctx (Suc depth) strict = Inr th"
      "parse_events (dict_get_or e ''else'' (JList [])) ctx (Suc depth) strict = Inr el" "y = IfEv line th el"
      using 2(5) ev unfolding j by (auto simp: parse_event.simps rbind_eq_Inr)
    moreover have "depth < MAX_NESTING_DEPTH" using parse_events_depth [OF calculation(1)] by simp
    ultimately show ?thesis using 2(1) [OF j ev True] 2(2) [OF j ev True] l by (auto intro: ev_fits_If)
  next
    case ni: False
    show ?thesis
    proof (cases "ev = ''while''")
      case True
      then obtain body where "parse_events (dict_get_or e ''body'' (JList [])) ctx (Suc depth) strict = Inr body"
        "y = WhileEv line body" using 2(5) ev unfolding j by (auto simp: parse_event.simps rbind_eq_Inr)
      moreover have "depth < MAX_NESTING_DEPTH" using parse_events_depth [OF calculation(1)] by simp
      ultimately show ?thesis using 2(3) [OF j ev ni True] l by (auto intro: ev_fits_While)
    next
      case False
      then have "leaf_event e ctx ev line = Inr y"
        using 2(5) ev ni unfolding j by (simp add: parse_event.simps)
      then show ?thesis by (rule ev_fits_leaf [OF 2(4) l])
    qed
  qed
qed

lemma parsed_method_fits: "parse_method raw strict = Inr m \<Longrightarrow> \<forall>x\<in>set (me_events m). ev_fits 0 x"
proof (cases raw)
  case (JObj e)
  assume "parse_method raw strict = Inr m"
  then show ?thesis unfolding JObj
    by (cases "dict_get_or e ''file'' (JStr ''?'')") (auto simp: rbind_eq_Inr parsed_events_fit(1))
qed simp_all

section \<open>The two doors\<close>

text \<open>A line that has an integer form and is no source line.\<close>

definition location_failure :: "(FactsError, 'a) result \<Rightarrow> bool" where
  "location_failure r \<longleftrightarrow> (\<exists>ctx l. r = Inl (FactsError ctx (quoted ''line'' @ '' must be a source line'') (JInt l))
     \<and> INT64_MIN \<le> l \<and> l \<le> INT64_MAX \<and> \<not> in_domain l)"

definition doors :: "(FactsError, 'a) result \<Rightarrow> (FactsError, 'a) result \<Rightarrow> bool" where
  "doors strict tolerant \<longleftrightarrow> strict = tolerant \<or> location_failure strict"

lemma doors_refl [intro]: "doors r r"
  by (simp add: doors_def)

lemma location_failure_bind: "location_failure r \<Longrightarrow> location_failure (rbind r f)"
  by (auto simp: location_failure_def)

lemma doors_bind:
  "doors r r' \<Longrightarrow> (\<And>x. r' = Inr x \<Longrightarrow> doors (f x) (g x)) \<Longrightarrow> doors (rbind r f) (rbind r' g)"
  by (cases r') (auto simp: doors_def location_failure_bind)

lemma doors_rmap: "(\<And>x. x \<in> set xs \<Longrightarrow> doors (f x) (g x)) \<Longrightarrow> doors (rmap f xs) (rmap g xs)"
  by (induction xs) (auto intro!: doors_bind)

lemma doors_line: "doors (opt_line e ctx True) (opt_line e ctx False)"
  by (auto simp: doors_def location_failure_def opt_line_def in_domain_def split: Json.splits)

lemma doors_events:
  "\<not> strict \<Longrightarrow> doors (parse_events raw ctx d True) (parse_events raw ctx d strict)"
  "\<not> strict \<Longrightarrow> doors (parse_event j ctx d True) (parse_event j ctx d strict)"
proof (induction raw ctx d strict and j ctx d strict rule: parse_events_parse_event.induct)
  case (1 raw ctx depth strict)
  show ?case unfolding parse_events.simps [of raw ctx depth True] parse_events.simps [of raw ctx depth strict]
    using 1 by (auto intro!: doors_rmap split: Json.split)
next
  case (2 j ctx depth strict)
  note simps = parse_event.simps [of j ctx depth True] parse_event.simps [of j ctx depth strict]
  show ?case
  proof (cases j)
    case (JObj e)
    show ?thesis unfolding simps unfolding JObj Json.case
    proof (rule doors_bind, rule doors_refl, rule doors_bind)
      show "doors (opt_line e ctx True) (opt_line e ctx strict)" using doors_line 2(4) by simp
    qed (use 2 JObj in \<open>auto intro!: doors_bind\<close>)
  qed (simp_all add: parse_event.simps doors_refl)
qed

lemma doors_method: "doors (parse_method raw True) (parse_method raw False)"
  by (cases raw) (auto intro!: doors_bind doors_events split: Json.split)

section \<open>No dead protocol\<close>

definition states_value :: "Matcher \<Rightarrow> bool" where
  "states_value m \<longleftrightarrow> mt_target m \<noteq> [] \<and> mt_kind m \<in> {''assign'', ''call''} \<and> (mt_kind m = ''assign'' \<longrightarrow> mt_value m \<noteq> None)"

lemma require_str_Inr: "require_str raw key ctx = Inr x \<longleftrightarrow> jget raw key = JStr x \<and> x \<noteq> []"
  by (auto simp: require_str_def split: Json.splits list.splits)

lemma parse_matcher_states:
  assumes p: "parse_matcher j ctx True = Inr m"
  shows "states_value m"
proof -
  obtain raw where j: "j = JObj raw" using p by (cases j) simp_all
  consider "jget raw ''kind'' = JStr ''assign''" | "jget raw ''kind'' = JStr ''call''"
    using p unfolding j by (auto split: if_split_asm)
  then show ?thesis
  proof cases
    case 1
    then obtain target v where t: "require_str raw ''target'' ctx = Inr target" "opt_bool (jget raw ''value'') = Some v"
      using p unfolding j by (cases "opt_bool (jget raw ''value'')") (auto simp: rbind_eq_Inr)
    then show ?thesis using p 1 unfolding j
      by (auto simp: t states_value_def require_str_Inr [THEN iffD1, OF t(1)] split: if_split_asm)
  next
    case 2
    then obtain callee js where t: "require_str raw ''callee'' ctx = Inr callee" "dict_get_or raw ''args'' (JList []) = JList js"
      using p unfolding j by (cases "dict_get_or raw ''args'' (JList [])") (auto simp: rbind_eq_Inr)
    then show ?thesis using p 2 unfolding j
      by (cases "all_str js") (auto simp: t states_value_def require_str_Inr [THEN iffD1, OF t(1)])
  qed
qed

definition live_protocol :: "Protocol \<Rightarrow> bool" where
  "live_protocol p \<longleftrightarrow> pr_name p \<noteq> [] \<and> states_value (pr_opens p) \<and> states_value (pr_closes p)
     \<and> (pr_barriers p \<noteq> [] \<or> pr_exit_barriers p) \<and> pr_opens p \<notin> set (pr_barriers p) \<and> [] \<notin> set (pr_methods p)"

lemma scope_methods_named: "scope_methods raw ctx = Inr ms \<Longrightarrow> [] \<notin> set ms"
  by (auto simp: scope_methods_def split: Json.splits option.splits if_splits)

lemma finish_protocol_live:
  assumes f: "finish_protocol raw name ctx op cl bs al = Inr p" and "name \<noteq> []" "states_value op" "states_value cl"
  shows "live_protocol p"
proof -
  obtain exits where e: "dict_get_or raw ''exit_barriers'' (JBool True) = JBool exits"
    using f by (cases "dict_get_or raw ''exit_barriers'' (JBool True)") (simp_all add: finish_protocol_def)
  have live: "bs \<noteq> [] \<or> exits" "op \<notin> set bs" using f by (simp_all add: finish_protocol_def e split: if_split_asm)
  then obtain methods where m: "scope_methods raw ctx = Inr methods"
    using f by (cases "scope_methods raw ctx") (auto simp: finish_protocol_def e)
  have "pr_name p = name \<and> pr_opens p = op \<and> pr_closes p = cl \<and> pr_barriers p = bs \<and> pr_exit_barriers p = exits
      \<and> pr_methods p = methods"
    using f live by (cases "dict_get_or raw ''description'' (JStr [])") (auto simp: finish_protocol_def e m)
  then show ?thesis using assms(2-4) live scope_methods_named [OF m] by (simp add: live_protocol_def)
qed

lemma parsed_protocol_live: "parse_protocol raw = Inr p \<Longrightarrow> live_protocol p"
  by (cases raw) (auto simp: rbind_eq_Inr require_str_Inr Let_def parse_matcher_states finish_protocol_live split: if_splits)

section \<open>Kinds that cannot be hashed\<close>

lemma require_str_hashable: "require_str raw key ctx \<noteq> Inl (Unhashable v)"
  by (auto simp: require_str_def split: Json.splits list.splits)

lemma unhashable_matcher:
  "parse_matcher (JObj raw) ctx require_value = Inl (Unhashable v)
     \<longleftrightarrow> unhashable (jget raw ''kind'') \<and> v = jget raw ''kind''"
proof -
  consider "jget raw ''kind'' = JStr ''assign''" | "jget raw ''kind'' = JStr ''call''"
    | "jget raw ''kind'' \<notin> {JStr ''assign'', JStr ''call''}" by auto
  then show ?thesis
  proof cases
    case 1
    then show ?thesis
      by (cases "opt_bool (jget raw ''value'')") (auto simp: rbind_eq_Inl require_str_hashable)
  next
    case 2
    show ?thesis
    proof (cases "dict_get_or raw ''args'' (JList [])")
      case (JList js)
      with 2 show ?thesis by (cases "all_str js") (auto simp: rbind_eq_Inl require_str_hashable)
    qed (use 2 in \<open>auto simp: rbind_eq_Inl require_str_hashable\<close>)
  next
    case 3
    then show ?thesis by auto
  qed
qed

end
