(* ===== verification/Own_Tarjan.thy ===== *)
theory Own_Tarjan
  imports Own_Prelude
begin

text \<open>
  The strongly connected components of a call graph (\<open>_sccs\<close> of \<open>ownlang/ownership.py\<close>): Tarjan's
  algorithm with an explicit work stack, one step of the model per turn of the inner loops, and
  the proof that its output is the list of the components, each after everything it depends on.
\<close>

section \<open>The algorithm\<close>

text \<open>
  The top of the stack is the head of the list. A work item pairs a node with what its iterator has
  left to yield. The dictionaries are only read at keys that the code has set.
\<close>

record 'a Tarjan =
  tj_index :: "('a, nat) dict"
  tj_low :: "('a, nat) dict"
  tj_on :: "'a set"
  tj_stack :: "'a list"
  tj_out :: "'a list list"
  tj_counter :: nat
  tj_work :: "('a \<times> 'a list) list"

definition succs :: "('a::linorder, 'a list) dict \<Rightarrow> 'a \<Rightarrow> 'a list" where
  "succs adj v = sort (dict_get_or adj v [])"

definition visit :: "('a::linorder, 'a list) dict \<Rightarrow> 'a \<Rightarrow> 'a Tarjan \<Rightarrow> 'a Tarjan" where
  "visit adj w s = s\<lparr>tj_index := dict_set (tj_index s) w (tj_counter s), tj_low := dict_set (tj_low s) w (tj_counter s),
     tj_counter := tj_counter s + 1, tj_stack := w # tj_stack s, tj_on := insert w (tj_on s),
     tj_work := (w, succs adj w) # tj_work s\<rparr>"

fun pop_component :: "'a \<Rightarrow> 'a list \<Rightarrow> 'a list \<times> 'a list" where
  "pop_component v [] = ([], [])"
| "pop_component v (x # st) = (if x = v then ([x], st)
     else (case pop_component v st of (c, st') \<Rightarrow> (x # c, st')))"

definition emit_component :: "'a \<Rightarrow> 'a Tarjan \<Rightarrow> 'a Tarjan" where
  "emit_component v s = (case pop_component v (tj_stack s) of (c, st) \<Rightarrow>
     s\<lparr>tj_stack := st, tj_on := tj_on s - set c, tj_out := tj_out s @ [c]\<rparr>)"

definition leave :: "'a \<Rightarrow> ('a \<times> 'a list) list \<Rightarrow> 'a Tarjan \<Rightarrow> 'a Tarjan" where
  "leave v rest s =
     (let low = dict_get_or (tj_low s) v 0;
          s1 = (if low = dict_get_or (tj_index s) v 0 then emit_component v s else s)\<lparr>tj_work := rest\<rparr>
      in case rest of
           [] \<Rightarrow> s1
         | (u, us) # rest' \<Rightarrow> s1\<lparr>tj_low := dict_set (tj_low s) u (min (dict_get_or (tj_low s) u 0) low)\<rparr>)"

definition tarjan_step :: "('a::linorder, 'a list) dict \<Rightarrow> 'a Tarjan \<Rightarrow> 'a Tarjan" where
  "tarjan_step adj s = (case tj_work s of
       [] \<Rightarrow> s
     | (v, []) # rest \<Rightarrow> leave v rest s
     | (v, w # ws) # rest \<Rightarrow>
         (let s1 = s\<lparr>tj_work := (v, ws) # rest\<rparr>
          in if dict_get (tj_index s) w = None then visit adj w s1
             else if w \<in> tj_on s
             then s1\<lparr>tj_low := dict_set (tj_low s) v (min (dict_get_or (tj_low s) v 0) (dict_get_or (tj_index s) w 0))\<rparr>
             else s1))"

partial_function (option) drive :: "('a::linorder, 'a list) dict \<Rightarrow> 'a Tarjan \<Rightarrow> 'a Tarjan option" where
  "drive adj s = (if tj_work s = [] then Some s else drive adj (tarjan_step adj s))"

declare drive.simps [code]

fun scan_roots :: "('a::linorder, 'a list) dict \<Rightarrow> 'a list \<Rightarrow> 'a Tarjan \<Rightarrow> 'a Tarjan option" where
  "scan_roots adj [] s = Some s"
| "scan_roots adj (r # rs) s =
     (if dict_get (tj_index s) r \<noteq> None then scan_roots adj rs s
      else (case drive adj (visit adj r s) of
              None \<Rightarrow> None
            | Some s' \<Rightarrow> scan_roots adj rs s'))"

definition fresh_tarjan :: "'a Tarjan" where
  "fresh_tarjan = \<lparr>tj_index = [], tj_low = [], tj_on = {}, tj_stack = [], tj_out = [], tj_counter = 0, tj_work = []\<rparr>"

definition sccs :: "('a::linorder, 'a list) dict \<Rightarrow> 'a list list option" where
  "sccs adj = map_option tj_out (scan_roots adj (dict_keys adj) fresh_tarjan)"

section \<open>The invariant\<close>

text \<open>
  A frame is a node on the work stack, the successors it has still to look at, and the finished nodes
  above it that are not in a component yet. The stack is the concatenation of the frames.
\<close>

datatype 'a Frame = Frame (fr_node: 'a) (fr_todo: "'a list") (fr_done: "'a list")

definition stack_of :: "'a Frame list \<Rightarrow> 'a list" where
  "stack_of G = concat (map (\<lambda>f. fr_done f @ [fr_node f]) G)"

lemma stack_of_simps [simp]:
  "stack_of [] = []"
  "stack_of (f # G) = fr_done f @ fr_node f # stack_of G"
  by (simp_all add: stack_of_def)

lemma nodes_in_stack: "f \<in> set G \<Longrightarrow> fr_node f \<in> set (stack_of G)"
  by (induction G) auto

definition edges :: "('a \<Rightarrow> 'a list) \<Rightarrow> ('a \<times> 'a) set" where
  "edges S = {(x, y). y \<in> set (S x)}"

lemma edges_iff [simp]: "(x, y) \<in> edges S \<longleftrightarrow> y \<in> set (S x)"
  by (simp add: edges_def)

text \<open>\<open>frame_ok\<close>: what the low-link of a frame accounts for. \<open>V\<close> are the visited nodes, \<open>st\<close> the stack.\<close>

definition frame_ok :: "('a \<Rightarrow> 'a list) \<Rightarrow> ('a \<Rightarrow> nat) \<Rightarrow> ('a \<Rightarrow> nat) \<Rightarrow> 'a set \<Rightarrow> 'a set \<Rightarrow> 'a Frame \<Rightarrow> bool" where
  "frame_ok S idx low V st f \<longleftrightarrow>
     set (fr_todo f) \<subseteq> set (S (fr_node f)) \<and> set (S (fr_node f)) \<subseteq> V \<union> set (fr_todo f)
     \<and> (\<forall>x\<in>set (fr_done f). set (S x) \<subseteq> V \<and> (x, fr_node f) \<in> (edges S)\<^sup>* \<and> (fr_node f, x) \<in> (edges S)\<^sup>*)
     \<and> low (fr_node f) \<le> idx (fr_node f)
     \<and> (\<forall>x\<in>set (fr_done f). \<forall>y\<in>set (S x) \<inter> st. low (fr_node f) \<le> idx y)
     \<and> (\<forall>y\<in>set (S (fr_node f)) \<inter> st - set (fr_todo f). low (fr_node f) \<le> idx y)
     \<and> (\<exists>y\<in>st. idx y = low (fr_node f) \<and> (fr_node f, y) \<in> (edges S)\<^sup>*)"

text \<open>The components so far: closed under successors up to earlier ones, and strongly connected.\<close>

definition bottom_up :: "('a \<Rightarrow> 'a list) \<Rightarrow> 'a list list \<Rightarrow> bool" where
  "bottom_up S out \<longleftrightarrow> (\<forall>pre c post. out = pre @ c # post \<longrightarrow> c \<noteq> [] \<and>
     (\<forall>x\<in>set c. set (S x) \<subseteq> set (concat pre) \<union> set c) \<and> (\<forall>x\<in>set c. \<forall>y\<in>set c. (x, y) \<in> (edges S)\<^sup>*))"

lemma bottom_up_Nil [simp]: "bottom_up S []"
  by (simp add: bottom_up_def)

lemma bottom_up_snoc:
  "bottom_up S out \<Longrightarrow> c \<noteq> [] \<Longrightarrow> \<forall>x\<in>set c. set (S x) \<subseteq> set (concat out) \<union> set c
    \<Longrightarrow> \<forall>x\<in>set c. \<forall>y\<in>set c. (x, y) \<in> (edges S)\<^sup>* \<Longrightarrow> bottom_up S (out @ [c])"
  unfolding bottom_up_def
proof (intro allI impI)
  fix pre d post
  assume out: "\<forall>pre c post. out = pre @ c # post \<longrightarrow> c \<noteq> [] \<and>
     (\<forall>x\<in>set c. set (S x) \<subseteq> set (concat pre) \<union> set c) \<and> (\<forall>x\<in>set c. \<forall>y\<in>set c. (x, y) \<in> (edges S)\<^sup>*)"
    and c: "c \<noteq> []" "\<forall>x\<in>set c. set (S x) \<subseteq> set (concat out) \<union> set c" "\<forall>x\<in>set c. \<forall>y\<in>set c. (x, y) \<in> (edges S)\<^sup>*"
    and eq: "out @ [c] = pre @ d # post"
  show "d \<noteq> [] \<and> (\<forall>x\<in>set d. set (S x) \<subseteq> set (concat pre) \<union> set d) \<and> (\<forall>x\<in>set d. \<forall>y\<in>set d. (x, y) \<in> (edges S)\<^sup>*)"
  proof (cases post rule: rev_cases)
    case Nil
    then show ?thesis using eq c by simp
  next
    case (snoc post' e)
    then have "out = pre @ d # post'" using eq by simp
    then show ?thesis using out by blast
  qed
qed

record 'a Ghost =
  gh_idx :: "'a \<Rightarrow> nat"
  gh_low :: "'a \<Rightarrow> nat"
  gh_seen :: "'a set"
  gh_next :: nat
  gh_out :: "'a list list"

definition tarjan_inv :: "('a \<Rightarrow> 'a list) \<Rightarrow> 'a Ghost \<Rightarrow> 'a Frame list \<Rightarrow> bool" where
  "tarjan_inv S g G \<longleftrightarrow>
     distinct (stack_of G @ concat (gh_out g)) \<and> gh_seen g = set (stack_of G) \<union> set (concat (gh_out g))
     \<and> sorted_wrt (\<lambda>x y. gh_idx g y < gh_idx g x) (stack_of G) \<and> (\<forall>x\<in>set (stack_of G). gh_idx g x < gh_next g)
     \<and> (\<forall>f\<in>set G. frame_ok S (gh_idx g) (gh_low g) (gh_seen g) (set (stack_of G)) f)
     \<and> sorted_wrt (\<lambda>f f'. (fr_node f', fr_node f) \<in> (edges S)\<^sup>*) G
     \<and> bottom_up S (gh_out g)"

definition gh_visit :: "'a \<Rightarrow> 'a Ghost \<Rightarrow> 'a Ghost" where
  "gh_visit w g = g\<lparr>gh_idx := (gh_idx g)(w := gh_next g), gh_low := (gh_low g)(w := gh_next g),
     gh_seen := insert w (gh_seen g), gh_next := gh_next g + 1\<rparr>"

definition gh_lower :: "'a \<Rightarrow> nat \<Rightarrow> 'a Ghost \<Rightarrow> 'a Ghost" where
  "gh_lower u l g = g\<lparr>gh_low := (gh_low g)(u := min (gh_low g u) l)\<rparr>"

lemma gh_simps [simp]:
  "gh_idx (gh_visit w g) = (gh_idx g)(w := gh_next g)" "gh_low (gh_visit w g) = (gh_low g)(w := gh_next g)"
  "gh_seen (gh_visit w g) = insert w (gh_seen g)" "gh_next (gh_visit w g) = Suc (gh_next g)"
  "gh_out (gh_visit w g) = gh_out g"
  "gh_idx (gh_lower u l g) = gh_idx g" "gh_low (gh_lower u l g) = (gh_low g)(u := min (gh_low g u) l)"
  "gh_seen (gh_lower u l g) = gh_seen g" "gh_next (gh_lower u l g) = gh_next g" "gh_out (gh_lower u l g) = gh_out g"
  by (simp_all add: gh_visit_def gh_lower_def)

lemma inv_parts:
  assumes "tarjan_inv S g G"
  shows "distinct (stack_of G @ concat (gh_out g))" "gh_seen g = set (stack_of G) \<union> set (concat (gh_out g))"
    "sorted_wrt (\<lambda>x y. gh_idx g y < gh_idx g x) (stack_of G)" "\<And>x. x \<in> set (stack_of G) \<Longrightarrow> gh_idx g x < gh_next g"
    "\<And>f. f \<in> set G \<Longrightarrow> frame_ok S (gh_idx g) (gh_low g) (gh_seen g) (set (stack_of G)) f"
    "sorted_wrt (\<lambda>f f'. (fr_node f', fr_node f) \<in> (edges S)\<^sup>*) G" "bottom_up S (gh_out g)"
  using assms unfolding tarjan_inv_def by blast+

lemma frame_ok_visit:
  assumes "frame_ok S idx low V st f" "w \<notin> V" "st \<subseteq> V" "\<And>x. x \<in> st \<Longrightarrow> idx x < n" "fr_node f \<in> st"
  shows "frame_ok S (idx(w := n)) (low(w := n)) (insert w V) (insert w st) f"
proof -
  have "fr_node f \<noteq> w" "low (fr_node f) < n" "\<And>y. y \<in> st \<Longrightarrow> y \<noteq> w"
    using assms(1,2,3) assms(4) [OF assms(5)] assms(5) by (auto simp: frame_ok_def)
  then show ?thesis using assms(1,2) unfolding frame_ok_def by (auto simp: less_imp_le)
qed

lemma frame_ok_drop:
  "frame_ok S idx low V st (Frame v (w # ws) xs) \<Longrightarrow> w \<in> V \<Longrightarrow> (w \<in> st \<Longrightarrow> low v \<le> idx w)
    \<Longrightarrow> frame_ok S idx low V st (Frame v ws xs)"
  unfolding frame_ok_def by auto

lemma inv_root:
  assumes "tarjan_inv S g []" "w \<notin> gh_seen g"
  shows "tarjan_inv S (gh_visit w g) [Frame w (S w) []]"
  using inv_parts [OF assms(1)] assms(2) by (auto simp: tarjan_inv_def frame_ok_def)

lemma inv_visit:
  assumes i: "tarjan_inv S g (Frame v (w # ws) xs # G)" and w: "w \<notin> gh_seen g"
  shows "tarjan_inv S (gh_visit w g) (Frame w (S w) [] # Frame v ws xs # G)"
proof -
  let ?st = "stack_of (Frame v (w # ws) xs # G)"
  note p = inv_parts [OF i]
  have st: "stack_of (Frame w (S w) [] # Frame v ws xs # G) = w # ?st" by simp
  have ok: "frame_ok S (gh_idx (gh_visit w g)) (gh_low (gh_visit w g)) (gh_seen (gh_visit w g)) (insert w (set ?st)) f"
    if "f \<in> set (Frame v (w # ws) xs # G)" for f
    unfolding gh_simps by (rule frame_ok_visit [OF p(5) [OF that] w]) (use p(2,4) nodes_in_stack [OF that] in auto)
  have new: "w \<notin> set ?st" "w \<notin> set (concat (gh_out g))" using w p(2) by auto
  have low: "gh_low g v < gh_next g" using p(5) [of "Frame v (w # ws) xs"] p(4) [of v] by (auto simp: frame_ok_def)
  have e: "(v, w) \<in> (edges S)\<^sup>*" using p(5) [of "Frame v (w # ws) xs"] by (auto simp: frame_ok_def)
  have chain: "(fr_node f, w) \<in> (edges S)\<^sup>*" if "f \<in> set G" for f
    using p(6) that e by (auto intro: rtrancl_trans)
  show ?thesis unfolding tarjan_inv_def st
  proof (intro conjI ballI)
    show "distinct ((w # ?st) @ concat (gh_out (gh_visit w g)))" using p(1) new by auto
    show "gh_seen (gh_visit w g) = set (w # ?st) \<union> set (concat (gh_out (gh_visit w g)))" using p(2) by auto
    have "sorted_wrt (\<lambda>x y. gh_idx (gh_visit w g) y < gh_idx (gh_visit w g) x) ?st"
      using new(1) by (intro sorted_wrt_mono_rel [OF _ p(3)]) auto
    then show "sorted_wrt (\<lambda>x y. gh_idx (gh_visit w g) y < gh_idx (gh_visit w g) x) (w # ?st)"
      using new(1) p(4) by auto
    show "gh_idx (gh_visit w g) x < gh_next (gh_visit w g)" if "x \<in> set (w # ?st)" for x
      using that less_SucI [OF p(4) [of x]] by auto
    show "frame_ok S (gh_idx (gh_visit w g)) (gh_low (gh_visit w g)) (gh_seen (gh_visit w g)) (set (w # ?st)) f"
      if "f \<in> set (Frame w (S w) [] # Frame v ws xs # G)" for f
    proof -
      have "frame_ok S (gh_idx (gh_visit w g)) (gh_low (gh_visit w g)) (gh_seen (gh_visit w g)) (insert w (set ?st)) (Frame v ws xs)"
        by (rule frame_ok_drop [OF ok]) (use low new in auto)
      moreover have "frame_ok S (gh_idx (gh_visit w g)) (gh_low (gh_visit w g)) (gh_seen (gh_visit w g)) (insert w (set ?st)) (Frame w (S w) [])"
        by (auto simp: frame_ok_def)
      ultimately show ?thesis using that ok by auto
    qed
    show "sorted_wrt (\<lambda>f f'. (fr_node f', fr_node f) \<in> (edges S)\<^sup>*) (Frame w (S w) [] # Frame v ws xs # G)"
      using p(6) e chain by auto
    show "bottom_up S (gh_out (gh_visit w g))" using p(7) by simp
  qed
qed

text \<open>Looking at a successor that is visited already: on the stack it lowers the link, else it is skipped.\<close>

lemma frame_ok_lower:
  assumes "frame_ok S idx low V st f" "fr_node f = u \<Longrightarrow> y \<in> st \<and> idx y = l \<and> (u, y) \<in> (edges S)\<^sup>*"
  shows "frame_ok S idx (low(u := min (low u) l)) V st f"
proof (cases "fr_node f = u")
  case True
  have "\<exists>z\<in>st. idx z = min (low u) l \<and> (u, z) \<in> (edges S)\<^sup>*"
    using assms True by (cases "low u \<le> l") (auto simp: frame_ok_def min_def)
  then show ?thesis using assms(1) True unfolding frame_ok_def by (auto simp: min.coboundedI1)
qed (use assms(1) in \<open>simp add: frame_ok_def\<close>)

lemma inv_lower:
  assumes "tarjan_inv S g G" "y \<in> set (stack_of G)" "(u, y) \<in> (edges S)\<^sup>*"
  shows "tarjan_inv S (gh_lower u (gh_idx g y) g) G"
  using assms(1) frame_ok_lower [where u = u and y = y and l = "gh_idx g y" and idx = "gh_idx g"] assms(2,3)
  unfolding tarjan_inv_def gh_simps by blast

lemma inv_drop:
  assumes i: "tarjan_inv S g (Frame v (w # ws) xs # G)" and w: "w \<in> gh_seen g"
    "w \<in> set (stack_of (Frame v (w # ws) xs # G)) \<Longrightarrow> gh_low g v \<le> gh_idx g w"
  shows "tarjan_inv S g (Frame v ws xs # G)"
proof -
  note p = inv_parts [OF i]
  have "frame_ok S (gh_idx g) (gh_low g) (gh_seen g) (set (stack_of (Frame v (w # ws) xs # G))) (Frame v ws xs)"
    by (rule frame_ok_drop [OF p(5)]) (use w in auto)
  then show ?thesis using p by (auto simp: tarjan_inv_def)
qed

lemma inv_look:
  assumes i: "tarjan_inv S g (Frame v (w # ws) xs # G)" and w: "w \<in> gh_seen g"
  shows "tarjan_inv S (if w \<in> set (stack_of (Frame v (w # ws) xs # G)) then gh_lower v (gh_idx g w) g else g)
           (Frame v ws xs # G)"
proof (cases "w \<in> set (stack_of (Frame v (w # ws) xs # G))")
  case True
  have "(v, w) \<in> (edges S)\<^sup>*" using inv_parts(5) [OF i, of "Frame v (w # ws) xs"] by (auto simp: frame_ok_def)
  from inv_lower [OF i True this] have "tarjan_inv S (gh_lower v (gh_idx g w) g) (Frame v ws xs # G)"
    by (rule inv_drop) (use w in simp_all)
  with True show ?thesis by simp
next
  case False
  from inv_drop [OF i w] False show ?thesis by auto
qed

text \<open>The frame of a stack node, and the top frame reaches down to every frame below the node it reaches.\<close>

lemma frame_of: "x \<in> set (stack_of G) \<Longrightarrow> \<exists>f\<in>set G. x = fr_node f \<or> x \<in> set (fr_done f)"
  by (induction G) auto

lemma reaches_back:
  assumes i: "tarjan_inv S g (Frame v ws xs # Frame u us ys # G)" and y: "y \<in> set (stack_of (Frame u us ys # G))"
  shows "(y, u) \<in> (edges S)\<^sup>*"
proof -
  obtain f where f: "f \<in> set (Frame u us ys # G)" "y = fr_node f \<or> y \<in> set (fr_done f)"
    using frame_of [OF y] by blast
  have "(y, fr_node f) \<in> (edges S)\<^sup>*"
    using f inv_parts(5) [OF i, of f] by (auto simp: frame_ok_def)
  moreover have "(fr_node f, u) \<in> (edges S)\<^sup>*"
    using f(1) inv_parts(6) [OF i] by auto
  ultimately show ?thesis by (rule rtrancl_trans)
qed

lemma low_witness:
  assumes i: "tarjan_inv S g (Frame v ws xs # G)" and l: "gh_low g v \<noteq> gh_idx g v"
  obtains y where "y \<in> set (stack_of G)" "gh_idx g y = gh_low g v" "(v, y) \<in> (edges S)\<^sup>*"
proof -
  note p = inv_parts [OF i]
  obtain y where y: "y \<in> set (stack_of (Frame v ws xs # G))" "gh_idx g y = gh_low g v" "(v, y) \<in> (edges S)\<^sup>*"
    "gh_low g v \<le> gh_idx g v" using p(5) [of "Frame v ws xs"] unfolding frame_ok_def by auto
  have "gh_idx g v < gh_idx g x" if "x \<in> set xs" for x using that p(3) by (auto simp: sorted_wrt_append)
  then have "y \<notin> set xs" "y \<noteq> v" using y(2,4) l by fastforce+
  with y that show ?thesis by auto
qed

lemma inv_last: "tarjan_inv S g [Frame v ws xs] \<Longrightarrow> gh_low g v = gh_idx g v"
  by (metis empty_iff empty_set low_witness stack_of_simps(1))

lemma inv_merge:
  assumes i: "tarjan_inv S g (Frame v [] xs # Frame u us ys # G)" and l: "gh_low g v \<noteq> gh_idx g v"
  shows "tarjan_inv S (gh_lower u (gh_low g v) g) (Frame u us (xs @ v # ys) # G)"
proof -
  let ?fs = "Frame v [] xs # Frame u us ys # G"
  obtain y where y: "y \<in> set (stack_of (Frame u us ys # G))" "gh_idx g y = gh_low g v" "(v, y) \<in> (edges S)\<^sup>*"
    by (rule low_witness [OF i l])
  have vu: "(v, u) \<in> (edges S)\<^sup>*" using y(3) reaches_back [OF i y(1)] by (rule rtrancl_trans)
  have uv: "(u, v) \<in> (edges S)\<^sup>*" using inv_parts(6) [OF i] by simp
  have uy: "(u, y) \<in> (edges S)\<^sup>*" using uv y(3) by (rule rtrancl_trans)
  have st: "stack_of (Frame u us (xs @ v # ys) # G) = stack_of ?fs" by simp
  have j: "tarjan_inv S (gh_lower u (gh_low g v) g) ?fs"
    using inv_lower [OF i _ uy] y(1,2) by auto
  note p = inv_parts [OF j]
  have fu: "frame_ok S (gh_idx g) (gh_low (gh_lower u (gh_low g v) g)) (gh_seen g) (set (stack_of ?fs)) (Frame u us ys)"
    using p(5) [of "Frame u us ys"] by simp
  have fv: "frame_ok S (gh_idx g) (gh_low g) (gh_seen g) (set (stack_of ?fs)) (Frame v [] xs)"
    using inv_parts(5) [OF i] by simp
  have "frame_ok S (gh_idx g) (gh_low (gh_lower u (gh_low g v) g)) (gh_seen g) (set (stack_of ?fs)) (Frame u us (xs @ v # ys))"
    unfolding frame_ok_def Frame.sel
  proof (intro conjI ballI)
    show "set (S x) \<subseteq> gh_seen g" if "x \<in> set (xs @ v # ys)" for x
      using that fu fv by (auto simp: frame_ok_def)
    show "(x, u) \<in> (edges S)\<^sup>*" if "x \<in> set (xs @ v # ys)" for x
      using that fu fv vu by (auto simp: frame_ok_def intro: rtrancl_trans)
    show "(u, x) \<in> (edges S)\<^sup>*" if "x \<in> set (xs @ v # ys)" for x
      using that fu fv uv by (auto simp: frame_ok_def intro: rtrancl_trans)
    show "gh_low (gh_lower u (gh_low g v) g) u \<le> gh_idx g z"
      if "x \<in> set (xs @ v # ys)" "z \<in> set (S x) \<inter> set (stack_of ?fs)" for x z
    proof (cases "x \<in> set ys")
      case True
      then show ?thesis using fu that(2) by (simp add: frame_ok_def)
    next
      case False
      then have "gh_low g v \<le> gh_idx g z" using fv that by (auto simp: frame_ok_def)
      then show ?thesis by simp
    qed
  qed (use fu in \<open>simp_all add: frame_ok_def\<close>)
  then show ?thesis using p unfolding tarjan_inv_def st gh_simps by auto
qed

lemma inv_emit:
  assumes i: "tarjan_inv S g (Frame v [] xs # G)" and l: "gh_low g v = gh_idx g v"
    and c: "set c = set (xs @ [v])" "distinct c"
  shows "tarjan_inv S (g\<lparr>gh_out := gh_out g @ [c]\<rparr>) G"
proof -
  let ?st = "stack_of (Frame v [] xs # G)"
  note p = inv_parts [OF i]
  have fv: "frame_ok S (gh_idx g) (gh_low g) (gh_seen g) (set ?st) (Frame v [] xs)" using p(5) by simp
  have below: "gh_idx g y < gh_idx g v" if "y \<in> set (stack_of G)" for y
    using that p(3) by (auto simp: sorted_wrt_append)
  have closed: "set (S x) \<subseteq> set (concat (gh_out g)) \<union> set (xs @ [v])" if x: "x \<in> set (xs @ [v])" for x
  proof
    fix y assume y: "y \<in> set (S x)"
    have "y \<in> gh_seen g" using x y fv by (auto simp: frame_ok_def)
    moreover have "gh_idx g v \<le> gh_idx g y" if "y \<in> set ?st"
      using x y that fv l by (auto simp: frame_ok_def)
    ultimately show "y \<in> set (concat (gh_out g)) \<union> set (xs @ [v])"
      using p(2) below by (fastforce simp: not_less [symmetric])
  qed
  have strong: "(x, y) \<in> (edges S)\<^sup>*" if "x \<in> set (xs @ [v])" "y \<in> set (xs @ [v])" for x y
  proof -
    have "(x, v) \<in> (edges S)\<^sup>*" "(v, y) \<in> (edges S)\<^sup>*" using that fv by (auto simp: frame_ok_def)
    then show ?thesis by (rule rtrancl_trans)
  qed
  have frames: "frame_ok S (gh_idx g) (gh_low g) (gh_seen g) (set (stack_of G)) f" if f: "f \<in> set G" for f
  proof -
    have ok: "frame_ok S (gh_idx g) (gh_low g) (gh_seen g) (set ?st) f" using p(5) f by simp
    have "gh_idx g (fr_node f) < gh_idx g v" using below nodes_in_stack [OF f] .
    moreover obtain y where y: "y \<in> set ?st" "gh_idx g y = gh_low g (fr_node f)" "(fr_node f, y) \<in> (edges S)\<^sup>*"
      "gh_low g (fr_node f) \<le> gh_idx g (fr_node f)" using ok by (auto simp: frame_ok_def)
    moreover have "gh_idx g v \<le> gh_idx g z" if "z \<in> set (xs @ [v])" for z
      using that p(3) by (auto simp: sorted_wrt_append less_imp_le)
    ultimately have "y \<in> set (stack_of G)" by (fastforce simp: not_less [symmetric])
    with y ok show ?thesis unfolding frame_ok_def by auto
  qed
  show ?thesis unfolding tarjan_inv_def
  proof (intro conjI ballI)
    have "c \<noteq> []" using c(1) by auto
    then show "bottom_up S (gh_out (g\<lparr>gh_out := gh_out g @ [c]\<rparr>))"
      using bottom_up_snoc [OF p(7), of c] closed strong by (simp add: c(1))
  qed (use p frames c in \<open>auto simp: sorted_wrt_append\<close>)
qed

section \<open>The algorithm keeps the invariant\<close>

definition ghost :: "'a Tarjan \<Rightarrow> 'a Ghost" where
  "ghost s = \<lparr>gh_idx = (\<lambda>v. dict_get_or (tj_index s) v 0), gh_low = (\<lambda>v. dict_get_or (tj_low s) v 0),
     gh_seen = {v. dict_get (tj_index s) v \<noteq> None}, gh_next = tj_counter s, gh_out = tj_out s\<rparr>"

definition tarjan_ok :: "('a::linorder, 'a list) dict \<Rightarrow> 'a Tarjan \<Rightarrow> 'a Frame list \<Rightarrow> bool" where
  "tarjan_ok adj s G \<longleftrightarrow> tj_work s = map (\<lambda>f. (fr_node f, fr_todo f)) G \<and> tj_stack s = stack_of G
     \<and> tj_on s = set (stack_of G) \<and> tarjan_inv (succs adj) (ghost s) G"

lemma ghost_simps [simp]:
  "ghost (s\<lparr>tj_work := wk\<rparr>) = ghost s"
  "ghost (visit adj w s) = gh_visit w (ghost s)"
  "ghost (s\<lparr>tj_low := dict_set (tj_low s) u (min (dict_get_or (tj_low s) u 0) l)\<rparr>) = gh_lower u l (ghost s)"
  "ghost (s\<lparr>tj_stack := st, tj_on := on, tj_out := out\<rparr>) = ghost s\<lparr>gh_out := out\<rparr>"
  by (auto simp: ghost_def visit_def gh_visit_def gh_lower_def fun_eq_iff)

lemma pop_component [simp]: "v \<notin> set xs \<Longrightarrow> pop_component v (xs @ v # st) = (xs @ [v], st)"
  by (induction xs) auto

lemma visit_fields [simp]:
  "tj_work (visit adj w s) = (w, succs adj w) # tj_work s" "tj_stack (visit adj w s) = w # tj_stack s"
  "tj_on (visit adj w s) = insert w (tj_on s)"
  by (simp_all add: visit_def)

lemma tarjan_ok_visit:
  assumes "tj_work s = map (\<lambda>f. (fr_node f, fr_todo f)) G" "tj_stack s = stack_of G" "tj_on s = set (stack_of G)"
    "tarjan_inv (succs adj) (gh_visit w (ghost s)) (Frame w (succs adj w) [] # G)"
  shows "tarjan_ok adj (visit adj w s) (Frame w (succs adj w) [] # G)"
  using assms by (simp add: tarjan_ok_def)

lemma tarjan_ok_leave:
  assumes ok: "tarjan_ok adj s (Frame v [] xs # G)"
  shows "\<exists>G'. tarjan_ok adj (leave v (map (\<lambda>f. (fr_node f, fr_todo f)) G) s) G' \<and> length G' \<le> length G
    \<and> map fr_todo G' = map fr_todo G"
proof -
  let ?rest = "map (\<lambda>f. (fr_node f, fr_todo f)) G"
  have i: "tarjan_inv (succs adj) (ghost s) (Frame v [] xs # G)" and st: "tj_stack s = xs @ v # stack_of G"
    "tj_on s = set (tj_stack s)" using ok by (auto simp: tarjan_ok_def)
  have idx: "gh_idx (ghost s) x = dict_get_or (tj_index s) x 0" "gh_low (ghost s) x = dict_get_or (tj_low s) x 0" for x
    by (simp_all add: ghost_def)
  show ?thesis
  proof (cases "gh_low (ghost s) v = gh_idx (ghost s) v")
    case True
    have d: "v \<notin> set xs" "v \<notin> set (stack_of G)" "set xs \<inter> set (stack_of G) = {}" "distinct xs"
      using inv_parts(1) [OF i] by auto
    have e: "emit_component v s = s\<lparr>tj_stack := stack_of G, tj_on := set (stack_of G), tj_out := tj_out s @ [xs @ [v]]\<rparr>"
    proof -
      have "tj_on s - insert v (set xs) = set (stack_of G)" using st d by auto
      then show ?thesis using st(1) d(1) by (simp add: emit_component_def)
    qed
    have g: "ghost (emit_component v s) = ghost s\<lparr>gh_out := gh_out (ghost s) @ [xs @ [v]]\<rparr>"
      unfolding e by (simp add: ghost_def)
    have j: "tarjan_inv (succs adj) (ghost (emit_component v s)) G" unfolding g by (rule inv_emit [OF i True]) (use d in auto)
    show ?thesis
    proof (cases G)
      case Nil
      then show ?thesis using True j e by (auto simp: leave_def idx tarjan_ok_def)
    next
      case (Cons f G0)
      let ?u = "fr_node f"
      have "gh_low (ghost s) ?u \<le> gh_idx (ghost s) ?u" "gh_idx (ghost s) ?u < gh_idx (ghost s) v"
        using inv_parts(5) [OF i, of f] inv_parts(3) [OF i] Cons by (auto simp: frame_ok_def sorted_wrt_append)
      then have low: "gh_lower ?u (gh_low (ghost s) v) (ghost (emit_component v s)) = ghost (emit_component v s)"
        using True g by (auto simp: gh_lower_def fun_eq_iff min_def)
      have "leave v ?rest s = (emit_component v s)\<lparr>tj_work := ?rest,
          tj_low := dict_set (tj_low (emit_component v s)) ?u (min (dict_get_or (tj_low (emit_component v s)) ?u 0) (gh_low (ghost s) v))\<rparr>"
        using True Cons by (simp add: leave_def idx e)
      moreover from this have "ghost (leave v ?rest s) = gh_lower ?u (gh_low (ghost s) v) (ghost (emit_component v s))"
        by (simp add: ghost_def gh_lower_def fun_eq_iff)
      ultimately have "tarjan_ok adj (leave v ?rest s) G"
        using j low e by (simp add: tarjan_ok_def)
      then show ?thesis by blast
    qed
  next
    case False
    then obtain u us ys G0 where G: "G = Frame u us ys # G0"
      using i inv_last [of "succs adj" "ghost s" v "[]" xs] by (cases G; metis Frame.exhaust)
    have "tarjan_inv (succs adj) (gh_lower u (gh_low (ghost s) v) (ghost s)) (Frame u us (xs @ v # ys) # G0)"
      using inv_merge [OF i [unfolded G] False] .
    then have "tarjan_ok adj (leave v ?rest s) (Frame u us (xs @ v # ys) # G0)"
      using False G st by (simp add: leave_def idx tarjan_ok_def ghost_def gh_lower_def fun_upd_def)
    then show ?thesis using G by (intro exI [of _ "Frame u us (xs @ v # ys) # G0"]) simp
  qed
qed

text \<open>One step: nothing is ever unvisited, and a step that visits nothing leaves less to do.\<close>

definition todo_size :: "'a Frame list \<Rightarrow> nat" where
  "todo_size G = sum_list (map (\<lambda>l. Suc (length l)) (map fr_todo G))"

lemma tarjan_step_ok:
  assumes ok: "tarjan_ok adj s G" and G: "G \<noteq> []"
  shows "\<exists>G'. tarjan_ok adj (tarjan_step adj s) G' \<and>
     ((\<exists>w f. f \<in> set G \<and> w \<in> set (succs adj (fr_node f)) \<and> w \<notin> gh_seen (ghost s)
        \<and> gh_seen (ghost (tarjan_step adj s)) = insert w (gh_seen (ghost s)))
      \<or> gh_seen (ghost (tarjan_step adj s)) = gh_seen (ghost s) \<and> todo_size G' < todo_size G)"
proof -
  obtain v ws xs G0 where g: "G = Frame v ws xs # G0" using G by (metis Frame.exhaust list.exhaust)
  let ?rest = "map (\<lambda>f. (fr_node f, fr_todo f)) G0"
  have i: "tarjan_inv (succs adj) (ghost s) (Frame v ws xs # G0)"
    and s: "tj_work s = (v, ws) # ?rest" "tj_stack s = stack_of G" "tj_on s = set (stack_of G)"
    using ok g by (auto simp: tarjan_ok_def)
  show ?thesis
  proof (cases ws)
    case Nil
    have step: "tarjan_step adj s = leave v ?rest s" using s(1) Nil by (simp add: tarjan_step_def)
    have seen: "gh_seen (ghost (leave v ?rest s)) = gh_seen (ghost s)"
      by (simp add: leave_def emit_component_def ghost_def Let_def split: list.split prod.split)
    obtain G' where "tarjan_ok adj (leave v ?rest s) G'" "map fr_todo G' = map fr_todo G0"
      using tarjan_ok_leave [of adj s v xs G0] ok g Nil by auto
    moreover from this(2) have "todo_size G' < todo_size G"
      by (simp add: todo_size_def g del: map_map)
    ultimately show ?thesis using seen unfolding step by blast
  next
    case (Cons w ws')
    let ?s1 = "s\<lparr>tj_work := (v, ws') # ?rest\<rparr>"
    have wS: "w \<in> set (succs adj v)" using inv_parts(5) [OF i, of "Frame v ws xs"] Cons by (auto simp: frame_ok_def)
    show ?thesis
    proof (cases "w \<in> gh_seen (ghost s)")
      case False
      then have step: "tarjan_step adj s = visit adj w ?s1"
        using s(1) Cons by (simp add: tarjan_step_def Let_def ghost_def)
      have "tarjan_ok adj (visit adj w ?s1) (Frame w (succs adj w) [] # Frame v ws' xs # G0)"
        by (rule tarjan_ok_visit) (use s g Cons inv_visit [OF i [unfolded Cons] False] in simp_all)
      moreover have "gh_seen (ghost (tarjan_step adj s)) = insert w (gh_seen (ghost s))" unfolding step by simp
      moreover have "Frame v ws xs \<in> set G" "w \<in> set (succs adj (fr_node (Frame v ws xs)))" using g wS by simp_all
      ultimately show ?thesis using False unfolding step by blast
    next
      case True
      let ?s2 = "if w \<in> tj_on s then ?s1\<lparr>tj_low := dict_set (tj_low s) v (min (dict_get_or (tj_low s) v 0) (dict_get_or (tj_index s) w 0))\<rparr> else ?s1"
      have step: "tarjan_step adj s = ?s2"
        using s(1) Cons True by (auto simp: tarjan_step_def Let_def ghost_def)
      have gh: "ghost ?s2 = (if w \<in> set (stack_of G) then gh_lower v (gh_idx (ghost s) w) (ghost s) else ghost s)"
        using s(3) by (auto simp: ghost_def gh_lower_def fun_eq_iff)
      have "tarjan_ok adj ?s2 (Frame v ws' xs # G0)"
        using inv_look [OF i [unfolded Cons] True] s g Cons unfolding tarjan_ok_def gh
        by (cases "w \<in> set (stack_of G)") simp_all
      moreover have "gh_seen (ghost ?s2) = gh_seen (ghost s)" unfolding gh by simp
      moreover have "todo_size (Frame v ws' xs # G0) < todo_size G" by (simp add: todo_size_def g Cons)
      ultimately show ?thesis unfolding step by blast
    qed
  qed
qed

lemma tarjan_ok_done: "tarjan_ok adj s G \<Longrightarrow> tj_work s = [] \<longleftrightarrow> G = []"
  by (auto simp: tarjan_ok_def)

text \<open>Every successor the graph names is a node of it.\<close>

definition closed_graph :: "('a::linorder, 'a list) dict \<Rightarrow> bool" where
  "closed_graph adj \<longleftrightarrow> (\<forall>kv\<in>set adj. set (snd kv) \<subseteq> set (dict_keys adj))"

lemma closed_succs: "closed_graph adj \<Longrightarrow> set (succs adj v) \<subseteq> set (dict_keys adj)"
  unfolding closed_graph_def succs_def dict_get_or_def
  by (cases "dict_get adj v") (fastforce dest: dict_get_SomeD)+

lemma drive_ends:
  assumes "closed_graph adj" "tarjan_ok adj s G"
  shows "\<exists>s'. drive adj s = Some s' \<and> tarjan_ok adj s' [] \<and> gh_seen (ghost s) \<subseteq> gh_seen (ghost s')
    \<and> gh_seen (ghost s') \<subseteq> gh_seen (ghost s) \<union> set (dict_keys adj)"
  using assms(2)
proof (induction "(card (set (dict_keys adj) - gh_seen (ghost s)), todo_size G)" arbitrary: s G
    rule: wf_induct_rule [OF wf_lex_prod [OF wf_less_than wf_less_than]])
  case (1 s G)
  show ?case
  proof (cases "G = []")
    case True
    then show ?thesis using 1(2) tarjan_ok_done [OF 1(2)] by (simp add: drive.simps [of adj s])
  next
    case False
    let ?s = "tarjan_step adj s"
    have d: "drive adj s = drive adj ?s"
      using tarjan_ok_done [OF 1(2)] False by (simp add: drive.simps [of adj s])
    obtain G' where G': "tarjan_ok adj ?s G'"
      "(\<exists>w f. f \<in> set G \<and> w \<in> set (succs adj (fr_node f)) \<and> w \<notin> gh_seen (ghost s)
          \<and> gh_seen (ghost ?s) = insert w (gh_seen (ghost s)))
        \<or> gh_seen (ghost ?s) = gh_seen (ghost s) \<and> todo_size G' < todo_size G"
      using tarjan_step_ok [OF 1(2) False] by blast
    have w: "w \<in> set (dict_keys adj)" if "w \<in> set (succs adj v)" for w v
      using closed_succs [OF assms(1)] that by blast
    have "((card (set (dict_keys adj) - gh_seen (ghost ?s)), todo_size G'),
        (card (set (dict_keys adj) - gh_seen (ghost s)), todo_size G)) \<in> less_than <*lex*> less_than"
      using G'(2)
    proof
      assume "\<exists>w f. f \<in> set G \<and> w \<in> set (succs adj (fr_node f)) \<and> w \<notin> gh_seen (ghost s)
          \<and> gh_seen (ghost ?s) = insert w (gh_seen (ghost s))"
      then obtain z where z: "z \<in> set (dict_keys adj)" "z \<notin> gh_seen (ghost s)" "gh_seen (ghost ?s) = insert z (gh_seen (ghost s))"
        using w by blast
      then have "card (set (dict_keys adj) - gh_seen (ghost ?s)) < card (set (dict_keys adj) - gh_seen (ghost s))"
        by (intro psubset_card_mono) auto
      then show ?thesis by simp
    qed simp
    from 1(1) [OF this G'(1)] obtain s' where s': "drive adj ?s = Some s'" "tarjan_ok adj s' []"
      "gh_seen (ghost ?s) \<subseteq> gh_seen (ghost s')" "gh_seen (ghost s') \<subseteq> gh_seen (ghost ?s) \<union> set (dict_keys adj)" by blast
    have "gh_seen (ghost s) \<subseteq> gh_seen (ghost ?s)" "gh_seen (ghost ?s) \<subseteq> gh_seen (ghost s) \<union> set (dict_keys adj)"
      using G'(2) w by auto
    then have "gh_seen (ghost s) \<subseteq> gh_seen (ghost s')" "gh_seen (ghost s') \<subseteq> gh_seen (ghost s) \<union> set (dict_keys adj)"
      using s'(3,4) by auto
    then show ?thesis unfolding d using s'(1,2) by blast
  qed
qed

lemma scan_roots_ends:
  assumes "closed_graph adj"
  shows "tarjan_ok adj s [] \<Longrightarrow> set rs \<subseteq> set (dict_keys adj) \<Longrightarrow> gh_seen (ghost s) \<subseteq> set (dict_keys adj)
    \<Longrightarrow> \<exists>s'. scan_roots adj rs s = Some s' \<and> tarjan_ok adj s' []
          \<and> gh_seen (ghost s) \<union> set rs \<subseteq> gh_seen (ghost s') \<and> gh_seen (ghost s') \<subseteq> set (dict_keys adj)"
proof (induction rs arbitrary: s)
  case (Cons r rs)
  show ?case
  proof (cases "r \<in> gh_seen (ghost s)")
    case True
    then have "dict_get (tj_index s) r \<noteq> None" by (simp add: ghost_def)
    then show ?thesis using Cons(1) [OF Cons(2) _ Cons(4)] Cons(3) True by auto
  next
    case False
    have s: "tj_work s = []" "tj_stack s = []" "tj_on s = {}" "tarjan_inv (succs adj) (ghost s) []"
      using Cons(2) by (auto simp: tarjan_ok_def)
    have "tarjan_ok adj (visit adj r s) [Frame r (succs adj r) []]"
      by (rule tarjan_ok_visit) (use s inv_root [OF s(4) False] in simp_all)
    from drive_ends [OF assms this] obtain s1 where s1: "drive adj (visit adj r s) = Some s1" "tarjan_ok adj s1 []"
      "insert r (gh_seen (ghost s)) \<subseteq> gh_seen (ghost s1)" "gh_seen (ghost s1) \<subseteq> insert r (gh_seen (ghost s)) \<union> set (dict_keys adj)"
      by auto
    then have "gh_seen (ghost s1) \<subseteq> set (dict_keys adj)" using Cons(3,4) by auto
    from Cons(1) [OF s1(2) _ this] Cons(3) obtain s2 where "scan_roots adj rs s1 = Some s2" "tarjan_ok adj s2 []"
      "gh_seen (ghost s1) \<union> set rs \<subseteq> gh_seen (ghost s2)" "gh_seen (ghost s2) \<subseteq> set (dict_keys adj)" by auto
    moreover have "dict_get (tj_index s) r = None" using False by (simp add: ghost_def)
    ultimately show ?thesis using s1 by auto
  qed
qed simp

section \<open>What the algorithm returns\<close>

lemma sccs_bottom_up:
  assumes "closed_graph adj"
  shows "\<exists>out. sccs adj = Some out \<and> distinct (concat out) \<and> set (concat out) = set (dict_keys adj)
    \<and> bottom_up (succs adj) out"
proof -
  have "tarjan_ok adj fresh_tarjan []" "gh_seen (ghost (fresh_tarjan :: 'a Tarjan)) = {}"
    by (simp_all add: tarjan_ok_def tarjan_inv_def ghost_def fresh_tarjan_def)
  from scan_roots_ends [OF assms this(1) order_refl] this(2)
  obtain s' where s': "scan_roots adj (dict_keys adj) fresh_tarjan = Some s'" "tarjan_ok adj s' []"
    "set (dict_keys adj) \<subseteq> gh_seen (ghost s')" "gh_seen (ghost s') \<subseteq> set (dict_keys adj)" by auto
  have i: "tarjan_inv (succs adj) (ghost s') []" and o: "gh_out (ghost s') = tj_out s'"
    using s'(2) by (simp_all add: tarjan_ok_def ghost_def)
  have "distinct (concat (tj_out s'))" "gh_seen (ghost s') = set (concat (tj_out s'))" "bottom_up (succs adj) (tj_out s')"
    using inv_parts(1,2,7) [OF i] by (simp_all add: o)
  then show ?thesis using s' by (auto simp: sccs_def)
qed

lemma bottom_up_reach:
  assumes "bottom_up S out" "(x, y) \<in> (edges S)\<^sup>*"
  shows "out = pre @ c # post \<Longrightarrow> x \<in> set c \<Longrightarrow> y \<in> set (concat (pre @ [c]))"
  using assms(2)
proof (induction arbitrary: pre c post rule: rtrancl_induct)
  case (step y z)
  from step(3) [OF step(4,5)] have "y \<in> set (concat (pre @ [c]))" .
  then obtain d where yd: "d \<in> set (pre @ [c])" "y \<in> set d" by auto
  obtain pre' post' where d: "pre @ [c] = pre' @ d # post'" using split_list [OF yd(1)] by blast
  have "out = pre' @ d # (post' @ post)" using step(4) d(1) by simp
  then have "set (S y) \<subseteq> set (concat pre') \<union> set d" using assms(1) yd(2) unfolding bottom_up_def by blast
  then show ?case using step(2) unfolding d by auto
qed auto

lemma bottom_up_classes:
  assumes b: "bottom_up S out" "distinct (concat out)" and c: "c \<in> set out" "x \<in> set c"
  shows "set c = {y. (x, y) \<in> (edges S)\<^sup>* \<and> (y, x) \<in> (edges S)\<^sup>*}"
proof (intro equalityI subsetI CollectI)
  fix y assume "y \<in> set c"
  then show "(x, y) \<in> (edges S)\<^sup>* \<and> (y, x) \<in> (edges S)\<^sup>*"
    using b(1) c split_list [OF c(1)] unfolding bottom_up_def by blast
next
  fix y assume y: "y \<in> {y. (x, y) \<in> (edges S)\<^sup>* \<and> (y, x) \<in> (edges S)\<^sup>*}"
  obtain pre post where out: "out = pre @ c # post" using split_list [OF c(1)] by blast
  have "y \<in> set (concat (pre @ [c]))" using bottom_up_reach [OF b(1) _ out c(2)] y by blast
  moreover have False if pre: "y \<in> set (concat pre)"
  proof -
    obtain d where d: "d \<in> set pre" "y \<in> set d" using pre by auto
    obtain pre1 pre2 where dp: "pre = pre1 @ d # pre2" using split_list [OF d(1)] by blast
    have "x \<in> set (concat (pre1 @ [d]))"
      by (rule bottom_up_reach [OF b(1)]) (use y out dp d in auto)
    then show False using b(2) c(2) unfolding out dp by auto
  qed
  ultimately show "y \<in> set c" by auto
qed

end
