(* ===== verification/Own_Summaries.thy ===== *)
theory Own_Summaries
  imports Own_Tarjan "HOL-Library.Char_ord" "HOL-Library.List_Lexorder"
begin

text \<open>
  The ownership summaries (\<open>ownlang/ownership.py\<close>): what a method does with each disposable
  parameter and what it returns, from the skeletons of the methods, by a fixpoint over the
  components of the call graph and a memoised walk along forwarded returns.
\<close>

section \<open>Transfers and skeletons\<close>

datatype Transfer = NO | MUST | MAY | UNKNOWN

definition transfer_join :: "Transfer \<Rightarrow> Transfer \<Rightarrow> Transfer" where
  "transfer_join a b = (if a = b then a else if a = UNKNOWN \<or> b = UNKNOWN then UNKNOWN else MAY)"

record PathAction =
  pa_kind :: string
  pa_callee :: string
  pa_arg :: int

record ParamSkeleton =
  pk_index :: int
  pk_name :: string
  pk_disposable :: bool
  pk_paths :: "PathAction list"
  pk_escapes :: bool

record ReturnSkeleton =
  rk_kind :: string
  rk_arg :: int
  rk_callee :: string

record MethodSkeleton =
  mk_key :: string
  mk_params :: "ParamSkeleton list"
  mk_ret :: ReturnSkeleton
  mk_file :: string
  mk_line :: int

record ParamSummary =
  pu_index :: int
  pu_name :: string
  pu_disposable :: bool
  pu_transfer :: Transfer
  pu_escapes :: bool

record MethodSummary =
  mu_key :: string
  mu_params :: "ParamSummary list"
  mu_returns :: string
  mu_file :: string
  mu_line :: int
  mu_source :: string

type_synonym Skeletons = "(string, MethodSkeleton) dict"
type_synonym ParamKey = "string \<times> int"

text \<open>\<open>None\<close> is the bottom, the seed of the fixpoint.\<close>

fun join_opt :: "Transfer option \<Rightarrow> Transfer option \<Rightarrow> Transfer option" where
  "join_opt None b = b"
| "join_opt a None = a"
| "join_opt (Some a) (Some b) = Some (transfer_join a b)"

section \<open>The call graph\<close>

definition add_dep :: "Skeletons \<Rightarrow> string list \<Rightarrow> PathAction \<Rightarrow> string list" where
  "add_dep sk deps a = (if pa_kind a = ''forward'' \<and> dict_get sk (pa_callee a) \<noteq> None
     then List.insert (pa_callee a) deps else deps)"

definition deps_of :: "Skeletons \<Rightarrow> MethodSkeleton \<Rightarrow> string list" where
  "deps_of sk skel =
     (let deps = foldl (add_dep sk) [] (concat (map pk_paths (mk_params skel)))
      in if rk_kind (mk_ret skel) = ''forward'' \<and> dict_get sk (rk_callee (mk_ret skel)) \<noteq> None
         then List.insert (rk_callee (mk_ret skel)) deps else deps)"

definition call_graph :: "Skeletons \<Rightarrow> (string, string list) dict" where
  "call_graph sk = map (\<lambda>kv. (fst kv, deps_of sk (snd kv))) sk"

section \<open>Parameter transfers\<close>

definition param_at :: "MethodSkeleton \<Rightarrow> int \<Rightarrow> ParamSkeleton option" where
  "param_at skel i = find (\<lambda>q. pk_index q = i) (mk_params skel)"

text \<open>\<open>log\<close> is the set of unresolved edges; \<open>pv\<close> the finished transfers, \<open>cur\<close> those of the component.\<close>

type_synonym Finished = "(ParamKey, Transfer) dict"
type_synonym Iterate = "(ParamKey, Transfer option) dict"

definition extern_edge :: "string \<Rightarrow> int \<Rightarrow> string" where
  "extern_edge callee arg = callee @ ''#'' @ int_str arg @ '' (extern, no summary)''"

definition lookup :: "Skeletons \<Rightarrow> Finished \<Rightarrow> string \<Rightarrow> int \<Rightarrow> Iterate \<Rightarrow> string list \<Rightarrow> Transfer option \<times> string list" where
  "lookup sk pv callee arg cur log =
     (case dict_get sk callee of
        None \<Rightarrow> (Some UNKNOWN, List.insert (extern_edge callee arg) log)
      | Some skel \<Rightarrow>
          (case param_at skel arg of
             None \<Rightarrow> (Some UNKNOWN, log)
           | Some p \<Rightarrow>
               if \<not> pk_disposable p then (Some NO, log)
               else (case dict_get pv (callee, arg) of
                   Some t \<Rightarrow> (Some t, log)
                 | None \<Rightarrow>
                     (case dict_get cur (callee, arg) of
                        Some t \<Rightarrow> (t, log)
                      | None \<Rightarrow> (Some UNKNOWN, log)))))"

definition contrib :: "Skeletons \<Rightarrow> Finished \<Rightarrow> PathAction \<Rightarrow> Iterate \<Rightarrow> string list \<Rightarrow> Transfer option \<times> string list" where
  "contrib sk pv a cur log =
     (if pa_kind a \<in> {''dispose'', ''adopt'', ''return''} then (Some MUST, log)
      else if pa_kind a = ''borrow'' then (Some NO, log)
      else if pa_kind a = ''forward'' then lookup sk pv (pa_callee a) (pa_arg a) cur log
      else (Some UNKNOWN, log))"

fun join_paths :: "Skeletons \<Rightarrow> Finished \<Rightarrow> PathAction list \<Rightarrow> Iterate \<Rightarrow> Transfer option \<Rightarrow> string list
    \<Rightarrow> Transfer option \<times> string list" where
  "join_paths sk pv [] cur acc log = (acc, log)"
| "join_paths sk pv (a # as) cur acc log =
     (case contrib sk pv a cur log of (t, log') \<Rightarrow> join_paths sk pv as cur (join_opt acc t) log')"

text \<open>The parameter exists: only parameters of the skeletons are asked for.\<close>

definition transfer_of :: "Skeletons \<Rightarrow> Finished \<Rightarrow> ParamKey \<Rightarrow> Iterate \<Rightarrow> string list \<Rightarrow> Transfer option \<times> string list" where
  "transfer_of sk pv m cur log =
     (let p = the (param_at (the (dict_get sk (fst m))) (snd m))
      in if pk_paths p = [] then (Some NO, log) else join_paths sk pv (pk_paths p) cur None log)"

fun sweep :: "Skeletons \<Rightarrow> Finished \<Rightarrow> ParamKey list \<Rightarrow> Iterate \<Rightarrow> bool \<Rightarrow> string list \<Rightarrow> Iterate \<times> bool \<times> string list" where
  "sweep sk pv [] cur changed log = (cur, changed, log)"
| "sweep sk pv (m # ms) cur changed log =
     (case transfer_of sk pv m cur log of (new, log') \<Rightarrow>
        if new \<noteq> dict_get_or cur m None then sweep sk pv ms (dict_set cur m new) True log'
        else sweep sk pv ms cur changed log')"

partial_function (option) ascend :: "Skeletons \<Rightarrow> Finished \<Rightarrow> ParamKey list \<Rightarrow> Iterate \<Rightarrow> string list
    \<Rightarrow> (Iterate \<times> string list) option" where
  "ascend sk pv ms cur log =
     (case sweep sk pv ms cur False log of (cur', changed, log') \<Rightarrow>
        if changed then ascend sk pv ms cur' log' else Some (cur', log'))"

declare ascend.simps [code]

definition members_of :: "Skeletons \<Rightarrow> string list \<Rightarrow> ParamKey list" where
  "members_of sk nodes = concat (map (\<lambda>k.
     map (\<lambda>p. (k, pk_index p)) (filter pk_disposable (mk_params (the (dict_get sk k))))) nodes)"

definition finalize :: "Transfer option \<Rightarrow> Transfer" where
  "finalize v = (case v of Some t \<Rightarrow> t | None \<Rightarrow> NO)"

definition solve_component :: "Skeletons \<Rightarrow> string list \<Rightarrow> Finished \<times> string list \<Rightarrow> (Finished \<times> string list) option" where
  "solve_component sk nodes s =
     (case s of (pv, log) \<Rightarrow>
        let ms = members_of sk nodes
        in if ms = [] then Some (pv, log)
           else (case ascend sk pv ms (foldl (\<lambda>d m. dict_set d m None) [] ms) log of
                   None \<Rightarrow> None
                 | Some (cur, log') \<Rightarrow>
                     Some (foldl (\<lambda>d m. dict_set d m (finalize (dict_get_or cur m None))) pv ms, log')))"

fun solve_components :: "Skeletons \<Rightarrow> string list list \<Rightarrow> Finished \<times> string list \<Rightarrow> (Finished \<times> string list) option" where
  "solve_components sk [] s = Some s"
| "solve_components sk (c # cs) s =
     (case solve_component sk c s of None \<Rightarrow> None | Some s' \<Rightarrow> solve_components sk cs s')"

section \<open>Returns\<close>

definition terminal :: "ReturnSkeleton \<Rightarrow> string" where
  "terminal r =
     (if rk_kind r = ''fresh'' then ''fresh''
      else if rk_kind r = ''aliasOf'' then ''aliasOf:'' @ int_str (rk_arg r)
      else if rk_kind r = ''aliased'' then ''aliased''
      else if rk_kind r = ''none'' then ''none''
      else ''unknown'')"

type_synonym Returns = "(string, string) dict"

definition extern_return :: "string \<Rightarrow> string" where
  "extern_return callee = ''return '' @ callee @ '' (extern, no summary)''"

text \<open>
  The walk along forwarded returns. The path is deepest first; a node enters it before the walk moves
  to its target, which is new, so the walk ends.
\<close>

function chase :: "Skeletons \<Rightarrow> Returns \<Rightarrow> string list \<Rightarrow> string \<Rightarrow> string list \<Rightarrow> string \<times> Returns \<times> string list \<times> string list" where
  "chase sk rv log key path =
     (case dict_get rv key of
        Some v \<Rightarrow> (v, rv, log, path)
      | None \<Rightarrow>
          (let r = mk_ret (the (dict_get sk key))
           in if rk_kind r \<noteq> ''forward'' then (terminal r, dict_set rv key (terminal r), log, path)
              else if dict_get sk (rk_callee r) = None
              then (''unknown'', dict_set rv key ''unknown'', List.insert (extern_return (rk_callee r)) log, path)
              else if rk_callee r = key \<or> rk_callee r \<in> set path
              then (''unknown'', dict_set rv key ''unknown'', log, path)
              else chase sk rv log (rk_callee r) (key # path)))"
  by pat_completeness auto
termination
proof (relation "measure (\<lambda>(sk, rv, log, key, path). card (set (dict_keys sk) - set (key # path)))", goal_cases)
  case (2 sk rv log key path r)
  have "rk_callee r \<in> set (dict_keys sk) - set (key # path)" using 2 by (simp add: dict_keys_get)
  then have "set (dict_keys sk) - set (rk_callee r # key # path) \<subset> set (dict_keys sk) - set (key # path)" by auto
  then show ?case by (auto intro!: psubset_card_mono)
qed simp

declare chase.simps [simp del]

definition degrade :: "string \<Rightarrow> string" where
  "degrade val = (if take 8 val = ''aliasOf:'' then ''unknown'' else val)"

fun propagate :: "string \<Rightarrow> Returns \<Rightarrow> string list \<Rightarrow> Returns" where
  "propagate val rv [] = rv"
| "propagate val rv (k # ks) = propagate (degrade val) (dict_set rv k (degrade val)) ks"

definition resolve_return :: "Skeletons \<Rightarrow> string \<Rightarrow> Returns \<times> string list \<Rightarrow> string \<times> Returns \<times> string list" where
  "resolve_return sk start s =
     (case s of (rv, log) \<Rightarrow>
        (case dict_get rv start of
           Some v \<Rightarrow> (v, rv, log)
         | None \<Rightarrow>
             (case chase sk rv log start [] of (val, rv1, log1, path) \<Rightarrow>
                let rv2 = propagate val rv1 path
                in (dict_get_or rv2 start [], rv2, log1))))"

section \<open>Solving\<close>

definition param_summary :: "Finished \<Rightarrow> string \<Rightarrow> ParamSkeleton \<Rightarrow> ParamSummary" where
  "param_summary pv key p = \<lparr>pu_index = pk_index p, pu_name = pk_name p, pu_disposable = pk_disposable p,
     pu_transfer = (if pk_disposable p then dict_get_or pv (key, pk_index p) NO else NO), pu_escapes = pk_escapes p\<rparr>"

fun summarize :: "Skeletons \<Rightarrow> Finished \<Rightarrow> (string \<times> MethodSkeleton) list \<Rightarrow> Returns \<times> string list
    \<Rightarrow> (string \<times> MethodSummary) list \<times> string list" where
  "summarize sk pv [] s = ([], snd s)"
| "summarize sk pv ((key, skel) # rest) s =
     (case resolve_return sk key s of (val, s') \<Rightarrow>
        (case summarize sk pv rest s' of (out, log) \<Rightarrow>
           ((key, \<lparr>mu_key = key, mu_params = map (param_summary pv key) (mk_params skel), mu_returns = val,
                   mu_file = mk_file skel, mu_line = mk_line skel, mu_source = ''inferred''\<rparr>) # out, log)))"

text \<open>A duplicate key is a \<open>ValueError\<close> that names it.\<close>

fun index_skeletons :: "MethodSkeleton list \<Rightarrow> Skeletons \<Rightarrow> (string, Skeletons) result" where
  "index_skeletons [] sk = Inr sk"
| "index_skeletons (s # ss) sk =
     (if dict_get sk (mk_key s) \<noteq> None then Inl (mk_key s)
      else index_skeletons ss (dict_set sk (mk_key s) s))"

definition solve_skeletons :: "Skeletons \<Rightarrow> ((string, MethodSummary) dict \<times> string list) option" where
  "solve_skeletons sk =
     (case sccs (call_graph sk) of
        None \<Rightarrow> None
      | Some comps \<Rightarrow>
          (case solve_components sk comps ([], []) of
             None \<Rightarrow> None
           | Some (pv, log) \<Rightarrow>
               (case summarize sk pv sk ([], log) of (out, log') \<Rightarrow> Some (out, sort log'))))"

definition solve_with_log :: "MethodSkeleton list \<Rightarrow> ((string, (string, MethodSummary) dict \<times> string list) result) option" where
  "solve_with_log skeletons =
     (case index_skeletons skeletons [] of
        Inl key \<Rightarrow> Some (Inl key)
      | Inr sk \<Rightarrow> map_option Inr (solve_skeletons sk))"

end
