(* ===== verification/Own_Transfers.thy ===== *)
theory Own_Transfers
  imports Own_Summaries
begin

text \<open>
  The parameter transfers of the ownership summaries: the lattice, the equations they solve, the
  ascent to the least solution of a component, and what a transfer says about the executions of a
  method.
\<close>

section \<open>The lattice\<close>

fun height :: "Transfer option \<Rightarrow> nat" where
  "height None = 0"
| "height (Some NO) = 1"
| "height (Some MUST) = 1"
| "height (Some MAY) = 2"
| "height (Some UNKNOWN) = 3"

definition tle :: "Transfer option \<Rightarrow> Transfer option \<Rightarrow> bool" where
  "tle a b \<longleftrightarrow> a = b \<or> height a < height b"

lemma height_le: "height v \<le> 3"
  by (cases v rule: height.cases) simp_all

lemma join_opt_None [simp]: "join_opt a None = a"
  by (cases a) simp_all

lemma join_opt_eq: "join_opt a b = (if tle a b then b else if tle b a then a else Some MAY)"
  by (cases a rule: height.cases; cases b rule: height.cases) (simp_all add: tle_def transfer_join_def)

interpretation mos: join_lattice tle join_opt
proof
  fix x y z :: "Transfer option"
  show "tle x y \<Longrightarrow> tle y z \<Longrightarrow> tle x z" by (auto simp: tle_def)
  show "tle x y \<Longrightarrow> tle y x \<Longrightarrow> x = y" by (auto simp: tle_def)
  show "tle x (join_opt x y)" "tle y (join_opt x y)"
    by (cases x rule: height.cases; cases y rule: height.cases; simp add: tle_def transfer_join_def)+
  show "tle x z \<Longrightarrow> tle y z \<Longrightarrow> tle (join_opt x y) z"
    by (cases x rule: height.cases; cases y rule: height.cases; cases z rule: height.cases)
      (simp_all add: tle_def transfer_join_def)
qed (simp add: tle_def)

lemma tle_None [simp]: "tle None v" "tle v None \<longleftrightarrow> v = None"
  by (cases v rule: height.cases; simp add: tle_def)+

section \<open>The equations\<close>

definition look :: "Skeletons \<Rightarrow> (ParamKey \<Rightarrow> Transfer option) \<Rightarrow> string \<Rightarrow> int \<Rightarrow> Transfer option" where
  "look sk \<rho> callee arg = (case dict_get sk callee of
       None \<Rightarrow> Some UNKNOWN
     | Some skel \<Rightarrow> (case param_at skel arg of
           None \<Rightarrow> Some UNKNOWN
         | Some p \<Rightarrow> if pk_disposable p then \<rho> (callee, arg) else Some NO))"

definition act_value :: "Skeletons \<Rightarrow> (ParamKey \<Rightarrow> Transfer option) \<Rightarrow> PathAction \<Rightarrow> Transfer option" where
  "act_value sk \<rho> a =
     (if pa_kind a \<in> {''dispose'', ''adopt'', ''return''} then Some MUST
      else if pa_kind a = ''borrow'' then Some NO
      else if pa_kind a = ''forward'' then look sk \<rho> (pa_callee a) (pa_arg a)
      else Some UNKNOWN)"

definition paths_at :: "Skeletons \<Rightarrow> ParamKey \<Rightarrow> PathAction list" where
  "paths_at sk m = pk_paths (the (param_at (the (dict_get sk (fst m))) (snd m)))"

definition rhs :: "Skeletons \<Rightarrow> (ParamKey \<Rightarrow> Transfer option) \<Rightarrow> ParamKey \<Rightarrow> Transfer option" where
  "rhs sk \<rho> m = (if paths_at sk m = [] then Some NO else foldl join_opt None (map (act_value sk \<rho>) (paths_at sk m)))"

text \<open>The externs a parameter forwards to.\<close>

definition extern_at :: "Skeletons \<Rightarrow> PathAction \<Rightarrow> string set" where
  "extern_at sk a = (if pa_kind a = ''forward'' \<and> dict_get sk (pa_callee a) = None
     then {extern_edge (pa_callee a) (pa_arg a)} else {})"

definition externs_of :: "Skeletons \<Rightarrow> ParamKey \<Rightarrow> string set" where
  "externs_of sk m = (\<Union>a\<in>set (paths_at sk m). extern_at sk a)"

definition env :: "Finished \<Rightarrow> Iterate \<Rightarrow> ParamKey \<Rightarrow> Transfer option" where
  "env pv cur m = (case dict_get pv m of
       Some t \<Rightarrow> Some t
     | None \<Rightarrow> (case dict_get cur m of Some v \<Rightarrow> v | None \<Rightarrow> Some UNKNOWN))"

lemma contrib_eq:
  "fst (contrib sk pv a cur log) = act_value sk (env pv cur) a"
  "set (snd (contrib sk pv a cur log)) = set log \<union> extern_at sk a"
  by (auto simp: contrib_def act_value_def extern_at_def lookup_def look_def env_def split: option.split)

lemma join_paths_eq:
  "fst (join_paths sk pv as cur acc log) = foldl join_opt acc (map (act_value sk (env pv cur)) as)"
  "set (snd (join_paths sk pv as cur acc log)) = set log \<union> (\<Union>a\<in>set as. extern_at sk a)"
proof (induction as arbitrary: acc log)
  case (Cons a as)
  {
    case 1
    then show ?case using Cons contrib_eq [of sk pv a cur log] by (cases "contrib sk pv a cur log") auto
  next
    case 2
    then show ?case using Cons contrib_eq [of sk pv a cur log] by (cases "contrib sk pv a cur log") auto
  }
qed simp_all

lemma transfer_of_eq:
  "fst (transfer_of sk pv m cur log) = rhs sk (env pv cur) m"
  "set (snd (transfer_of sk pv m cur log)) = set log \<union> externs_of sk m"
  by (auto simp: transfer_of_def rhs_def paths_at_def externs_of_def Let_def join_paths_eq)

lemma act_value_mono: "(\<And>k. tle (\<rho> k) (\<rho>' k)) \<Longrightarrow> tle (act_value sk \<rho> a) (act_value sk \<rho>' a)"
  by (simp add: act_value_def look_def mos.le_refl split: option.split)

lemma rhs_mono: "(\<And>k. tle (\<rho> k) (\<rho>' k)) \<Longrightarrow> tle (rhs sk \<rho> m) (rhs sk \<rho>' m)"
  unfolding rhs_def
  by (auto simp: mos.le_refl list_all2_map1 list_all2_map2 list_all2_same intro!: mos.foldl_jn_mono act_value_mono)

section \<open>The ascent\<close>

text \<open>The equations of a component: everything outside \<open>M\<close> is finished.\<close>

definition within :: "(ParamKey \<Rightarrow> Transfer option) \<Rightarrow> ParamKey set \<Rightarrow> (ParamKey \<Rightarrow> Transfer option) \<Rightarrow> ParamKey \<Rightarrow> Transfer option" where
  "within done M \<sigma> m = (if m \<in> M then \<sigma> m else done m)"

definition system :: "Skeletons \<Rightarrow> (ParamKey \<Rightarrow> Transfer option) \<Rightarrow> ParamKey set
    \<Rightarrow> (ParamKey \<Rightarrow> Transfer option) \<Rightarrow> ParamKey \<Rightarrow> Transfer option" where
  "system sk done M \<sigma> m = rhs sk (within done M \<sigma>) m"

interpretation mos: ascent tle join_opt height 3 "system sk done (set ms)" "set ms" for sk "done" ms
proof
  fix x y :: "Transfer option" and \<sigma> \<tau> :: "ParamKey \<Rightarrow> Transfer option" and m
  show "tle x y \<Longrightarrow> x \<noteq> y \<Longrightarrow> height x < height y" by (simp add: tle_def)
  show "tle (system sk done (set ms) \<sigma> m) (system sk done (set ms) \<tau> m)"
    if "\<And>k. k \<in> set ms \<Longrightarrow> tle (\<sigma> k) (\<tau> k)"
    unfolding system_def by (rule rhs_mono) (simp add: within_def that mos.le_refl)
qed (simp_all add: height_le)

text \<open>What a sweep keeps: the iterate has exactly the keys of the component.\<close>

definition iterate_ok :: "Skeletons \<Rightarrow> Finished \<Rightarrow> ParamKey set \<Rightarrow> Iterate \<Rightarrow> bool" where
  "iterate_ok sk pv M cur \<longleftrightarrow> dom (dict_get cur) = M \<and> M \<inter> dom (dict_get pv) = {}
     \<and> rising tle (system sk (env pv []) M) M (\<lambda>m. dict_get_or cur m None)
     \<and> below_solutions tle (system sk (env pv []) M) M (\<lambda>m. dict_get_or cur m None)"

lemma env_within:
  assumes "iterate_ok sk pv M cur"
  shows "env pv cur = within (env pv []) M (\<lambda>m. dict_get_or cur m None)"
proof
  fix m
  have d: "dict_get cur m \<noteq> None \<longleftrightarrow> m \<in> M" "m \<in> M \<longrightarrow> dict_get pv m = None"
    using assms by (auto simp: iterate_ok_def)
  then show "env pv cur m = within (env pv []) M (\<lambda>m. dict_get_or cur m None) m"
    by (cases "m \<in> M"; cases "dict_get cur m") (auto simp: env_def within_def dict_get_or_def split: option.split)
qed

lemma assign_ok:
  assumes ok: "iterate_ok sk pv (set ms) cur" and m: "m \<in> set ms"
  shows "iterate_ok sk pv (set ms) (dict_set cur m (rhs sk (env pv cur) m))"
proof -
  let ?v = "\<lambda>m. dict_get_or cur m None"
  have r: "rhs sk (env pv cur) m = system sk (env pv []) (set ms) ?v m"
    unfolding system_def env_within [OF ok] ..
  have "(\<lambda>k. dict_get_or (dict_set cur m (rhs sk (env pv cur) m)) k None) = ?v(m := system sk (env pv []) (set ms) ?v m)"
    unfolding r by (rule ext) simp
  then show ?thesis using ok m mos.assign_rising [of sk "env pv []" ms ?v m] mos.assign_below [of sk "env pv []" ms ?v m]
    unfolding iterate_ok_def dict_get_upd dom_fun_upd by (simp add: insert_absorb)
qed

definition slack_of :: "ParamKey set \<Rightarrow> Iterate \<Rightarrow> nat" where
  "slack_of M cur = slack height 3 M (\<lambda>m. dict_get_or cur m None)"

lemma assign_slack_of:
  assumes ok: "iterate_ok sk pv (set ms) cur" and m: "m \<in> set ms" "rhs sk (env pv cur) m \<noteq> dict_get_or cur m None"
  shows "slack_of (set ms) (dict_set cur m (rhs sk (env pv cur) m)) < slack_of (set ms) cur"
proof -
  let ?v = "\<lambda>m. dict_get_or cur m None"
  have r: "rhs sk (env pv cur) m = system sk (env pv []) (set ms) ?v m"
    unfolding system_def env_within [OF ok] ..
  have "(\<lambda>k. dict_get_or (dict_set cur m (rhs sk (env pv cur) m)) k None) = ?v(m := system sk (env pv []) (set ms) ?v m)"
    unfolding r by (rule ext) simp
  then show ?thesis using ok m mos.assign_slack [of sk "env pv []" ms ?v m]
    unfolding iterate_ok_def slack_of_def r by simp
qed

lemma sweep_ok:
  assumes "iterate_ok sk pv (set all) cur" "set ms \<subseteq> set all" "sweep sk pv ms cur ch log = (cur', ch', log')"
  shows "iterate_ok sk pv (set all) cur' \<and> slack_of (set all) cur' \<le> slack_of (set all) cur
    \<and> (ch \<longrightarrow> ch') \<and> (ch' \<and> \<not> ch \<longrightarrow> slack_of (set all) cur' < slack_of (set all) cur)
    \<and> (\<not> ch' \<longrightarrow> cur' = cur \<and> (\<forall>m\<in>set ms. rhs sk (env pv cur) m = dict_get_or cur m None))
    \<and> set log' = set log \<union> (\<Union>m\<in>set ms. externs_of sk m)"
  using assms
proof (induction ms arbitrary: cur ch log)
  case Nil
  then show ?case by simp
next
  case (Cons m ms)
  obtain new log1 where t: "transfer_of sk pv m cur log = (new, log1)" by (cases "transfer_of sk pv m cur log")
  have new: "new = rhs sk (env pv cur) m" "set log1 = set log \<union> externs_of sk m"
    using transfer_of_eq [of sk pv m cur log] by (simp_all add: t)
  show ?case
  proof (cases "new = dict_get_or cur m None")
    case True
    then have "sweep sk pv ms cur ch log1 = (cur', ch', log')" using Cons(4) by (simp add: t)
    from Cons(1) [OF Cons(2) _ this] Cons(3) show ?thesis using new True by auto
  next
    case False
    then have sw: "sweep sk pv ms (dict_set cur m new) True log1 = (cur', ch', log')" using Cons(4) by (simp add: t)
    have ok: "iterate_ok sk pv (set all) (dict_set cur m new)"
      unfolding new by (rule assign_ok [OF Cons(2)]) (use Cons(3) in simp)
    have less: "slack_of (set all) (dict_set cur m new) < slack_of (set all) cur"
      unfolding new by (rule assign_slack_of [OF Cons(2)]) (use Cons(3) False new in simp_all)
    from Cons(1) [OF ok _ sw] Cons(3) less new show ?thesis by auto
  qed
qed

lemma ascend_ok:
  assumes "iterate_ok sk pv (set ms) cur"
  shows "\<exists>cur' log'. ascend sk pv ms cur log = Some (cur', log')
    \<and> least_solution tle (system sk (env pv []) (set ms)) (set ms) (\<lambda>m. dict_get_or cur' m None)
    \<and> set log' = set log \<union> (\<Union>m\<in>set ms. externs_of sk m)"
  using assms
proof (induction "slack_of (set ms) cur" arbitrary: cur log rule: less_induct)
  case less
  obtain cur1 ch log1 where sw: "sweep sk pv ms cur False log = (cur1, ch, log1)"
    by (cases "sweep sk pv ms cur False log")
  note step = sweep_ok [OF less(2) order_refl sw]
  show ?case
  proof (cases ch)
    case True
    then have "slack_of (set ms) cur1 < slack_of (set ms) cur" "iterate_ok sk pv (set ms) cur1"
      using step by simp_all
    from less(1) [OF this] obtain cur' log' where "ascend sk pv ms cur1 log1 = Some (cur', log')"
      "least_solution tle (system sk (env pv []) (set ms)) (set ms) (\<lambda>m. dict_get_or cur' m None)"
      "set log' = set log1 \<union> (\<Union>m\<in>set ms. externs_of sk m)" by blast
    then show ?thesis using step True by (simp add: ascend.simps [of sk pv ms cur log] sw)
  next
    case False
    then have stable: "\<forall>m\<in>set ms. rhs sk (env pv cur) m = dict_get_or cur m None" "cur1 = cur"
      "set log1 = set log \<union> (\<Union>m\<in>set ms. externs_of sk m)"
      using step by blast+
    have "\<forall>m\<in>set ms. system sk (env pv []) (set ms) (\<lambda>m. dict_get_or cur m None) m = dict_get_or cur m None"
      using stable(1) unfolding system_def env_within [OF less(2)] .
    then have "least_solution tle (system sk (env pv []) (set ms)) (set ms) (\<lambda>m. dict_get_or cur m None)"
      using less(2) by (simp add: least_solution_def iterate_ok_def)
    then show ?thesis using stable(2,3) False by (simp add: ascend.simps [of sk pv ms cur log] sw)
  qed
qed

lemma dict_set_all:
  "dict_get (foldl (\<lambda>d m. dict_set d m (f m)) d ms) = (\<lambda>k. if k \<in> set ms then Some (f k) else dict_get d k)"
  by (induction ms arbitrary: d) (auto simp: fun_eq_iff simp del: split_paired_All)

lemma iterate_start:
  assumes "set ms \<inter> dom (dict_get pv) = {}"
  shows "iterate_ok sk pv (set ms) (foldl (\<lambda>d m. dict_set d m None) [] ms)"
proof -
  let ?c = "foldl (\<lambda>d m. dict_set d m None) [] ms :: Iterate"
  have "dict_get_or ?c m None = None" for m by (simp add: dict_get_or_def dict_set_all)
  moreover have "dom (dict_get ?c) = set ms" by (auto simp: dict_set_all split: if_split_asm)
  ultimately show ?thesis using assms by (simp add: iterate_ok_def rising_def below_solutions_def)
qed

section \<open>One component\<close>

lemma solve_component_ok:
  assumes "set (members_of sk c) \<inter> dom (dict_get pv) = {}"
  shows "\<exists>pv' log' \<sigma>. solve_component sk c (pv, log) = Some (pv', log')
    \<and> least_solution tle (system sk (env pv []) (set (members_of sk c))) (set (members_of sk c)) \<sigma>
    \<and> dict_get pv' = (\<lambda>m. if m \<in> set (members_of sk c) then Some (finalize (\<sigma> m)) else dict_get pv m)
    \<and> set log' = set log \<union> (\<Union>m\<in>set (members_of sk c). externs_of sk m)"
proof (cases "members_of sk c = []")
  case True
  then show ?thesis by (simp add: solve_component_def least_solution_def below_solutions_def)
next
  case False
  let ?ms = "members_of sk c"
  obtain cur' log' where a: "ascend sk pv ?ms (foldl (\<lambda>d m. dict_set d m None) [] ?ms) log = Some (cur', log')"
    "least_solution tle (system sk (env pv []) (set ?ms)) (set ?ms) (\<lambda>m. dict_get_or cur' m None)"
    "set log' = set log \<union> (\<Union>m\<in>set ?ms. externs_of sk m)"
    using ascend_ok [OF iterate_start [OF assms, of sk]] by blast
  show ?thesis
    using a False by (intro exI conjI) (auto simp: solve_component_def dict_set_all simp del: split_paired_All)
qed

end
