(* ===== verification/Own_Returns.thy ===== *)
theory Own_Returns
  imports Own_Summaries
begin

text \<open>
  What a method returns, as a relation that follows the forwarded return to its end, and the proof
  that the memoised walk of the ownership summaries computes it for every method, whatever the
  order they are asked in.
\<close>

section \<open>Following a forwarded return\<close>

text \<open>
  A return that forwards inside the program takes the callee's, where an alias of a parameter of
  the callee is unknown to the caller. A chain that never ends has no value here.
\<close>

definition ret_of :: "Skeletons \<Rightarrow> string \<Rightarrow> ReturnSkeleton" where
  "ret_of sk k = mk_ret (the (dict_get sk k))"

definition passes_on :: "Skeletons \<Rightarrow> (string \<times> string) set" where
  "passes_on sk = {(k, c). rk_kind (ret_of sk k) = ''forward'' \<and> rk_callee (ret_of sk k) = c \<and> dict_get sk c \<noteq> None}"

inductive returns_to :: "Skeletons \<Rightarrow> string \<Rightarrow> string \<Rightarrow> bool" for sk where
  ends: "rk_kind (ret_of sk k) \<noteq> ''forward'' \<Longrightarrow> returns_to sk k (terminal (ret_of sk k))"
| extern: "rk_kind (ret_of sk k) = ''forward'' \<Longrightarrow> dict_get sk (rk_callee (ret_of sk k)) = None \<Longrightarrow> returns_to sk k ''unknown''"
| passed: "(k, c) \<in> passes_on sk \<Longrightarrow> returns_to sk c v \<Longrightarrow> returns_to sk k (degrade v)"

inductive_cases returns_toE: "returns_to sk k v"

definition return_value :: "Skeletons \<Rightarrow> string \<Rightarrow> string \<Rightarrow> bool" where
  "return_value sk k v \<longleftrightarrow> returns_to sk k v \<or> (\<nexists>v'. returns_to sk k v') \<and> v = ''unknown''"

lemma passes_on_det: "(k, c) \<in> passes_on sk \<Longrightarrow> (k, d) \<in> passes_on sk \<Longrightarrow> c = d"
  by (simp add: passes_on_def)

lemma returns_to_passed: "(k, c) \<in> passes_on sk \<Longrightarrow> returns_to sk k v \<Longrightarrow> \<exists>u. returns_to sk c u \<and> v = degrade u"
  by (erule returns_toE) (auto simp: passes_on_def)

lemma returns_to_det: "returns_to sk k v \<Longrightarrow> returns_to sk k w \<Longrightarrow> v = w"
proof (induction arbitrary: w rule: returns_to.induct)
  case (ends k)
  then show ?case by (auto simp: passes_on_def elim: returns_toE)
next
  case (extern k)
  from extern(3) show ?case using extern(1,2) by (cases rule: returns_to.cases) (auto simp: passes_on_def)
next
  case (passed k c v)
  obtain u where "returns_to sk c u" "w = degrade u"
    using returns_to_passed [OF passed(1,4)] by blast
  then show ?case using passed(3) by simp
qed

lemma return_value_det: "return_value sk k v \<Longrightarrow> return_value sk k w \<Longrightarrow> v = w"
  unfolding return_value_def using returns_to_det by blast

lemma degrade_unknown [simp]: "degrade ''unknown'' = ''unknown''"
  by (simp add: degrade_def)

lemma return_value_passed:
  assumes "(k, c) \<in> passes_on sk" "return_value sk c v"
  shows "return_value sk k (degrade v)"
proof (cases "returns_to sk c v")
  case True
  then show ?thesis unfolding return_value_def using passed [OF assms(1)] by blast
next
  case False
  then have "\<nexists>u. returns_to sk c u" "v = ''unknown''" using assms(2) by (auto simp: return_value_def)
  then show ?thesis unfolding return_value_def using returns_to_passed [OF assms(1)] by auto
qed

lemma returns_to_acyclic: "returns_to sk k v \<Longrightarrow> (k, k) \<notin> (passes_on sk)\<^sup>+"
proof (induction rule: returns_to.induct)
  case (ends k)
  then show ?case by (auto simp: passes_on_def dest: tranclD)
next
  case (extern k)
  then show ?case by (auto simp: passes_on_def dest: tranclD)
next
  case (passed k c v)
  show ?case
  proof
    assume "(k, k) \<in> (passes_on sk)\<^sup>+"
    then obtain d where "(k, d) \<in> passes_on sk" "(d, k) \<in> (passes_on sk)\<^sup>*" by (blast dest: tranclD)
    then have "(c, k) \<in> (passes_on sk)\<^sup>*" using passes_on_det [OF passed(1)] by simp
    then have "(c, c) \<in> (passes_on sk)\<^sup>+" using passed(1) by (rule rtrancl_into_trancl1)
    with passed(3) show False ..
  qed
qed

section \<open>The memoised walk\<close>

definition ret_extern :: "Skeletons \<Rightarrow> string \<Rightarrow> bool" where
  "ret_extern sk k \<longleftrightarrow> rk_kind (ret_of sk k) = ''forward'' \<and> dict_get sk (rk_callee (ret_of sk k)) = None"

text \<open>The memo holds values of the relation, and every extern it met is in the log.\<close>

definition memo_ok :: "Skeletons \<Rightarrow> Returns \<Rightarrow> string list \<Rightarrow> bool" where
  "memo_ok sk rv log \<longleftrightarrow> (\<forall>k v. dict_get rv k = Some v \<longrightarrow> return_value sk k v
     \<and> (ret_extern sk k \<longrightarrow> extern_return (rk_callee (ret_of sk k)) \<in> set log))"

lemma memo_ok_set:
  "memo_ok sk rv log \<Longrightarrow> return_value sk k v \<Longrightarrow> ret_extern sk k \<Longrightarrow>
     memo_ok sk (dict_set rv k v) (List.insert (extern_return (rk_callee (ret_of sk k))) log)"
  "memo_ok sk rv log \<Longrightarrow> return_value sk k v \<Longrightarrow> \<not> ret_extern sk k \<Longrightarrow> memo_ok sk (dict_set rv k v) log"
  by (auto simp: memo_ok_def)

fun chain :: "Skeletons \<Rightarrow> string list \<Rightarrow> string \<Rightarrow> bool" where
  "chain sk [] k = True"
| "chain sk (p # ps) k = ((p, k) \<in> passes_on sk \<and> chain sk ps p)"

lemma chain_reach: "chain sk ps k \<Longrightarrow> j \<in> set ps \<Longrightarrow> (j, k) \<in> (passes_on sk)\<^sup>*"
  by (induction sk ps k rule: chain.induct) (auto intro: rtrancl_into_rtrancl)

definition new_externs :: "Skeletons \<Rightarrow> string set" where
  "new_externs sk = {extern_return (rk_callee (ret_of sk k)) | k. ret_extern sk k \<and> dict_get sk k \<noteq> None}"

lemma chase_ok:
  assumes "memo_ok sk rv log" "chain sk path key" "dict_get sk key \<noteq> None" "chase sk rv log key path = (val, rv1, log1, path1)"
  shows "\<exists>stop. chain sk path1 stop \<and> last (stop # path1) = last (key # path) \<and> return_value sk stop val
    \<and> dict_get rv1 stop = Some val \<and> memo_ok sk rv1 log1 \<and> set log \<subseteq> set log1 \<and> set log1 \<subseteq> set log \<union> new_externs sk
    \<and> (\<forall>k. dict_get rv1 k \<noteq> None \<longleftrightarrow> dict_get rv k \<noteq> None \<or> k = stop)"
  using assms
proof (induction sk rv log key path rule: chase.induct)
  case (1 sk rv log key path)
  let ?r = "mk_ret (the (dict_get sk key))"
  note ch = 1(5) [unfolded chase.simps [of sk rv log key path]]
  have r: "ret_of sk key = ?r" by (simp add: ret_of_def)
  show ?case
  proof (cases "dict_get rv key")
    case (Some v)
    then have "val = v \<and> rv1 = rv \<and> log1 = log \<and> path1 = path" using ch by simp
    then show ?thesis using Some 1(2,3) by (intro exI [of _ key]) (auto simp: memo_ok_def)
  next
    case None
    consider "rk_kind ?r \<noteq> ''forward''" | "rk_kind ?r = ''forward''" "dict_get sk (rk_callee ?r) = None"
      | "rk_kind ?r = ''forward''" "dict_get sk (rk_callee ?r) \<noteq> None" "rk_callee ?r = key \<or> rk_callee ?r \<in> set path"
      | "rk_kind ?r = ''forward''" "dict_get sk (rk_callee ?r) \<noteq> None" "\<not> (rk_callee ?r = key \<or> rk_callee ?r \<in> set path)"
      by blast
    then show ?thesis
    proof cases
      case 1
      have v: "return_value sk key (terminal ?r)" using 1 ends [of sk key] by (simp add: return_value_def r)
      have "\<not> ret_extern sk key" using 1 by (simp add: ret_extern_def r)
      from memo_ok_set(2) [OF \<open>memo_ok sk rv log\<close> v this] ch None 1 v \<open>chain sk path key\<close>
      show ?thesis by (intro exI [of _ key]) (auto simp: Let_def)
    next
      case 2
      have v: "return_value sk key ''unknown''" using 2 extern [of sk key] by (simp add: return_value_def r)
      have x: "ret_extern sk key" using 2 by (simp add: ret_extern_def r)
      then have n: "extern_return (rk_callee ?r) \<in> new_externs sk"
        using \<open>dict_get sk key \<noteq> None\<close> unfolding new_externs_def r [symmetric] by blast
      from memo_ok_set(1) [OF \<open>memo_ok sk rv log\<close> v x] ch None 2 v n \<open>chain sk path key\<close>
      show ?thesis by (intro exI [of _ key]) (auto simp: Let_def r)
    next
      case 3
      have p: "(key, rk_callee ?r) \<in> passes_on sk" using 3 by (simp add: passes_on_def r)
      have "(rk_callee ?r, key) \<in> (passes_on sk)\<^sup>*" using 3(3) chain_reach [OF \<open>chain sk path key\<close>] by auto
      then have "(key, key) \<in> (passes_on sk)\<^sup>+" by (rule rtrancl_into_trancl2 [OF p])
      then have v: "return_value sk key ''unknown''" using returns_to_acyclic by (auto simp: return_value_def)
      have "\<not> ret_extern sk key" using 3 by (simp add: ret_extern_def r)
      from memo_ok_set(2) [OF \<open>memo_ok sk rv log\<close> v this] ch None 3 v \<open>chain sk path key\<close>
      show ?thesis by (intro exI [of _ key]) (auto simp: Let_def)
    next
      case 4
      have p: "(key, rk_callee ?r) \<in> passes_on sk" using 4 by (simp add: passes_on_def r)
      have c: "chase sk rv log (rk_callee ?r) (key # path) = (val, rv1, log1, path1)"
        using ch None 4 by (simp add: Let_def)
      from 1(1) [OF None refl _ _ _ \<open>memo_ok sk rv log\<close> _ _ c] 4 p \<open>chain sk path key\<close> show ?thesis by simp
    qed
  qed
qed

lemma propagate_ok:
  assumes "chain sk path stop" "return_value sk stop val" "dict_get rv stop = Some val" "memo_ok sk rv log"
  shows "memo_ok sk (propagate val rv path) log \<and> dict_get (propagate val rv path) (last (stop # path)) \<noteq> None"
  using assms
proof (induction path arbitrary: stop val rv)
  case (Cons p ps)
  have v: "return_value sk p (degrade val)" using Cons(2,3) by (auto intro: return_value_passed)
  have "\<not> ret_extern sk p" using Cons(2) by (auto simp: ret_extern_def passes_on_def)
  from memo_ok_set(2) [OF Cons(5) v this] have "memo_ok sk (dict_set rv p (degrade val)) log" .
  from Cons(1) [OF _ v _ this] Cons(2) show ?case by simp
qed simp

lemma resolve_return_ok:
  assumes "memo_ok sk rv log" "dict_get sk start \<noteq> None" "resolve_return sk start (rv, log) = (val, rv', log')"
  shows "return_value sk start val \<and> memo_ok sk rv' log' \<and> dict_get rv' start \<noteq> None
    \<and> set log \<subseteq> set log' \<and> set log' \<subseteq> set log \<union> new_externs sk"
proof (cases "dict_get rv start")
  case (Some v)
  then show ?thesis using assms by (auto simp: resolve_return_def memo_ok_def)
next
  case None
  obtain v rv1 log1 path where c: "chase sk rv log start [] = (v, rv1, log1, path)"
    by (cases "chase sk rv log start []") auto
  obtain stop where s: "chain sk path stop" "last (stop # path) = start" "return_value sk stop v"
    "dict_get rv1 stop = Some v" "memo_ok sk rv1 log1" "set log \<subseteq> set log1" "set log1 \<subseteq> set log \<union> new_externs sk"
    using chase_ok [OF assms(1) _ assms(2) c] by auto
  have p: "memo_ok sk (propagate v rv1 path) log1" "dict_get (propagate v rv1 path) start \<noteq> None"
    using propagate_ok [OF s(1,3,4,5)] s(2) by simp_all
  then have "return_value sk start (dict_get_or (propagate v rv1 path) start [])"
    by (auto simp: memo_ok_def dict_get_or_def)
  then show ?thesis using assms(3) None c p s(6,7) by (auto simp: resolve_return_def Let_def)
qed

section \<open>All methods\<close>

lemma summarize_ok:
  assumes "memo_ok sk rv log" "\<forall>kv\<in>set rest. dict_get sk (fst kv) = Some (snd kv)"
    "summarize sk pv rest (rv, log) = (out, log')"
  shows "map fst out = map fst rest
    \<and> (\<forall>kv\<in>set out. \<exists>skel. dict_get sk (fst kv) = Some skel
         \<and> return_value sk (fst kv) (mu_returns (snd kv))
         \<and> snd kv = \<lparr>mu_key = fst kv, mu_params = map (param_summary pv (fst kv)) (mk_params skel),
              mu_returns = mu_returns (snd kv), mu_file = mk_file skel, mu_line = mk_line skel, mu_source = ''inferred''\<rparr>)
    \<and> set log \<subseteq> set log' \<and> set log' \<subseteq> set log \<union> new_externs sk
    \<and> (\<forall>k\<in>fst ` set rest. ret_extern sk k \<longrightarrow> extern_return (rk_callee (ret_of sk k)) \<in> set log')"
  using assms
proof (induction rest arbitrary: rv log out)
  case Nil
  then show ?case by simp
next
  case (Cons kv rest)
  obtain key skel where kv: "kv = (key, skel)" by (cases kv)
  have key: "dict_get sk key = Some skel" using Cons(3) kv by simp
  obtain val rv1 log1 where r: "resolve_return sk key (rv, log) = (val, rv1, log1)"
    by (cases "resolve_return sk key (rv, log)") auto
  obtain out1 log2 where s: "summarize sk pv rest (rv1, log1) = (out1, log2)"
    by (cases "summarize sk pv rest (rv1, log1)")
  note ok = resolve_return_ok [OF Cons(2) _ r]
  have m: "memo_ok sk rv1 log1" using ok key by simp
  have l: "log2 = log'" "out = (key, \<lparr>mu_key = key, mu_params = map (param_summary pv key) (mk_params skel), mu_returns = val,
       mu_file = mk_file skel, mu_line = mk_line skel, mu_source = ''inferred''\<rparr>) # out1"
    using Cons(4) kv r s by simp_all
  have "extern_return (rk_callee (ret_of sk key)) \<in> set log1" if "ret_extern sk key"
    using that ok key by (auto simp: memo_ok_def)
  with Cons(1) [OF m _ s [unfolded l(1)]] Cons(3) ok key l kv show ?case by auto
qed

end
