(* ===== verification/Own_Solve.thy ===== *)
theory Own_Solve
  imports Own_Transfers Own_Returns "HOL-Library.Multiset"
begin

text \<open>
  All components of the call graph: the finished transfers are, component by component, the
  finalized least solution of the equations, and every execution of a method agrees with them.
\<close>

section \<open>The call graph\<close>

lemma set_deps_of:
  "set (deps_of sk skel) =
     {c. dict_get sk c \<noteq> None \<and>
        ((\<exists>p\<in>set (mk_params skel). \<exists>a\<in>set (pk_paths p). pa_kind a = ''forward'' \<and> pa_callee a = c)
         \<or> rk_kind (mk_ret skel) = ''forward'' \<and> rk_callee (mk_ret skel) = c)}"
proof -
  have "set (foldl (add_dep sk) d as) =
      set d \<union> {c. dict_get sk c \<noteq> None \<and> (\<exists>a\<in>set as. pa_kind a = ''forward'' \<and> pa_callee a = c)}" for d as
    by (induction as arbitrary: d) (auto simp: add_dep_def)
  then show ?thesis by (auto simp: deps_of_def Let_def)
qed

lemma call_graph_keys [simp]: "dict_keys (call_graph sk) = dict_keys sk"
  by (simp add: call_graph_def dict_keys_def comp_def)

lemma closed_call_graph: "closed_graph (call_graph sk)"
  unfolding closed_graph_def call_graph_keys
  by (auto simp: call_graph_def set_deps_of dict_keys_get)

lemma succs_call_graph:
  "dict_get sk k = Some skel \<Longrightarrow> set (succs (call_graph sk) k) = set (deps_of sk skel)"
  by (simp add: succs_def call_graph_def dict_get_or_def dict_get_map)

text \<open>The methods a method's summary depends on, directly or not.\<close>

definition calls :: "Skeletons \<Rightarrow> (string \<times> string) set" where
  "calls sk = {(k, c). \<exists>skel. dict_get sk k = Some skel \<and> c \<in> set (deps_of sk skel)}"

lemma calls_edges: "edges (succs (call_graph sk)) = calls sk"
proof -
  have "c \<in> set (succs (call_graph sk) k) \<longleftrightarrow> (\<exists>skel. dict_get sk k = Some skel \<and> c \<in> set (deps_of sk skel))" for k c
    by (cases "dict_get sk k") (simp_all add: succs_def call_graph_def dict_get_or_def dict_get_map)
  then show ?thesis by (auto simp: edges_def calls_def)
qed

definition component_of :: "Skeletons \<Rightarrow> string \<Rightarrow> string set" where
  "component_of sk k = {j. (k, j) \<in> (calls sk)\<^sup>* \<and> (j, k) \<in> (calls sk)\<^sup>*}"

section \<open>Members\<close>

definition params_in :: "Skeletons \<Rightarrow> string set \<Rightarrow> ParamKey set" where
  "params_in sk C = {(k, i). k \<in> C \<and> (\<exists>p\<in>set (mk_params (the (dict_get sk k))). pk_disposable p \<and> pk_index p = i)}"

lemma set_members: "set (members_of sk c) = params_in sk (set c)"
  by (auto simp: members_of_def params_in_def)

lemma param_at_Some: "param_at skel i = Some p \<Longrightarrow> p \<in> set (mk_params skel) \<and> pk_index p = i"
  by (auto simp: param_at_def find_Some_iff)

lemma param_at_exists: "p \<in> set (mk_params skel) \<Longrightarrow> \<exists>q. param_at skel (pk_index p) = Some q"
  by (cases "param_at skel (pk_index p)") (auto simp: param_at_def find_None_iff)

text \<open>The right-hand side of a parameter reads parameters of the methods its method calls, only.\<close>

lemma paths_at_deps:
  assumes "(k, i) \<in> params_in sk C" "dict_get sk k = Some skel" "a \<in> set (paths_at sk (k, i))"
    "pa_kind a = ''forward''" "dict_get sk (pa_callee a) \<noteq> None"
  shows "pa_callee a \<in> set (deps_of sk skel)"
proof -
  obtain p where "p \<in> set (mk_params skel)" "pk_index p = i" using assms(1,2) by (auto simp: params_in_def)
  then obtain q where "param_at skel i = Some q" using param_at_exists by blast
  then have "q \<in> set (mk_params skel)" "a \<in> set (pk_paths q)"
    using param_at_Some assms(2,3) by (auto simp: paths_at_def)
  then show ?thesis using assms(4,5) by (auto simp: set_deps_of)
qed

lemma rhs_cong:
  assumes "\<And>a skel p. a \<in> set (paths_at sk m) \<Longrightarrow> pa_kind a = ''forward'' \<Longrightarrow> dict_get sk (pa_callee a) = Some skel
      \<Longrightarrow> param_at skel (pa_arg a) = Some p \<Longrightarrow> pk_disposable p \<Longrightarrow> \<rho> (pa_callee a, pa_arg a) = \<rho>' (pa_callee a, pa_arg a)"
  shows "rhs sk \<rho> m = rhs sk \<rho>' m"
proof -
  have "map (act_value sk \<rho>) (paths_at sk m) = map (act_value sk \<rho>') (paths_at sk m)"
    by (rule map_cong [OF refl]) (auto simp: act_value_def look_def assms split: option.split)
  then show ?thesis unfolding rhs_def by (simp only:)
qed

lemma least_solution_cong:
  assumes "\<And>\<sigma> m. m \<in> M \<Longrightarrow> F \<sigma> m = G \<sigma> m" "least_solution le F M \<sigma>"
  shows "least_solution le G M \<sigma>"
  using assms unfolding least_solution_def below_solutions_def by simp

section \<open>All components\<close>

text \<open>\<open>solved\<close>: the transfers of a set of methods are the finalized least solution over the others.\<close>

definition solved :: "Skeletons \<Rightarrow> (ParamKey \<Rightarrow> Transfer) \<Rightarrow> string set \<Rightarrow> bool" where
  "solved sk val C \<longleftrightarrow> (\<exists>\<sigma>. least_solution tle (system sk (\<lambda>m. Some (val m)) (params_in sk C)) (params_in sk C) \<sigma>
     \<and> (\<forall>m\<in>params_in sk C. val m = finalize (\<sigma> m)))"

definition value_of :: "Finished \<Rightarrow> ParamKey \<Rightarrow> Transfer" where
  "value_of pv m = (case dict_get pv m of Some t \<Rightarrow> t | None \<Rightarrow> UNKNOWN)"

lemma env_value: "env pv [] m = Some (value_of pv m)"
  by (simp add: env_def value_of_def split: option.split)

lemma system_below:
  assumes b: "\<forall>k\<in>C. k \<in> dom (dict_get sk) \<and> (\<forall>j. (k, j) \<in> calls sk \<longrightarrow> j \<in> C \<union> D)"
    and eq: "\<forall>m\<in>params_in sk D. val m = val' m" and m: "m \<in> params_in sk C"
  shows "system sk (\<lambda>m. Some (val m)) (params_in sk C) \<sigma> m = system sk (\<lambda>m. Some (val' m)) (params_in sk C) \<sigma> m"
  unfolding system_def
proof (rule rhs_cong)
  fix a skel p
  assume a: "a \<in> set (paths_at sk m)" "pa_kind a = ''forward''" "dict_get sk (pa_callee a) = Some skel"
    "param_at skel (pa_arg a) = Some p" "pk_disposable p"
  obtain k i where mk: "m = (k, i)" by (cases m)
  then have k: "k \<in> C" using m by (simp add: params_in_def)
  then obtain s where s: "dict_get sk k = Some s" using b by auto
  have "pa_callee a \<in> set (deps_of sk s)" using paths_at_deps [OF m [unfolded mk] s] a mk by simp
  then have "pa_callee a \<in> C \<union> D" using b k s by (auto simp: calls_def)
  then have "(pa_callee a, pa_arg a) \<in> params_in sk C \<union> params_in sk D"
    using a param_at_Some [OF a(4)] by (auto simp: params_in_def)
  then show "within (\<lambda>m. Some (val m)) (params_in sk C) \<sigma> (pa_callee a, pa_arg a)
      = within (\<lambda>m. Some (val' m)) (params_in sk C) \<sigma> (pa_callee a, pa_arg a)"
    using eq by (auto simp: within_def)
qed

lemma dom_overlay: "dom (\<lambda>m. if m \<in> M then Some (f m) else g m) = dom g \<union> M"
  by (auto simp: dom_def)

text \<open>The externs of a component, and what the walk over the components ends in.\<close>

lemma solve_components_ok:
  assumes b: "bottom_up (succs (call_graph sk)) (pre @ cs)" "distinct (concat (pre @ cs))"
    "set (concat (pre @ cs)) \<subseteq> dom (dict_get sk)"
    and pv: "dom (dict_get pv) = params_in sk (set (concat pre))"
  shows "\<exists>pv' log'. solve_components sk cs (pv, log) = Some (pv', log')
    \<and> dom (dict_get pv') = params_in sk (set (concat (pre @ cs)))
    \<and> (\<forall>m\<in>dom (dict_get pv). dict_get pv' m = dict_get pv m)
    \<and> (\<forall>c\<in>set cs. solved sk (value_of pv') (set c))
    \<and> set log' = set log \<union> (\<Union>m\<in>params_in sk (set (concat cs)). externs_of sk m)"
  using assms
proof (induction cs arbitrary: pre pv log)
  case Nil
  then show ?case by (simp add: params_in_def)
next
  case (Cons c cs)
  let ?M = "params_in sk (set c)"
  have disj: "set c \<inter> set (concat pre) = {}" using Cons(3) by auto
  have "set (members_of sk c) \<inter> dom (dict_get pv) = {}"
    using disj unfolding set_members Cons(5) by (auto simp: params_in_def)
  from solve_component_ok [OF this, of log] obtain pv1 log1 \<sigma> where
    one: "solve_component sk c (pv, log) = Some (pv1, log1)" "least_solution tle (system sk (env pv []) ?M) ?M \<sigma>"
      "dict_get pv1 = (\<lambda>m. if m \<in> ?M then Some (finalize (\<sigma> m)) else dict_get pv m)"
      "set log1 = set log \<union> (\<Union>m\<in>?M. externs_of sk m)" unfolding set_members by blast
  have split: "params_in sk (set (concat (pre @ [c]))) = params_in sk (set (concat pre)) \<union> ?M"
    "params_in sk (set (concat (c # cs))) = ?M \<union> params_in sk (set (concat cs))"
    by (auto simp: params_in_def)
  have dom1: "dom (dict_get pv1) = params_in sk (set (concat (pre @ [c])))"
    unfolding split one(3) Cons(5) [symmetric] by (rule dom_overlay)
  have "bottom_up (succs (call_graph sk)) ((pre @ [c]) @ cs)" "distinct (concat ((pre @ [c]) @ cs))"
    "set (concat ((pre @ [c]) @ cs)) \<subseteq> dom (dict_get sk)" using Cons(2-4) by simp_all
  from Cons(1) [OF this dom1, of log1] obtain pv' log' where
    rest: "solve_components sk cs (pv1, log1) = Some (pv', log')"
      "dom (dict_get pv') = params_in sk (set (concat ((pre @ [c]) @ cs)))"
      "\<forall>m\<in>dom (dict_get pv1). dict_get pv' m = dict_get pv1 m"
      "\<forall>c\<in>set cs. solved sk (value_of pv') (set c)"
      "set log' = set log1 \<union> (\<Union>m\<in>params_in sk (set (concat cs)). externs_of sk m)"
    by (elim exE conjE) (rule that)
  have below: "\<forall>k\<in>set c. k \<in> dom (dict_get sk) \<and> (\<forall>j. (k, j) \<in> calls sk \<longrightarrow> j \<in> set c \<union> set (concat pre))"
  proof (intro ballI conjI allI impI)
    fix k j assume k: "k \<in> set c"
    then show "k \<in> dom (dict_get sk)" using Cons(4) by auto
    assume "(k, j) \<in> calls sk"
    then have "j \<in> set (succs (call_graph sk) k)" unfolding calls_edges [symmetric] by simp
    then show "j \<in> set c \<union> set (concat pre)" using Cons(2) k unfolding bottom_up_def by blast
  qed
  have same: "value_of pv m = value_of pv' m" if "m \<in> params_in sk (set (concat pre))" for m
  proof -
    have "m \<in> dom (dict_get pv)" "m \<notin> ?M" using that disj Cons(5) by (auto simp: params_in_def)
    moreover have "m \<in> dom (dict_get pv1)" using that unfolding dom1 split by simp
    ultimately show ?thesis using rest(3) by (simp add: value_of_def one(3))
  qed
  have "least_solution tle (system sk (\<lambda>m. Some (value_of pv' m)) ?M) ?M \<sigma>"
  proof (rule least_solution_cong [OF _ one(2)])
    fix \<tau> m assume "m \<in> ?M"
    from system_below [OF below _ this] same
    show "system sk (env pv []) ?M \<tau> m = system sk (\<lambda>m. Some (value_of pv' m)) ?M \<tau> m"
      by (simp add: env_value [abs_def])
  qed
  moreover have "value_of pv' m = finalize (\<sigma> m)" if "m \<in> ?M" for m
    using that rest(3) dom1 split by (simp add: value_of_def one(3))
  ultimately have "solved sk (value_of pv') (set c)" unfolding solved_def by blast
  moreover have "\<forall>m\<in>dom (dict_get pv). dict_get pv' m = dict_get pv m"
  proof
    fix m assume "m \<in> dom (dict_get pv)"
    then have "m \<in> params_in sk (set (concat pre))" "m \<notin> ?M" using Cons(5) disj by (auto simp: params_in_def)
    then show "dict_get pv' m = dict_get pv m" using rest(3) dom1 split by (simp add: one(3))
  qed
  moreover have "solve_components sk (c # cs) (pv, log) = Some (pv', log')" using one(1) rest(1) by simp
  moreover have "dom (dict_get pv') = params_in sk (set (concat (pre @ c # cs)))" using rest(2) by simp
  moreover have "set log' = set log \<union> (\<Union>m\<in>params_in sk (set (concat (c # cs))). externs_of sk m)"
    unfolding split(2) rest(5) one(4) by blast
  moreover have "\<forall>d\<in>set (c # cs). solved sk (value_of pv') (set d)" if "solved sk (value_of pv') (set c)"
    using that rest(4) by simp
  ultimately show ?case by blast
qed

section \<open>The whole solver\<close>

definition keyed :: "MethodSkeleton list \<Rightarrow> Skeletons" where
  "keyed ss = map (\<lambda>s. (mk_key s, s)) ss"

lemma dict_set_new: "dict_get d k = None \<Longrightarrow> dict_set d k v = d @ [(k, v)]"
  by (induction d) (auto simp: dict_set_def dict_get_def split: if_split_asm)

lemma index_skeletons_iff:
  "index_skeletons ss sk = Inr sk' \<longleftrightarrow> distinct (map mk_key ss) \<and> fst ` set sk \<inter> mk_key ` set ss = {} \<and> sk' = sk @ keyed ss"
proof (induction ss arbitrary: sk)
  case Nil
  then show ?case by (auto simp: keyed_def)
next
  case (Cons s ss)
  show ?case
  proof (cases "dict_get sk (mk_key s)")
    case None
    then have "mk_key s \<notin> fst ` set sk" by (simp add: dict_get_None_iff)
    with None show ?thesis using Cons [of "sk @ [(mk_key s, s)]"] by (auto simp: dict_set_new keyed_def)
  next
    case (Some s')
    then have "mk_key s \<in> fst ` set sk" by (metis dict_get_None_iff option.distinct(1))
    with Some show ?thesis by auto
  qed
qed

lemma index_keyed: "index_skeletons ss [] = Inr sk \<longleftrightarrow> distinct (map mk_key ss) \<and> sk = keyed ss"
  by (simp add: index_skeletons_iff)

lemma components_of_graph:
  "\<exists>comps. sccs (call_graph sk) = Some comps \<and> distinct (concat comps) \<and> set (concat comps) = dom (dict_get sk)
     \<and> bottom_up (succs (call_graph sk)) comps \<and> (\<forall>c\<in>set comps. \<forall>k\<in>set c. set c = component_of sk k)"
proof -
  obtain comps where c: "sccs (call_graph sk) = Some comps" "distinct (concat comps)"
    "set (concat comps) = set (dict_keys sk)" "bottom_up (succs (call_graph sk)) comps"
    using sccs_bottom_up [OF closed_call_graph, of sk] by auto
  moreover have "set (dict_keys sk) = dom (dict_get sk)" by (auto simp: dict_keys_get)
  moreover have "set x = component_of sk k" if "x \<in> set comps" "k \<in> set x" for x k
    using bottom_up_classes [OF c(4,2) that] unfolding calls_edges component_of_def .
  ultimately show ?thesis by blast
qed

text \<open>Which method summary comes out for a skeleton, given the transfers.\<close>

definition summarizes :: "Skeletons \<Rightarrow> (ParamKey \<Rightarrow> Transfer) \<Rightarrow> string \<Rightarrow> MethodSkeleton \<Rightarrow> MethodSummary \<Rightarrow> bool" where
  "summarizes sk val k skel su \<longleftrightarrow> return_value sk k (mu_returns su) \<and> su = \<lparr>mu_key = k,
     mu_params = map (\<lambda>p. \<lparr>pu_index = pk_index p, pu_name = pk_name p, pu_disposable = pk_disposable p,
          pu_transfer = (if pk_disposable p then val (k, pk_index p) else NO), pu_escapes = pk_escapes p\<rparr>) (mk_params skel),
     mu_returns = mu_returns su, mu_file = mk_file skel, mu_line = mk_line skel, mu_source = ''inferred''\<rparr>"

definition unresolved_of :: "Skeletons \<Rightarrow> string set" where
  "unresolved_of sk = (\<Union>m\<in>params_in sk (dom (dict_get sk)). externs_of sk m) \<union> new_externs sk"

lemma solve_skeletons_ok:
  assumes d: "distinct (map fst sk)"
  shows "\<exists>out log val. solve_skeletons sk = Some (out, log) \<and> map fst out = map fst sk
    \<and> (\<forall>k\<in>dom (dict_get sk). solved sk val (component_of sk k))
    \<and> (\<forall>kv\<in>set out. \<exists>skel. dict_get sk (fst kv) = Some skel \<and> summarizes sk val (fst kv) skel (snd kv))
    \<and> sorted log \<and> set log = unresolved_of sk"
proof -
  obtain comps where c: "sccs (call_graph sk) = Some comps" "distinct (concat comps)" "set (concat comps) = dom (dict_get sk)"
    "bottom_up (succs (call_graph sk)) comps" "\<forall>c\<in>set comps. \<forall>k\<in>set c. set c = component_of sk k"
    using components_of_graph by blast
  obtain pv log where pv: "solve_components sk comps ([], []) = Some (pv, log)"
    "dom (dict_get pv) = params_in sk (dom (dict_get sk))" "\<forall>c\<in>set comps. solved sk (value_of pv) (set c)"
    "set log = (\<Union>m\<in>params_in sk (dom (dict_get sk)). externs_of sk m)"
  proof -
    have "dom (dict_get ([] :: Finished)) = params_in sk (set (concat []))" by (auto simp: params_in_def)
    then show thesis
      using solve_components_ok [of sk "[]" comps "[]" "[]", unfolded append_Nil c(3)] c(2,4) that by fastforce
  qed
  obtain out log' where s: "summarize sk pv sk ([], log) = (out, log')" by (cases "summarize sk pv sk ([], log)")
  have mem: "\<forall>kv\<in>set sk. dict_get sk (fst kv) = Some (snd kv)" using d by (simp add: dict_get_def)
  have memo: "memo_ok sk [] log" by (simp add: memo_ok_def)
  note ok = summarize_ok [OF memo mem s]
  have keys: "fst ` set sk = dom (dict_get sk)" by (simp add: dict_get_def [abs_def] dom_map_of_conv_image_fst)
  have "new_externs sk \<subseteq> set log'"
  proof
    fix e assume "e \<in> new_externs sk"
    then obtain k where "e = extern_return (rk_callee (ret_of sk k))" "ret_extern sk k" "k \<in> fst ` set sk"
      unfolding new_externs_def keys by blast
    then show "e \<in> set log'" using ok by blast
  qed
  then have log': "set log' = unresolved_of sk" using ok pv(4) by (auto simp: unresolved_of_def)
  have sol: "solved sk (value_of pv) (component_of sk k)" if "k \<in> dom (dict_get sk)" for k
  proof -
    have "k \<in> set (concat comps)" using that c(3) by simp
    then obtain x where "x \<in> set comps" "k \<in> set x" by auto
    then show ?thesis using c(5) pv(3) by metis
  qed
  have sum: "summarizes sk (value_of pv) (fst kv) skel (snd kv)"
    if kv: "kv \<in> set out" "dict_get sk (fst kv) = Some skel" for kv skel
  proof -
    obtain skel' where k: "dict_get sk (fst kv) = Some skel'" and v: "return_value sk (fst kv) (mu_returns (snd kv))"
      and r: "snd kv = \<lparr>mu_key = fst kv, mu_params = map (param_summary pv (fst kv)) (mk_params skel'),
         mu_returns = mu_returns (snd kv), mu_file = mk_file skel', mu_line = mk_line skel', mu_source = ''inferred''\<rparr>"
      using bspec [OF conjunct1 [OF conjunct2 [OF ok]] kv(1)] by (elim exE conjE) (rule that)
    have same: "skel' = skel" using k kv(2) by simp
    have "dict_get_or pv (fst kv, pk_index p) NO = value_of pv (fst kv, pk_index p)"
      if p: "p \<in> set (mk_params skel)" "pk_disposable p" for p
    proof -
      have "(fst kv, pk_index p) \<in> params_in sk (dom (dict_get sk))"
        using \<open>dict_get sk (fst kv) = Some skel\<close> p by (auto simp: params_in_def)
      then show ?thesis unfolding pv(2) [symmetric] by (auto simp: dict_get_or_def value_of_def)
    qed
    then have eq: "map (param_summary pv (fst kv)) (mk_params skel) =
        map (\<lambda>p. \<lparr>pu_index = pk_index p, pu_name = pk_name p, pu_disposable = pk_disposable p,
          pu_transfer = (if pk_disposable p then value_of pv (fst kv, pk_index p) else NO), pu_escapes = pk_escapes p\<rparr>) (mk_params skel)"
      by (auto simp: param_summary_def)
    show ?thesis unfolding summarizes_def by (rule conjI [OF v r [unfolded same eq]])
  qed
  have "solve_skeletons sk = Some (out, sort log')" using c(1) pv(1) s by (simp add: solve_skeletons_def)
  moreover have "\<forall>kv\<in>set out. \<exists>skel. dict_get sk (fst kv) = Some skel \<and> summarizes sk (value_of pv) (fst kv) skel (snd kv)"
    using ok sum by blast
  ultimately show ?thesis using ok sol log'
    by (intro exI [of _ out] exI [of _ "sort log'"] exI [of _ "value_of pv"]) simp
qed

section \<open>Executions\<close>

text \<open>
  \<open>executes sk m b\<close>: some completed execution of the method of \<open>m\<close> takes one of the paths of the
  parameter, and \<open>b\<close> says whether ownership left the caller. Code outside the program, a parameter
  it does not describe and an unknown kind of action may do either.
\<close>

inductive executes :: "Skeletons \<Rightarrow> ParamKey \<Rightarrow> bool \<Rightarrow> bool" for sk where
  untouched: "paths_at sk m = [] \<Longrightarrow> executes sk m False"
| given_up: "a \<in> set (paths_at sk m) \<Longrightarrow> pa_kind a \<in> {''dispose'', ''adopt'', ''return''} \<Longrightarrow> executes sk m True"
| borrowed: "a \<in> set (paths_at sk m) \<Longrightarrow> pa_kind a = ''borrow'' \<Longrightarrow> executes sk m False"
| forwarded: "a \<in> set (paths_at sk m) \<Longrightarrow> pa_kind a = ''forward'' \<Longrightarrow> dict_get sk (pa_callee a) = Some skel
    \<Longrightarrow> param_at skel (pa_arg a) = Some p \<Longrightarrow> pk_disposable p \<Longrightarrow> executes sk (pa_callee a, pa_arg a) b \<Longrightarrow> executes sk m b"
| plain: "a \<in> set (paths_at sk m) \<Longrightarrow> pa_kind a = ''forward'' \<Longrightarrow> dict_get sk (pa_callee a) = Some skel
    \<Longrightarrow> param_at skel (pa_arg a) = Some p \<Longrightarrow> \<not> pk_disposable p \<Longrightarrow> executes sk m False"
| outside: "a \<in> set (paths_at sk m) \<Longrightarrow> pa_kind a = ''forward''
    \<Longrightarrow> (case dict_get sk (pa_callee a) of None \<Rightarrow> True | Some skel \<Rightarrow> param_at skel (pa_arg a) = None) \<Longrightarrow> executes sk m b"
| strange: "a \<in> set (paths_at sk m) \<Longrightarrow> pa_kind a \<notin> {''dispose'', ''adopt'', ''return'', ''borrow'', ''forward''} \<Longrightarrow> executes sk m b"

fun covers :: "Transfer option \<Rightarrow> bool \<Rightarrow> bool" where
  "covers None b = False"
| "covers (Some NO) b = (\<not> b)"
| "covers (Some MUST) b = b"
| "covers (Some _) b = True"

lemma covers_mono: "covers v b \<Longrightarrow> tle v w \<Longrightarrow> covers w b"
  by (cases v rule: height.cases; cases w rule: height.cases) (auto simp: tle_def)

lemma covers_act:
  assumes "covers (act_value sk \<rho> a) b" "a \<in> set (paths_at sk m)"
  shows "covers (rhs sk \<rho> m) b"
proof -
  have "tle (act_value sk \<rho> a) (foldl join_opt None (map (act_value sk \<rho>) (paths_at sk m)))"
    by (rule mos.foldl_jn_member) (use assms(2) in simp)
  then show ?thesis using covers_mono [OF assms(1)] assms(2) by (auto simp: rhs_def)
qed

lemma executes_covered:
  assumes sol: "\<And>k. k \<in> dom (dict_get sk) \<Longrightarrow> least_solution tle (system sk (\<lambda>m. Some (val m)) (params_in sk (component_of sk k)))
      (params_in sk (component_of sk k)) (\<sigma> (component_of sk k))"
    and val: "\<And>k m. k \<in> dom (dict_get sk) \<Longrightarrow> m \<in> params_in sk (component_of sk k) \<Longrightarrow> val m = finalize (\<sigma> (component_of sk k) m)"
  shows "executes sk m b \<Longrightarrow> m \<in> params_in sk (dom (dict_get sk)) \<Longrightarrow> covers (\<sigma> (component_of sk (fst m)) m) b"
proof (induction rule: executes.induct)
  fix m :: ParamKey
  let ?C = "component_of sk (fst m)"
  let ?\<rho> = "within (\<lambda>m. Some (val m)) (params_in sk ?C) (\<sigma> ?C)"
  have eq: "\<sigma> ?C m = rhs sk ?\<rho> m" if m: "m \<in> params_in sk (dom (dict_get sk))"
  proof -
    have "fst m \<in> ?C" by (simp add: component_of_def)
    then have "m \<in> params_in sk ?C" "fst m \<in> dom (dict_get sk)" using m by (auto simp: params_in_def)
    then show ?thesis using sol by (simp add: least_solution_def system_def)
  qed
  show "covers (\<sigma> ?C m) False" if "paths_at sk m = []" "m \<in> params_in sk (dom (dict_get sk))"
    using that by (simp add: eq rhs_def)
  note act = covers_act [of sk ?\<rho>]
  show "covers (\<sigma> ?C m) True" if "a \<in> set (paths_at sk m)" "pa_kind a \<in> {''dispose'', ''adopt'', ''return''}"
    "m \<in> params_in sk (dom (dict_get sk))" for a
    unfolding eq [OF that(3)] by (rule act [OF _ that(1)]) (use that(2) in \<open>simp add: act_value_def\<close>)
  show "covers (\<sigma> ?C m) False" if "a \<in> set (paths_at sk m)" "pa_kind a = ''borrow''"
    "m \<in> params_in sk (dom (dict_get sk))" for a
    unfolding eq [OF that(3)] by (rule act [OF _ that(1)]) (use that(2) in \<open>simp add: act_value_def\<close>)
  show "covers (\<sigma> ?C m) False" if "a \<in> set (paths_at sk m)" "pa_kind a = ''forward''" "dict_get sk (pa_callee a) = Some skel"
    "param_at skel (pa_arg a) = Some p" "\<not> pk_disposable p" "m \<in> params_in sk (dom (dict_get sk))" for a skel p
    unfolding eq [OF that(6)] by (rule act [OF _ that(1)]) (use that(2-5) in \<open>simp add: act_value_def look_def\<close>)
  show "covers (\<sigma> ?C m) b" if "a \<in> set (paths_at sk m)" "pa_kind a = ''forward''"
    "case dict_get sk (pa_callee a) of None \<Rightarrow> True | Some skel \<Rightarrow> param_at skel (pa_arg a) = None"
    "m \<in> params_in sk (dom (dict_get sk))" for a b
    unfolding eq [OF that(4)] by (rule act [OF _ that(1)]) (use that(2,3) in \<open>cases "dict_get sk (pa_callee a)"; simp add: act_value_def look_def\<close>)
  show "covers (\<sigma> ?C m) b" if "a \<in> set (paths_at sk m)"
    "pa_kind a \<notin> {''dispose'', ''adopt'', ''return'', ''borrow'', ''forward''}" "m \<in> params_in sk (dom (dict_get sk))" for a b
    unfolding eq [OF that(3)] by (rule act [OF _ that(1)]) (use that(2) in \<open>simp add: act_value_def\<close>)
  show "covers (\<sigma> ?C m) b"
    if a: "a \<in> set (paths_at sk m)" "pa_kind a = ''forward''" "dict_get sk (pa_callee a) = Some skel"
      "param_at skel (pa_arg a) = Some p" "pk_disposable p" and ih: "(pa_callee a, pa_arg a) \<in> params_in sk (dom (dict_get sk))
        \<Longrightarrow> covers (\<sigma> (component_of sk (fst (pa_callee a, pa_arg a))) (pa_callee a, pa_arg a)) b"
      and m: "m \<in> params_in sk (dom (dict_get sk))" for a skel p b
  proof -
    let ?q = "(pa_callee a, pa_arg a)"
    have q: "?q \<in> params_in sk (dom (dict_get sk))"
      using a param_at_Some [OF a(4)] by (auto simp: params_in_def)
    have c: "covers (\<sigma> (component_of sk (pa_callee a)) ?q) b" using ih [OF q] by simp
    have qc: "?q \<in> params_in sk (component_of sk (pa_callee a))" "pa_callee a \<in> dom (dict_get sk)"
      using q by (auto simp: params_in_def component_of_def)
    have "covers (?\<rho> ?q) b"
    proof (cases "?q \<in> params_in sk ?C")
      case True
      then have "pa_callee a \<in> ?C" by (simp add: params_in_def)
      then have "component_of sk (pa_callee a) = ?C" by (auto simp: component_of_def intro: rtrancl_trans)
      then show ?thesis using c True by (simp add: within_def)
    next
      case False
      moreover have "covers (Some (val ?q)) b"
        using c val [OF qc(2,1)] by (cases "\<sigma> (component_of sk (pa_callee a)) ?q") (simp_all add: finalize_def)
      ultimately show ?thesis by (simp add: within_def)
    qed
    then show ?thesis unfolding eq [OF m]
      by (intro act [OF _ a(1)]) (use a in \<open>simp add: act_value_def look_def\<close>)
  qed
qed

lemma transfers_sound:
  assumes sol: "\<forall>k\<in>dom (dict_get sk). solved sk val (component_of sk k)"
    and m: "m \<in> params_in sk (dom (dict_get sk))" and e: "executes sk m b"
  shows "(val m = MUST \<longrightarrow> b) \<and> (val m = NO \<longrightarrow> \<not> b)"
proof -
  define \<sigma> where "\<sigma> C = (SOME \<sigma>. least_solution tle (system sk (\<lambda>m. Some (val m)) (params_in sk C)) (params_in sk C) \<sigma>
     \<and> (\<forall>m\<in>params_in sk C. val m = finalize (\<sigma> m)))" for C
  have s: "least_solution tle (system sk (\<lambda>m. Some (val m)) (params_in sk C)) (params_in sk C) (\<sigma> C)
     \<and> (\<forall>m\<in>params_in sk C. val m = finalize (\<sigma> C m))" if "solved sk val C" for C
    using someI_ex [OF that [unfolded solved_def]] unfolding \<sigma>_def .
  have c: "covers (\<sigma> (component_of sk (fst m)) m) b"
    by (rule executes_covered [where val = val, OF _ _ e m]) (use s sol in blast)+
  have "m \<in> params_in sk (component_of sk (fst m))" "fst m \<in> dom (dict_get sk)"
    using m by (auto simp: params_in_def component_of_def)
  then have "val m = finalize (\<sigma> (component_of sk (fst m)) m)" using s sol by blast
  then show ?thesis using c by (cases "\<sigma> (component_of sk (fst m)) m" rule: height.cases) (auto simp: finalize_def)
qed

section \<open>Only the skeletons matter, not their order\<close>

text \<open>Two valuations that solve every component agree.\<close>

lemma solved_unique:
  assumes v: "\<forall>k\<in>dom (dict_get sk). solved sk val (component_of sk k)" "\<forall>k\<in>dom (dict_get sk). solved sk val' (component_of sk k)"
  shows "\<forall>m\<in>params_in sk (dom (dict_get sk)). val m = val' m"
proof -
  obtain comps where c: "set (concat comps) = dom (dict_get sk)" "bottom_up (succs (call_graph sk)) comps"
    "\<forall>c\<in>set comps. \<forall>k\<in>set c. set c = component_of sk k" using components_of_graph by blast
  have "comps = pre @ cs \<Longrightarrow> \<forall>m\<in>params_in sk (set (concat pre)). val m = val' m" for pre cs
  proof (induction pre arbitrary: cs rule: rev_induct)
    case Nil
    then show ?case by (simp add: params_in_def)
  next
    case (snoc x pre)
    let ?M = "params_in sk (set x)"
    have eq: "comps = pre @ x # cs" using snoc(2) by simp
    from snoc(1) [OF this] have ih: "\<forall>m\<in>params_in sk (set (concat pre)). val m = val' m" .
    have "x \<noteq> []" using c(2) eq unfolding bottom_up_def by blast
    then obtain k where k: "k \<in> set x" by (cases x) auto
    then have "set x = component_of sk k" "k \<in> dom (dict_get sk)" using c(1,3) eq by auto
    then obtain \<sigma> \<tau> where s: "least_solution tle (system sk (\<lambda>m. Some (val m)) ?M) ?M \<sigma>" "\<forall>m\<in>?M. val m = finalize (\<sigma> m)"
      "least_solution tle (system sk (\<lambda>m. Some (val' m)) ?M) ?M \<tau>" "\<forall>m\<in>?M. val' m = finalize (\<tau> m)"
      using v unfolding solved_def by metis
    have below: "\<forall>k\<in>set x. k \<in> dom (dict_get sk) \<and> (\<forall>j. (k, j) \<in> calls sk \<longrightarrow> j \<in> set x \<union> set (concat pre))"
    proof (intro ballI conjI allI impI)
      fix k j assume k: "k \<in> set x"
      then show "k \<in> dom (dict_get sk)" using c(1) eq by auto
      assume "(k, j) \<in> calls sk"
      then have "j \<in> set (succs (call_graph sk) k)" unfolding calls_edges [symmetric] by simp
      then show "j \<in> set x \<union> set (concat pre)" using c(2) k eq unfolding bottom_up_def by blast
    qed
    have "least_solution tle (system sk (\<lambda>m. Some (val m)) ?M) ?M \<tau>"
      by (rule least_solution_cong [OF _ s(3)]) (use system_below [OF below ih] in simp)
    from mos.least_unique [of sk _ "members_of sk x", unfolded set_members, OF s(1) this]
    have "\<forall>m\<in>?M. val m = val' m" using s(2,4) by simp
    moreover have "params_in sk (set (concat (pre @ [x]))) = params_in sk (set (concat pre)) \<union> ?M"
      by (auto simp: params_in_def)
    ultimately show ?case using ih by blast
  qed
  from this [of comps "[]"] show ?thesis using c(1) by simp
qed

text \<open>Everything the results depend on reads the skeletons as a map.\<close>

lemma map_only:
  assumes "dict_get sk = dict_get sk'"
  shows "solved sk = solved sk'" "component_of sk = component_of sk'" "return_value sk = return_value sk'"
    "unresolved_of sk = unresolved_of sk'" "params_in sk = params_in sk'" "executes sk = executes sk'"
proof -
  have r: "ret_of sk = ret_of sk'" "passes_on sk = passes_on sk'" "paths_at sk = paths_at sk'"
    by (auto simp: ret_of_def passes_on_def paths_at_def assms fun_eq_iff)
  have "returns_to sk k v \<Longrightarrow> returns_to sk' k v" for k v
    by (induction rule: returns_to.induct) (auto simp: r assms intro: returns_to.intros)
  moreover have "returns_to sk' k v \<Longrightarrow> returns_to sk k v" for k v
    by (induction rule: returns_to.induct) (auto simp flip: r assms intro: returns_to.intros)
  ultimately have "returns_to sk = returns_to sk'" by (intro ext iffI)
  then show "return_value sk = return_value sk'" by (simp add: return_value_def [abs_def])
  have d: "set (deps_of sk skel) = set (deps_of sk' skel)" for skel by (simp add: set_deps_of assms)
  show "component_of sk = component_of sk'" by (simp add: component_of_def [abs_def] calls_def assms d)
  show p: "params_in sk = params_in sk'" by (simp add: params_in_def [abs_def] assms)
  have "look sk = look sk'" by (simp add: look_def [abs_def] assms)
  then have a: "act_value sk = act_value sk'" by (intro ext) (simp add: act_value_def)
  then have "rhs sk = rhs sk'" by (intro ext) (simp add: rhs_def r)
  then show "solved sk = solved sk'" by (simp add: solved_def [abs_def] system_def [abs_def] p)
  show "unresolved_of sk = unresolved_of sk'"
    by (simp add: unresolved_of_def p assms externs_of_def extern_at_def r new_externs_def ret_extern_def)
  have "executes sk m b \<Longrightarrow> executes sk' m b" for m b
    by (induction rule: executes.induct) (auto simp: r assms intro: executes.intros)
  moreover have "executes sk' m b \<Longrightarrow> executes sk m b" for m b
    by (induction rule: executes.induct) (auto simp flip: r assms intro: executes.intros)
  ultimately show "executes sk = executes sk'" by (intro ext iffI)
qed

section \<open>What the solver returns\<close>

text \<open>
  Its summaries follow the skeletons, their transfers solve every component, their returns are the
  values of the forward chains, and the log names the extern edges.
\<close>

definition solution :: "Skeletons \<Rightarrow> (string, MethodSummary) dict \<Rightarrow> string list \<Rightarrow> bool" where
  "solution sk out log \<longleftrightarrow> map fst out = map fst sk \<and> sorted log \<and> set log = unresolved_of sk
     \<and> (\<exists>val. (\<forall>k\<in>dom (dict_get sk). solved sk val (component_of sk k))
          \<and> (\<forall>kv\<in>set out. \<exists>skel. dict_get sk (fst kv) = Some skel \<and> summarizes sk val (fst kv) skel (snd kv)))"

lemma duplicate_key: "index_skeletons ss sk = Inl key \<Longrightarrow> \<not> (distinct (map mk_key ss) \<and> fst ` set sk \<inter> mk_key ` set ss = {})
    \<and> key \<in> mk_key ` set ss"
proof (induction ss arbitrary: sk)
  case (Cons s ss)
  show ?case
  proof (cases "dict_get sk (mk_key s)")
    case None
    then show ?thesis using Cons(1) [of "sk @ [(mk_key s, s)]"] Cons(2) by (auto simp: dict_set_new)
  next
    case (Some s')
    then have "mk_key s \<in> fst ` set sk" by (metis dict_get_None_iff option.distinct(1))
    with Some show ?thesis using Cons(2) by auto
  qed
qed simp

lemma solve_with_log_ok:
  "\<exists>r. solve_with_log ss = Some r \<and>
     (case r of Inl key \<Rightarrow> \<not> distinct (map mk_key ss) \<and> key \<in> mk_key ` set ss
      | Inr (out, log) \<Rightarrow> distinct (map mk_key ss) \<and> solution (keyed ss) out log)"
proof (cases "index_skeletons ss []")
  case (Inl key)
  then show ?thesis using duplicate_key [OF Inl] by (simp add: solve_with_log_def)
next
  case (Inr sk)
  then have sk: "distinct (map mk_key ss)" "sk = keyed ss" by (simp_all add: index_keyed)
  then have "distinct (map fst sk)" by (simp add: keyed_def comp_def)
  from solve_skeletons_ok [OF this] obtain out log val where o: "solve_skeletons sk = Some (out, log)"
    "map fst out = map fst sk" "\<forall>k\<in>dom (dict_get sk). solved sk val (component_of sk k)"
    "\<forall>kv\<in>set out. \<exists>skel. dict_get sk (fst kv) = Some skel \<and> summarizes sk val (fst kv) skel (snd kv)"
    "sorted log" "set log = unresolved_of sk" by (elim exE conjE) (rule that)
  have "solution sk out log" unfolding solution_def using o(2-6) by blast
  then show ?thesis using Inr o(1) sk by (simp add: solve_with_log_def)
qed

lemma solve_with_log_Inr:
  "solve_with_log ss = Some (Inr (out, log)) \<Longrightarrow> distinct (map mk_key ss) \<and> solution (keyed ss) out log"
  using solve_with_log_ok [of ss] by auto

lemma summarizes_params:
  assumes "summarizes sk val k skel su"
  shows "mu_params su = map (\<lambda>p. \<lparr>pu_index = pk_index p, pu_name = pk_name p, pu_disposable = pk_disposable p,
          pu_transfer = (if pk_disposable p then val (k, pk_index p) else NO), pu_escapes = pk_escapes p\<rparr>) (mk_params skel)"
proof -
  obtain r where "su = \<lparr>mu_key = k, mu_params = map (\<lambda>p. \<lparr>pu_index = pk_index p, pu_name = pk_name p,
       pu_disposable = pk_disposable p, pu_transfer = (if pk_disposable p then val (k, pk_index p) else NO),
       pu_escapes = pk_escapes p\<rparr>) (mk_params skel), mu_returns = r, mu_file = mk_file skel, mu_line = mk_line skel,
       mu_source = ''inferred''\<rparr>"
    using assms unfolding summarizes_def by blast
  then show ?thesis by simp
qed

lemma solution_transfer:
  assumes s: "solution sk out log" and k: "(k, su) \<in> set out" and p: "p \<in> set (mu_params su)" "pu_disposable p"
    and e: "executes sk (k, pu_index p) b"
  shows "(pu_transfer p = MUST \<longrightarrow> b) \<and> (pu_transfer p = NO \<longrightarrow> \<not> b)"
proof -
  obtain val where v: "\<forall>k\<in>dom (dict_get sk). solved sk val (component_of sk k)"
    "\<forall>kv\<in>set out. \<exists>skel. dict_get sk (fst kv) = Some skel \<and> summarizes sk val (fst kv) skel (snd kv)"
    using s unfolding solution_def by blast
  from bspec [OF v(2) k] obtain skel where skel: "dict_get sk k = Some skel" "summarizes sk val k skel su"
    unfolding fst_conv snd_conv by blast
  obtain q where q: "q \<in> set (mk_params skel)" "pk_index q = pu_index p" "pk_disposable q" "pu_transfer p = val (k, pk_index q)"
    using p unfolding summarizes_params [OF skel(2)] by auto
  then have "(k, pu_index p) \<in> params_in sk (dom (dict_get sk))" using skel(1) by (auto simp: params_in_def)
  from transfers_sound [OF v(1) this e] q show ?thesis by simp
qed

lemma summarizes_unique:
  assumes "summarizes sk val k skel su" "summarizes sk val' k skel su'" "dict_get sk k = Some skel"
    "\<forall>m\<in>params_in sk (dom (dict_get sk)). val m = val' m"
  shows "su = su'"
proof -
  let ?ps = "\<lambda>val. map (\<lambda>p. \<lparr>pu_index = pk_index p, pu_name = pk_name p, pu_disposable = pk_disposable p,
          pu_transfer = (if pk_disposable p then val (k, pk_index p) else NO), pu_escapes = pk_escapes p\<rparr>) (mk_params skel)"
  have "val (k, pk_index p) = val' (k, pk_index p)" if p: "p \<in> set (mk_params skel)" "pk_disposable p" for p
  proof -
    have "(k, pk_index p) \<in> params_in sk (dom (dict_get sk))" using p assms(3) by (auto simp: params_in_def)
    then show ?thesis using assms(4) by blast
  qed
  then have ps: "?ps val = ?ps val'" by auto
  have r: "mu_returns su = mu_returns su'" using assms(1,2) return_value_det unfolding summarizes_def by blast
  have "su = \<lparr>mu_key = k, mu_params = ?ps val, mu_returns = mu_returns su, mu_file = mk_file skel, mu_line = mk_line skel, mu_source = ''inferred''\<rparr>"
    "su' = \<lparr>mu_key = k, mu_params = ?ps val', mu_returns = mu_returns su', mu_file = mk_file skel, mu_line = mk_line skel, mu_source = ''inferred''\<rparr>"
    using assms(1,2) unfolding summarizes_def by blast+
  then show ?thesis unfolding ps r by simp
qed

lemma solution_map_only:
  assumes eq: "dict_get sk = dict_get sk'" and s: "solution sk out log" "solution sk' out' log'"
    and k: "(k, su) \<in> set out" "(k, su') \<in> set out'"
  shows "su = su'"
proof -
  obtain val where v: "\<forall>k\<in>dom (dict_get sk). solved sk val (component_of sk k)"
    "\<forall>kv\<in>set out. \<exists>skel. dict_get sk (fst kv) = Some skel \<and> summarizes sk val (fst kv) skel (snd kv)"
    using s(1) unfolding solution_def by blast
  obtain val' where v': "\<forall>k\<in>dom (dict_get sk'). solved sk' val' (component_of sk' k)"
    "\<forall>kv\<in>set out'. \<exists>skel. dict_get sk' (fst kv) = Some skel \<and> summarizes sk' val' (fst kv) skel (snd kv)"
    using s(2) unfolding solution_def by blast
  obtain skel where skel: "dict_get sk k = Some skel" "summarizes sk val k skel su"
    using bspec [OF v(2) k(1)] unfolding fst_conv snd_conv by blast
  have "summarizes sk' val' k skel su'"
    using bspec [OF v'(2) k(2)] skel(1) eq unfolding fst_conv snd_conv by auto
  then have "summarizes sk val' k skel su'" unfolding summarizes_def map_only(3) [OF eq] .
  moreover have "\<forall>k\<in>dom (dict_get sk). solved sk val' (component_of sk k)"
    using v'(1) unfolding map_only(1,2) [OF eq] eq .
  ultimately show ?thesis using summarizes_unique [OF skel(2) _ skel(1)] solved_unique [OF v(1)] by blast
qed

lemma solve_order_free_lemma:
  assumes m: "mset ss = mset ss'" and s: "solve_with_log ss = Some (Inr (out, log))"
  shows "\<exists>out' log'. solve_with_log ss' = Some (Inr (out', log')) \<and> set out = set out' \<and> set log = set log'"
proof -
  have d: "distinct (map mk_key ss)" and sol: "solution (keyed ss) out log" using solve_with_log_Inr [OF s] by auto
  have "mset (map mk_key ss) = mset (map mk_key ss')" using m by simp
  then have d': "distinct (map mk_key ss')" using d mset_eq_imp_distinct_iff by blast
  then obtain out' log' where s': "solve_with_log ss' = Some (Inr (out', log'))" "solution (keyed ss') out' log'"
  proof -
    obtain r where r: "solve_with_log ss' = Some r" "case r of Inl key \<Rightarrow> \<not> distinct (map mk_key ss') \<and> key \<in> mk_key ` set ss'
      | Inr (out, log) \<Rightarrow> distinct (map mk_key ss') \<and> solution (keyed ss') out log"
      using solve_with_log_ok [of ss'] by blast
    show thesis using r d' that by (cases r) auto
  qed
  have kd: "distinct (map fst (keyed ss))" "distinct (map fst (keyed ss'))" using d d' by (simp_all add: keyed_def comp_def)
  have "set (keyed ss) = set (keyed ss')" using mset_eq_setD [OF m] by (simp add: keyed_def)
  then have eq: "dict_get (keyed ss) = dict_get (keyed ss')"
    unfolding dict_get_def [abs_def] using map_of_inject_set [OF kd] by simp
  have fst: "map fst out = map fst (keyed ss)" "map fst out' = map fst (keyed ss')"
    using sol s'(2) by (simp_all add: solution_def)
  have keys: "fst ` set out = fst ` set out'"
    using \<open>set (keyed ss) = set (keyed ss')\<close> arg_cong [OF fst(1), of set] arg_cong [OF fst(2), of set] by simp
  have "set out = set out'"
  proof (intro equalityI subsetI)
    fix kv assume "kv \<in> set out"
    moreover then obtain su' where "(fst kv, su') \<in> set out'" using keys by (metis (no_types, lifting) imageE image_eqI prod.collapse)
    ultimately show "kv \<in> set out'" using solution_map_only [OF eq sol s'(2), of "fst kv" "snd kv" su'] by (cases kv) auto
  next
    fix kv assume "kv \<in> set out'"
    moreover then obtain su where "(fst kv, su) \<in> set out" using keys by (metis (no_types, lifting) imageE image_eqI prod.collapse)
    ultimately show "kv \<in> set out" using solution_map_only [OF eq sol s'(2), of "fst kv" su "snd kv"] by (cases kv) auto
  qed
  moreover have "set log = set log'" using sol s'(2) map_only(4) [OF eq] by (simp add: solution_def)
  ultimately show ?thesis using s'(1) by blast
qed

end
