(* ===== verification/Own_Heap.thy ===== *)
theory Own_Heap
  imports Own_Json "HOL-Library.Char_ord" "HOL-Library.List_Lexorder"
begin

text \<open>
  The heap-effect summaries (\<open>ownlang/heap_effects.py\<close>): the source facts and their validation, the
  transfer function of a method, the components of the call graph, the fixpoint, and the predicate
  that decides whether a call is harmless.
\<close>

section \<open>The domain\<close>

definition EFFECTS :: "string list" where
  "EFFECTS = [''plain'', ''borrow'', ''borrow_mut'', ''may_escape'', ''unknown'']"

definition PLAIN :: nat where "PLAIN = 0"
definition BORROW :: nat where "BORROW = 1"
definition BORROW_MUT :: nat where "BORROW_MUT = 2"
definition MAY_ESCAPE :: nat where "MAY_ESCAPE = 3"
definition UNKNOWN_EFFECT :: nat where "UNKNOWN_EFFECT = 4"

definition WRITES :: "string list" where "WRITES = [''none'', ''may'', ''unknown'']"

definition W_NONE :: nat where "W_NONE = 0"
definition W_MAY :: nat where "W_MAY = 1"
definition W_UNKNOWN :: nat where "W_UNKNOWN = 2"

definition WRITE_KINDS :: "string list" where "WRITE_KINDS = [''instance'', ''static'', ''indirect'']"
definition DISPATCHES :: "string list" where "DISPATCHES = [''direct'', ''virtual'', ''extern'', ''delegate'']"
definition MAX_LINE :: int where "MAX_LINE = 2147483647"

lemmas effect_defs = PLAIN_def BORROW_def BORROW_MUT_def MAY_ESCAPE_def UNKNOWN_EFFECT_def
  W_NONE_def W_MAY_def W_UNKNOWN_def

text \<open>
  The tokens of the facts, in the shape the code tests their text for, and \<open>unknown\<close>, which only
  the solver makes.
\<close>

datatype Token = TParam nat | TLocal nat | TCall nat | TReceiver | THeap | TUnknown

fun token_text :: "Token \<Rightarrow> string" where
  "token_text (TParam i) = ''param:'' @ nat_str i"
| "token_text (TLocal i) = ''local:'' @ nat_str i"
| "token_text (TCall i) = ''call:'' @ nat_str i"
| "token_text TReceiver = ''receiver''"
| "token_text THeap = ''heap''"
| "token_text TUnknown = ''unknown''"

text \<open>The facts of a call and a method; the tokens are text until they are checked.\<close>

record 'a Call =
  ca_callee :: string
  ca_dispatch :: string
  ca_receiver :: "'a list option"
  ca_args :: "'a list list"

record 'a Method =
  hm_key :: string
  hm_path :: string
  hm_line :: int
  hm_receiver :: bool
  hm_return_inert :: bool
  hm_params :: "(string \<times> bool) list"
  hm_locals :: "'a list list"
  hm_derefs :: "'a list"
  hm_writes :: "(string \<times> 'a list) list"
  hm_stores :: "'a list"
  hm_returns :: "'a list"
  hm_calls :: "'a Call list"
  hm_unknown :: "string list"

section \<open>Loading a document\<close>

type_synonym 'a loaded = "(string, 'a) result"

definition fail_at :: "string \<Rightarrow> string \<Rightarrow> 'a loaded" where
  "fail_at loc what = Inl (''heap-effect facts: '' @ loc @ '': '' @ what)"

definition bad :: "string \<Rightarrow> string \<Rightarrow> 'a loaded" where
  "bad loc field = fail_at loc (''field '' @ quoted field @ '' is missing or has the wrong type'')"

fun as_int :: "Json \<Rightarrow> int option" where
  "as_int (JInt v) = (if - (2 ^ 63) \<le> v \<and> v \<le> 2 ^ 64 - 1 then Some v else None)"
| "as_int _ = None"

fun as_bool :: "Json \<Rightarrow> bool option" where
  "as_bool (JBool b) = Some b"
| "as_bool _ = None"

fun as_list :: "Json \<Rightarrow> Json list option" where
  "as_list (JList js) = Some js"
| "as_list _ = None"

fun as_obj :: "Json \<Rightarrow> (string, Json) dict option" where
  "as_obj (JObj d) = Some d"
| "as_obj _ = None"

definition strings_of :: "Json \<Rightarrow> string list option" where
  "strings_of v = Option.bind (as_list v) all_str"

text \<open>A field that must have a value of a type.\<close>

definition field :: "string \<Rightarrow> string \<Rightarrow> 'a option \<Rightarrow> 'a loaded" where
  "field loc name v = (case v of None \<Rightarrow> bad loc name | Some x \<Rightarrow> Inr x)"

definition line_of :: "Json \<Rightarrow> int option" where
  "line_of v = Option.bind (as_int v) (\<lambda>l. if 0 \<le> l \<and> l \<le> MAX_LINE then Some l else None)"

definition at_index :: "string \<Rightarrow> nat \<Rightarrow> string" where
  "at_index name j = name @ ''['' @ nat_str j @ '']''"

text \<open>The entries of an array, in order, each with its index.\<close>

fun load_each :: "(nat \<Rightarrow> Json \<Rightarrow> 'a loaded) \<Rightarrow> nat \<Rightarrow> Json list \<Rightarrow> 'a list loaded" where
  "load_each f j [] = Inr []"
| "load_each f j (x # xs) = rbind (f j x) (\<lambda>y. rbind (load_each f (Suc j) xs) (\<lambda>ys. Inr (y # ys)))"

definition load_param :: "string \<Rightarrow> nat \<Rightarrow> Json \<Rightarrow> (string \<times> bool) loaded" where
  "load_param loc j p =
     (case as_obj p of
        None \<Rightarrow> bad loc ''params''
      | Some d \<Rightarrow>
          (case (as_int (jget d ''index''), as_str (jget d ''name''), as_bool (jget d ''inert'')) of
             (Some i, Some n, Some b) \<Rightarrow>
               if i \<noteq> int j then fail_at loc (at_index ''params'' j @ '' is out of sequence'') else Inr (n, b)
           | _ \<Rightarrow> bad loc ''params''))"

definition load_local :: "string \<Rightarrow> nat \<Rightarrow> Json \<Rightarrow> string list loaded" where
  "load_local loc j l =
     (case as_obj l of
        None \<Rightarrow> bad loc ''locals''
      | Some d \<Rightarrow>
          (case (as_int (jget d ''id''), as_str (jget d ''name''), strings_of (jget d ''sources'')) of
             (Some i, Some n, Some ss) \<Rightarrow>
               if i \<noteq> int j then fail_at loc (at_index ''locals'' j @ '' is out of sequence'') else Inr ss
           | _ \<Rightarrow> bad loc ''locals''))"

text \<open>All argument slots, or none when some slot is not an array of strings.\<close>

fun all_slots :: "Json list \<Rightarrow> string list list option" where
  "all_slots [] = Some []"
| "all_slots (j # js) = (case (strings_of j, all_slots js) of
     (Some s, Some ss) \<Rightarrow> Some (s # ss)
   | _ \<Rightarrow> None)"

definition receiver_of :: "Json \<Rightarrow> string list option option" where
  "receiver_of v = (if v = JNull then Some None else map_option Some (strings_of v))"

definition load_call :: "string \<Rightarrow> nat \<Rightarrow> Json \<Rightarrow> string Call loaded" where
  "load_call loc j c =
     (case as_obj c of
        None \<Rightarrow> bad loc ''calls''
      | Some d \<Rightarrow>
          (case (as_int (jget d ''id''), as_str (jget d ''callee''), as_str (jget d ''dispatch''),
                 line_of (jget d ''line''), receiver_of (jget d ''receiver''),
                 Option.bind (as_list (jget d ''args'')) all_slots) of
             (Some i, Some callee, Some dispatch, Some l, Some recv, Some args) \<Rightarrow>
               if i \<noteq> int j then fail_at loc (at_index ''calls'' j @ '' is out of sequence'')
               else if dispatch \<notin> set DISPATCHES then fail_at loc (at_index ''calls'' j @ '' has an unknown dispatch'')
               else Inr \<lparr>ca_callee = callee, ca_dispatch = dispatch, ca_receiver = recv, ca_args = args\<rparr>
           | _ \<Rightarrow> bad loc ''calls''))"

definition load_write :: "string \<Rightarrow> nat \<Rightarrow> Json \<Rightarrow> (string \<times> string list) loaded" where
  "load_write loc j w =
     (case as_obj w of
        None \<Rightarrow> bad loc ''writes''
      | Some d \<Rightarrow>
          (case (as_str (jget d ''kind''), strings_of (jget d ''target'')) of
             (Some kind, Some target) \<Rightarrow>
               if kind \<notin> set WRITE_KINDS then fail_at loc (at_index ''writes'' j @ '' has an unknown kind'') else Inr (kind, target)
           | _ \<Rightarrow> bad loc ''writes''))"

definition nonempty_str :: "Json \<Rightarrow> string option" where
  "nonempty_str v = (case as_str v of Some (c # cs) \<Rightarrow> Some (c # cs) | _ \<Rightarrow> None)"

text \<open>The arrays of a method, once its scalar fields are read.\<close>

definition load_arrays :: "string \<Rightarrow> (string, Json) dict \<Rightarrow> string Method \<Rightarrow> string Method loaded" where
  "load_arrays loc d m =
     rbind (field loc ''params'' (as_list (jget d ''params''))) (\<lambda>raw.
     rbind (load_each (load_param loc) 0 raw) (\<lambda>params.
     rbind (field loc ''locals'' (as_list (jget d ''locals''))) (\<lambda>raw.
     rbind (load_each (load_local loc) 0 raw) (\<lambda>lcls.
     rbind (field loc ''calls'' (as_list (jget d ''calls''))) (\<lambda>raw.
     rbind (load_each (load_call loc) 0 raw) (\<lambda>calls.
     rbind (field loc ''writes'' (as_list (jget d ''writes''))) (\<lambda>raw.
     rbind (load_each (load_write loc) 0 raw) (\<lambda>writes.
     rbind (field loc ''derefs'' (strings_of (jget d ''derefs''))) (\<lambda>derefs.
     rbind (field loc ''stores'' (strings_of (jget d ''stores''))) (\<lambda>stores.
     rbind (field loc ''returns'' (strings_of (jget d ''returns''))) (\<lambda>returns.
     rbind (field loc ''unknown'' (strings_of (jget d ''unknown''))) (\<lambda>unk.
       Inr (m\<lparr>hm_params := params, hm_locals := lcls, hm_calls := calls, hm_writes := writes,
              hm_derefs := derefs, hm_stores := stores, hm_returns := returns, hm_unknown := unk\<rparr>)))))))))))))"

definition load_method :: "string \<Rightarrow> (string, Json) dict \<Rightarrow> string list \<Rightarrow> string Method loaded" where
  "load_method loc d seen =
     rbind (field loc ''key'' (nonempty_str (jget d ''key''))) (\<lambda>key.
     if key \<in> set seen then fail_at loc ''duplicate key''
     else
       rbind (field loc ''file'' (as_str (jget d ''file''))) (\<lambda>file.
       rbind (field loc ''line'' (line_of (jget d ''line''))) (\<lambda>line.
       rbind (field loc ''receiver'' (as_bool (jget d ''receiver''))) (\<lambda>receiver.
       rbind (field loc ''return_inert'' (as_bool (jget d ''return_inert''))) (\<lambda>inert.
         load_arrays loc d \<lparr>hm_key = key, hm_path = file, hm_line = line, hm_receiver = receiver,
           hm_return_inert = inert, hm_params = [], hm_locals = [], hm_derefs = [], hm_writes = [],
           hm_stores = [], hm_returns = [], hm_calls = [], hm_unknown = []\<rparr>)))))"

section \<open>Checking the tokens\<close>

text \<open>
  \<open>_TOKEN\<close>: a decimal without leading zeros after one of the three prefixes. The check turns the text
  into a token; it is refused when its number is not below the number of things it counts.
\<close>

definition strip_prefix :: "string \<Rightarrow> string \<Rightarrow> string option" where
  "strip_prefix p s = (if take (length p) s = p then Some (drop (length p) s) else None)"

definition digit_value :: "char \<Rightarrow> nat option" where
  "digit_value c = (if CHR ''0'' \<le> c \<and> c \<le> CHR ''9'' then Some (of_char c - 48) else None)"

fun decimal :: "string \<Rightarrow> nat \<Rightarrow> nat option" where
  "decimal [] acc = Some acc"
| "decimal (c # cs) acc = (case digit_value c of None \<Rightarrow> None | Some d \<Rightarrow> decimal cs (10 * acc + d))"

definition canonical_nat :: "string \<Rightarrow> nat option" where
  "canonical_nat s = (case s of
       [] \<Rightarrow> None
     | c # cs \<Rightarrow> if c = CHR ''0'' \<and> cs \<noteq> [] then None else decimal s 0)"

definition numbered :: "string \<Rightarrow> (nat \<Rightarrow> Token) \<Rightarrow> nat \<Rightarrow> string \<Rightarrow> Token option" where
  "numbered p mk limit s = Option.bind (Option.bind (strip_prefix p s) canonical_nat)
     (\<lambda>i. if i < limit then Some (mk i) else None)"

definition token_of :: "'a Method \<Rightarrow> string \<Rightarrow> Token option" where
  "token_of m t =
     (if t = ''heap'' then Some THeap
      else if t = ''receiver'' \<and> hm_receiver m then Some TReceiver
      else case numbered ''param:'' TParam (length (hm_params m)) t of
             Some x \<Rightarrow> Some x
           | None \<Rightarrow> (case numbered ''local:'' TLocal (length (hm_locals m)) t of
               Some x \<Rightarrow> Some x
             | None \<Rightarrow> numbered ''call:'' TCall (length (hm_calls m)) t))"

fun check_tokens :: "string \<Rightarrow> 'a Method \<Rightarrow> string \<Rightarrow> string list \<Rightarrow> Token list loaded" where
  "check_tokens loc m fieldname [] = Inr []"
| "check_tokens loc m fieldname (t # ts) =
     (case token_of m t of
        None \<Rightarrow> fail_at loc (fieldname @ '' holds a token outside the vocabulary'')
      | Some x \<Rightarrow> rbind (check_tokens loc m fieldname ts) (\<lambda>xs. Inr (x # xs)))"

text \<open>An array of token lists, each named by its index.\<close>

fun check_lists :: "string \<Rightarrow> 'a Method \<Rightarrow> string \<Rightarrow> nat \<Rightarrow> string list list \<Rightarrow> Token list list loaded" where
  "check_lists loc m name j [] = Inr []"
| "check_lists loc m name j (ts # tss) =
     rbind (check_tokens loc m (at_index name j) ts) (\<lambda>xs.
     rbind (check_lists loc m name (Suc j) tss) (\<lambda>xss. Inr (xs # xss)))"

definition check_call :: "string \<Rightarrow> 'a Method \<Rightarrow> nat \<Rightarrow> string Call \<Rightarrow> Token Call loaded" where
  "check_call loc m j c =
     rbind (case ca_receiver c of
              None \<Rightarrow> Inr None
            | Some ts \<Rightarrow> rbind (check_tokens loc m (at_index ''calls'' j @ ''.receiver'') ts) (\<lambda>xs. Inr (Some xs))) (\<lambda>recv.
     rbind (check_lists loc m (at_index ''calls'' j @ ''.args'') 0 (ca_args c)) (\<lambda>args.
       Inr \<lparr>ca_callee = ca_callee c, ca_dispatch = ca_dispatch c, ca_receiver = recv, ca_args = args\<rparr>))"

fun check_calls :: "string \<Rightarrow> 'a Method \<Rightarrow> nat \<Rightarrow> string Call list \<Rightarrow> Token Call list loaded" where
  "check_calls loc m j [] = Inr []"
| "check_calls loc m j (c # cs) =
     rbind (check_call loc m j c) (\<lambda>x. rbind (check_calls loc m (Suc j) cs) (\<lambda>xs. Inr (x # xs)))"

definition check_method :: "string \<Rightarrow> string Method \<Rightarrow> Token Method loaded" where
  "check_method loc m =
     rbind (check_lists loc m ''locals'' 0 (hm_locals m)) (\<lambda>lcls.
     rbind (check_tokens loc m ''derefs'' (hm_derefs m)) (\<lambda>derefs.
     rbind (check_lists loc m ''writes'' 0 (map snd (hm_writes m))) (\<lambda>targets.
     rbind (check_tokens loc m ''stores'' (hm_stores m)) (\<lambda>stores.
     rbind (check_tokens loc m ''returns'' (hm_returns m)) (\<lambda>returns.
     rbind (check_calls loc m 0 (hm_calls m)) (\<lambda>calls.
       Inr \<lparr>hm_key = hm_key m, hm_path = hm_path m, hm_line = hm_line m, hm_receiver = hm_receiver m,
             hm_return_inert = hm_return_inert m, hm_params = hm_params m, hm_locals = lcls, hm_derefs = derefs,
             hm_writes = zip (map fst (hm_writes m)) targets, hm_stores = stores, hm_returns = returns,
             hm_calls = calls, hm_unknown = hm_unknown m\<rparr>))))))"

fun load_methods :: "nat \<Rightarrow> Json list \<Rightarrow> string list \<Rightarrow> Token Method list loaded" where
  "load_methods i [] seen = Inr []"
| "load_methods i (j # js) seen =
     (case as_obj j of
        None \<Rightarrow> Inl ''heap-effect facts: methods must be an array of objects''
      | Some d \<Rightarrow>
          rbind (load_method (''method #'' @ nat_str i) d seen) (\<lambda>raw.
          rbind (check_method (''method #'' @ nat_str i) raw) (\<lambda>m.
          rbind (load_methods (Suc i) js (hm_key m # seen)) (\<lambda>ms. Inr (m # ms)))))"

type_synonym Facts = "(string, Token Method) dict"

definition by_key :: "Token Method list \<Rightarrow> Facts" where
  "by_key ms = foldl (\<lambda>d m. dict_set d (hm_key m) m) [] ms"

definition arity_ok :: "Facts \<Rightarrow> Token Call \<Rightarrow> bool" where
  "arity_ok facts c = (case dict_get facts (ca_callee c) of
       None \<Rightarrow> True
     | Some callee \<Rightarrow> ca_dispatch c = ''direct'' \<longrightarrow> length (ca_args c) = length (hm_params callee))"

fun check_arity :: "Facts \<Rightarrow> string \<Rightarrow> nat \<Rightarrow> Token Call list \<Rightarrow> unit loaded" where
  "check_arity facts loc j [] = Inr ()"
| "check_arity facts loc j (c # cs) =
     (if arity_ok facts c then check_arity facts loc (Suc j) cs
      else fail_at loc (at_index ''calls'' j @ '' has '' @ nat_str (length (ca_args c)) @ '' argument slots, its callee takes ''
             @ nat_str (case dict_get facts (ca_callee c) of None \<Rightarrow> 0 | Some callee \<Rightarrow> length (hm_params callee))))"

fun check_arities :: "Facts \<Rightarrow> nat \<Rightarrow> Token Method list \<Rightarrow> unit loaded" where
  "check_arities facts i [] = Inr ()"
| "check_arities facts i (m # ms) =
     rbind (check_arity facts (''method #'' @ nat_str i) 0 (hm_calls m)) (\<lambda>_. check_arities facts (Suc i) ms)"

fun load_facts :: "Json \<Rightarrow> Token Method list loaded" where
  "load_facts (JObj doc) =
     (if as_int (jget doc ''heap_effects_version'') \<noteq> Some 1
      then Inl ''heap-effect facts: heap_effects_version must be 1''
      else (case as_list (jget doc ''methods'') of
              None \<Rightarrow> Inl ''heap-effect facts: methods must be an array of objects''
            | Some js \<Rightarrow>
                if \<not> list_all (\<lambda>j. as_obj j \<noteq> None) js
                then Inl ''heap-effect facts: methods must be an array of objects''
                else rbind (load_methods 0 js []) (\<lambda>ms.
                     rbind (check_arities (by_key ms) 0 ms) (\<lambda>_. Inr ms))))"
| "load_facts doc = Inl ''heap-effect facts: the document is not an object''"

section \<open>The transfer function\<close>

record Summary =
  su_params :: "nat list"
  su_receiver :: "nat option"
  su_writes :: "nat list"
  su_returns :: "Token list"

definition bottom_summary :: "Token Method \<Rightarrow> Summary" where
  "bottom_summary m = \<lparr>su_params = map (\<lambda>p. PLAIN) (hm_params m),
     su_receiver = (if hm_receiver m then Some PLAIN else None), su_writes = [W_NONE, W_NONE, W_NONE], su_returns = []\<rparr>"

type_synonym Solved = "(string, Summary) dict"

definition callee_unknown :: "Token Call \<Rightarrow> Facts \<Rightarrow> bool" where
  "callee_unknown c facts \<longleftrightarrow> ca_dispatch c \<noteq> ''direct'' \<or> dict_get facts (ca_callee c) = None"

definition solved_at :: "Solved \<Rightarrow> string \<Rightarrow> Summary" where
  "solved_at solved k = dict_get_or solved k \<lparr>su_params = [], su_receiver = None, su_writes = [], su_returns = []\<rparr>"

text \<open>Reading an array at an index that the loaded facts keep in range.\<close>

definition nth_list :: "'a list list \<Rightarrow> nat \<Rightarrow> 'a list" where
  "nth_list xs i = (if i < length xs then xs ! i else [])"

text \<open>What one token stands for: a root, or more tokens to follow.\<close>

definition call_tokens :: "Facts \<Rightarrow> Solved \<Rightarrow> Token Call \<Rightarrow> Token list" where
  "call_tokens facts solved c =
     (if callee_unknown c facts then [TUnknown]
      else concat (map (\<lambda>r. case r of
             TParam i \<Rightarrow> nth_list (ca_args c) i
           | TReceiver \<Rightarrow> (case ca_receiver c of None \<Rightarrow> [THeap] | Some ts \<Rightarrow> ts)
           | _ \<Rightarrow> [r]) (su_returns (solved_at solved (ca_callee c)))))"

definition follow :: "Token Method \<Rightarrow> Facts \<Rightarrow> Solved \<Rightarrow> Token \<Rightarrow> Token list" where
  "follow m facts solved t = (case t of
       TLocal i \<Rightarrow> nth_list (hm_locals m) i
     | TCall k \<Rightarrow> if k < length (hm_calls m) then call_tokens facts solved (hm_calls m ! k) else []
     | _ \<Rightarrow> [])"

definition is_root :: "Token \<Rightarrow> bool" where
  "is_root t = (case t of TLocal i \<Rightarrow> False | TCall k \<Rightarrow> False | _ \<Rightarrow> True)"

lemma finite_follow: "finite (\<Union>t. set (follow m facts solved t))"
proof -
  have "(\<Union>t. set (follow m facts solved t)) \<subseteq>
      (\<Union>i<length (hm_locals m). set (nth_list (hm_locals m) i))
      \<union> (\<Union>k<length (hm_calls m). set (call_tokens facts solved (hm_calls m ! k)))"
    by (auto simp: follow_def nth_list_def split: Token.splits if_split_asm)
  then show ?thesis by (rule finite_subset) simp
qed

text \<open>The walk of \<open>roots\<close>; the top of its stack is the head.\<close>

function roots_walk :: "Token Method \<Rightarrow> Facts \<Rightarrow> Solved \<Rightarrow> Token list \<Rightarrow> Token list \<Rightarrow> Token list \<Rightarrow> Token list" where
  "roots_walk m facts solved [] seen out = out"
| "roots_walk m facts solved (t # stack) seen out =
     (if t \<in> set seen then roots_walk m facts solved stack seen out
      else if is_root t then roots_walk m facts solved stack (t # seen) (List.insert t out)
      else roots_walk m facts solved (rev (follow m facts solved t) @ stack) (t # seen) out)"
  by pat_completeness auto
termination
proof (relation "inv_image (less_than <*lex*> less_than)
    (\<lambda>(m, facts, solved, stack, seen, out).
       (card ((set stack \<union> (\<Union>t. set (follow m facts solved t))) - set seen), length stack))", goal_cases)
  case 1
  show ?case by (rule wf_inv_image [OF wf_lex_prod [OF wf_less_than wf_less_than]])
next
  case (2 m facts solved t stack seen out)
  let ?F = "\<Union>t. set (follow m facts solved t)"
  have "card ((set stack \<union> ?F) - set seen) \<le> card ((set (t # stack) \<union> ?F) - set seen)"
    by (rule card_mono) (auto simp: finite_follow)
  then show ?case by (auto simp: le_less)
next
  case (3 m facts solved t stack seen out)
  let ?F = "\<Union>t. set (follow m facts solved t)"
  have "card ((set stack \<union> ?F) - set (t # seen)) < card ((set (t # stack) \<union> ?F) - set seen)"
    by (rule psubset_card_mono) (use 3 in \<open>auto simp: finite_follow\<close>)
  then show ?case by simp
next
  case (4 m facts solved t stack seen out)
  let ?F = "\<Union>t. set (follow m facts solved t)"
  have "card ((set (rev (follow m facts solved t) @ stack) \<union> ?F) - set (t # seen)) < card ((set (t # stack) \<union> ?F) - set seen)"
    by (rule psubset_card_mono) (use 4 in \<open>auto simp: finite_follow\<close>)
  then show ?case by simp
qed

definition roots :: "Token Method \<Rightarrow> Facts \<Rightarrow> Solved \<Rightarrow> Token list \<Rightarrow> Token list" where
  "roots m facts solved tokens = roots_walk m facts solved (rev tokens) [] []"

text \<open>The effects gathered so far: per parameter, on the receiver, per kind of write.\<close>

record Gathered =
  ga_params :: "nat list"
  ga_receiver :: "nat option"
  ga_writes :: "nat list"

definition raise_to :: "nat list \<Rightarrow> nat \<Rightarrow> nat \<Rightarrow> nat list" where
  "raise_to xs i e = (if i < length xs then xs[i := max (xs ! i) e] else xs)"

definition inert_param :: "Token Method \<Rightarrow> nat \<Rightarrow> bool" where
  "inert_param m i \<longleftrightarrow> i < length (hm_params m) \<and> snd (hm_params m ! i)"

definition apply_root :: "Token Method \<Rightarrow> nat \<Rightarrow> nat \<Rightarrow> Token \<Rightarrow> Gathered \<Rightarrow> Gathered" where
  "apply_root m effect kind r g = (case r of
       TParam i \<Rightarrow> if inert_param m i then g else g\<lparr>ga_params := raise_to (ga_params g) i effect\<rparr>
     | TReceiver \<Rightarrow> g\<lparr>ga_receiver := map_option (max effect) (ga_receiver g)\<rparr>
     | _ \<Rightarrow>
         if effect \<ge> BORROW_MUT
         then g\<lparr>ga_writes := raise_to (ga_writes g) kind
                  (if r = TUnknown \<or> effect = UNKNOWN_EFFECT then W_UNKNOWN else W_MAY)\<rparr>
         else g)"

definition apply_effect :: "Token Method \<Rightarrow> Facts \<Rightarrow> Solved \<Rightarrow> Token list \<Rightarrow> nat \<Rightarrow> nat \<Rightarrow> Gathered \<Rightarrow> Gathered" where
  "apply_effect m facts solved tokens effect kind g = fold (apply_root m effect kind) (roots m facts solved tokens) g"

definition kind_index :: "string \<Rightarrow> nat" where
  "kind_index kind = (if kind = ''instance'' then 0 else if kind = ''static'' then 1 else 2)"

definition apply_write :: "Token Method \<Rightarrow> Facts \<Rightarrow> Solved \<Rightarrow> string \<times> Token list \<Rightarrow> Gathered \<Rightarrow> Gathered" where
  "apply_write m facts solved w g = (case w of (kind, target) \<Rightarrow>
     if kind = ''static'' then g\<lparr>ga_writes := raise_to (ga_writes g) 1 W_MAY\<rparr>
     else apply_effect m facts solved target BORROW_MUT (kind_index kind) g)"

fun apply_args :: "Token Method \<Rightarrow> Facts \<Rightarrow> Solved \<Rightarrow> Token list list \<Rightarrow> nat list \<Rightarrow> nat \<Rightarrow> Gathered \<Rightarrow> Gathered" where
  "apply_args m facts solved args [] j g = g"
| "apply_args m facts solved args (e # es) j g =
     apply_args m facts solved args es (Suc j) (apply_effect m facts solved (nth_list args j) e 0 g)"

definition apply_call :: "Token Method \<Rightarrow> Facts \<Rightarrow> Solved \<Rightarrow> Token Call \<Rightarrow> Gathered \<Rightarrow> Gathered" where
  "apply_call m facts solved c g =
     (if callee_unknown c facts then
        (let g1 = fold (\<lambda>arg. apply_effect m facts solved arg UNKNOWN_EFFECT 0) (ca_args c) g;
             g2 = (case ca_receiver c of None \<Rightarrow> g1 | Some ts \<Rightarrow> apply_effect m facts solved ts UNKNOWN_EFFECT 0 g1)
         in g2\<lparr>ga_writes := [W_UNKNOWN, W_UNKNOWN, W_UNKNOWN]\<rparr>)
      else
        (let s = solved_at solved (ca_callee c);
             g1 = apply_args m facts solved (ca_args c) (su_params s) 0 g;
             g2 = (case (su_receiver s, ca_receiver c) of
                     (Some e, Some ts) \<Rightarrow> apply_effect m facts solved ts e 0 g1
                   | _ \<Rightarrow> g1)
         in g2\<lparr>ga_writes := map2 max (ga_writes g2) (su_writes s)\<rparr>))"

definition gather :: "Token Method \<Rightarrow> Facts \<Rightarrow> Solved \<Rightarrow> Gathered" where
  "gather m facts solved =
     (let g0 = \<lparr>ga_params = map (\<lambda>p. PLAIN) (hm_params m), ga_receiver = (if hm_receiver m then Some PLAIN else None),
                ga_writes = [W_NONE, W_NONE, W_NONE]\<rparr>;
          g1 = apply_effect m facts solved (hm_derefs m) BORROW 0 g0;
          g2 = fold (apply_write m facts solved) (hm_writes m) g1;
          g3 = apply_effect m facts solved (hm_stores m) MAY_ESCAPE 0 g2
      in fold (apply_call m facts solved) (hm_calls m) g3)"

definition returned :: "Token Method \<Rightarrow> Facts \<Rightarrow> Solved \<Rightarrow> Token list" where
  "returned m facts solved =
     (let rs = filter (\<lambda>r. case r of TParam i \<Rightarrow> \<not> inert_param m i | _ \<Rightarrow> True) (roots m facts solved (hm_returns m))
      in if hm_return_inert m then [] else if TUnknown \<in> set rs then [TUnknown] else sort_key token_text rs)"

definition evaluate :: "Token Method \<Rightarrow> Facts \<Rightarrow> Solved \<Rightarrow> Summary" where
  "evaluate m facts solved =
     (if hm_unknown m \<noteq> [] then
        \<lparr>su_params = map (\<lambda>p. if snd p then PLAIN else UNKNOWN_EFFECT) (hm_params m),
         su_receiver = (if hm_receiver m then Some UNKNOWN_EFFECT else None),
         su_writes = [W_UNKNOWN, W_UNKNOWN, W_UNKNOWN],
         su_returns = (if hm_return_inert m then [] else [TUnknown])\<rparr>
      else
        (let g = gather m facts solved
         in \<lparr>su_params = ga_params g, su_receiver = ga_receiver g, su_writes = ga_writes g,
             su_returns = returned m facts solved\<rparr>))"

section \<open>The components\<close>

record HeapSccs =
  hs_index :: "(string, nat) dict"
  hs_low :: "(string, nat) dict"
  hs_on :: "string set"
  hs_stack :: "string list"
  hs_out :: "string list list"
  hs_counter :: nat
  hs_work :: "(string \<times> nat) list"

definition hs_enter :: "string \<Rightarrow> HeapSccs \<Rightarrow> HeapSccs" where
  "hs_enter v s = s\<lparr>hs_index := dict_set (hs_index s) v (hs_counter s), hs_low := dict_set (hs_low s) v (hs_counter s),
     hs_counter := hs_counter s + 1, hs_stack := v # hs_stack s, hs_on := insert v (hs_on s)\<rparr>"

fun hs_pop :: "string \<Rightarrow> string list \<Rightarrow> string list \<times> string list" where
  "hs_pop v [] = ([], [])"
| "hs_pop v (x # st) = (if x = v then ([x], st) else (case hs_pop v st of (c, st') \<Rightarrow> (x # c, st')))"

definition hs_emit :: "string \<Rightarrow> HeapSccs \<Rightarrow> HeapSccs" where
  "hs_emit v s = (case hs_pop v (hs_stack s) of (c, st) \<Rightarrow>
     s\<lparr>hs_stack := st, hs_on := hs_on s - set c, hs_out := hs_out s @ [sort c]\<rparr>)"

text \<open>The rest of a turn for a node without successors left.\<close>

definition hs_leave :: "string \<Rightarrow> HeapSccs \<Rightarrow> HeapSccs" where
  "hs_leave v s =
     (let s1 = (if dict_get_or (hs_low s) v 0 = dict_get_or (hs_index s) v 0 then hs_emit v s else s)
      in case hs_work s of
           [] \<Rightarrow> s1
         | (u, pos) # rest \<Rightarrow>
             s1\<lparr>hs_low := dict_set (hs_low s) u (min (dict_get_or (hs_low s) u 0) (dict_get_or (hs_low s) v 0))\<rparr>)"

text \<open>A turn takes the top work item; at position 0 its node is entered first.\<close>

definition hs_next :: "(string, string list) dict \<Rightarrow> string \<Rightarrow> nat \<Rightarrow> HeapSccs \<Rightarrow> HeapSccs" where
  "hs_next edges v pos s =
     (let succ = dict_get_or edges v []
      in if pos < length succ then
           (let w = succ ! pos; s1 = s\<lparr>hs_work := (v, pos + 1) # hs_work s\<rparr>
            in if dict_get (hs_index s) w = None then s1\<lparr>hs_work := (w, 0) # hs_work s1\<rparr>
               else if w \<in> hs_on s
               then s1\<lparr>hs_low := dict_set (hs_low s) v (min (dict_get_or (hs_low s) v 0) (dict_get_or (hs_index s) w 0))\<rparr>
               else s1)
         else hs_leave v s)"

definition hs_turn :: "(string, string list) dict \<Rightarrow> HeapSccs \<Rightarrow> HeapSccs" where
  "hs_turn edges s = (case hs_work s of
       [] \<Rightarrow> s
     | (v, pos) # rest \<Rightarrow>
         hs_next edges v pos (if pos = 0 then hs_enter v (s\<lparr>hs_work := rest\<rparr>) else s\<lparr>hs_work := rest\<rparr>))"

partial_function (option) hs_drive :: "(string, string list) dict \<Rightarrow> HeapSccs \<Rightarrow> HeapSccs option" where
  "hs_drive edges s = (if hs_work s = [] then Some s else hs_drive edges (hs_turn edges s))"

declare hs_drive.simps [code]

fun hs_roots :: "(string, string list) dict \<Rightarrow> string list \<Rightarrow> HeapSccs \<Rightarrow> HeapSccs option" where
  "hs_roots edges [] s = Some s"
| "hs_roots edges (r # rs) s =
     (if dict_get (hs_index s) r \<noteq> None then hs_roots edges rs s
      else (case hs_drive edges (s\<lparr>hs_work := [(r, 0)]\<rparr>) of None \<Rightarrow> None | Some s' \<Rightarrow> hs_roots edges rs s'))"

definition heap_sccs :: "string list \<Rightarrow> (string, string list) dict \<Rightarrow> string list list option" where
  "heap_sccs keys edges = map_option hs_out (hs_roots edges keys
     \<lparr>hs_index = [], hs_low = [], hs_on = {}, hs_stack = [], hs_out = [], hs_counter = 0, hs_work = []\<rparr>)"

section \<open>Solving\<close>

fun heap_sweep :: "Facts \<Rightarrow> string list \<Rightarrow> Solved \<Rightarrow> bool \<Rightarrow> Solved \<times> bool" where
  "heap_sweep facts [] solved changed = (solved, changed)"
| "heap_sweep facts (k # ks) solved changed =
     (let new = evaluate (the (dict_get facts k)) facts solved
      in if new \<noteq> solved_at solved k then heap_sweep facts ks (dict_set solved k new) True
         else heap_sweep facts ks solved changed)"

partial_function (option) heap_loop :: "Facts \<Rightarrow> string list \<Rightarrow> Solved \<Rightarrow> Solved option" where
  "heap_loop facts ks solved = (case heap_sweep facts ks solved False of (solved', changed) \<Rightarrow>
     if changed then heap_loop facts ks solved' else Some solved')"

declare heap_loop.simps [code]

fun heap_components :: "Facts \<Rightarrow> string list list \<Rightarrow> Solved \<Rightarrow> Solved option" where
  "heap_components facts [] solved = Some solved"
| "heap_components facts (c # cs) solved =
     (case heap_loop facts c solved of None \<Rightarrow> None | Some s \<Rightarrow> heap_components facts cs s)"

definition call_targets :: "Facts \<Rightarrow> Token Method \<Rightarrow> string list" where
  "call_targets facts m = sort (remdups (map ca_callee (filter (\<lambda>c. \<not> callee_unknown c facts) (hm_calls m))))"

definition heap_edges :: "Facts \<Rightarrow> string list \<Rightarrow> (string, string list) dict" where
  "heap_edges facts keys = map (\<lambda>k. (k, call_targets facts (the (dict_get facts k)))) keys"

definition heap_solve :: "Token Method list \<Rightarrow> Solved option" where
  "heap_solve ms =
     (let facts = by_key ms; keys = sort (dict_keys facts)
      in case heap_sccs keys (heap_edges facts keys) of
           None \<Rightarrow> None
         | Some comps \<Rightarrow> heap_components facts comps (map (\<lambda>k. (k, bottom_summary (the (dict_get facts k)))) keys))"

section \<open>The harmless predicate\<close>

fun bad_param :: "nat \<Rightarrow> nat list \<Rightarrow> string option" where
  "bad_param i [] = None"
| "bad_param i (e # es) =
     (if e > BORROW then Some (''parameter '' @ nat_str i @ '' is '' @ EFFECTS ! e) else bad_param (Suc i) es)"

fun bad_write :: "string list \<Rightarrow> nat list \<Rightarrow> string option" where
  "bad_write (kind # kinds) (w # ws) =
     (if w \<noteq> W_NONE then Some (''writes.'' @ kind @ '' is '' @ WRITES ! w) else bad_write kinds ws)"
| "bad_write _ _ = None"

fun first_of :: "'a option list \<Rightarrow> 'a option" where
  "first_of [] = None"
| "first_of (None # xs) = first_of xs"
| "first_of (Some x # xs) = Some x"

definition harmless :: "Summary \<Rightarrow> string option" where
  "harmless s = first_of
     [bad_param 0 (su_params s),
      (case su_receiver s of
         Some e \<Rightarrow> if e > BORROW then Some (''receiver is '' @ EFFECTS ! e) else None
       | None \<Rightarrow> None),
      bad_write WRITE_KINDS (su_writes s),
      (if su_returns s \<noteq> [] then Some (''returns alias '' @ join_str '', '' (map token_text (su_returns s))) else None)]"

fun bad_call :: "Facts \<Rightarrow> Solved \<Rightarrow> Token Call list \<Rightarrow> string option" where
  "bad_call facts solved [] = None"
| "bad_call facts solved (c # cs) =
     (if ca_dispatch c \<noteq> ''direct'' then Some (quoted (ca_callee c) @ '' is '' @ ca_dispatch c)
      else if dict_get facts (ca_callee c) = None then Some (quoted (ca_callee c) @ '' has no summary'')
      else (case harmless (solved_at solved (ca_callee c)) of
              Some r \<Rightarrow> Some (quoted (ca_callee c) @ '': '' @ r)
            | None \<Rightarrow> bad_call facts solved cs))"

definition site_verdict :: "Facts \<Rightarrow> Solved \<Rightarrow> string \<Rightarrow> string \<Rightarrow> string option" where
  "site_verdict facts solved site callee =
     (let m = the (dict_get facts site)
      in first_of
           [(if list_ex (\<lambda>c. ca_callee c = callee \<and> ca_dispatch c = ''direct'') (hm_calls m) then None
             else Some (''the site does not call '' @ quoted callee @ '' directly'')),
            bad_call facts solved (hm_calls m),
            (case harmless (solved_at solved site) of Some r \<Rightarrow> Some (''the call site: '' @ r) | None \<Rightarrow> None)])"

definition unresolved :: "Token Method \<Rightarrow> Facts \<Rightarrow> string list" where
  "unresolved m facts = sort (remdups (hm_unknown m @ concat (map (\<lambda>c.
     if ca_dispatch c \<noteq> ''direct'' then [ca_callee c @ '' ('' @ ca_dispatch c @ '')'']
     else if dict_get facts (ca_callee c) = None then [ca_callee c @ '' (no summary)''] else []) (hm_calls m))))"

section \<open>The solved document\<close>

definition dump_summary :: "Facts \<Rightarrow> Solved \<Rightarrow> string \<Rightarrow> Json" where
  "dump_summary facts solved key =
     (let m = the (dict_get facts key); s = solved_at solved key
      in JObj
        [(''method'', JStr key), (''file'', JStr (hm_path m)), (''line'', JInt (hm_line m)),
         (''params'', JList (map (\<lambda>(i, p, e). JObj [(''index'', JInt (int i)), (''name'', JStr (fst p)), (''effect'', JStr (EFFECTS ! e))])
            (zip [0..<length (hm_params m)] (zip (hm_params m) (su_params s))))),
         (''receiver'', (case su_receiver s of None \<Rightarrow> JNull | Some e \<Rightarrow> JStr (EFFECTS ! e))),
         (''writes'', JObj (map (\<lambda>(kind, w). (kind, JStr (WRITES ! w))) (zip WRITE_KINDS (su_writes s)))),
         (''returns'', JList (map (\<lambda>r. JStr (token_text r)) (su_returns s))),
         (''unresolved'', JList (map JStr (unresolved m facts)))])"

definition heap_dump :: "Json \<Rightarrow> Json loaded option" where
  "heap_dump doc = (case load_facts doc of
       Inl e \<Rightarrow> Some (Inl e)
     | Inr ms \<Rightarrow>
         map_option (\<lambda>solved. Inr (JObj [(''heap_effects_version'', JInt 1),
             (''summaries'', JList (map (dump_summary (by_key ms) solved) (sort (dict_keys (by_key ms)))))]))
           (heap_solve ms))"

end
