(* ===== verification/Own_Heap_Sccs.thy ===== *)
theory Own_Heap_Sccs
  imports Own_Heap Own_Tarjan
begin

text \<open>
  The components that \<open>heap_effects.py\<close> computes: a second rendering of Tarjan's algorithm, whose work
  items carry a position instead of an iterator and enter their node at position 0. It keeps the
  invariant of the first one (\<open>Own_Tarjan\<close>), with a work item for an unvisited node at most on top.
\<close>

definition hs_ghost :: "HeapSccs \<Rightarrow> string Ghost" where
  "hs_ghost s = \<lparr>gh_idx = (\<lambda>v. dict_get_or (hs_index s) v 0), gh_low = (\<lambda>v. dict_get_or (hs_low s) v 0),
     gh_seen = {v. dict_get (hs_index s) v \<noteq> None}, gh_next = hs_counter s, gh_out = hs_out s\<rparr>"

definition edge_list :: "(string, string list) dict \<Rightarrow> string \<Rightarrow> string list" where
  "edge_list E v = dict_get_or E v []"

definition hs_ok :: "(string, string list) dict \<Rightarrow> HeapSccs \<Rightarrow> string Frame list \<Rightarrow> bool" where
  "hs_ok E s G \<longleftrightarrow> hs_stack s = stack_of G \<and> hs_on s = set (stack_of G) \<and> tarjan_inv (edge_list E) (hs_ghost s) G"

definition resumed :: "(string, string list) dict \<Rightarrow> (string \<times> nat) list \<Rightarrow> string Frame list \<Rightarrow> bool" where
  "resumed E wk G \<longleftrightarrow> list_all2 (\<lambda>e f. fst e = fr_node f \<and> 0 < snd e \<and> fr_todo f = drop (snd e) (edge_list E (fst e))) wk G"

definition ready :: "(string, string list) dict \<Rightarrow> HeapSccs \<Rightarrow> string Frame list \<Rightarrow> bool" where
  "ready E s G \<longleftrightarrow> hs_ok E s G \<and> resumed E (hs_work s) G"

text \<open>A node waits to be entered: the frame below has it as its next successor still.\<close>

definition waiting :: "(string, string list) dict \<Rightarrow> HeapSccs \<Rightarrow> string \<Rightarrow> string Frame list \<Rightarrow> bool" where
  "waiting E s w G \<longleftrightarrow> hs_ok E s G \<and> w \<notin> gh_seen (hs_ghost s)
     \<and> (case G of
          [] \<Rightarrow> hs_work s = [(w, 0)]
        | f # G0 \<Rightarrow> (\<exists>ws wk. fr_todo f = w # ws \<and> hs_work s = (w, 0) # wk \<and> resumed E wk (Frame (fr_node f) ws (fr_done f) # G0)))"

lemma hs_ghost_simps [simp]:
  "hs_ghost (s\<lparr>hs_work := wk\<rparr>) = hs_ghost s"
  "hs_ghost (hs_enter v s) = gh_visit v (hs_ghost s)"
  "hs_ghost (s\<lparr>hs_work := wk, hs_low := dict_set (hs_low s) u (min (dict_get_or (hs_low s) u 0) l)\<rparr>) = gh_lower u l (hs_ghost s)"
  by (auto simp: hs_ghost_def hs_enter_def gh_visit_def gh_lower_def fun_eq_iff)

lemma hs_enter_fields [simp]:
  "hs_work (hs_enter v s) = hs_work s" "hs_stack (hs_enter v s) = v # hs_stack s" "hs_on (hs_enter v s) = insert v (hs_on s)"
  by (simp_all add: hs_enter_def)

lemma hs_pop [simp]: "v \<notin> set xs \<Longrightarrow> hs_pop v (xs @ v # st) = (xs @ [v], st)"
  by (induction xs) auto

lemma resumed_Cons:
  "resumed E wk (f # G) \<longleftrightarrow>
     (\<exists>pos wk0. wk = (fr_node f, pos) # wk0 \<and> 0 < pos \<and> fr_todo f = drop pos (edge_list E (fr_node f)) \<and> resumed E wk0 G)"
  unfolding resumed_def list_all2_Cons2 by (auto intro: prod.collapse [symmetric])

lemma hs_leave_ok:
  assumes ok: "hs_ok E s (Frame v [] xs # G)" and wk: "resumed E (hs_work s) G"
  shows "\<exists>G'. ready E (hs_leave v s) G' \<and> todo_size G' < todo_size (Frame v [] xs # G)
    \<and> gh_seen (hs_ghost (hs_leave v s)) = gh_seen (hs_ghost s)"
proof -
  have i: "tarjan_inv (edge_list E) (hs_ghost s) (Frame v [] xs # G)" and st: "hs_stack s = xs @ v # stack_of G"
    "hs_on s = set (hs_stack s)" using ok by (auto simp: hs_ok_def)
  have idx: "gh_idx (hs_ghost s) x = dict_get_or (hs_index s) x 0" "gh_low (hs_ghost s) x = dict_get_or (hs_low s) x 0" for x
    by (simp_all add: hs_ghost_def)
  have seen: "gh_seen (hs_ghost (hs_leave v s)) = gh_seen (hs_ghost s)"
    by (simp add: hs_leave_def hs_emit_def hs_ghost_def Let_def split: list.split prod.split)
  show ?thesis
  proof (cases "gh_low (hs_ghost s) v = gh_idx (hs_ghost s) v")
    case True
    have d: "v \<notin> set xs" "v \<notin> set (stack_of G)" "set xs \<inter> set (stack_of G) = {}" "distinct xs"
      using inv_parts(1) [OF i] by auto
    have e: "hs_emit v s = s\<lparr>hs_stack := stack_of G, hs_on := set (stack_of G), hs_out := hs_out s @ [sort (xs @ [v])]\<rparr>"
    proof -
      have "hs_on s - insert v (set xs) = set (stack_of G)" using st d by auto
      then show ?thesis using st(1) d(1) by (simp add: hs_emit_def)
    qed
    have g: "hs_ghost (hs_emit v s) = hs_ghost s\<lparr>gh_out := gh_out (hs_ghost s) @ [sort (xs @ [v])]\<rparr>"
      unfolding e by (simp add: hs_ghost_def)
    have j: "tarjan_inv (edge_list E) (hs_ghost (hs_emit v s)) G"
      unfolding g by (rule inv_emit [OF i True]) (use d in auto)
    have "ready E (hs_leave v s) G"
    proof (cases G)
      case Nil
      then show ?thesis using True j e wk by (auto simp: hs_leave_def idx ready_def hs_ok_def resumed_def)
    next
      case (Cons f G0)
      let ?u = "fr_node f"
      have "gh_low (hs_ghost s) ?u \<le> gh_idx (hs_ghost s) ?u" "gh_idx (hs_ghost s) ?u < gh_idx (hs_ghost s) v"
        using inv_parts(5) [OF i, of f] inv_parts(3) [OF i] Cons by (auto simp: frame_ok_def sorted_wrt_append)
      then have low: "gh_lower ?u (gh_low (hs_ghost s) v) (hs_ghost (hs_emit v s)) = hs_ghost (hs_emit v s)"
        using True g by (auto simp: gh_lower_def fun_eq_iff min_def)
      obtain pos wk0 where w: "hs_work s = (?u, pos) # wk0" using wk Cons by (auto simp: resumed_Cons)
      have l: "hs_leave v s = (hs_emit v s)\<lparr>hs_low := dict_set (hs_low (hs_emit v s)) ?u
          (min (dict_get_or (hs_low (hs_emit v s)) ?u 0) (gh_low (hs_ghost s) v))\<rparr>"
        using True w by (simp add: hs_leave_def idx e)
      have "hs_ghost (hs_leave v s) = gh_lower ?u (gh_low (hs_ghost s) v) (hs_ghost (hs_emit v s))"
        unfolding l by (simp add: hs_ghost_def gh_lower_def fun_eq_iff)
      then show ?thesis using j low wk by (simp add: l e ready_def hs_ok_def)
    qed
    then show ?thesis using seen by (intro exI [of _ G]) (simp add: todo_size_def)
  next
    case False
    then obtain u us ys G0 where G: "G = Frame u us ys # G0"
      using i inv_last [of "edge_list E" "hs_ghost s" v "[]" xs] by (cases G; metis Frame.exhaust)
    obtain pos wk0 where w: "hs_work s = (u, pos) # wk0" using wk G by (auto simp: resumed_Cons)
    have inv: "tarjan_inv (edge_list E) (gh_lower u (gh_low (hs_ghost s) v) (hs_ghost s)) (Frame u us (xs @ v # ys) # G0)"
      using inv_merge [OF i [unfolded G] False] .
    have l: "hs_leave v s = s\<lparr>hs_low := dict_set (hs_low s) u (min (dict_get_or (hs_low s) u 0) (gh_low (hs_ghost s) v))\<rparr>"
      using False w by (simp add: hs_leave_def idx)
    have "hs_ghost (hs_leave v s) = gh_lower u (gh_low (hs_ghost s) v) (hs_ghost s)"
      unfolding l by (simp add: hs_ghost_def gh_lower_def fun_eq_iff)
    then have "ready E (hs_leave v s) (Frame u us (xs @ v # ys) # G0)"
      using inv wk G st by (simp add: ready_def hs_ok_def l resumed_Cons)
    then show ?thesis using seen G by (intro exI [of _ "Frame u us (xs @ v # ys) # G0"]) (simp add: todo_size_def)
  qed
qed

lemma hs_next_ok:
  assumes ok: "hs_ok E s (Frame v (drop pos (edge_list E v)) xs # G)" and wk: "resumed E (hs_work s) G"
  shows "gh_seen (hs_ghost (hs_next E v pos s)) = gh_seen (hs_ghost s)
    \<and> ((\<exists>w\<in>set (edge_list E v). waiting E (hs_next E v pos s) w (Frame v (drop pos (edge_list E v)) xs # G))
       \<or> (\<exists>G'. ready E (hs_next E v pos s) G' \<and> todo_size G' < todo_size (Frame v (drop pos (edge_list E v)) xs # G)))"
proof (cases "pos < length (edge_list E v)")
  case False
  then have d: "drop pos (edge_list E v) = []" and n: "hs_next E v pos s = hs_leave v s"
    by (simp_all add: hs_next_def edge_list_def)
  from hs_leave_ok [OF ok [unfolded d] wk] show ?thesis unfolding n d by blast
next
  case True
  let ?w = "edge_list E v ! pos" and ?ws = "drop (Suc pos) (edge_list E v)"
  have d: "drop pos (edge_list E v) = ?w # ?ws" using True by (simp add: Cons_nth_drop_Suc)
  have i: "tarjan_inv (edge_list E) (hs_ghost s) (Frame v (?w # ?ws) xs # G)"
    and st: "hs_stack s = stack_of (Frame v (?w # ?ws) xs # G)" "hs_on s = set (stack_of (Frame v (?w # ?ws) xs # G))"
    using ok d by (auto simp: hs_ok_def)
  let ?s1 = "s\<lparr>hs_work := (v, pos + 1) # hs_work s\<rparr>"
  show ?thesis
  proof (cases "?w \<in> gh_seen (hs_ghost s)")
    case False
    then have n: "hs_next E v pos s = s\<lparr>hs_work := (?w, 0) # (v, pos + 1) # hs_work s\<rparr>"
      using True by (simp add: hs_next_def edge_list_def hs_ghost_def Let_def)
    have "waiting E (hs_next E v pos s) ?w (Frame v (?w # ?ws) xs # G)"
      using i st False wk by (simp add: waiting_def n hs_ok_def resumed_Cons)
    then show ?thesis using True unfolding d n by (auto intro!: disjI1 bexI [of _ ?w])
  next
    case seen: True
    then have n: "hs_next E v pos s = (if ?w \<in> hs_on s
        then ?s1\<lparr>hs_low := dict_set (hs_low s) v (min (dict_get_or (hs_low s) v 0) (dict_get_or (hs_index s) ?w 0))\<rparr> else ?s1)"
      using True by (auto simp: hs_next_def edge_list_def hs_ghost_def Let_def)
    have gh: "hs_ghost (hs_next E v pos s) =
        (if ?w \<in> set (stack_of (Frame v (?w # ?ws) xs # G)) then gh_lower v (gh_idx (hs_ghost s) ?w) (hs_ghost s) else hs_ghost s)"
      unfolding n st(2) by (auto simp: hs_ghost_def gh_lower_def fun_eq_iff)
    have "ready E (hs_next E v pos s) (Frame v ?ws xs # G)"
      using inv_look [OF i seen] st wk unfolding ready_def hs_ok_def gh by (simp add: n resumed_Cons)
    moreover have "todo_size (Frame v ?ws xs # G) < todo_size (Frame v (?w # ?ws) xs # G)" by (simp add: todo_size_def)
    ultimately show ?thesis unfolding d gh by auto
  qed
qed

section \<open>One turn\<close>

text \<open>A state between turns, with what it has left to do.\<close>

definition between :: "(string, string list) dict \<Rightarrow> string set \<Rightarrow> HeapSccs \<Rightarrow> string Frame list \<Rightarrow> nat \<Rightarrow> bool" where
  "between E N s G flag \<longleftrightarrow> flag = 1 \<and> ready E s G \<or> flag = 0 \<and> (\<exists>w\<in>N. waiting E s w G)"

lemma after_next:
  assumes "hs_ok E s (Frame v (drop pos (edge_list E v)) xs # G)" "resumed E (hs_work s) G" "set (edge_list E v) \<subseteq> N"
  shows "gh_seen (hs_ghost (hs_next E v pos s)) = gh_seen (hs_ghost s)
    \<and> (\<exists>G' flag. between E N (hs_next E v pos s) G' flag \<and>
         (todo_size G' < todo_size (Frame v (drop pos (edge_list E v)) xs # G)
          \<or> flag = 0 \<and> G' = Frame v (drop pos (edge_list E v)) xs # G))"
  using hs_next_ok [OF assms(1,2)] assms(3) unfolding between_def by blast

lemma hs_turn_ready:
  assumes r: "ready E s G" and G: "G \<noteq> []" and N: "\<forall>v. set (edge_list E v) \<subseteq> N"
  shows "gh_seen (hs_ghost (hs_turn E s)) = gh_seen (hs_ghost s)
    \<and> (\<exists>G' flag. between E N (hs_turn E s) G' flag \<and> (todo_size G' < todo_size G \<or> flag = 0 \<and> todo_size G' = todo_size G))"
proof -
  obtain f G0 where g: "G = f # G0" using G by (cases G) auto
  obtain pos wk where w: "hs_work s = (fr_node f, pos) # wk" "0 < pos"
    "fr_todo f = drop pos (edge_list E (fr_node f))" "resumed E wk G0" using r g by (auto simp: ready_def resumed_Cons)
  have t: "hs_turn E s = hs_next E (fr_node f) pos (s\<lparr>hs_work := wk\<rparr>)" using w by (simp add: hs_turn_def)
  have f: "f = Frame (fr_node f) (drop pos (edge_list E (fr_node f))) (fr_done f)" using w(3) by (cases f) simp
  have "hs_ok E (s\<lparr>hs_work := wk\<rparr>) (Frame (fr_node f) (drop pos (edge_list E (fr_node f))) (fr_done f) # G0)"
    using r f g by (simp add: ready_def hs_ok_def)
  from after_next [OF this _ N [rule_format]] w(4) f g show ?thesis unfolding t by auto
qed

lemma hs_turn_waiting:
  assumes w: "waiting E s w G" and N: "\<forall>v. set (edge_list E v) \<subseteq> N"
  shows "gh_seen (hs_ghost (hs_turn E s)) = insert w (gh_seen (hs_ghost s)) \<and> w \<notin> gh_seen (hs_ghost s)
    \<and> (\<exists>G' flag. between E N (hs_turn E s) G' flag)"
proof -
  have ok: "hs_ok E s G" and new: "w \<notin> gh_seen (hs_ghost s)" using w by (simp_all add: waiting_def)
  obtain wk G1 where wk: "hs_work s = (w, 0) # wk" "resumed E wk G1" "stack_of G1 = stack_of G"
    "tarjan_inv (edge_list E) (gh_visit w (hs_ghost s)) (Frame w (edge_list E w) [] # G1)"
  proof (cases G)
    case Nil
    have "tarjan_inv (edge_list E) (gh_visit w (hs_ghost s)) [Frame w (edge_list E w) []]"
      by (rule inv_root) (use ok new Nil in \<open>simp_all add: hs_ok_def\<close>)
    then show thesis using w Nil that [of "[]" "[]"] by (simp add: waiting_def resumed_def)
  next
    case (Cons f G0)
    then obtain ws wk where f: "fr_todo f = w # ws" "hs_work s = (w, 0) # wk" "resumed E wk (Frame (fr_node f) ws (fr_done f) # G0)"
      using w by (auto simp: waiting_def)
    have "f = Frame (fr_node f) (w # ws) (fr_done f)" using f(1) by (cases f) simp
    then have "tarjan_inv (edge_list E) (hs_ghost s) (Frame (fr_node f) (w # ws) (fr_done f) # G0)"
      using ok Cons by (simp add: hs_ok_def)
    from inv_visit [OF this new] show thesis using f(2,3) Cons that [of wk "Frame (fr_node f) ws (fr_done f) # G0"] by simp
  qed
  let ?s = "hs_enter w (s\<lparr>hs_work := wk\<rparr>)"
  have t: "hs_turn E s = hs_next E w 0 ?s" using wk(1) by (simp add: hs_turn_def)
  have "hs_ok E ?s (Frame w (drop 0 (edge_list E w)) [] # G1)"
    using ok wk(3,4) by (simp add: hs_ok_def)
  from after_next [OF this _ N [rule_format]] wk(2) have
    "gh_seen (hs_ghost (hs_turn E s)) = gh_seen (hs_ghost ?s)" "\<exists>G' flag. between E N (hs_turn E s) G' flag"
    unfolding t by auto
  then show ?thesis using new by simp
qed

section \<open>The whole walk\<close>

lemma hs_drive_ends:
  assumes N: "finite N" "\<forall>v. set (edge_list E v) \<subseteq> N"
  shows "between E N s G flag \<Longrightarrow> \<exists>s'. hs_drive E s = Some s' \<and> ready E s' [] \<and> gh_seen (hs_ghost s) \<subseteq> gh_seen (hs_ghost s')
    \<and> gh_seen (hs_ghost s') \<subseteq> gh_seen (hs_ghost s) \<union> N \<and> (\<forall>w. waiting E s w G \<longrightarrow> w \<in> gh_seen (hs_ghost s'))"
proof (induction "(card (N - gh_seen (hs_ghost s)), todo_size G, flag)" arbitrary: s G flag
    rule: wf_induct_rule [OF wf_lex_prod [OF wf_less_than wf_lex_prod [OF wf_less_than wf_less_than]]])
  case (1 s G flag)
  let ?s = "hs_turn E s"
  have no_wait: "\<not> waiting E s w G" if "ready E s G" for w
    using that by (auto simp: ready_def waiting_def resumed_def list_all2_Cons2 split: list.splits)
  show ?case
  proof (cases "flag = 1 \<and> G = []")
    case True
    then have r: "ready E s []" using 1(2) by (auto simp: between_def)
    then have "hs_work s = []" by (simp add: ready_def resumed_def)
    then show ?thesis using r no_wait True by (auto simp: hs_drive.simps [of E s])
  next
    case False
    have step: "\<exists>G' flag'. between E N ?s G' flag' \<and> hs_work s \<noteq> []
      \<and> ((card (N - gh_seen (hs_ghost ?s)), todo_size G', flag'), (card (N - gh_seen (hs_ghost s)), todo_size G, flag))
           \<in> less_than <*lex*> less_than <*lex*> less_than
      \<and> gh_seen (hs_ghost s) \<subseteq> gh_seen (hs_ghost ?s) \<and> gh_seen (hs_ghost ?s) \<subseteq> gh_seen (hs_ghost s) \<union> N
      \<and> (\<forall>w. waiting E s w G \<longrightarrow> w \<in> gh_seen (hs_ghost ?s))"
    proof (cases "flag = 1")
      case True
      then have r: "ready E s G" "G \<noteq> []" using 1(2) False by (auto simp: between_def)
      moreover have "hs_work s \<noteq> []" using r by (cases G) (auto simp: ready_def resumed_Cons)
      ultimately show ?thesis using hs_turn_ready [OF r N(2)] True no_wait [OF r(1)] by fastforce
    next
      case False
      then obtain w where w: "w \<in> N" "waiting E s w G" using 1(2) by (auto simp: between_def)
      note t = hs_turn_waiting [OF w(2) N(2)]
      have "card (N - gh_seen (hs_ghost ?s)) < card (N - gh_seen (hs_ghost s))"
        by (rule psubset_card_mono) (use t w N(1) in auto)
      moreover have "hs_work s \<noteq> []" using w(2) by (auto simp: waiting_def split: list.splits)
      moreover have "w' = w" if "waiting E s w' G" for w' using that w(2) by (auto simp: waiting_def split: list.splits)
      ultimately show ?thesis using t w(1) by auto
    qed
    then obtain G' flag' where s: "between E N ?s G' flag'" "hs_work s \<noteq> []"
      "((card (N - gh_seen (hs_ghost ?s)), todo_size G', flag'), (card (N - gh_seen (hs_ghost s)), todo_size G, flag))
           \<in> less_than <*lex*> less_than <*lex*> less_than"
      "gh_seen (hs_ghost s) \<subseteq> gh_seen (hs_ghost ?s)" "gh_seen (hs_ghost ?s) \<subseteq> gh_seen (hs_ghost s) \<union> N"
      "\<forall>w. waiting E s w G \<longrightarrow> w \<in> gh_seen (hs_ghost ?s)" by blast
    from 1(1) [OF s(3,1)] obtain s' where s': "hs_drive E ?s = Some s'" "ready E s' []"
      "gh_seen (hs_ghost ?s) \<subseteq> gh_seen (hs_ghost s')" "gh_seen (hs_ghost s') \<subseteq> gh_seen (hs_ghost ?s) \<union> N" by blast
    have "hs_drive E s = Some s'" using s'(1) s(2) by (simp add: hs_drive.simps [of E s])
    moreover have "gh_seen (hs_ghost s) \<subseteq> gh_seen (hs_ghost s')" "gh_seen (hs_ghost s') \<subseteq> gh_seen (hs_ghost s) \<union> N"
      using s(4,5) s'(3,4) by auto
    moreover have "\<forall>w. waiting E s w G \<longrightarrow> w \<in> gh_seen (hs_ghost s')" using s(6) s'(3) by auto
    ultimately show ?thesis using s'(2) by blast
  qed
qed

lemma hs_roots_ends:
  assumes N: "finite N" "\<forall>v. set (edge_list E v) \<subseteq> N"
  shows "ready E s [] \<Longrightarrow> set rs \<subseteq> N \<Longrightarrow> gh_seen (hs_ghost s) \<subseteq> N
    \<Longrightarrow> \<exists>s'. hs_roots E rs s = Some s' \<and> ready E s' []
          \<and> gh_seen (hs_ghost s) \<union> set rs \<subseteq> gh_seen (hs_ghost s') \<and> gh_seen (hs_ghost s') \<subseteq> N"
proof (induction rs arbitrary: s)
  case (Cons r rs)
  show ?case
  proof (cases "r \<in> gh_seen (hs_ghost s)")
    case True
    then have "dict_get (hs_index s) r \<noteq> None" by (simp add: hs_ghost_def)
    then show ?thesis using Cons(1) [OF Cons(2) _ Cons(4)] Cons(3) True by auto
  next
    case False
    let ?s = "s\<lparr>hs_work := [(r, 0)]\<rparr>"
    have w: "waiting E ?s r []" using Cons(2) False by (simp add: waiting_def ready_def hs_ok_def)
    then have "between E N ?s [] 0" using Cons(3) by (auto simp: between_def)
    from hs_drive_ends [OF N this] w obtain s1 where s1: "hs_drive E ?s = Some s1" "ready E s1 []"
      "gh_seen (hs_ghost s) \<subseteq> gh_seen (hs_ghost s1)" "gh_seen (hs_ghost s1) \<subseteq> gh_seen (hs_ghost s) \<union> N"
      "r \<in> gh_seen (hs_ghost s1)" by auto
    then have "gh_seen (hs_ghost s1) \<subseteq> N" using Cons(4) by auto
    from Cons(1) [OF s1(2) _ this] Cons(3) obtain s2 where "hs_roots E rs s1 = Some s2" "ready E s2 []"
      "gh_seen (hs_ghost s1) \<union> set rs \<subseteq> gh_seen (hs_ghost s2)" "gh_seen (hs_ghost s2) \<subseteq> N" by auto
    moreover have "dict_get (hs_index s) r = None" using False by (simp add: hs_ghost_def)
    ultimately show ?thesis using s1 by auto
  qed
qed simp

lemma heap_sccs_bottom_up:
  assumes "\<forall>v. set (edge_list E v) \<subseteq> set keys"
  shows "\<exists>out. heap_sccs keys E = Some out \<and> distinct (concat out) \<and> set (concat out) = set keys \<and> bottom_up (edge_list E) out"
proof -
  let ?s0 = "\<lparr>hs_index = [], hs_low = [], hs_on = {}, hs_stack = [], hs_out = [], hs_counter = 0, hs_work = []\<rparr> :: HeapSccs"
  have r: "ready E ?s0 []" "gh_seen (hs_ghost ?s0) = {}"
    by (simp_all add: ready_def hs_ok_def tarjan_inv_def hs_ghost_def resumed_def)
  have "gh_seen (hs_ghost ?s0) \<subseteq> set keys" using r(2) by simp
  from hs_roots_ends [OF _ assms r(1) order_refl this] r(2)
  obtain s' where s': "hs_roots E keys ?s0 = Some s'" "ready E s' []" "gh_seen (hs_ghost s') = set keys" by auto
  have i: "tarjan_inv (edge_list E) (hs_ghost s') []" and o: "gh_out (hs_ghost s') = hs_out s'"
    using s'(2) by (simp_all add: ready_def hs_ok_def hs_ghost_def)
  have "distinct (concat (hs_out s'))" "gh_seen (hs_ghost s') = set (concat (hs_out s'))" "bottom_up (edge_list E) (hs_out s')"
    using inv_parts(1,2,7) [OF i] by (simp_all add: o)
  then show ?thesis using s' by (simp add: heap_sccs_def)
qed

end
