(* ===== verification/Own_Heap_Ring.thy ===== *)
theory Own_Heap_Ring
  imports Own_Heap
begin

text \<open>
  A document on which the heap-effect solver never returns: five methods in one component of the call
  graph whose sweeps alternate between two solutions for ever. The transfer function is not monotone: when
  what a method returns becomes unknown, the parameters it returned are forgotten.
\<close>

section \<open>A loop that comes back to its state\<close>

lemma heap_loop_cycle:
  assumes there: "heap_sweep F ks s False = (s', True)" and again: "heap_sweep F ks s' False = (s, True)"
  shows "heap_loop F ks s = None"
proof -
  define P where "P F' ks' x y \<longleftrightarrow> \<not> (F' = F \<and> ks' = ks \<and> x \<in> {s, s'})" for F' ks' and x y :: Solved
  have "P F ks s y" if "heap_loop F ks s = Some y" for y
    by (rule heap_loop.raw_induct [where P = P, OF _ that])
      (use there again in \<open>auto simp: P_def split: prod.splits if_splits\<close>)
  then show ?thesis by (cases "heap_loop F ks s") (auto simp: P_def)
qed

lemma heap_loop_step:
  "heap_sweep F ks s False = (s', True) \<Longrightarrow> heap_loop F ks s = heap_loop F ks s'"
  by (simp add: heap_loop.simps)

section \<open>The document\<close>

definition tokens_json :: "string list \<Rightarrow> Json" where
  "tokens_json ts = JList (map JStr ts)"

definition call_json :: "nat \<Rightarrow> string \<Rightarrow> string list \<Rightarrow> Json" where
  "call_json j callee arg = JObj [(''id'', JInt (int j)), (''callee'', JStr callee), (''dispatch'', JStr ''direct''),
     (''line'', JInt 1), (''receiver'', JNull), (''args'', JList [tokens_json arg])]"

definition method_json :: "string \<Rightarrow> Json list \<Rightarrow> string list \<Rightarrow> Json list \<Rightarrow> Json" where
  "method_json key writes returns calls = JObj [(''key'', JStr key), (''file'', JStr ''a.cs''), (''line'', JInt 1),
     (''receiver'', JBool False), (''return_inert'', JBool False),
     (''params'', JList [JObj [(''index'', JInt 0), (''name'', JStr ''p''), (''inert'', JBool False)]]),
     (''locals'', JList []), (''derefs'', JList []), (''writes'', JList writes), (''stores'', JList []),
     (''returns'', tokens_json returns), (''calls'', JList calls), (''unknown'', JList [])]"

definition ring_doc :: Json where
  "ring_doc = JObj [(''heap_effects_version'', JInt 1), (''methods'', JList
     [method_json ''a'' [] [] [call_json 0 ''b'' [''param:0'']],
      method_json ''b'' [JObj [(''kind'', JStr ''instance''), (''target'', tokens_json [''call:1''])]] []
        [call_json 0 ''c'' [''param:0''], call_json 1 ''d'' [''param:0'']],
      method_json ''c'' [] [] [call_json 0 ''a'' [''param:0'']],
      method_json ''d'' [] [''param:0'', ''call:0''] [call_json 0 ''e'' []],
      method_json ''e'' [] [''call:0''] [call_json 0 ''Ext'' [], call_json 1 ''a'' []]])]"

definition ring_method :: "string \<Rightarrow> (string \<times> Token list) list \<Rightarrow> Token list \<Rightarrow> Token Call list \<Rightarrow> Token Method" where
  "ring_method key writes returns calls = \<lparr>hm_key = key, hm_path = ''a.cs'', hm_line = 1, hm_receiver = False,
     hm_return_inert = False, hm_params = [(''p'', False)], hm_locals = [], hm_derefs = [], hm_writes = writes,
     hm_stores = [], hm_returns = returns, hm_calls = calls, hm_unknown = []\<rparr>"

definition ring_call :: "string \<Rightarrow> Token list \<Rightarrow> Token Call" where
  "ring_call callee arg = \<lparr>ca_callee = callee, ca_dispatch = ''direct'', ca_receiver = None, ca_args = [arg]\<rparr>"

definition ring_methods :: "Token Method list" where
  "ring_methods =
     [ring_method ''a'' [] [] [ring_call ''b'' [TParam 0]],
      ring_method ''b'' [(''instance'', [TCall 1])] [] [ring_call ''c'' [TParam 0], ring_call ''d'' [TParam 0]],
      ring_method ''c'' [] [] [ring_call ''a'' [TParam 0]],
      ring_method ''d'' [] [TParam 0, TCall 0] [ring_call ''e'' []],
      ring_method ''e'' [] [TCall 0] [ring_call ''Ext'' [], ring_call ''a'' []]]"

definition ring_keys :: "string list" where
  "ring_keys = [''a'', ''b'', ''c'', ''d'', ''e'']"

text \<open>The summaries of the ring for the effects \<open>es\<close> on the parameters, once the returns have settled.\<close>

definition ring_state :: "nat list \<Rightarrow> Solved" where
  "ring_state es = zip ring_keys (map2 (\<lambda>e r. \<lparr>su_params = [e], su_receiver = None,
     su_writes = [W_UNKNOWN, W_UNKNOWN, W_UNKNOWN], su_returns = r\<rparr>) es [[], [], [], [TUnknown], [TUnknown]])"

lemma ring_loaded: "load_facts ring_doc = Inr ring_methods"
  by code_simp

lemma ring_component: "heap_sccs ring_keys (heap_edges (by_key ring_methods) ring_keys) = Some [ring_keys]"
  by code_simp

text \<open>Four sweeps reach a state that the next two sweeps leave and come back to.\<close>

lemma ring_rotates:
  "heap_sweep (by_key ring_methods) ring_keys (ring_state [0, 2, 0, 0, 0]) False = (ring_state [2, 0, 2, 0, 0], True)"
  "heap_sweep (by_key ring_methods) ring_keys (ring_state [2, 0, 2, 0, 0]) False = (ring_state [0, 2, 0, 0, 0], True)"
  by code_simp+

definition ring_sweep :: "Solved \<Rightarrow> Solved \<times> bool" where
  "ring_sweep s = heap_sweep (by_key ring_methods) ring_keys s False"

definition ring_bottom :: Solved where
  "ring_bottom = map (\<lambda>k. (k, bottom_summary (the (dict_get (by_key ring_methods) k)))) ring_keys"

lemma ring_first_sweeps:
  "snd (ring_sweep ring_bottom)"
  "snd (ring_sweep (fst (ring_sweep ring_bottom)))"
  "snd (ring_sweep (fst (ring_sweep (fst (ring_sweep ring_bottom)))))"
  "ring_sweep (fst (ring_sweep (fst (ring_sweep (fst (ring_sweep ring_bottom)))))) = (ring_state [0, 2, 0, 0, 0], True)"
  by code_simp+

lemma ring_step: "snd (ring_sweep s) \<Longrightarrow>
    heap_loop (by_key ring_methods) ring_keys s = heap_loop (by_key ring_methods) ring_keys (fst (ring_sweep s))"
  by (rule heap_loop_step) (simp add: ring_sweep_def prod_eq_iff)

lemma ring_diverges: "heap_loop (by_key ring_methods) ring_keys ring_bottom = None"
  using ring_step [OF ring_first_sweeps(1)] ring_step [OF ring_first_sweeps(2)] ring_step [OF ring_first_sweeps(3)]
    ring_step [of "fst (ring_sweep (fst (ring_sweep (fst (ring_sweep ring_bottom)))))"] ring_first_sweeps(4)
    heap_loop_cycle [OF ring_rotates]
  by simp

lemma ring_solve: "heap_solve ring_methods = None"
proof -
  have "sort (dict_keys (by_key ring_methods)) = ring_keys" by code_simp
  then show ?thesis
    using ring_diverges by (simp add: heap_solve_def ring_component ring_bottom_def)
qed

end
