(* ===== verification/Own_Heap_Solve.thy ===== *)
theory Own_Heap_Solve
  imports Own_Heap_Sccs
begin

text \<open>
  What the heap-effect solver returns, when it returns: summaries that their own transfer functions
  leave as they are, for every method of the document. The roots of a value are the roots its tokens
  reach.
\<close>

section \<open>A transfer function reads the summaries of its callees only\<close>

definition agree :: "Facts \<Rightarrow> Token Method \<Rightarrow> Solved \<Rightarrow> Solved \<Rightarrow> bool" where
  "agree F m S S' \<longleftrightarrow> (\<forall>c\<in>set (hm_calls m). \<not> callee_unknown c F \<longrightarrow> solved_at S (ca_callee c) = solved_at S' (ca_callee c))"

lemma agree_follow: "agree F m S S' \<Longrightarrow> follow m F S = follow m F S'"
  by (intro ext) (auto simp: agree_def follow_def call_tokens_def split: Token.splits)

lemma agree_roots_walk:
  "follow m F S = follow m F S' \<Longrightarrow> roots_walk m F S stack seen out = roots_walk m F S' stack seen out"
  by (induction m F S stack seen out rule: roots_walk.induct) auto

lemma agree_apply: "agree F m S S' \<Longrightarrow> apply_effect m F S = apply_effect m F S'"
  by (intro ext) (simp add: apply_effect_def roots_def agree_roots_walk [OF agree_follow])

lemma agree_args: "agree F m S S' \<Longrightarrow> apply_args m F S args es j g = apply_args m F S' args es j g"
  by (induction m F S args es j g rule: apply_args.induct) (simp_all add: agree_apply)

lemma agree_call: "agree F m S S' \<Longrightarrow> c \<in> set (hm_calls m) \<Longrightarrow> apply_call m F S c = apply_call m F S' c"
  unfolding apply_call_def agree_apply [of F m S S'] agree_args [of F m S S'] by (auto simp: agree_def Let_def intro!: ext)

lemma agree_evaluate:
  assumes "agree F m S S'"
  shows "evaluate m F S = evaluate m F S'"
proof -
  have w: "apply_write m F S = apply_write m F S'"
    by (intro ext) (simp add: apply_write_def agree_apply [OF assms] split: prod.split)
  have "gather m F S = gather m F S'"
    unfolding gather_def agree_apply [OF assms] w Let_def by (rule fold_cong) (auto intro: agree_call [OF assms])
  moreover have "returned m F S = returned m F S'"
    by (simp add: returned_def roots_def agree_roots_walk [OF agree_follow [OF assms]])
  ultimately show ?thesis by (simp add: evaluate_def)
qed

section \<open>The loops end in a fixpoint\<close>

definition heap_settled :: "Facts \<Rightarrow> Solved \<Rightarrow> string \<Rightarrow> bool" where
  "heap_settled F S k \<longleftrightarrow> solved_at S k = evaluate (the (dict_get F k)) F S"

lemma solved_at_set: "solved_at (dict_set S k v) j = (if j = k then v else solved_at S j)"
  by (simp add: solved_at_def dict_get_or_def)

lemma heap_sweep_frame:
  "heap_sweep F ks S ch = (S', ch') \<Longrightarrow> j \<notin> set ks \<Longrightarrow> solved_at S' j = solved_at S j"
  by (induction F ks S ch rule: heap_sweep.induct) (auto simp: Let_def solved_at_set split: if_splits)

lemma heap_sweep_raised: "snd (heap_sweep F ks S True)"
  by (induction ks arbitrary: S) (simp_all add: Let_def)

lemma heap_sweep_quiet:
  "heap_sweep F ks S ch = (S', False) \<Longrightarrow> S' = S \<and> (\<forall>k\<in>set ks. heap_settled F S k)"
proof (induction ks arbitrary: S ch)
  case (Cons k ks)
  show ?case
  proof (cases "evaluate (the (dict_get F k)) F S = solved_at S k")
    case True
    then show ?thesis using Cons(1) [of S ch] Cons(2) by (simp add: heap_settled_def)
  next
    case False
    then show ?thesis
      using Cons(2) heap_sweep_raised [of F ks "dict_set S k (evaluate (the (dict_get F k)) F S)"] by (simp add: Let_def)
  qed
qed simp

lemma heap_loop_settles:
  assumes "heap_loop F ks S = Some S'"
  shows "(\<forall>k\<in>set ks. heap_settled F S' k) \<and> (\<forall>j. j \<notin> set ks \<longrightarrow> solved_at S' j = solved_at S j)"
proof (rule heap_loop.raw_induct [where P = "\<lambda>F ks S S'. (\<forall>k\<in>set ks. heap_settled F S' k) \<and> (\<forall>j. j \<notin> set ks \<longrightarrow> solved_at S' j = solved_at S j)",
      OF _ assms])
  fix loop F ks S S'
  assume IH: "\<And>F ks S S'. loop F ks S = Some S' \<Longrightarrow> (\<forall>k\<in>set ks. heap_settled F S' k) \<and> (\<forall>j. j \<notin> set ks \<longrightarrow> solved_at S' j = solved_at S j)"
    and eq: "(case heap_sweep F ks S False of (s', changed) \<Rightarrow> if changed then loop F ks s' else Some s') = Some S'"
  obtain S1 ch where sweep: "heap_sweep F ks S False = (S1, ch)" by fastforce
  show "(\<forall>k\<in>set ks. heap_settled F S' k) \<and> (\<forall>j. j \<notin> set ks \<longrightarrow> solved_at S' j = solved_at S j)"
    using IH [of F ks S1 S'] eq heap_sweep_frame [OF sweep] heap_sweep_quiet [of F ks S False S1] sweep
    by (cases ch) auto
qed

lemma set_call_targets: "set (call_targets F m) = ca_callee ` {c \<in> set (hm_calls m). \<not> callee_unknown c F}"
  by (auto simp: call_targets_def)

lemma edge_list_heap:
  "k \<in> set keys \<Longrightarrow> edge_list (heap_edges F keys) k = call_targets F (the (dict_get F k))"
  "k \<notin> set keys \<Longrightarrow> edge_list (heap_edges F keys) k = []"
  by (induction keys) (auto simp: edge_list_def heap_edges_def dict_get_or_def dict_get_Cons)

lemma bottom_up_mem: "bottom_up S (pre @ c # post) \<Longrightarrow> k \<in> set c \<Longrightarrow> set (S k) \<subseteq> set (concat pre) \<union> set c"
  unfolding bottom_up_def by blast

lemma heap_settled_frame:
  assumes "heap_settled F S k" "solved_at S' k = solved_at S k"
    and "\<forall>j\<in>set (call_targets F (the (dict_get F k))). solved_at S' j = solved_at S j"
  shows "heap_settled F S' k"
proof -
  have "agree F (the (dict_get F k)) S' S" using assms(3) by (auto simp: agree_def set_call_targets)
  from agree_evaluate [OF this] show ?thesis using assms by (simp add: heap_settled_def)
qed

lemma heap_components_settle:
  assumes "bottom_up (edge_list (heap_edges F keys)) (pre @ cs)" "distinct (concat (pre @ cs))" "set (concat (pre @ cs)) \<subseteq> set keys"
    and "\<forall>k\<in>set (concat pre). heap_settled F S k" "heap_components F cs S = Some S'"
  shows "\<forall>k\<in>set (concat (pre @ cs)). heap_settled F S' k"
  using assms
proof (induction cs arbitrary: pre S)
  case (Cons c cs)
  from Cons(6) obtain S1 where S1: "heap_loop F c S = Some S1" "heap_components F cs S1 = Some S'"
    by (auto split: option.splits)
  have "heap_settled F S1 k" if k: "k \<in> set (concat pre)" for k
  proof (rule heap_settled_frame)
    obtain p1 b p2 where b: "pre = p1 @ b # p2" "k \<in> set b" using k by (auto simp: in_set_conv_decomp [of _ pre])
    have "set (edge_list (heap_edges F keys) k) \<subseteq> set (concat pre)"
      using bottom_up_mem [of _ p1 b "p2 @ c # cs" k] Cons(2) b by auto
    moreover have "k \<in> set keys" using Cons(4) k by auto
    moreover have "set (concat pre) \<inter> set c = {}" using Cons(3) by auto
    ultimately have "j \<notin> set c" if "j \<in> set (call_targets F (the (dict_get F k)))" for j
      using that by (auto simp: edge_list_heap(1))
    then show "\<forall>j\<in>set (call_targets F (the (dict_get F k))). solved_at S1 j = solved_at S j"
      using heap_loop_settles [OF S1(1)] by blast
    show "heap_settled F S k" using Cons(5) k by blast
    have "k \<notin> set c" using Cons(3) k by auto
    then show "solved_at S1 k = solved_at S k" using heap_loop_settles [OF S1(1)] by blast
  qed
  then have "\<forall>k\<in>set (concat (pre @ [c])). heap_settled F S1 k" using heap_loop_settles [OF S1(1)] by auto
  from Cons(1) [OF _ _ _ this S1(2)] Cons(2-4) show ?case by simp
qed simp

lemma heap_graph_closed:
  "\<forall>v. set (edge_list (heap_edges F (sort (dict_keys F))) v) \<subseteq> set (sort (dict_keys F))"
proof
  fix v
  show "set (edge_list (heap_edges F (sort (dict_keys F))) v) \<subseteq> set (sort (dict_keys F))"
    by (cases "v \<in> set (sort (dict_keys F))") (auto simp: edge_list_heap set_call_targets callee_unknown_def dict_keys_get)
qed

theorem heap_solve_settles:
  assumes "heap_solve ms = Some S" "dict_get (by_key ms) k \<noteq> None"
  shows "heap_settled (by_key ms) S k"
proof -
  let ?F = "by_key ms" and ?keys = "sort (dict_keys (by_key ms))"
  from heap_sccs_bottom_up [OF heap_graph_closed, of ?F]
  obtain out where out: "heap_sccs ?keys (heap_edges ?F ?keys) = Some out" "distinct (concat out)"
    "set (concat out) = set ?keys" "bottom_up (edge_list (heap_edges ?F ?keys)) out" by blast
  have "heap_components ?F out (map (\<lambda>k. (k, bottom_summary (the (dict_get ?F k)))) ?keys) = Some S"
    using assms(1) out(1) by (simp add: heap_solve_def Let_def)
  from heap_components_settle [of ?F ?keys "[]" out, OF _ _ _ _ this] out(2-4)
  have "\<forall>k\<in>set ?keys. heap_settled ?F S k" unfolding out(3) [symmetric] by simp
  moreover have "k \<in> set ?keys" using assms(2) by (simp add: dict_keys_get)
  ultimately show ?thesis by blast
qed

section \<open>Without recursion the solver returns\<close>

definition call_edges :: "Facts \<Rightarrow> (string \<times> string) set" where
  "call_edges F = {(k, j). dict_get F k \<noteq> None \<and> j \<in> set (call_targets F (the (dict_get F k)))}"

lemma heap_loop_single:
  assumes "k \<notin> set (call_targets F (the (dict_get F k)))"
  shows "heap_loop F [k] S \<noteq> None"
proof -
  let ?m = "the (dict_get F k)"
  let ?S = "dict_set S k (evaluate ?m F S)"
  have ends: "heap_loop F [k] T = Some T" if "evaluate ?m F T = solved_at T k" for T
    using that by (subst heap_loop.simps) simp
  have "agree F ?m S ?S" using assms by (auto simp: agree_def set_call_targets solved_at_set)
  from agree_evaluate [OF this] have "heap_loop F [k] ?S = Some ?S" by (intro ends) (simp add: solved_at_set)
  then show ?thesis
    using ends [of S] by (cases "evaluate ?m F S = solved_at S k") (auto simp: heap_loop.simps [of F "[k]" S])
qed

lemma heap_components_single:
  "\<forall>c\<in>set cs. \<exists>k. c = [k] \<and> k \<notin> set (call_targets F (the (dict_get F k))) \<Longrightarrow> heap_components F cs S \<noteq> None"
proof (induction cs arbitrary: S)
  case (Cons c cs)
  then obtain k where k: "c = [k]" "k \<notin> set (call_targets F (the (dict_get F k)))" by fastforce
  then obtain S1 where "heap_loop F c S = Some S1" using heap_loop_single [OF k(2), of S] by blast
  then show ?case using Cons(1) [of S1] Cons(2) by simp
qed simp

lemma edges_heap: "edges (edge_list (heap_edges F (sort (dict_keys F)))) = call_edges F"
proof -
  have "j \<in> set (edge_list (heap_edges F (sort (dict_keys F))) k) \<longleftrightarrow> (k, j) \<in> call_edges F" for k j
    by (cases "k \<in> set (sort (dict_keys F))") (auto simp: edge_list_heap call_edges_def dict_keys_get)
  then show ?thesis by (auto simp: edges_def)
qed

lemma acyclic_component:
  assumes b: "bottom_up E cs" "distinct (concat cs)" and c: "c \<in> set cs" and acyc: "acyclic (edges E)"
  shows "\<exists>k. c = [k] \<and> k \<notin> set (E k)"
proof -
  obtain pre post where cs: "cs = pre @ c # post" using c by (auto simp: in_set_conv_decomp)
  have strong: "c \<noteq> []" "\<forall>x\<in>set c. \<forall>y\<in>set c. (x, y) \<in> (edges E)\<^sup>*" using b(1) unfolding bottom_up_def cs by blast+
  have one: "x = y" if "x \<in> set c" "y \<in> set c" for x y
    using strong(2) that acyc by (meson acyclic_impl_antisym_rtrancl antisymD)
  have "distinct c" using b(2) cs by simp
  moreover obtain k ks where k: "c = k # ks" using strong(1) by (cases c) simp_all
  moreover have "k = hd ks" if "ks \<noteq> []" using one [of k "hd ks"] k that by simp
  ultimately have "c = [k]" by (cases ks) simp_all
  moreover have "k \<notin> set (E k)" using acyc r_into_trancl [of k k "edges E"] by (auto simp: acyclic_def)
  ultimately show ?thesis by blast
qed

theorem heap_solve_returns:
  assumes "acyclic (call_edges (by_key ms))"
  shows "heap_solve ms \<noteq> None"
proof -
  let ?F = "by_key ms" and ?keys = "sort (dict_keys (by_key ms))"
  from heap_sccs_bottom_up [OF heap_graph_closed, of ?F]
  obtain out where out: "heap_sccs ?keys (heap_edges ?F ?keys) = Some out" "distinct (concat out)"
    "set (concat out) = set ?keys" "bottom_up (edge_list (heap_edges ?F ?keys)) out" by blast
  have "\<exists>k. c = [k] \<and> k \<notin> set (call_targets ?F (the (dict_get ?F k)))" if c: "c \<in> set out" for c
  proof -
    from acyclic_component [OF out(4,2) c] assms obtain k where k: "c = [k]" "k \<notin> set (edge_list (heap_edges ?F ?keys) k)"
      by (auto simp: edges_heap)
    then have "k \<in> set (concat out)" using c by (auto intro!: bexI [of _ c])
    with out(3) have "k \<in> set ?keys" by simp
    then show ?thesis using k by (simp add: edge_list_heap)
  qed
  from heap_components_single [of out ?F] this show ?thesis by (simp add: heap_solve_def Let_def out(1))
qed

section \<open>Roots\<close>

text \<open>One step from a token to the tokens it stands for.\<close>

definition token_step :: "Token Method \<Rightarrow> Facts \<Rightarrow> Solved \<Rightarrow> (Token \<times> Token) set" where
  "token_step m F S = {(t, u). u \<in> set (follow m F S t)}"

lemma follow_root: "is_root t \<Longrightarrow> follow m F S t = []"
  by (cases t) (simp_all add: follow_def is_root_def)

lemma roots_walk_sound:
  "\<forall>t\<in>set stack. t \<in> (token_step m F S)\<^sup>* `` T \<Longrightarrow> \<forall>r\<in>set out. is_root r \<and> r \<in> (token_step m F S)\<^sup>* `` T
    \<Longrightarrow> r \<in> set (roots_walk m F S stack seen out) \<Longrightarrow> is_root r \<and> r \<in> (token_step m F S)\<^sup>* `` T"
proof (induction m F S stack seen out rule: roots_walk.induct)
  case (2 m F S t stack seen out)
  have "\<forall>u\<in>set (follow m F S t). u \<in> (token_step m F S)\<^sup>* `` T"
    using 2(4) by (auto simp: token_step_def intro: rtrancl.rtrancl_into_rtrancl)
  with 2(4) have more: "\<forall>u\<in>set (rev (follow m F S t) @ stack). u \<in> (token_step m F S)\<^sup>* `` T" by auto
  have t: "t \<in> (token_step m F S)\<^sup>* `` T" and stack: "\<forall>u\<in>set stack. u \<in> (token_step m F S)\<^sup>* `` T"
    using 2(4) by simp_all
  consider "t \<in> set seen" | "t \<notin> set seen" "is_root t" | "t \<notin> set seen" "\<not> is_root t" by blast
  then show ?case
  proof cases
    case 1
    then show ?thesis using 2(1) [OF 1 stack 2(5)] 2(6) by simp
  next
    case c: 2
    have "\<forall>r\<in>set (List.insert t out). is_root r \<and> r \<in> (token_step m F S)\<^sup>* `` T" using 2(5) t c(2) by simp
    from 2(2) [OF c stack this] show ?thesis using 2(6) c by simp
  next
    case c: 3
    show ?thesis using 2(3) [OF c more 2(5)] 2(6) c by simp
  qed
qed simp

text \<open>The seen tokens are expanded: their successors are seen too or wait on the stack, their roots are out.\<close>

definition expanded :: "(Token \<Rightarrow> Token list) \<Rightarrow> Token set \<Rightarrow> Token set \<Rightarrow> Token set \<Rightarrow> bool" where
  "expanded f seen wait out \<longleftrightarrow> (\<forall>t\<in>seen. set (f t) \<subseteq> seen \<union> wait \<and> (is_root t \<longrightarrow> t \<in> out))"

lemma roots_walk_complete:
  "expanded (follow m F S) (set seen) (set stack) (set out)
    \<Longrightarrow> \<exists>seen'. set seen \<union> set stack \<subseteq> seen' \<and> expanded (follow m F S) seen' {} (set (roots_walk m F S stack seen out))"
proof (induction m F S stack seen out rule: roots_walk.induct)
  case (1 m F S seen out)
  then show ?case by (intro exI [of _ "set seen"]) simp
next
  case (2 m F S t stack seen out)
  consider "t \<in> set seen" | "t \<notin> set seen" "is_root t" | "t \<notin> set seen" "\<not> is_root t" by blast
  then show ?case
  proof cases
    case 1
    have "expanded (follow m F S) (set seen) (set stack) (set out)"
      using 2(4) 1 unfolding expanded_def by (simp add: insert_absorb insert_commute Un_insert_right)
    from 2(1) [OF 1 this] show ?thesis using 1 by auto
  next
    case c: 2
    have "expanded (follow m F S) (set (t # seen)) (set stack) (set (List.insert t out))"
      using 2(4) unfolding expanded_def by (simp add: follow_root [OF c(2)] Un_insert_right)
    from 2(2) [OF c this] show ?thesis using c by auto
  next
    case c: 3
    have "expanded (follow m F S) (set (t # seen)) (set (rev (follow m F S t) @ stack)) (set out)"
      using 2(4) c(2) unfolding expanded_def by auto
    from 2(3) [OF c this] show ?thesis using c by auto
  qed
qed

lemma set_roots: "set (roots m F S ts) = {r. is_root r \<and> r \<in> (token_step m F S)\<^sup>* `` set ts}"
proof
  show "set (roots m F S ts) \<subseteq> {r. is_root r \<and> r \<in> (token_step m F S)\<^sup>* `` set ts}"
    using roots_walk_sound [of "rev ts" m F S "set ts" "[]"] by (auto simp: roots_def)
  have "expanded (follow m F S) (set []) (set (rev ts)) (set [])" by (simp add: expanded_def)
  from roots_walk_complete [OF this] obtain seen' where s: "set ts \<subseteq> seen'" "\<forall>t\<in>seen'. set (follow m F S t) \<subseteq> seen'"
    "\<forall>t\<in>seen'. is_root t \<longrightarrow> t \<in> set (roots m F S ts)"
    by (auto simp: expanded_def roots_def)
  have "(token_step m F S)\<^sup>* `` seen' = seen'"
    by (rule Image_closed_trancl) (use s(2) in \<open>auto simp: token_step_def\<close>)
  then show "{r. is_root r \<and> r \<in> (token_step m F S)\<^sup>* `` set ts} \<subseteq> set (roots m F S ts)" using s(1,3) by auto
qed

end
