(* ===== verification/Own_Heap_Sound.thy ===== *)
theory Own_Heap_Sound
  imports Own_Heap_Solve
begin

text \<open>
  What the heap-effect summaries promise. The specification is an inductive reading of the facts that
  never forgets an origin: what a value may be, what a method may return, and what it may do to each
  root. The summaries keep the shape of their methods, and a summary the harmless predicate accepts
  belongs to a method that may only read.
\<close>

section \<open>Well-formed facts\<close>

fun root_ok :: "'a Method \<Rightarrow> Token \<Rightarrow> bool" where
  "root_ok m (TParam i) = (i < length (hm_params m))"
| "root_ok m TReceiver = hm_receiver m"
| "root_ok m (TLocal i) = False"
| "root_ok m (TCall k) = False"
| "root_ok m THeap = True"
| "root_ok m TUnknown = True"

fun token_ok :: "'a Method \<Rightarrow> Token \<Rightarrow> bool" where
  "token_ok m (TParam i) = (i < length (hm_params m))"
| "token_ok m TReceiver = hm_receiver m"
| "token_ok m (TLocal i) = (i < length (hm_locals m))"
| "token_ok m (TCall k) = (k < length (hm_calls m))"
| "token_ok m THeap = True"
| "token_ok m TUnknown = False"

lemma root_token_ok: "root_ok m t \<longleftrightarrow> is_root t \<and> (t = TUnknown \<or> token_ok m t)"
  by (cases t) (simp_all add: is_root_def)

definition call_ok :: "Facts \<Rightarrow> Token Method \<Rightarrow> Token Call \<Rightarrow> bool" where
  "call_ok F m c \<longleftrightarrow> (\<forall>ts. ca_receiver c = Some ts \<longrightarrow> list_all (token_ok m) ts)
     \<and> (\<forall>ts\<in>set (ca_args c). list_all (token_ok m) ts) \<and> arity_ok F c"

definition method_ok :: "Facts \<Rightarrow> Token Method \<Rightarrow> bool" where
  "method_ok F m \<longleftrightarrow> (\<forall>ts\<in>set (hm_locals m). list_all (token_ok m) ts) \<and> list_all (token_ok m) (hm_derefs m)
     \<and> (\<forall>w\<in>set (hm_writes m). list_all (token_ok m) (snd w)) \<and> list_all (token_ok m) (hm_stores m)
     \<and> list_all (token_ok m) (hm_returns m) \<and> (\<forall>c\<in>set (hm_calls m). call_ok F m c)"

definition facts_ok :: "Facts \<Rightarrow> bool" where
  "facts_ok F \<longleftrightarrow> (\<forall>k m. dict_get F k = Some m \<longrightarrow> method_ok F m)"

section \<open>The specification\<close>

text \<open>
  \<open>may_be F m t r\<close>: the value of token \<open>t\<close> in \<open>m\<close> may be the root \<open>r\<close>; \<open>may_return F m r\<close>: \<open>m\<close> may
  return something reached from \<open>r\<close>.
\<close>

definition visible :: "Token Method \<Rightarrow> Token \<Rightarrow> bool" where
  "visible m r \<longleftrightarrow> (case r of TParam i \<Rightarrow> \<not> inert_param m i | _ \<Rightarrow> True)"

definition calls_to :: "Facts \<Rightarrow> Token Method \<Rightarrow> Token Call \<Rightarrow> Token Method \<Rightarrow> bool" where
  "calls_to F m c m' \<longleftrightarrow> c \<in> set (hm_calls m) \<and> \<not> callee_unknown c F \<and> dict_get F (ca_callee c) = Some m'"

inductive may_be :: "Facts \<Rightarrow> Token Method \<Rightarrow> Token \<Rightarrow> Token \<Rightarrow> bool"
  and may_return :: "Facts \<Rightarrow> Token Method \<Rightarrow> Token \<Rightarrow> bool" for F where
  be_root: "is_root t \<Longrightarrow> may_be F m t t"
| be_local: "i < length (hm_locals m) \<Longrightarrow> t \<in> set (hm_locals m ! i) \<Longrightarrow> may_be F m t r \<Longrightarrow> may_be F m (TLocal i) r"
| be_extern: "k < length (hm_calls m) \<Longrightarrow> callee_unknown (hm_calls m ! k) F \<Longrightarrow> may_be F m (TCall k) TUnknown"
| be_argument: "k < length (hm_calls m) \<Longrightarrow> calls_to F m (hm_calls m ! k) m' \<Longrightarrow> may_return F m' (TParam i)
    \<Longrightarrow> t \<in> set (nth_list (ca_args (hm_calls m ! k)) i) \<Longrightarrow> may_be F m t r \<Longrightarrow> may_be F m (TCall k) r"
| be_receiver: "k < length (hm_calls m) \<Longrightarrow> calls_to F m (hm_calls m ! k) m' \<Longrightarrow> may_return F m' TReceiver
    \<Longrightarrow> ca_receiver (hm_calls m ! k) = Some ts \<Longrightarrow> t \<in> set ts \<Longrightarrow> may_be F m t r \<Longrightarrow> may_be F m (TCall k) r"
| be_new: "k < length (hm_calls m) \<Longrightarrow> calls_to F m (hm_calls m ! k) m' \<Longrightarrow> may_return F m' TReceiver
    \<Longrightarrow> ca_receiver (hm_calls m ! k) = None \<Longrightarrow> may_be F m (TCall k) THeap"
| be_result: "k < length (hm_calls m) \<Longrightarrow> calls_to F m (hm_calls m ! k) m' \<Longrightarrow> may_return F m' r
    \<Longrightarrow> r = THeap \<or> r = TUnknown \<Longrightarrow> may_be F m (TCall k) r"
| return_unknown: "hm_unknown m \<noteq> [] \<Longrightarrow> \<not> hm_return_inert m \<Longrightarrow> may_return F m TUnknown"
| return_value: "\<not> hm_return_inert m \<Longrightarrow> t \<in> set (hm_returns m) \<Longrightarrow> may_be F m t r \<Longrightarrow> visible m r \<Longrightarrow> may_return F m r"

text \<open>\<open>may_touch F m r e\<close>: \<open>m\<close> may have the effect \<open>e\<close> on what is reached from the root \<open>r\<close>.\<close>

inductive may_touch :: "Facts \<Rightarrow> Token Method \<Rightarrow> Token \<Rightarrow> nat \<Rightarrow> bool" for F where
  touch_deref: "t \<in> set (hm_derefs m) \<Longrightarrow> may_be F m t r \<Longrightarrow> may_touch F m r BORROW"
| touch_write: "(kind, ts) \<in> set (hm_writes m) \<Longrightarrow> kind \<noteq> ''static'' \<Longrightarrow> t \<in> set ts \<Longrightarrow> may_be F m t r \<Longrightarrow> may_touch F m r BORROW_MUT"
| touch_static: "(''static'', ts) \<in> set (hm_writes m) \<Longrightarrow> may_touch F m THeap BORROW_MUT"
| touch_store: "t \<in> set (hm_stores m) \<Longrightarrow> may_be F m t r \<Longrightarrow> may_touch F m r MAY_ESCAPE"
| touch_unknown: "hm_unknown m \<noteq> [] \<Longrightarrow> root_ok m r \<Longrightarrow> may_touch F m r UNKNOWN_EFFECT"
| touch_extern: "c \<in> set (hm_calls m) \<Longrightarrow> callee_unknown c F \<Longrightarrow> may_touch F m THeap UNKNOWN_EFFECT"
| touch_extern_arg: "c \<in> set (hm_calls m) \<Longrightarrow> callee_unknown c F \<Longrightarrow> ts \<in> set (ca_args c) \<Longrightarrow> t \<in> set ts \<Longrightarrow> may_be F m t r
    \<Longrightarrow> may_touch F m r UNKNOWN_EFFECT"
| touch_extern_receiver: "c \<in> set (hm_calls m) \<Longrightarrow> callee_unknown c F \<Longrightarrow> ca_receiver c = Some ts \<Longrightarrow> t \<in> set ts
    \<Longrightarrow> may_be F m t r \<Longrightarrow> may_touch F m r UNKNOWN_EFFECT"
| touch_arg: "calls_to F m c m' \<Longrightarrow> may_touch F m' (TParam i) e \<Longrightarrow> visible m' (TParam i) \<Longrightarrow> t \<in> set (nth_list (ca_args c) i)
    \<Longrightarrow> may_be F m t r \<Longrightarrow> may_touch F m r e"
| touch_receiver: "calls_to F m c m' \<Longrightarrow> may_touch F m' TReceiver e \<Longrightarrow> ca_receiver c = Some ts \<Longrightarrow> t \<in> set ts
    \<Longrightarrow> may_be F m t r \<Longrightarrow> may_touch F m r e"
| touch_rest: "calls_to F m c m' \<Longrightarrow> may_touch F m' r e \<Longrightarrow> r = THeap \<or> r = TUnknown \<Longrightarrow> may_touch F m r e"

section \<open>The shape of summaries\<close>

definition effects_ok :: "Token Method \<Rightarrow> nat list \<Rightarrow> nat option \<Rightarrow> nat list \<Rightarrow> bool" where
  "effects_ok m ps rc ws \<longleftrightarrow> length ps = length (hm_params m) \<and> (\<forall>e\<in>set ps. e \<le> UNKNOWN_EFFECT)
     \<and> (rc \<noteq> None) = hm_receiver m \<and> (\<forall>e. rc = Some e \<longrightarrow> e \<le> UNKNOWN_EFFECT)
     \<and> length ws = 3 \<and> (\<forall>w\<in>set ws. w \<le> W_UNKNOWN)"

definition summary_ok :: "Token Method \<Rightarrow> Summary \<Rightarrow> bool" where
  "summary_ok m s \<longleftrightarrow> effects_ok m (su_params s) (su_receiver s) (su_writes s)"

definition solved_ok :: "Facts \<Rightarrow> Solved \<Rightarrow> bool" where
  "solved_ok F S \<longleftrightarrow> (\<forall>k m. dict_get F k = Some m \<longrightarrow> summary_ok m (solved_at S k))"

definition gathered_ok :: "Token Method \<Rightarrow> Gathered \<Rightarrow> bool" where
  "gathered_ok m g \<longleftrightarrow> effects_ok m (ga_params g) (ga_receiver g) (ga_writes g)"

text \<open>A property of the gathered effects that every step of \<open>gather\<close> keeps.\<close>

definition keeps :: "Token Method \<Rightarrow> Facts \<Rightarrow> Solved \<Rightarrow> (Gathered \<Rightarrow> bool) \<Rightarrow> bool" where
  "keeps m F S P \<longleftrightarrow>
     (\<forall>e kind r g. e \<le> UNKNOWN_EFFECT \<longrightarrow> P g \<longrightarrow> P (apply_root m e kind r g))
     \<and> (\<forall>g. P g \<longrightarrow> P (g\<lparr>ga_writes := raise_to (ga_writes g) 1 W_MAY\<rparr>))
     \<and> (\<forall>g. P g \<longrightarrow> P (g\<lparr>ga_writes := [W_UNKNOWN, W_UNKNOWN, W_UNKNOWN]\<rparr>))
     \<and> (\<forall>g k. dict_get F k \<noteq> None \<longrightarrow> P g \<longrightarrow> P (g\<lparr>ga_writes := map2 max (ga_writes g) (su_writes (solved_at S k))\<rparr>))"

lemma fold_keeps: "(\<And>x g. x \<in> set xs \<Longrightarrow> P g \<Longrightarrow> P (f x g)) \<Longrightarrow> P g \<Longrightarrow> P (fold f xs g)"
  by (induction xs arbitrary: g) auto

lemma keeps_effect: "keeps m F S P \<Longrightarrow> e \<le> UNKNOWN_EFFECT \<Longrightarrow> P g \<Longrightarrow> P (apply_effect m F S ts e kind g)"
  unfolding apply_effect_def by (rule fold_keeps) (simp_all add: keeps_def)

lemma keeps_write: "keeps m F S P \<Longrightarrow> P g \<Longrightarrow> P (apply_write m F S w g)"
  by (cases w) (auto simp: apply_write_def keeps_def [of m F S P] effect_defs intro: keeps_effect)

lemma keeps_args:
  "keeps m F S P \<Longrightarrow> \<forall>e\<in>set es. e \<le> UNKNOWN_EFFECT \<Longrightarrow> P g \<Longrightarrow> P (apply_args m F S args es j g)"
  by (induction m F S args es j g rule: apply_args.induct) (simp_all add: keeps_effect)

lemma solved_okD: "solved_ok F S \<Longrightarrow> dict_get F k = Some m \<Longrightarrow> summary_ok m (solved_at S k)"
  by (simp add: solved_ok_def)

lemma known_callee: "\<not> callee_unknown c F \<Longrightarrow> \<exists>m'. dict_get F (ca_callee c) = Some m'"
  by (auto simp: callee_unknown_def)

lemma keeps_call:
  assumes k: "keeps m F S P" and S: "solved_ok F S" and g: "P g"
  shows "P (apply_call m F S c g)"
proof (cases "callee_unknown c F")
  case True
  let ?g1 = "fold (\<lambda>arg. apply_effect m F S arg UNKNOWN_EFFECT 0) (ca_args c) g"
  let ?g2 = "case ca_receiver c of None \<Rightarrow> ?g1 | Some ts \<Rightarrow> apply_effect m F S ts UNKNOWN_EFFECT 0 ?g1"
  have "P ?g1" by (rule fold_keeps) (simp_all add: keeps_effect [OF k] g)
  then have "P ?g2" by (simp add: keeps_effect [OF k] split: option.split)
  then have "P (?g2\<lparr>ga_writes := [W_UNKNOWN, W_UNKNOWN, W_UNKNOWN]\<rparr>)" using k by (simp add: keeps_def)
  then show ?thesis using True by (simp add: apply_call_def Let_def)
next
  case False
  then obtain m' where m': "dict_get F (ca_callee c) = Some m'" using known_callee by blast
  let ?s = "solved_at S (ca_callee c)"
  let ?g1 = "apply_args m F S (ca_args c) (su_params ?s) 0 g"
  let ?g2 = "case (su_receiver ?s, ca_receiver c) of (Some e, Some ts) \<Rightarrow> apply_effect m F S ts e 0 ?g1 | _ \<Rightarrow> ?g1"
  have s: "effects_ok m' (su_params ?s) (su_receiver ?s) (su_writes ?s)"
    using solved_okD [OF S m'] by (simp add: summary_ok_def)
  have "P ?g1" by (rule keeps_args [OF k _ g]) (use s in \<open>simp add: effects_ok_def\<close>)
  then have "P ?g2" using s by (auto simp: effects_ok_def intro: keeps_effect [OF k] split: option.split)
  moreover have "dict_get F (ca_callee c) \<noteq> None" using m' by simp
  ultimately have "P (?g2\<lparr>ga_writes := map2 max (ga_writes ?g2) (su_writes ?s)\<rparr>)" using k unfolding keeps_def by blast
  then show ?thesis using False by (simp add: apply_call_def Let_def)
qed

lemma raise_to_bound: "\<forall>x\<in>set xs. x \<le> b \<Longrightarrow> e \<le> b \<Longrightarrow> \<forall>x\<in>set (raise_to xs i e). x \<le> b"
  by (auto simp: raise_to_def dest: set_update_subset_insert [THEN subsetD])

lemma length_raise_to [simp]: "length (raise_to xs i e) = length xs"
  by (simp add: raise_to_def)

lemma apply_root_ok:
  assumes "gathered_ok m g" "e \<le> UNKNOWN_EFFECT"
  shows "gathered_ok m (apply_root m e kind r g)"
  using assms raise_to_bound [of "ga_params g" UNKNOWN_EFFECT e] raise_to_bound [of "ga_writes g" W_UNKNOWN W_UNKNOWN kind]
    raise_to_bound [of "ga_writes g" W_UNKNOWN W_MAY kind]
  by (cases r) (auto simp: gathered_ok_def effects_ok_def apply_root_def effect_defs)

lemma map2_max_bound: "\<forall>x\<in>set xs. x \<le> (b :: nat) \<Longrightarrow> \<forall>y\<in>set ys. y \<le> b \<Longrightarrow> \<forall>z\<in>set (map2 max xs ys). z \<le> b"
  by (induction xs ys rule: list_induct2') auto

lemma keeps_gathered_ok:
  assumes S: "solved_ok F S"
  shows "keeps m F S (gathered_ok m)"
  unfolding keeps_def
proof (intro conjI allI impI)
  fix g k
  assume k: "dict_get F k \<noteq> None" and g: "gathered_ok m g"
  then obtain m' where "dict_get F k = Some m'" by blast
  from solved_okD [OF S this] have "length (su_writes (solved_at S k)) = 3" "\<forall>w\<in>set (su_writes (solved_at S k)). w \<le> W_UNKNOWN"
    by (simp_all add: summary_ok_def effects_ok_def)
  then show "gathered_ok m (g\<lparr>ga_writes := map2 max (ga_writes g) (su_writes (solved_at S k))\<rparr>)"
    using g map2_max_bound [of "ga_writes g" W_UNKNOWN "su_writes (solved_at S k)"] by (simp add: gathered_ok_def effects_ok_def)
next
  fix g :: Gathered
  assume "gathered_ok m g"
  then show "gathered_ok m (g\<lparr>ga_writes := raise_to (ga_writes g) 1 W_MAY\<rparr>)"
    using raise_to_bound [of "ga_writes g" W_UNKNOWN W_MAY 1] by (simp add: gathered_ok_def effects_ok_def effect_defs)
next
  fix e kind r and g :: Gathered
  assume "e \<le> UNKNOWN_EFFECT" "gathered_ok m g"
  then show "gathered_ok m (apply_root m e kind r g)" by (rule apply_root_ok [rotated])
qed (simp add: gathered_ok_def effects_ok_def)

lemma gather_keeps:
  assumes k: "keeps m F S P" and S: "solved_ok F S"
    and P: "P \<lparr>ga_params = map (\<lambda>p. PLAIN) (hm_params m), ga_receiver = (if hm_receiver m then Some PLAIN else None),
           ga_writes = [W_NONE, W_NONE, W_NONE]\<rparr>"
  shows "P (gather m F S)"
proof -
  let ?g0 = "\<lparr>ga_params = map (\<lambda>p. PLAIN) (hm_params m), ga_receiver = (if hm_receiver m then Some PLAIN else None),
           ga_writes = [W_NONE, W_NONE, W_NONE]\<rparr>"
  have "P (apply_effect m F S (hm_derefs m) BORROW 0 ?g0)" by (rule keeps_effect [OF k _ P]) (simp add: effect_defs)
  then have "P (fold (apply_write m F S) (hm_writes m) (apply_effect m F S (hm_derefs m) BORROW 0 ?g0))"
    by (rule fold_keeps [rotated]) (rule keeps_write [OF k])
  then have "P (apply_effect m F S (hm_stores m) MAY_ESCAPE 0
      (fold (apply_write m F S) (hm_writes m) (apply_effect m F S (hm_derefs m) BORROW 0 ?g0)))"
    by (rule keeps_effect [OF k, rotated]) (simp add: effect_defs)
  then have "P (fold (apply_call m F S) (hm_calls m) (apply_effect m F S (hm_stores m) MAY_ESCAPE 0
      (fold (apply_write m F S) (hm_writes m) (apply_effect m F S (hm_derefs m) BORROW 0 ?g0))))"
    by (rule fold_keeps [rotated]) (rule keeps_call [OF k S])
  then show ?thesis by (simp add: gather_def Let_def)
qed

lemma gather_ok: "solved_ok F S \<Longrightarrow> gathered_ok m (gather m F S)"
  by (rule gather_keeps [OF keeps_gathered_ok]) (auto simp: gathered_ok_def effects_ok_def effect_defs)

lemma evaluate_ok:
  assumes "solved_ok F S"
  shows "summary_ok m (evaluate m F S)"
proof (cases "hm_unknown m = []")
  case True
  then show ?thesis using gather_ok [OF assms, of m] by (simp add: evaluate_def summary_ok_def gathered_ok_def Let_def)
next
  case False
  then show ?thesis by (auto simp: evaluate_def summary_ok_def effects_ok_def effect_defs)
qed

lemma solved_ok_set: "solved_ok F S \<Longrightarrow> solved_ok F (dict_set S k (evaluate (the (dict_get F k)) F S))"
  using evaluate_ok [of F S] by (simp add: solved_ok_def solved_at_set)

text \<open>A property of the solution that every single re-evaluation keeps is kept by the whole solver.\<close>

definition stable_under :: "Facts \<Rightarrow> (Solved \<Rightarrow> bool) \<Rightarrow> bool" where
  "stable_under F P \<longleftrightarrow> (\<forall>S k. P S \<longrightarrow> P (dict_set S k (evaluate (the (dict_get F k)) F S)))"

lemma heap_sweep_stable: "stable_under F P \<Longrightarrow> P S \<Longrightarrow> P (fst (heap_sweep F ks S ch))"
  by (induction F ks S ch rule: heap_sweep.induct) (simp_all add: stable_under_def Let_def)

lemma heap_loop_stable:
  assumes "stable_under F P" "P S" "heap_loop F ks S = Some S'"
  shows "P S'"
proof -
  have "stable_under F P \<longrightarrow> P S \<longrightarrow> P S'"
  proof (rule heap_loop.raw_induct [where P = "\<lambda>F ks S S'. stable_under F P \<longrightarrow> P S \<longrightarrow> P S'", OF _ assms(3)])
    fix loop F ks S S'
    assume IH: "\<And>F ks S S'. loop F ks S = Some S' \<Longrightarrow> stable_under F P \<longrightarrow> P S \<longrightarrow> P S'"
      and eq: "(case heap_sweep F ks S False of (s', changed) \<Rightarrow> if changed then loop F ks s' else Some s') = Some S'"
    obtain S1 ch where sweep: "heap_sweep F ks S False = (S1, ch)" by fastforce
    then show "stable_under F P \<longrightarrow> P S \<longrightarrow> P S'"
      using IH [of F ks S1 S'] eq heap_sweep_stable [of F P S ks False] by (cases ch) auto
  qed
  then show ?thesis using assms(1,2) by blast
qed

lemma heap_components_stable: "stable_under F P \<Longrightarrow> P S \<Longrightarrow> heap_components F cs S = Some S' \<Longrightarrow> P S'"
  by (induction F cs S rule: heap_components.induct) (auto split: option.splits dest: heap_loop_stable)

definition all_bottom :: "Facts \<Rightarrow> Solved \<Rightarrow> bool" where
  "all_bottom F S \<longleftrightarrow> (\<forall>k m. dict_get F k = Some m \<longrightarrow> solved_at S k = bottom_summary m)"

lemma heap_solve_stable:
  assumes "stable_under (by_key ms) P" "\<And>S. all_bottom (by_key ms) S \<Longrightarrow> P S" "heap_solve ms = Some S"
  shows "P S"
proof -
  let ?F = "by_key ms" and ?keys = "sort (dict_keys (by_key ms))"
  have "solved_at (map (\<lambda>k. (k, bottom_summary (the (dict_get ?F k)))) keys) k = bottom_summary m"
    if "k \<in> set keys" "dict_get ?F k = Some m" for keys k m
    using that by (induction keys) (auto simp: solved_at_def dict_get_or_def dict_get_Cons)
  moreover have "k \<in> set ?keys" if "dict_get ?F k = Some m" for k m using that by (simp add: dict_keys_get)
  ultimately have "all_bottom ?F (map (\<lambda>k. (k, bottom_summary (the (dict_get ?F k)))) ?keys)"
    unfolding all_bottom_def by blast
  from assms(2) [OF this] show ?thesis
    using heap_components_stable [OF assms(1)] assms(3) by (auto simp: heap_solve_def Let_def split: option.splits)
qed

lemma heap_solve_ok:
  assumes "heap_solve ms = Some S"
  shows "solved_ok (by_key ms) S"
proof (rule heap_solve_stable [OF _ _ assms])
  show "stable_under (by_key ms) (solved_ok (by_key ms))" unfolding stable_under_def using solved_ok_set by blast
next
  fix S
  assume "all_bottom (by_key ms) S"
  then show "solved_ok (by_key ms) S"
    by (auto simp: all_bottom_def solved_ok_def summary_ok_def effects_ok_def bottom_summary_def effect_defs)
qed

section \<open>Recorded effects\<close>

text \<open>The effect \<open>e\<close> on the root \<open>r\<close> shows in what was gathered, or some write does.\<close>

definition dirty :: "nat list \<Rightarrow> bool" where
  "dirty ws \<longleftrightarrow> list_ex (\<lambda>w. 0 < w) ws"

definition noted :: "nat list \<Rightarrow> nat option \<Rightarrow> Token \<Rightarrow> nat \<Rightarrow> bool" where
  "noted ps rc r e \<longleftrightarrow> (case r of
       TParam i \<Rightarrow> i < length ps \<and> e \<le> ps ! i
     | TReceiver \<Rightarrow> (case rc of Some x \<Rightarrow> e \<le> x | None \<Rightarrow> False)
     | _ \<Rightarrow> False)"

definition shows_in :: "nat list \<Rightarrow> nat option \<Rightarrow> nat list \<Rightarrow> Token \<Rightarrow> nat \<Rightarrow> bool" where
  "shows_in ps rc ws r e \<longleftrightarrow> dirty ws \<or> noted ps rc r e"

definition recorded :: "Token \<Rightarrow> nat \<Rightarrow> Gathered \<Rightarrow> bool" where
  "recorded r e g \<longleftrightarrow> shows_in (ga_params g) (ga_receiver g) (ga_writes g) r e"

lemma raise_to_le: "i < length xs \<Longrightarrow> e \<le> xs ! i \<Longrightarrow> e \<le> raise_to xs j e' ! i"
  by (auto simp: raise_to_def nth_list_update intro: le_trans [OF _ max.cobounded1])

lemma dirty_raise [simp]: "dirty ws \<Longrightarrow> dirty (raise_to ws j e)"
proof -
  assume "dirty ws"
  then obtain i where i: "i < length ws" "1 \<le> ws ! i" by (auto simp: dirty_def list_ex_iff in_set_conv_nth Suc_le_eq)
  then have "1 \<le> raise_to ws j e ! i" "raise_to ws j e ! i \<in> set (raise_to ws j e)" by (simp_all add: raise_to_le)
  then have "0 < raise_to ws j e ! i" by linarith
  then show ?thesis using \<open>raise_to ws j e ! i \<in> set (raise_to ws j e)\<close> unfolding dirty_def list_ex_iff by blast
qed

lemma dirty_raised: "j < length ws \<Longrightarrow> 0 < e \<Longrightarrow> dirty (raise_to ws j e)"
  by (auto simp: dirty_def list_ex_iff raise_to_def intro!: bexI [of _ "max (ws ! j) e"] set_update_memI)

lemma dirty_max [simp]: "length xs = length ys \<Longrightarrow> dirty (map2 max xs ys) \<longleftrightarrow> dirty xs \<or> dirty ys"
  by (induction xs ys rule: list_induct2') (auto simp: dirty_def)

lemma dirty_unknown [simp]: "dirty [W_UNKNOWN, W_UNKNOWN, W_UNKNOWN]"
  by (simp add: dirty_def W_UNKNOWN_def)

lemma apply_root_dirty: "dirty (ga_writes g) \<Longrightarrow> dirty (ga_writes (apply_root m e kind r g))"
  by (cases r) (simp_all add: apply_root_def)

lemma apply_root_noted:
  "noted (ga_params g) (ga_receiver g) r e \<Longrightarrow>
   noted (ga_params (apply_root m e' kind r' g)) (ga_receiver (apply_root m e' kind r' g)) r e"
  by (cases r'; cases r) (simp_all add: noted_def apply_root_def raise_to_le le_max_iff_disj split: option.splits)

lemma apply_root_records: "recorded r e g \<Longrightarrow> recorded r e (apply_root m e' kind r' g)"
  unfolding recorded_def shows_in_def using apply_root_dirty apply_root_noted by blast

lemma recorded_writes: "recorded r e g \<Longrightarrow> (dirty (ga_writes g) \<Longrightarrow> dirty ws) \<Longrightarrow> recorded r e (g\<lparr>ga_writes := ws\<rparr>)"
  by (auto simp: recorded_def shows_in_def)

lemma keeps_recorded:
  assumes S: "solved_ok F S"
  shows "keeps m F S (\<lambda>g. gathered_ok m g \<and> recorded r e g)"
proof -
  have k: "keeps m F S (gathered_ok m)" by (rule keeps_gathered_ok [OF S])
  have max: "recorded r e (g\<lparr>ga_writes := map2 max (ga_writes g) (su_writes (solved_at S k))\<rparr>)"
    if known: "dict_get F k \<noteq> None" and g: "gathered_ok m g" "recorded r e g" for g k
  proof -
    obtain m' where "dict_get F k = Some m'" using known by blast
    from solved_okD [OF S this] have "length (su_writes (solved_at S k)) = 3" by (simp add: summary_ok_def effects_ok_def)
    then show ?thesis using g by (intro recorded_writes) (simp_all add: gathered_ok_def effects_ok_def)
  qed
  show ?thesis
    unfolding keeps_def
    by (intro conjI allI impI; elim conjE) (use k in \<open>simp_all add: keeps_def max apply_root_records recorded_writes\<close>)
qed

lemma fold_reaches:
  assumes "x \<in> set xs" "P g" "\<And>y g. y \<in> set xs \<Longrightarrow> P g \<Longrightarrow> P (f y g)" "\<And>g. P g \<Longrightarrow> Q (f x g)" "\<And>y g. y \<in> set xs \<Longrightarrow> Q g \<Longrightarrow> Q (f y g)"
  shows "Q (fold f xs g)"
proof -
  obtain as bs where xs: "xs = as @ x # bs" using assms(1) by (auto simp: in_set_conv_decomp)
  have "P (fold f as g)" by (rule fold_keeps [where P = P, OF assms(3) assms(2)]) (simp_all add: xs)
  then have "Q (f x (fold f as g))" by (rule assms(4))
  then have "Q (fold f bs (f x (fold f as g)))" by (rule fold_keeps [where P = Q, OF assms(5), rotated 2]) (simp_all add: xs)
  then show ?thesis by (simp add: xs)
qed

definition reaches :: "Token Method \<Rightarrow> Facts \<Rightarrow> Solved \<Rightarrow> Token list \<Rightarrow> Token \<Rightarrow> bool" where
  "reaches m F S ts r \<longleftrightarrow> r \<in> set (roots m F S ts) \<or> TUnknown \<in> set (roots m F S ts)"

lemma apply_root_hits:
  assumes g: "gathered_ok m g" and r: "root_ok m r" "visible m r" "BORROW < e" "kind < 3" "r' = r \<or> r' = TUnknown"
  shows "recorded r e (apply_root m e kind r' g)"
proof -
  have len: "length (ga_params g) = length (hm_params m)" "length (ga_writes g) = 3" "ga_receiver g \<noteq> None \<longleftrightarrow> hm_receiver m"
    using g by (simp_all add: gathered_ok_def effects_ok_def)
  have w: "dirty (raise_to (ga_writes g) kind W_UNKNOWN)" "dirty (raise_to (ga_writes g) kind W_MAY)"
    using r(4) len(2) by (simp_all add: dirty_raised effect_defs)
  have e: "e \<ge> BORROW_MUT" using r(3) by (simp add: effect_defs)
  consider i where "r' = r" "r = TParam i" | "r' = r" "r = TReceiver" | "r' = THeap \<or> r' = TUnknown"
    using r(1,5) by (cases r) auto
  then show ?thesis
  proof cases
    case (1 i)
    then have "ga_params (apply_root m e kind r' g) = raise_to (ga_params g) i e"
      using r(2) by (simp add: apply_root_def visible_def)
    then show ?thesis using 1 r(1) len(1) by (simp add: recorded_def shows_in_def noted_def raise_to_def)
  next
    case 2
    then obtain x where "ga_receiver g = Some x" using r(1) len(3) by auto
    then show ?thesis using 2 by (simp add: recorded_def shows_in_def noted_def apply_root_def)
  next
    case 3
    then show ?thesis using w e by (auto simp: recorded_def shows_in_def apply_root_def)
  qed
qed

lemma apply_effect_hits:
  assumes S: "solved_ok F S" and g: "gathered_ok m g" and r: "root_ok m r" "visible m r"
    and e: "BORROW < e" "e \<le> UNKNOWN_EFFECT" "kind < 3" and reach: "reaches m F S ts r"
  shows "gathered_ok m (apply_effect m F S ts e kind g) \<and> recorded r e (apply_effect m F S ts e kind g)"
proof -
  obtain r' where r': "r' \<in> set (roots m F S ts)" "r' = r \<or> r' = TUnknown" using reach by (auto simp: reaches_def)
  show ?thesis unfolding apply_effect_def
    by (rule fold_reaches [where P = "gathered_ok m" and Q = "\<lambda>g. gathered_ok m g \<and> recorded r e g", OF r'(1) g])
      (simp_all add: apply_root_ok [OF _ e(2)] apply_root_records apply_root_hits [OF _ r e(1,3) r'(2)])
qed

section \<open>Every effect is gathered\<close>

lemma recorded_weaker: "recorded r x g \<Longrightarrow> e \<le> x \<Longrightarrow> recorded r e g"
  by (auto simp: recorded_def shows_in_def noted_def split: Token.splits option.splits)

lemma effect_bounds:
  "BORROW < BORROW_MUT" "BORROW_MUT \<le> UNKNOWN_EFFECT" "BORROW < MAY_ESCAPE" "MAY_ESCAPE \<le> UNKNOWN_EFFECT" "BORROW \<le> UNKNOWN_EFFECT"
  "BORROW < UNKNOWN_EFFECT"
  by (simp_all add: effect_defs)

lemma apply_write_hits:
  assumes S: "solved_ok F S" and g: "gathered_ok m g" and r: "root_ok m r" "visible m r"
    and w: "fst w = ''static'' \<or> e \<le> BORROW_MUT \<and> reaches m F S (snd w) r"
  shows "gathered_ok m (apply_write m F S w g) \<and> recorded r e (apply_write m F S w g)"
proof (cases "fst w = ''static''")
  case True
  have "dirty (raise_to (ga_writes g) 1 W_MAY)" using g by (simp add: gathered_ok_def effects_ok_def dirty_raised effect_defs)
  then have "recorded r e (apply_write m F S w g)"
    using True by (cases w) (simp add: apply_write_def recorded_def shows_in_def)
  then show ?thesis using keeps_write [OF keeps_gathered_ok [OF S] g, of w] by simp
next
  case False
  have "kind_index (fst w) < 3" by (simp add: kind_index_def)
  from apply_effect_hits [OF S g r effect_bounds(1,2) this, of "snd w"] show ?thesis
    using w False recorded_weaker by (cases w) (auto simp: apply_write_def)
qed

lemma gather_effect:
  assumes S: "solved_ok F S" and r: "root_ok m r" "visible m r" and e: "BORROW < e" "e \<le> UNKNOWN_EFFECT"
    and touch: "(\<exists>w\<in>set (hm_writes m). fst w = ''static'' \<or> e \<le> BORROW_MUT \<and> reaches m F S (snd w) r)
      \<or> e \<le> MAY_ESCAPE \<and> reaches m F S (hm_stores m) r
      \<or> (\<exists>c\<in>set (hm_calls m). \<forall>g. gathered_ok m g \<longrightarrow> recorded r e (apply_call m F S c g))"
  shows "recorded r e (gather m F S)"
proof -
  let ?Q = "\<lambda>g. gathered_ok m g \<and> recorded r e g"
  define g0 where "g0 = \<lparr>ga_params = map (\<lambda>p. PLAIN) (hm_params m), ga_receiver = (if hm_receiver m then Some PLAIN else None),
           ga_writes = [W_NONE, W_NONE, W_NONE]\<rparr>"
  define g1 where "g1 = apply_effect m F S (hm_derefs m) BORROW 0 g0"
  define g2 where "g2 = fold (apply_write m F S) (hm_writes m) g1"
  define g3 where "g3 = apply_effect m F S (hm_stores m) MAY_ESCAPE 0 g2"
  have k: "keeps m F S (gathered_ok m)" and q: "keeps m F S ?Q" by (rule keeps_gathered_ok [OF S] keeps_recorded [OF S])+
  have g0: "gathered_ok m g0" by (auto simp: g0_def gathered_ok_def effects_ok_def effect_defs)
  have g1: "gathered_ok m g1" unfolding g1_def by (rule keeps_effect [OF k effect_bounds(5) g0])
  have g2: "gathered_ok m g2" unfolding g2_def by (rule fold_keeps [where P = "gathered_ok m", OF keeps_write [OF k] g1])
  have g3: "gathered_ok m g3" unfolding g3_def by (rule keeps_effect [OF k effect_bounds(4) g2])
  have calls: "?Q g3 \<Longrightarrow> ?Q (fold (apply_call m F S) (hm_calls m) g3)"
    by (rule fold_keeps [where P = ?Q]) (rule keeps_call [OF q S])
  have stores: "?Q g2 \<Longrightarrow> ?Q g3"
    unfolding g3_def by (rule keeps_effect [OF q effect_bounds(4)])
  have "?Q (fold (apply_call m F S) (hm_calls m) g3)"
    using touch
  proof (elim disjE [of "\<exists>w\<in>set (hm_writes m). _ w"] disjE [of "_ \<and> _" "\<exists>c\<in>set (hm_calls m). _ c"] bexE)
    fix w assume w: "w \<in> set (hm_writes m)" "fst w = ''static'' \<or> e \<le> BORROW_MUT \<and> reaches m F S (snd w) r"
    have "?Q g2" unfolding g2_def
      by (rule fold_reaches [where P = "gathered_ok m" and Q = ?Q, OF w(1) g1])
        (simp_all add: keeps_write [OF k] apply_write_hits [OF S _ r w(2)] keeps_write [OF q])
    then show ?thesis by (intro calls stores)
  next
    assume st: "e \<le> MAY_ESCAPE \<and> reaches m F S (hm_stores m) r"
    then have "recorded r MAY_ESCAPE g3"
      using apply_effect_hits [OF S g2 r effect_bounds(3,4), of 0 "hm_stores m"] by (simp add: g3_def)
    with st g3 have "?Q g3" using recorded_weaker by blast
    then show ?thesis by (rule calls)
  next
    fix c assume c: "c \<in> set (hm_calls m)" "\<forall>g. gathered_ok m g \<longrightarrow> recorded r e (apply_call m F S c g)"
    show ?thesis
      by (rule fold_reaches [where P = "gathered_ok m" and Q = ?Q, OF c(1) g3 keeps_call [OF k S] _ keeps_call [OF q S]])
        (use c(2) keeps_call [OF k S] in simp_all)
  qed
  then show ?thesis by (simp add: gather_def Let_def g3_def g2_def g1_def g0_def)
qed

lemma apply_args_hits:
  assumes S: "solved_ok F S" and r: "root_ok m r" "visible m r" and e: "BORROW < e"
  shows "gathered_ok m g \<Longrightarrow> \<forall>x\<in>set es. x \<le> UNKNOWN_EFFECT \<Longrightarrow> i < length es \<Longrightarrow> e \<le> es ! i
    \<Longrightarrow> reaches m F S (nth_list args (j + i)) r
    \<Longrightarrow> gathered_ok m (apply_args m F S args es j g) \<and> recorded r e (apply_args m F S args es j g)"
proof (induction es arbitrary: i j g)
  case (Cons x es)
  let ?g = "apply_effect m F S (nth_list args j) x 0 g"
  have x: "x \<le> UNKNOWN_EFFECT" "\<forall>x\<in>set es. x \<le> UNKNOWN_EFFECT" using Cons(3) by simp_all
  have g: "gathered_ok m ?g" by (rule keeps_effect [OF keeps_gathered_ok [OF S] x(1) Cons(2)])
  show ?case
  proof (cases i)
    case 0
    then have "BORROW < x" using Cons(5) e by simp
    from apply_effect_hits [OF S Cons(2) r this x(1), of 0 "nth_list args j"] 0 Cons(5,6)
    have "gathered_ok m ?g \<and> recorded r e ?g" using recorded_weaker [of r x _ e] by simp
    then show ?thesis using keeps_args [OF keeps_recorded [OF S, of m r e] x(2), where g = ?g and args = args and j = "Suc j"] by simp
  next
    case (Suc i')
    then show ?thesis using Cons(1) [OF g x(2), of i' "Suc j"] Cons(4-6) by simp
  qed
qed simp

lemma apply_call_hits:
  assumes S: "solved_ok F S" and r: "root_ok m r" "visible m r" and e: "BORROW < e" and g: "gathered_ok m g"
    and touch: "callee_unknown c F \<or> dirty (su_writes (solved_at S (ca_callee c)))
      \<or> (\<exists>i. i < length (su_params (solved_at S (ca_callee c))) \<and> e \<le> su_params (solved_at S (ca_callee c)) ! i
          \<and> reaches m F S (nth_list (ca_args c) i) r)
      \<or> (\<exists>x ts. su_receiver (solved_at S (ca_callee c)) = Some x \<and> e \<le> x \<and> ca_receiver c = Some ts \<and> reaches m F S ts r)"
  shows "recorded r e (apply_call m F S c g)"
proof (cases "callee_unknown c F")
  case True
  then show ?thesis by (simp add: apply_call_def Let_def recorded_def shows_in_def)
next
  case False
  then obtain m' where m': "dict_get F (ca_callee c) = Some m'" using known_callee by blast
  let ?s = "solved_at S (ca_callee c)" and ?Q = "\<lambda>g. gathered_ok m g \<and> recorded r e g"
  define g1 where "g1 = apply_args m F S (ca_args c) (su_params ?s) 0 g"
  define g2 where "g2 = (case (su_receiver ?s, ca_receiver c) of (Some e, Some ts) \<Rightarrow> apply_effect m F S ts e 0 g1 | _ \<Rightarrow> g1)"
  have s: "\<forall>x\<in>set (su_params ?s). x \<le> UNKNOWN_EFFECT" "\<forall>x. su_receiver ?s = Some x \<longrightarrow> x \<le> UNKNOWN_EFFECT" "length (su_writes ?s) = 3"
    using solved_okD [OF S m'] by (simp_all add: summary_ok_def effects_ok_def)
  have g1: "gathered_ok m g1" unfolding g1_def by (rule keeps_args [OF keeps_gathered_ok [OF S] s(1) g])
  have keep: "P g1 \<Longrightarrow> P g2" if "keeps m F S P" for P
    using s(2) keeps_effect [OF that] by (auto simp: g2_def split: option.split)
  have g2: "gathered_ok m g2" using keep [OF keeps_gathered_ok [OF S]] g1 .
  have len: "length (ga_writes g2) = 3" using g2 by (simp add: gathered_ok_def effects_ok_def)
  have eq: "apply_call m F S c g = g2\<lparr>ga_writes := map2 max (ga_writes g2) (su_writes ?s)\<rparr>"
    unfolding g2_def g1_def using False by (simp add: apply_call_def Let_def)
  consider "dirty (su_writes ?s)"
    | i where "i < length (su_params ?s)" "e \<le> su_params ?s ! i" "reaches m F S (nth_list (ca_args c) i) r"
    | x ts where "su_receiver ?s = Some x" "e \<le> x" "ca_receiver c = Some ts" "reaches m F S ts r"
    using touch False by blast
  then show ?thesis
  proof cases
    case 1
    then show ?thesis unfolding eq recorded_def shows_in_def using len s(3) by simp
  next
    case (2 i)
    from apply_args_hits [OF S r e g s(1) 2(1,2), of "ca_args c" 0] 2(3) have "?Q g1" by (simp add: g1_def)
    with keep [OF keeps_recorded [OF S]] have "recorded r e g2" by blast
    then show ?thesis unfolding eq by (intro recorded_writes) (simp_all add: len s(3))
  next
    case (3 x ts)
    have "BORROW < x" "x \<le> UNKNOWN_EFFECT" using 3(1,2) e s(2) by auto
    from apply_effect_hits [OF S g1 r this _ 3(4), of 0] have "recorded r x g2" using 3(1,3) by (simp add: g2_def)
    from recorded_weaker [OF this 3(2)] show ?thesis unfolding eq by (intro recorded_writes) (simp_all add: len s(3))
  qed
qed

end
