(* ===== verification/Own_Heap_Harmless.thy ===== *)
theory Own_Heap_Harmless
  imports Own_Heap_Sound
begin

text \<open>
  The harmless predicate is sound: the loader lets well-formed facts through only, the solved summaries
  cover every origin and every effect of the specification, and a call site that passes
  \<open>site_verdict\<close> calls methods that may only read.
\<close>

section \<open>Loaded facts are well formed\<close>

lemma check_tokens_ok: "check_tokens loc m f ts = Inr xs \<Longrightarrow> list_all (\<lambda>x. \<exists>t. token_of m t = Some x) xs"
  by (induction ts arbitrary: xs) (auto simp: fail_at_def rbind_eq_Inr split: option.splits)

lemma numbered_Some: "numbered p mk limit s = Some x \<Longrightarrow> \<exists>i<limit. x = mk i"
  by (auto simp: numbered_def bind_eq_Some_conv split: if_splits)

lemma token_of_ok:
  assumes "token_of m t = Some x" "hm_receiver m' = hm_receiver m" "length (hm_params m') = length (hm_params m)"
    "length (hm_locals m') = length (hm_locals m)" "length (hm_calls m') = length (hm_calls m)"
  shows "token_ok m' x"
  using assms by (auto simp: token_of_def split: if_splits option.splits dest!: numbered_Some)

lemma check_lists_ok:
  "check_lists loc m f j tss = Inr xss \<Longrightarrow> length xss = length tss \<and> (\<forall>xs\<in>set xss. list_all (\<lambda>x. \<exists>t. token_of m t = Some x) xs)"
  by (induction tss arbitrary: j xss) (auto simp: rbind_eq_Inr dest: check_tokens_ok)

lemma check_call_ok:
  "check_call loc m j c = Inr x \<Longrightarrow> (\<forall>ts. ca_receiver x = Some ts \<longrightarrow> list_all (\<lambda>x. \<exists>t. token_of m t = Some x) ts)
     \<and> (\<forall>ts\<in>set (ca_args x). list_all (\<lambda>x. \<exists>t. token_of m t = Some x) ts)"
  by (auto simp: check_call_def rbind_eq_Inr split: option.splits dest: check_tokens_ok check_lists_ok)

lemma check_calls_ok:
  "check_calls loc m j cs = Inr xs \<Longrightarrow> length xs = length cs \<and>
     (\<forall>x\<in>set xs. (\<forall>ts. ca_receiver x = Some ts \<longrightarrow> list_all (\<lambda>x. \<exists>t. token_of m t = Some x) ts)
       \<and> (\<forall>ts\<in>set (ca_args x). list_all (\<lambda>x. \<exists>t. token_of m t = Some x) ts))"
  by (induction cs arbitrary: j xs) (auto simp: rbind_eq_Inr dest!: check_call_ok)

lemma check_method_ok:
  assumes "check_method loc raw = Inr m" "\<forall>c\<in>set (hm_calls m). arity_ok F c"
  shows "method_ok F m"
proof -
  from assms(1) obtain lcls derefs targets stores returns calls where
    c: "check_lists loc raw ''locals'' 0 (hm_locals raw) = Inr lcls" "check_tokens loc raw ''derefs'' (hm_derefs raw) = Inr derefs"
      "check_lists loc raw ''writes'' 0 (map snd (hm_writes raw)) = Inr targets"
      "check_tokens loc raw ''stores'' (hm_stores raw) = Inr stores" "check_tokens loc raw ''returns'' (hm_returns raw) = Inr returns"
      "check_calls loc raw 0 (hm_calls raw) = Inr calls"
    and m: "hm_receiver m = hm_receiver raw" "hm_params m = hm_params raw" "hm_locals m = lcls" "hm_derefs m = derefs"
      "hm_writes m = zip (map fst (hm_writes raw)) targets" "hm_stores m = stores" "hm_returns m = returns" "hm_calls m = calls"
    by (auto simp: check_method_def rbind_eq_Inr)
  have len: "length lcls = length (hm_locals raw)" "length calls = length (hm_calls raw)"
    using check_lists_ok [OF c(1)] check_calls_ok [OF c(6)] by simp_all
  have ok: "list_all (\<lambda>x. \<exists>t. token_of raw t = Some x) ts \<Longrightarrow> list_all (token_ok m) ts" for ts
    using token_of_ok [of raw _ _ m] m len by (auto simp: list_all_iff)
  have w: "list_all (token_ok m) (snd w)" if "w \<in> set (hm_writes m)" for w
  proof (rule ok)
    have "snd w \<in> set targets" using that unfolding m(5) by (metis prod.collapse set_zip_rightD)
    then show "list_all (\<lambda>x. \<exists>t. token_of raw t = Some x) (snd w)" using check_lists_ok [OF c(3)] by blast
  qed
  show ?thesis unfolding method_ok_def call_ok_def
    using check_lists_ok [OF c(1)] check_tokens_ok [OF c(2)] check_tokens_ok [OF c(4)] check_tokens_ok [OF c(5)]
      check_calls_ok [OF c(6)] assms(2) w by (auto simp: m intro!: ok)
qed

definition checked :: "Token Method \<Rightarrow> bool" where
  "checked m \<longleftrightarrow> (\<exists>loc raw. check_method loc raw = Inr m)"

lemma checkedI: "check_method loc raw = Inr m \<Longrightarrow> checked m"
  unfolding checked_def by blast

lemma load_methods_checked: "load_methods i js seen = Inr ms \<Longrightarrow> m \<in> set ms \<Longrightarrow> checked m"
  by (induction js arbitrary: i seen ms) (auto simp: rbind_eq_Inr intro: checkedI split: option.splits)

lemma check_method_key: "check_method loc raw = Inr m \<Longrightarrow> hm_key m = hm_key raw"
  by (auto simp: check_method_def rbind_eq_Inr)

lemma load_arrays_key: "load_arrays loc d m = Inr m' \<Longrightarrow> hm_key m' = hm_key m"
  by (auto simp: load_arrays_def rbind_eq_Inr)

lemma load_method_key: "load_method loc d seen = Inr m \<Longrightarrow> hm_key m \<notin> set seen"
  by (auto simp: load_method_def rbind_eq_Inr fail_at_def split: if_splits dest: load_arrays_key)

lemma load_methods_keys: "load_methods i js seen = Inr ms \<Longrightarrow> distinct (map hm_key ms) \<and> hm_key ` set ms \<inter> set seen = {}"
proof (induction js arbitrary: i seen ms)
  case (Cons j js)
  then obtain d raw m ms' where "load_method (''method #'' @ nat_str i) d seen = Inr raw"
    "check_method (''method #'' @ nat_str i) raw = Inr m" "load_methods (Suc i) js (hm_key m # seen) = Inr ms'" "ms = m # ms'"
    by (auto simp: rbind_eq_Inr split: option.splits)
  then show ?case using Cons(1) [of "Suc i" "hm_key m # seen" ms'] load_method_key check_method_key by fastforce
qed simp

lemma dict_get_by_key: "dict_get (foldl (\<lambda>d m. dict_set d (hm_key m) m) d ms) k = Some m \<Longrightarrow> dict_get d k = Some m \<or> (m \<in> set ms \<and> hm_key m = k)"
proof (induction ms arbitrary: d)
  case (Cons x ms)
  then show ?case using Cons(1) [of "dict_set d (hm_key x) x"] by (auto split: if_splits)
qed simp

lemma by_key_mem: "dict_get (by_key ms) k = Some m \<Longrightarrow> m \<in> set ms \<and> hm_key m = k"
  unfolding by_key_def by (drule dict_get_by_key) simp

lemma by_key_get: "distinct (map hm_key ms) \<Longrightarrow> m \<in> set ms \<Longrightarrow> dict_get (by_key ms) (hm_key m) = Some m"
proof -
  have "dict_get (foldl (\<lambda>d m. dict_set d (hm_key m) m) d ms) (hm_key m) = Some m"
    if "distinct (map hm_key ms)" "m \<in> set ms \<or> (m \<notin> set ms \<and> hm_key m \<notin> hm_key ` set ms \<and> dict_get d (hm_key m) = Some m)" for d ms
    using that
  proof (induction ms arbitrary: d)
    case (Cons x xs)
    then show ?case by (cases "x = m") auto
  qed simp
  then show "distinct (map hm_key ms) \<Longrightarrow> m \<in> set ms \<Longrightarrow> dict_get (by_key ms) (hm_key m) = Some m"
    by (simp add: by_key_def)
qed

lemma check_arity_ok: "check_arity F loc j cs = Inr u \<Longrightarrow> \<forall>c\<in>set cs. arity_ok F c"
  by (induction cs arbitrary: j) (auto simp: fail_at_def split: if_splits)

lemma check_arities_ok: "check_arities F i ms = Inr u \<Longrightarrow> m \<in> set ms \<Longrightarrow> \<forall>c\<in>set (hm_calls m). arity_ok F c"
  by (induction ms arbitrary: i) (auto simp: rbind_eq_Inr dest: check_arity_ok)

lemma load_facts_parts:
  assumes "load_facts doc = Inr ms"
  obtains js u where "load_methods 0 js [] = Inr ms" "check_arities (by_key ms) 0 ms = Inr u"
  using assms by (cases doc) (auto simp: rbind_eq_Inr split: if_splits option.splits)

theorem load_facts_ok:
  assumes "load_facts doc = Inr ms"
  shows "distinct (map hm_key ms) \<and> facts_ok (by_key ms)"
proof -
  from assms obtain js u where l: "load_methods 0 js [] = Inr ms" "check_arities (by_key ms) 0 ms = Inr u"
    by (rule load_facts_parts)
  have "method_ok (by_key ms) m" if m: "dict_get (by_key ms) k = Some m" for k m
  proof -
    have "m \<in> set ms" using by_key_mem [OF m] by simp
    from load_methods_checked [OF l(1) this] check_arities_ok [OF l(2) this] show ?thesis
      unfolding checked_def by (elim exE) (rule check_method_ok)
  qed
  then show ?thesis using load_methods_keys [OF l(1)] by (simp add: facts_ok_def)
qed

section \<open>Every origin is covered\<close>

lemma reaches_mem: "t \<in> set ts \<Longrightarrow> reaches m F S [t] r \<Longrightarrow> reaches m F S ts r"
  by (auto simp: reaches_def set_roots)

lemma reaches_step: "u \<in> set (follow m F S t) \<Longrightarrow> reaches m F S [u] r \<Longrightarrow> reaches m F S [t] r"
  by (auto simp: reaches_def set_roots token_step_def intro: converse_rtrancl_into_rtrancl)

lemma reaches_root: "is_root r \<Longrightarrow> reaches m F S [r] r"
  by (simp add: reaches_def set_roots)

lemma reaches_unknown: "reaches m F S [TUnknown] r"
  by (simp add: reaches_def set_roots is_root_def)

lemma may_be_root:
  "may_be F m t r \<Longrightarrow> is_root r" and "may_return F m r \<Longrightarrow> is_root r"
  by (induction rule: may_be_may_return.inducts) (auto simp: is_root_def)

definition all_settled :: "Facts \<Rightarrow> Solved \<Rightarrow> bool" where
  "all_settled F S \<longleftrightarrow> (\<forall>k m. dict_get F k = Some m \<longrightarrow> solved_at S k = evaluate m F S)"

definition returns_of :: "Facts \<Rightarrow> Solved \<Rightarrow> Token Method \<Rightarrow> Token set" where
  "returns_of F S m = set (su_returns (evaluate m F S))"

lemma returned_covers:
  "\<not> hm_return_inert m \<Longrightarrow> reaches m F S (hm_returns m) r \<Longrightarrow> visible m r
    \<Longrightarrow> r \<in> set (returned m F S) \<or> TUnknown \<in> set (returned m F S)"
  by (auto simp: returned_def reaches_def visible_def Let_def)

text \<open>What a call's result stands for when its callee returns \<open>q\<close>.\<close>

definition result_tokens :: "Token Call \<Rightarrow> Token \<Rightarrow> Token list" where
  "result_tokens c q = (case q of
       TParam i \<Rightarrow> nth_list (ca_args c) i
     | TReceiver \<Rightarrow> (case ca_receiver c of None \<Rightarrow> [THeap] | Some ts \<Rightarrow> ts)
     | _ \<Rightarrow> [q])"

lemma call_covered:
  assumes k: "k < length (hm_calls m)" "calls_to F m (hm_calls m ! k) m'" and S: "all_settled F S"
    and q: "q \<in> returns_of F S m' \<or> TUnknown \<in> returns_of F S m'"
    and u: "u \<in> set (result_tokens (hm_calls m ! k) q)" "reaches m F S [u] r"
  shows "reaches m F S [TCall k] r"
proof -
  have "solved_at S (ca_callee (hm_calls m ! k)) = evaluate m' F S" "\<not> callee_unknown (hm_calls m ! k) F"
    using k(2) S by (simp_all add: all_settled_def calls_to_def)
  then have sub: "set (result_tokens (hm_calls m ! k) q) \<subseteq> set (follow m F S (TCall k))" if "q \<in> returns_of F S m'" for q
    using k(1) that unfolding follow_def call_tokens_def returns_of_def result_tokens_def by auto
  from q show ?thesis
  proof
    assume "q \<in> returns_of F S m'"
    with sub u(1) have "u \<in> set (follow m F S (TCall k))" by blast
    then show ?thesis using u(2) by (rule reaches_step)
  next
    assume "TUnknown \<in> returns_of F S m'"
    with sub have "TUnknown \<in> set (follow m F S (TCall k))" by (fastforce simp: result_tokens_def)
    then show ?thesis using reaches_unknown by (rule reaches_step)
  qed
qed

lemma may_be_covered:
  assumes S: "all_settled F S"
  shows "may_be F m t r \<Longrightarrow> reaches m F S [t] r"
    and "may_return F m r \<Longrightarrow> r \<in> returns_of F S m \<or> TUnknown \<in> returns_of F S m"
proof (induction rule: may_be_may_return.inducts)
  case (be_root t m)
  then show ?case by (rule reaches_root)
next
  case (be_local i m t r)
  then have "t \<in> set (follow m F S (TLocal i))" by (simp add: follow_def nth_list_def)
  then show ?case using be_local(4) by (rule reaches_step)
next
  case (be_extern k m)
  then have "TUnknown \<in> set (follow m F S (TCall k))" by (simp add: follow_def call_tokens_def)
  then show ?case using reaches_unknown by (rule reaches_step)
next
  case (be_argument k m m' i t r)
  then show ?case using call_covered [OF _ _ S, of k m m' "TParam i" t r] by (simp add: result_tokens_def)
next
  case (be_receiver k m m' ts t r)
  then show ?case using call_covered [OF _ _ S, of k m m' TReceiver t r] by (simp add: result_tokens_def)
next
  case (be_new k m m')
  then show ?case using call_covered [OF _ _ S, of k m m' TReceiver THeap THeap] reaches_root [of THeap m F S]
    by (simp add: result_tokens_def is_root_def)
next
  case (be_result k m m' r)
  then show ?case using call_covered [OF _ _ S, of k m m' r r r] reaches_root [of r m F S]
    by (auto simp: result_tokens_def is_root_def)
next
  case (return_unknown m)
  then show ?case by (simp add: returns_of_def evaluate_def)
next
  case (return_value m t r)
  then have "reaches m F S (hm_returns m) r" using reaches_mem by blast
  with return_value returned_covers [of m F S r] show ?case
    by (simp add: returns_of_def evaluate_def Let_def)
qed

section \<open>Every effect is covered\<close>

lemma calls_to_ok:
  assumes "facts_ok F" "method_ok F m" "calls_to F m c m'"
  shows "method_ok F m'" "call_ok F m c"
  using assms by (auto simp: calls_to_def facts_ok_def method_ok_def)

lemma nth_list_ok: "call_ok F m c \<Longrightarrow> t \<in> set (nth_list (ca_args c) i) \<Longrightarrow> token_ok m t"
  by (auto simp: call_ok_def nth_list_def list_all_iff split: if_splits)

lemma receiver_ok: "call_ok F m c \<Longrightarrow> ca_receiver c = Some ts \<Longrightarrow> t \<in> set ts \<Longrightarrow> token_ok m t"
  by (auto simp: call_ok_def list_all_iff)

lemma may_be_ok:
  assumes F: "facts_ok F"
  shows "may_be F m t r \<Longrightarrow> method_ok F m \<longrightarrow> token_ok m t \<or> t = TUnknown \<longrightarrow> root_ok m r"
    and "may_return F m r \<Longrightarrow> method_ok F m \<longrightarrow> root_ok m r"
proof (induction rule: may_be_may_return.inducts)
  case (be_root t m)
  then show ?case by (auto simp: root_token_ok)
next
  case (be_local i m t r)
  then show ?case by (auto simp: method_ok_def list_all_iff)
next
  case (be_argument k m m' i t r)
  then show ?case using calls_to_ok(2) [OF F, of m "hm_calls m ! k" m'] nth_list_ok by blast
next
  case (be_receiver k m m' ts t r)
  then show ?case using calls_to_ok(2) [OF F, of m "hm_calls m ! k" m'] receiver_ok by blast
next
  case (return_value m t r)
  then show ?case by (auto simp: method_ok_def list_all_iff)
qed auto

lemma may_touch_bound: "may_touch F m r e \<Longrightarrow> e \<le> UNKNOWN_EFFECT"
  by (induction rule: may_touch.induct) (simp_all add: effect_defs)

lemma may_touch_root:
  assumes F: "facts_ok F"
  shows "may_touch F m r e \<Longrightarrow> method_ok F m \<Longrightarrow> root_ok m r"
proof (induction rule: may_touch.induct)
  case (touch_deref t m r)
  then show ?case using may_be_ok(1) [OF F touch_deref(2)] by (auto simp: method_ok_def list_all_iff)
next
  case (touch_write kind ts m t r)
  then have "token_ok m t" by (fastforce simp: method_ok_def list_all_iff)
  then show ?case using touch_write may_be_ok(1) [OF F, of m t r] by blast
next
  case (touch_store t m r)
  then show ?case using may_be_ok(1) [OF F touch_store(2)] by (auto simp: method_ok_def list_all_iff)
next
  case (touch_extern_arg c m ts t r)
  then have "token_ok m t" by (auto simp: method_ok_def call_ok_def list_all_iff)
  then show ?case using touch_extern_arg may_be_ok(1) [OF F, of m t r] by blast
next
  case (touch_extern_receiver c m ts t r)
  then have "token_ok m t" by (auto simp: method_ok_def call_ok_def list_all_iff)
  then show ?case using touch_extern_receiver may_be_ok(1) [OF F, of m t r] by blast
next
  case (touch_arg m c m' i e t r)
  then show ?case using calls_to_ok(2) [OF F, of m c m'] nth_list_ok may_be_ok(1) [OF F, of m t r] by blast
next
  case (touch_receiver m c m' e ts t r)
  then show ?case using calls_to_ok(2) [OF F, of m c m'] receiver_ok may_be_ok(1) [OF F, of m t r] by blast
qed auto

definition shown :: "Facts \<Rightarrow> Solved \<Rightarrow> Token Method \<Rightarrow> Token \<Rightarrow> nat \<Rightarrow> bool" where
  "shown F S m r e \<longleftrightarrow>
     shows_in (su_params (evaluate m F S)) (su_receiver (evaluate m F S)) (su_writes (evaluate m F S)) r e"

lemma shown_gathered: "(hm_unknown m = [] \<Longrightarrow> recorded r e (gather m F S)) \<Longrightarrow> shown F S m r e"
  by (simp add: shown_def recorded_def evaluate_def shows_in_def Let_def)

lemma calls_to_solved: "all_settled F S \<Longrightarrow> calls_to F m c m' \<Longrightarrow> solved_at S (ca_callee c) = evaluate m' F S"
  by (simp add: all_settled_def calls_to_def)

lemma call_shown:
  assumes "solved_ok F S" "c \<in> set (hm_calls m)" "root_ok m r" "visible m r" "BORROW < e" "e \<le> UNKNOWN_EFFECT"
    and "\<And>g. gathered_ok m g \<Longrightarrow> recorded r e (apply_call m F S c g)"
  shows "shown F S m r e"
  using assms by (intro shown_gathered gather_effect) blast+

lemma extern_shown:
  assumes "solved_ok F S" "c \<in> set (hm_calls m)" "callee_unknown c F" "root_ok m r" "visible m r"
  shows "shown F S m r UNKNOWN_EFFECT"
  by (rule call_shown [OF assms(1,2,4,5) effect_bounds(6) order_refl])
    (use assms(3) in \<open>simp add: apply_call_def Let_def recorded_def shows_in_def\<close>)

lemma may_touch_shown:
  assumes S: "all_settled F S" "solved_ok F S" and F: "facts_ok F"
  shows "may_touch F m r e \<Longrightarrow> method_ok F m \<Longrightarrow> visible m r \<Longrightarrow> BORROW < e \<Longrightarrow> shown F S m r e"
proof (induction rule: may_touch.induct)
  case (touch_write kind ts m t r)
  then have "reaches m F S ts r" using may_be_covered(1) [OF S(1)] reaches_mem by blast
  with touch_write may_touch_root [OF F may_touch.touch_write] show ?case
    by (intro shown_gathered gather_effect [OF S(2)]) (auto simp: effect_defs intro!: bexI [of _ "(kind, ts)"])
next
  case (touch_static ts m)
  then show ?case
    by (intro shown_gathered gather_effect [OF S(2)]) (auto simp: effect_defs intro!: bexI [of _ "(''static'', ts)"])
next
  case (touch_store t m r)
  then have "reaches m F S (hm_stores m) r" using may_be_covered(1) [OF S(1)] reaches_mem by blast
  with touch_store may_touch_root [OF F may_touch.touch_store] show ?case
    by (intro shown_gathered gather_effect [OF S(2)]) (auto simp: effect_defs)
next
  case (touch_unknown m r)
  then show ?case by (intro shown_gathered) simp
next
  case (touch_extern c m)
  then show ?case by (intro extern_shown [OF S(2), of c]) simp_all
next
  case (touch_extern_arg c m ts t r)
  then show ?case using may_touch_root [OF F may_touch.touch_extern_arg] by (intro extern_shown [OF S(2), of c]) simp_all
next
  case (touch_extern_receiver c m ts t r)
  then show ?case using may_touch_root [OF F may_touch.touch_extern_receiver] by (intro extern_shown [OF S(2), of c]) simp_all
next
  case (touch_arg m c m' i e t r)
  have c: "shown F S m' (TParam i) e" "c \<in> set (hm_calls m)" "solved_at S (ca_callee c) = evaluate m' F S"
    using touch_arg calls_to_ok(1) [OF F] calls_to_solved [OF S(1)] by (auto simp: calls_to_def)
  have "reaches m F S (nth_list (ca_args c) i) r" using touch_arg may_be_covered(1) [OF S(1)] reaches_mem by blast
  then have "recorded r e (apply_call m F S c g)" if "gathered_ok m g" for g
    using c touch_arg may_touch_root [OF F may_touch.touch_arg] that
    by (intro apply_call_hits [OF S(2)]) (auto simp: shown_def shows_in_def noted_def)
  with c touch_arg may_touch_root [OF F may_touch.touch_arg] show ?case
    by (intro call_shown [OF S(2) c(2)]) (auto intro: may_touch_bound)
next
  case (touch_receiver m c m' e ts t r)
  have c: "shown F S m' TReceiver e" "c \<in> set (hm_calls m)" "solved_at S (ca_callee c) = evaluate m' F S"
    using touch_receiver calls_to_ok(1) [OF F] calls_to_solved [OF S(1)] by (auto simp: calls_to_def visible_def)
  have "reaches m F S ts r" using touch_receiver may_be_covered(1) [OF S(1)] reaches_mem by blast
  then have "recorded r e (apply_call m F S c g)" if "gathered_ok m g" for g
    using c touch_receiver may_touch_root [OF F may_touch.touch_receiver] that
    by (intro apply_call_hits [OF S(2)]) (auto simp: shown_def shows_in_def noted_def split: option.splits)
  with c touch_receiver may_touch_root [OF F may_touch.touch_receiver] show ?case
    by (intro call_shown [OF S(2) c(2)]) (auto intro: may_touch_bound)
next
  case (touch_rest m c m' r e)
  have c: "shown F S m' r e" "c \<in> set (hm_calls m)" "solved_at S (ca_callee c) = evaluate m' F S"
    using touch_rest calls_to_ok(1) [OF F] calls_to_solved [OF S(1)] by (auto simp: calls_to_def visible_def)
  then have "recorded r e (apply_call m F S c g)" if "gathered_ok m g" for g
    using touch_rest that by (intro apply_call_hits [OF S(2)]) (auto simp: shown_def shows_in_def noted_def)
  with c touch_rest show ?case
    by (intro call_shown [OF S(2) c(2)]) (auto intro: may_touch_bound)
qed simp

section \<open>Tokens stay in range\<close>

definition returns_ok :: "Facts \<Rightarrow> Solved \<Rightarrow> bool" where
  "returns_ok F S \<longleftrightarrow> (\<forall>k m. dict_get F k = Some m \<longrightarrow> list_all (root_ok m) (su_returns (solved_at S k)))"

definition in_range :: "Token Method \<Rightarrow> Token \<Rightarrow> bool" where
  "in_range m t \<longleftrightarrow> token_ok m t \<or> t = TUnknown"

lemma result_in_range:
  assumes c: "call_ok F m c" "\<not> callee_unknown c F" "dict_get F (ca_callee c) = Some m'" and q: "root_ok m' q"
  shows "list_all (in_range m) (result_tokens c q) \<and> (\<forall>i. q = TParam i \<longrightarrow> i < length (ca_args c))"
proof -
  have "length (ca_args c) = length (hm_params m')"
    using c by (simp add: call_ok_def arity_ok_def callee_unknown_def)
  moreover have "list_all (in_range m) (nth_list (ca_args c) i)" for i
    using nth_list_ok [OF c(1)] by (simp add: list_all_iff in_range_def)
  moreover have "list_all (in_range m) ts" if "ca_receiver c = Some ts" for ts
    using receiver_ok [OF c(1) that] by (simp add: list_all_iff in_range_def)
  ultimately show ?thesis using q by (cases q) (auto simp: result_tokens_def in_range_def split: option.splits)
qed

lemma follow_in_range:
  assumes m: "method_ok F m" and S: "returns_ok F S" and t: "in_range m t" and u: "u \<in> set (follow m F S t)"
  shows "in_range m u"
proof (cases t)
  case (TLocal i)
  then show ?thesis using m t u by (auto simp: follow_def nth_list_def method_ok_def list_all_iff in_range_def split: if_splits)
next
  case (TCall k)
  let ?c = "hm_calls m ! k"
  have k: "k < length (hm_calls m)" using TCall t by (simp add: in_range_def)
  then have c: "call_ok F m ?c" using m by (simp add: method_ok_def)
  show ?thesis
  proof (cases "callee_unknown ?c F")
    case True
    then show ?thesis using TCall k u by (simp add: follow_def call_tokens_def in_range_def)
  next
    case False
    then obtain m' where m': "dict_get F (ca_callee ?c) = Some m'" using known_callee by blast
    obtain q where q: "q \<in> set (su_returns (solved_at S (ca_callee ?c)))" "u \<in> set (result_tokens ?c q)"
      using TCall k u False by (auto simp: follow_def call_tokens_def result_tokens_def)
    have "root_ok m' q" using S m' q(1) by (auto simp: returns_ok_def list_all_iff)
    from result_in_range [OF c False m' this] q(2) show ?thesis by (simp add: list_all_iff)
  qed
qed (use u in \<open>simp_all add: follow_def\<close>)

lemma roots_ok:
  assumes "method_ok F m" "returns_ok F S" "\<forall>t\<in>set ts. in_range m t" "r \<in> set (roots m F S ts)"
  shows "root_ok m r"
proof -
  obtain t where t: "t \<in> set ts" "(t, r) \<in> (token_step m F S)\<^sup>*" "is_root r" using assms(4) by (auto simp: set_roots)
  from t(2) have "in_range m r"
    by (induction rule: rtrancl_induct) (use assms t(1) in \<open>auto simp: token_step_def intro: follow_in_range\<close>)
  then show ?thesis using t(3) by (auto simp: in_range_def root_token_ok)
qed

lemma evaluate_returns_ok:
  assumes "method_ok F m" "returns_ok F S"
  shows "list_all (root_ok m) (su_returns (evaluate m F S))"
proof -
  have "\<forall>t\<in>set (hm_returns m). in_range m t" using assms(1) by (auto simp: method_ok_def list_all_iff in_range_def)
  with roots_ok [OF assms this] have "list_all (root_ok m) (returned m F S)"
    by (auto simp: returned_def list_all_iff Let_def)
  then show ?thesis by (simp add: evaluate_def Let_def)
qed

lemma heap_solve_returns_ok:
  assumes "facts_ok (by_key ms)" "heap_solve ms = Some S"
  shows "returns_ok (by_key ms) S"
proof (rule heap_solve_stable [OF _ _ assms(2)])
  show "stable_under (by_key ms) (returns_ok (by_key ms))"
    using evaluate_returns_ok assms(1) by (auto simp: stable_under_def returns_ok_def facts_ok_def solved_at_set)
qed (auto simp: all_bottom_def returns_ok_def bottom_summary_def)

section \<open>The predicate\<close>

lemma bad_param_iff: "bad_param i es = None \<longleftrightarrow> (\<forall>e\<in>set es. e \<le> BORROW)"
  by (induction es arbitrary: i) auto

lemma bad_write_iff: "length ws = 3 \<Longrightarrow> bad_write WRITE_KINDS ws = None \<longleftrightarrow> \<not> dirty ws"
  by (auto simp: WRITE_KINDS_def dirty_def W_NONE_def length_Suc_conv numeral_3_eq_3 split: if_splits)

lemma first_of_iff: "first_of xs = None \<longleftrightarrow> (\<forall>x\<in>set xs. x = None)"
  by (induction xs rule: first_of.induct) auto

lemma harmless_iff:
  "length (su_writes s) = 3 \<Longrightarrow> harmless s = None \<longleftrightarrow> (\<forall>e\<in>set (su_params s). e \<le> BORROW)
     \<and> (\<forall>e. su_receiver s = Some e \<longrightarrow> e \<le> BORROW) \<and> \<not> dirty (su_writes s) \<and> su_returns s = []"
  using bad_param_iff [of 0 "su_params s"] bad_write_iff [of "su_writes s"]
  by (auto simp: harmless_def split: option.splits)

lemma bad_call_iff:
  "bad_call F S cs = None \<longleftrightarrow>
     (\<forall>c\<in>set cs. ca_dispatch c = ''direct'' \<and> dict_get F (ca_callee c) \<noteq> None \<and> harmless (solved_at S (ca_callee c)) = None)"
  by (induction cs) (auto split: option.split)

text \<open>A method that writes nothing its caller can see and returns nothing the caller can reach through.\<close>

definition only_reads :: "Facts \<Rightarrow> Token Method \<Rightarrow> bool" where
  "only_reads F m \<longleftrightarrow> (\<forall>r e. may_touch F m r e \<and> visible m r \<longrightarrow> e \<le> BORROW) \<and> (\<forall>r. \<not> may_return F m r)"

lemma harmless_only_reads:
  assumes S: "all_settled F S" "solved_ok F S" and F: "facts_ok F" and m: "dict_get F k = Some m"
    and h: "harmless (solved_at S k) = None"
  shows "only_reads F m"
proof -
  have e: "solved_at S k = evaluate m F S" using S(1) m by (simp add: all_settled_def)
  have "length (su_writes (evaluate m F S)) = 3" using solved_okD [OF S(2) m] by (simp add: e summary_ok_def effects_ok_def)
  from harmless_iff [OF this] h have q: "\<forall>e\<in>set (su_params (evaluate m F S)). e \<le> BORROW"
    "\<forall>e. su_receiver (evaluate m F S) = Some e \<longrightarrow> e \<le> BORROW" "\<not> dirty (su_writes (evaluate m F S))"
    "su_returns (evaluate m F S) = []" by (simp_all add: e)
  have "\<not> shown F S m r x" if x: "BORROW < x" for r x
  proof (cases r)
    case (TParam i)
    have "i < length (su_params (evaluate m F S)) \<Longrightarrow> su_params (evaluate m F S) ! i \<le> BORROW" using q(1) by simp
    then show ?thesis using TParam q(3) x by (auto simp: shown_def shows_in_def noted_def)
  next
    case TReceiver
    then show ?thesis using q(2,3) x by (auto simp: shown_def shows_in_def noted_def split: option.splits)
  qed (use q(3) in \<open>simp_all add: shown_def shows_in_def noted_def\<close>)
  moreover have "method_ok F m" using F m by (simp add: facts_ok_def)
  ultimately have "may_touch F m r x \<Longrightarrow> visible m r \<Longrightarrow> x \<le> BORROW" for r x
    using may_touch_shown [OF S F] by (meson not_le)
  moreover have "\<not> may_return F m r" for r
    using may_be_covered(2) [OF S(1), of m r] q(4) by (auto simp: returns_of_def)
  ultimately show ?thesis by (auto simp: only_reads_def)
qed

lemma heap_solve_all_settled: "heap_solve ms = Some S \<Longrightarrow> all_settled (by_key ms) S"
  using heap_solve_settles by (force simp: all_settled_def heap_settled_def)

lemma site_only_reads:
  assumes "load_facts doc = Inr ms" "heap_solve ms = Some S" "m \<in> set ms" "site_verdict (by_key ms) S (hm_key m) callee = None"
  shows "(\<exists>c\<in>set (hm_calls m). ca_callee c = callee \<and> ca_dispatch c = ''direct'') \<and> only_reads (by_key ms) m
    \<and> (\<forall>c\<in>set (hm_calls m). \<exists>m'. calls_to (by_key ms) m c m' \<and> only_reads (by_key ms) m')"
proof -
  let ?F = "by_key ms"
  have F: "facts_ok ?F" and m: "dict_get ?F (hm_key m) = Some m"
    using load_facts_ok [OF assms(1)] by_key_get assms(3) by auto
  note reads = harmless_only_reads [OF heap_solve_all_settled [OF assms(2)] heap_solve_ok [OF assms(2)] F]
  have v: "\<exists>c\<in>set (hm_calls m). ca_callee c = callee \<and> ca_dispatch c = ''direct''" "bad_call ?F S (hm_calls m) = None"
    "harmless (solved_at S (hm_key m)) = None"
    using assms(4) m by (auto simp: site_verdict_def Let_def list_ex_iff first_of_iff split: if_splits option.splits)
  have "\<exists>m'. calls_to ?F m c m' \<and> only_reads ?F m'" if c: "c \<in> set (hm_calls m)" for c
  proof -
    have k: "ca_dispatch c = ''direct''" "dict_get ?F (ca_callee c) \<noteq> None" "harmless (solved_at S (ca_callee c)) = None"
      using v(2) c by (simp_all add: bad_call_iff)
    then obtain m' where m': "dict_get ?F (ca_callee c) = Some m'" by blast
    then show ?thesis using reads [OF m' k(3)] c k by (auto simp: calls_to_def callee_unknown_def)
  qed
  then show ?thesis using v(1) reads [OF m v(3)] by blast
qed

end
