(* ===== verification/Own_Flow.thy ===== *)
theory Own_Flow
  imports Own_Obligations Own_Summaries
begin

text \<open>
  Contract inference over flow bodies (\<open>ownlang/ownir.py\<close>): the bodies of the extracted functions, the
  scans that classify a parameter and a returned value, the merging of overloads, and the skeletons
  that the summary solver of \<open>ownlang/ownership.py\<close> reads.
\<close>

section \<open>Text of JSON values\<close>

text \<open>
  \<open>str(value)\<close> for the values the JSON reader makes; a float is kept as the text Python prints for it.
  Strings inside lists and objects print as their \<open>repr\<close>.
\<close>

definition backslash :: char where "backslash = CHR 0x5C"
definition apostrophe :: char where "apostrophe = CHR 0x27"
definition double_quote :: char where "double_quote = CHR 0x22"

definition hex_digit :: "nat \<Rightarrow> char" where
  "hex_digit n = ''0123456789abcdef'' ! n"

definition esc_char :: "char \<Rightarrow> char \<Rightarrow> string" where
  "esc_char q c =
     (let n = (of_char c :: nat)
      in if c = q \<or> c = backslash then [backslash, c]
         else if n = 10 then [backslash, CHR ''n'']
         else if n = 13 then [backslash, CHR ''r'']
         else if n = 9 then [backslash, CHR ''t'']
         else if n < 32 \<or> (127 \<le> n \<and> n < 161) \<or> n = 173
         then [backslash, CHR ''x'', hex_digit (n div 16), hex_digit (n mod 16)]
         else [c])"

definition str_repr :: "string \<Rightarrow> string" where
  "str_repr s = (let q = (if apostrophe \<in> set s \<and> double_quote \<notin> set s then double_quote else apostrophe)
     in q # concat (map (esc_char q) s) @ [q])"

fun json_repr :: "Json \<Rightarrow> string" and
    json_reprs :: "Json list \<Rightarrow> string list" and
    item_reprs :: "(string \<times> Json) list \<Rightarrow> string list" where
  "json_repr JNull = ''None''"
| "json_repr (JBool b) = (if b then ''True'' else ''False'')"
| "json_repr (JInt i) = int_str i"
| "json_repr (JFloat t) = t"
| "json_repr (JStr s) = str_repr s"
| "json_repr (JList js) = ''['' @ join_str '', '' (json_reprs js) @ '']''"
| "json_repr (JObj d) = ''{'' @ join_str '', '' (item_reprs d) @ ''}''"
| "json_reprs [] = []"
| "json_reprs (j # js) = json_repr j # json_reprs js"
| "item_reprs [] = []"
| "item_reprs ((k, j) # d) = (str_repr k @ '': '' @ json_repr j) # item_reprs d"

fun py_str :: "Json \<Rightarrow> string" where
  "py_str (JStr s) = s"
| "py_str j = json_repr j"

section \<open>Flow bodies\<close>

text \<open>
  A body is the list of its operations. Entries that are not objects are passed over everywhere, a body
  that is not a list reads as empty; the operation's name selects how its other fields are read. A compound operation keeps its
  own fields beside its bodies.
\<close>

datatype Node =
    Leaf_n string "(string, Json) dict"
  | If_n "(string, Json) dict" "Node list" "Node list"
  | While_n "(string, Json) dict" "Node list"
  | Region_n "(string, Json) dict" "Node list"

fun as_nodes :: "Json \<Rightarrow> Json list" where
  "as_nodes (JList js) = js"
| "as_nodes _ = []"

definition op_text :: "(string, Json) dict \<Rightarrow> string" where
  "op_text d = (case jget d ''op'' of JStr s \<Rightarrow> s | _ \<Rightarrow> [])"

lemma size_jget: "size (jget d k) \<le> size_list (size_prod (\<lambda>_. 0) size) d"
proof (cases "map_of d k")
  case None
  then show ?thesis by (simp add: jget_def dict_get_or_def dict_get_def)
next
  case (Some j)
  then have "(k, j) \<in> set d" by (rule map_of_SomeD)
  then have "size_prod (\<lambda>_. 0) size (k, j) \<le> size_list (size_prod (\<lambda>_. 0) size) d" by (rule size_list_estimation') simp
  then show ?thesis using Some by (simp add: jget_def dict_get_or_def dict_get_def)
qed

lemma size_as_nodes: "size_list size (as_nodes j) \<le> size j"
  by (cases j) simp_all

lemma size_body: "size_list size (as_nodes (jget d k)) \<le> size_list (size_prod (\<lambda>_. 0) size) d"
  by (rule order_trans [OF size_as_nodes size_jget])

lemma size_body_less: "size_list size (as_nodes (jget d k)) < Suc (Suc (size_list (size_prod (\<lambda>_. 0) size) d + n))"
  using size_body [of d k] by linarith

function read_nodes :: "Json list \<Rightarrow> Node list" where
  "read_nodes [] = []"
| "read_nodes (j # js) =
     (case j of
        JObj d \<Rightarrow>
          (if op_text d = ''if'' then If_n d (read_nodes (as_nodes (jget d ''then''))) (read_nodes (as_nodes (jget d ''else'')))
           else if op_text d = ''while'' then While_n d (read_nodes (as_nodes (jget d ''body'')))
           else if op_text d = ''borrow_mut'' then Region_n d (read_nodes (as_nodes (jget d ''body'')))
           else Leaf_n (op_text d) d) # read_nodes js
      | _ \<Rightarrow> read_nodes js)"
  by pat_completeness auto
termination
  by (relation "measure (size_list size)") (auto simp: size_body_less)

record FlowFn =
  ff_name :: string
  ff_sig :: "string option"
  ff_path :: string
  ff_params :: "(string, Json) dict option list"
  ff_body :: "Node list"

definition call_sig :: "(string, Json) dict \<Rightarrow> string option" where
  "call_sig d = as_str (jget d ''sig'')"

definition str_field :: "(string, Json) dict \<Rightarrow> string \<Rightarrow> string \<Rightarrow> string" where
  "str_field d k absent = py_str (dict_get_or d k (JStr absent))"

fun as_dict :: "Json \<Rightarrow> (string, Json) dict option" where
  "as_dict (JObj d) = Some d"
| "as_dict _ = None"

definition read_fn :: "(string, Json) dict \<Rightarrow> FlowFn" where
  "read_fn d = \<lparr>ff_name = str_field d ''name'' [], ff_sig = call_sig d, ff_path = str_field d ''file'' ''?'',
     ff_params = map as_dict (as_nodes (dict_get_or d ''params'' (JList []))),
     ff_body = read_nodes (as_nodes (dict_get_or d ''body'' (JList [])))\<rparr>"

fun read_fns :: "Json list \<Rightarrow> FlowFn list" where
  "read_fns [] = []"
| "read_fns (j # js) = (case as_dict j of Some d \<Rightarrow> read_fn d # read_fns js | None \<Rightarrow> read_fns js)"

section \<open>Regions are transparent to inference\<close>

fun has_region :: "Node list \<Rightarrow> bool" where
  "has_region [] = False"
| "has_region (n # ns) = ((case n of
       Region_n d b \<Rightarrow> True
     | If_n d t e \<Rightarrow> has_region t \<or> has_region e
     | While_n d b \<Rightarrow> has_region b
     | Leaf_n op d \<Rightarrow> False) \<or> has_region ns)"

fun inline_regions :: "Node list \<Rightarrow> Node list" where
  "inline_regions [] = []"
| "inline_regions (n # ns) = (case n of
       Region_n d b \<Rightarrow> inline_regions b
     | If_n d t e \<Rightarrow> [If_n d (inline_regions t) (inline_regions e)]
     | While_n d b \<Rightarrow> [While_n d (inline_regions b)]
     | Leaf_n op d \<Rightarrow> [n]) @ inline_regions ns"

definition inference_view :: "FlowFn list \<Rightarrow> FlowFn list" where
  "inference_view fns = map (\<lambda>f. if has_region (ff_body f) then f\<lparr>ff_body := inline_regions (ff_body f)\<rparr> else f) fns"

section \<open>Scans of a body\<close>

fun released_vars :: "Node list \<Rightarrow> string set" where
  "released_vars [] = {}"
| "released_vars (n # ns) = (case n of
       Leaf_n op d \<Rightarrow> if op = ''release'' then set (case as_str (jget d ''var'') of Some v \<Rightarrow> [v] | None \<Rightarrow> []) else {}
     | If_n d t e \<Rightarrow> released_vars t \<union> released_vars e
     | While_n d b \<Rightarrow> released_vars b
     | Region_n d b \<Rightarrow> {}) \<union> released_vars ns"

fun returns_value :: "Node list \<Rightarrow> bool" where
  "returns_value [] = False"
| "returns_value (n # ns) = ((case n of
       Leaf_n op d \<Rightarrow> op = ''return'' \<and> jget d ''var'' \<noteq> JNull
     | If_n d t e \<Rightarrow> returns_value t \<or> returns_value e
     | While_n d b \<Rightarrow> returns_value b
     | Region_n d b \<Rightarrow> False) \<or> returns_value ns)"

fun has_bare_return :: "Node list \<Rightarrow> bool" where
  "has_bare_return [] = False"
| "has_bare_return (n # ns) = ((case n of
       Leaf_n op d \<Rightarrow> op = ''return'' \<and> jget d ''var'' = JNull
     | If_n d t e \<Rightarrow> has_bare_return t \<or> has_bare_return e
     | While_n d b \<Rightarrow> has_bare_return b
     | Region_n d b \<Rightarrow> False) \<or> has_bare_return ns)"

text \<open>The strings in a field of every operation of a kind; the kind is not a compound one.\<close>

fun collect_vars :: "Node list \<Rightarrow> string \<Rightarrow> string \<Rightarrow> string list" where
  "collect_vars [] kind fieldname = []"
| "collect_vars (n # ns) kind fieldname = (case n of
       Leaf_n op d \<Rightarrow> if op = kind then (case as_str (jget d fieldname) of Some v \<Rightarrow> [v] | None \<Rightarrow> []) else []
     | If_n d t e \<Rightarrow> collect_vars t kind fieldname @ collect_vars e kind fieldname
     | While_n d b \<Rightarrow> collect_vars b kind fieldname
     | Region_n d b \<Rightarrow> []) @ collect_vars ns kind fieldname"

definition args_of :: "(string, Json) dict \<Rightarrow> Json list" where
  "args_of d = as_nodes (dict_get_or d ''args'' (JList []))"

definition var_is :: "string \<Rightarrow> (string, Json) dict \<Rightarrow> bool" where
  "var_is p d \<longleftrightarrow> py_str (jget d ''var'') = p"

definition hands_over :: "string \<Rightarrow> (string, Json) dict \<Rightarrow> bool" where
  "hands_over p d \<longleftrightarrow> list_ex (\<lambda>a. py_str a = p) (args_of d)"

definition or3 :: "bool \<times> bool \<times> bool \<Rightarrow> bool \<times> bool \<times> bool \<Rightarrow> bool \<times> bool \<times> bool" where
  "or3 x y = (fst x \<or> fst y, fst (snd x) \<or> fst (snd y), snd (snd x) \<or> snd (snd y))"

definition leaf_signals :: "string \<Rightarrow> string \<Rightarrow> (string, Json) dict \<Rightarrow> bool \<times> bool \<times> bool" where
  "leaf_signals p op d =
     (if op = ''release'' \<and> var_is p d then (True, False, False)
      else if op = ''call'' then (False, hands_over p d, False)
      else if op = ''use'' \<and> var_is p d then (False, False, True)
      else (False, False, False))"

fun param_signals :: "string \<Rightarrow> Node list \<Rightarrow> bool \<times> bool \<times> bool" where
  "param_signals p [] = (False, False, False)"
| "param_signals p (n # ns) = or3 (case n of
       Leaf_n op d \<Rightarrow> leaf_signals p op d
     | If_n d t e \<Rightarrow> or3 (param_signals p t) (param_signals p e)
     | While_n d b \<Rightarrow> param_signals p b
     | Region_n d b \<Rightarrow> (False, False, False)) (param_signals p ns)"

text \<open>
  The definite-release walk: the release state at the bottom (0 none of the paths, 1 some, 2 all),
  whether a path reaches the bottom, and whether every return so far had released.
\<close>

fun walk_release :: "string \<Rightarrow> Node list \<Rightarrow> nat \<Rightarrow> bool \<Rightarrow> nat \<times> bool \<times> bool" where
  "walk_release p [] rel ok = (rel, True, ok)"
| "walk_release p (n # ns) rel ok = (case n of
       Leaf_n op d \<Rightarrow>
         if op = ''release'' \<and> var_is p d then walk_release p ns 2 ok
         else if op = ''return'' then (rel, False, ok \<and> rel = 2)
         else walk_release p ns rel ok
     | If_n d t e \<Rightarrow>
         (case walk_release p t rel True of (rt, lt, okt) \<Rightarrow>
          (case walk_release p e rel True of (re, le, oke) \<Rightarrow>
             if lt \<and> le then walk_release p ns (if rt = re then rt else 1) (ok \<and> okt \<and> oke)
             else if lt \<or> le then walk_release p ns (if lt then rt else re) (ok \<and> okt \<and> oke)
             else (rel, False, ok \<and> okt \<and> oke)))
     | While_n d b \<Rightarrow>
         (case walk_release p b rel True of (rb, lb, okb) \<Rightarrow>
            walk_release p ns (if lb \<and> rb \<noteq> rel then 1 else rel) (ok \<and> okb))
     | Region_n d b \<Rightarrow> walk_release p ns rel ok)"

definition definite_release :: "string \<Rightarrow> Node list \<Rightarrow> bool" where
  "definite_release p nodes = (case walk_release p nodes 0 True of (rel, falls, ok) \<Rightarrow> ok \<and> (\<not> falls \<or> rel = 2))"

definition callee_of :: "(string, Json) dict \<Rightarrow> string" where
  "callee_of d = str_field d ''callee'' []"

text \<open>The calls a parameter is handed to: callee, signature and position.\<close>

type_synonym Target = "string \<times> string option \<times> nat"

definition leaf_targets :: "string \<Rightarrow> string \<Rightarrow> (string, Json) dict \<Rightarrow> Target list" where
  "leaf_targets p op d =
     (if op = ''call'' \<and> callee_of d \<noteq> []
      then map (\<lambda>j. (callee_of d, call_sig d, j)) (filter (\<lambda>j. py_str (args_of d ! j) = p) [0..<length (args_of d)])
      else [])"

fun forward_targets :: "string \<Rightarrow> Node list \<Rightarrow> bool \<Rightarrow> Target list" where
  "forward_targets p [] deep = []"
| "forward_targets p (n # ns) deep = (case n of
       Leaf_n op d \<Rightarrow> leaf_targets p op d
     | If_n d t e \<Rightarrow> if deep then forward_targets p t True @ forward_targets p e True else []
     | While_n d b \<Rightarrow> if deep then forward_targets p b True else []
     | Region_n d b \<Rightarrow> []) @ forward_targets p ns deep"

fun contains_return :: "Node list \<Rightarrow> bool" where
  "contains_return [] = False"
| "contains_return (n # ns) = ((case n of
       Leaf_n op d \<Rightarrow> op = ''return''
     | If_n d t e \<Rightarrow> contains_return t \<or> contains_return e
     | While_n d b \<Rightarrow> contains_return b
     | Region_n d b \<Rightarrow> False) \<or> contains_return ns)"

text \<open>
  \<open>n.get("args") or []\<close> is iterated here without a type check: a string gives its characters, an object
  its keys, and a number or \<open>true\<close> raises \<open>TypeError\<close>, which is \<open>None\<close>.
\<close>

definition iterate_args :: "(string, Json) dict \<Rightarrow> string list option" where
  "iterate_args d = (case jget d ''args'' of
       JNull \<Rightarrow> Some []
     | JBool b \<Rightarrow> if b then None else Some []
     | JInt i \<Rightarrow> if i = 0 then Some [] else None
     | JFloat t \<Rightarrow> if t = ''0.0'' \<or> t = ''-0.0'' then Some [] else None
     | JStr s \<Rightarrow> Some (map (\<lambda>c. [c]) s)
     | JList js \<Rightarrow> Some (map py_str js)
     | JObj e \<Rightarrow> Some (dict_keys e))"

fun early_return :: "string \<Rightarrow> Node list \<Rightarrow> bool option" where
  "early_return p [] = Some False"
| "early_return p (n # ns) = (case n of
       Leaf_n op d \<Rightarrow>
         if op = ''call'' then
           (case iterate_args d of
              None \<Rightarrow> None
            | Some as \<Rightarrow> if p \<in> set as then Some False else early_return p ns)
         else if op = ''return'' then Some True
         else early_return p ns
     | _ \<Rightarrow> if contains_return [n] then Some True else early_return p ns)"

section \<open>Names and keys\<close>

definition canonical_callee :: "string \<Rightarrow> string" where
  "canonical_callee name = (if take 8 name = ''global::'' then drop 8 name else name)"

definition sig_key :: "string \<Rightarrow> string \<Rightarrow> string" where
  "sig_key name sg = name @ ''('' @ sg @ '')''"

type_synonym Summaries = "(string, MethodSummary) dict"

definition mos_lookup :: "Summaries option \<Rightarrow> string \<Rightarrow> string option \<Rightarrow> MethodSummary option" where
  "mos_lookup mos callee sg =
     (case mos of
        None \<Rightarrow> None
      | Some m \<Rightarrow>
          if callee = [] then None
          else
            (let identity = canonical_callee callee;
                 keyed = (case sg of
                    None \<Rightarrow> None
                  | Some s \<Rightarrow> (case dict_get m (sig_key callee s) of
                      Some x \<Rightarrow> Some x
                    | None \<Rightarrow> if identity \<noteq> callee then dict_get m (sig_key identity s) else None))
             in case keyed of
                  Some x \<Rightarrow> Some x
                | None \<Rightarrow> (case dict_get m callee of
                    Some x \<Rightarrow> Some x
                  | None \<Rightarrow> if identity \<noteq> callee then dict_get m identity else None)))"

definition BCL_FRESH_BY_NS :: "(string \<times> string list) list" where
  "BCL_FRESH_BY_NS =
     [(''System.IO'', [''File.OpenRead'', ''File.OpenText'', ''File.OpenWrite'', ''File.Open'',
        ''File.Create'', ''File.CreateText'', ''File.AppendText'', ''File.OpenHandle'']),
      (''System.Security.Cryptography'', [''SHA1.Create'', ''SHA256.Create'', ''SHA384.Create'', ''SHA512.Create'', ''MD5.Create'',
        ''Aes.Create'', ''RSA.Create'', ''ECDsa.Create'']),
      (''System.Xml'', [''XmlReader.Create'', ''XmlWriter.Create'']),
      (''System.Text.Json'', [''JsonDocument.Parse''])]"

definition is_bcl_fresh_factory :: "string \<Rightarrow> bool" where
  "is_bcl_fresh_factory callee \<longleftrightarrow> callee \<noteq> [] \<and>
     list_ex (\<lambda>(ns, es). list_ex (\<lambda>e. canonical_callee callee = e \<or> canonical_callee callee = ns @ ''.'' @ e) es) BCL_FRESH_BY_NS"

definition callee_returns_fresh :: "string \<Rightarrow> Summaries option \<Rightarrow> string set \<Rightarrow> string option \<Rightarrow> bool" where
  "callee_returns_fresh callee mos first_party sg =
     (if callee = [] then False
      else (case mos_lookup mos callee sg of
              Some summ \<Rightarrow> mu_returns summ = ''fresh''
            | None \<Rightarrow> if canonical_callee callee \<in> first_party then False else is_bcl_fresh_factory callee))"

section \<open>Skeletons\<close>

text \<open>
  The callee and signature behind each local bound by a call: ambiguous (\<open>None\<close>) for two callees,
  without signature for two signatures of one callee.
\<close>

type_synonym Results = "(string, (string \<times> string option) option) dict"

definition note_result :: "(string, Json) dict \<Rightarrow> Results \<Rightarrow> Results" where
  "note_result d out =
     (case (as_str (jget d ''result''), as_str (jget d ''callee'')) of
        (Some res, Some callee) \<Rightarrow>
          if callee = [] then out
          else (case dict_get out res of
              None \<Rightarrow> dict_set out res (Some (callee, call_sig d))
            | Some None \<Rightarrow> dict_set out res None
            | Some (Some prev) \<Rightarrow>
                if fst prev \<noteq> callee then dict_set out res None
                else if snd prev \<noteq> call_sig d then dict_set out res (Some (callee, None))
                else out)
      | _ \<Rightarrow> out)"

fun call_results :: "Node list \<Rightarrow> Results \<Rightarrow> Results" where
  "call_results [] out = out"
| "call_results (n # ns) out = call_results ns (case n of
       Leaf_n op d \<Rightarrow> if op = ''call'' then note_result d out else out
     | If_n d t e \<Rightarrow> call_results e (call_results t out)
     | While_n d b \<Rightarrow> call_results b out
     | Region_n d b \<Rightarrow> out)"

definition ret_skel :: "string \<Rightarrow> string \<Rightarrow> ReturnSkeleton" where
  "ret_skel kind callee = \<lparr>rk_kind = kind, rk_arg = -1, rk_callee = callee\<rparr>"

definition infer_return_skeleton :: "Node list \<Rightarrow> string set \<Rightarrow> string set \<Rightarrow> (string \<Rightarrow> string option \<Rightarrow> string) \<Rightarrow> ReturnSkeleton" where
  "infer_return_skeleton nodes param_names first_party call_key =
     (let rets = remdups (collect_vars nodes ''return'' ''var'');
          acquired = set (collect_vars nodes ''acquire'' ''var'');
          results = call_results nodes []
      in if rets = [] \<or> has_bare_return nodes then ret_skel ''none'' []
         else if list_all (\<lambda>v. v \<in> acquired \<and> v \<notin> param_names \<and> dict_get results v = None) rets then ret_skel ''fresh'' []
         else (case rets of
             [v] \<Rightarrow>
               (case dict_get results v of
                  Some (Some (callee, csig)) \<Rightarrow>
                    if v \<notin> param_names \<and> v \<notin> acquired then
                      (if canonical_callee callee \<notin> first_party \<and> is_bcl_fresh_factory callee then ret_skel ''fresh'' []
                       else ret_skel ''forward'' (call_key callee csig))
                    else ret_skel ''none'' []
                | _ \<Rightarrow> ret_skel ''none'' [])
           | _ \<Rightarrow> ret_skel ''none'' []))"

definition plain_action :: "string \<Rightarrow> PathAction" where
  "plain_action kind = \<lparr>pa_kind = kind, pa_callee = [], pa_arg = -1\<rparr>"

definition forward_path_action :: "(string \<Rightarrow> string option \<Rightarrow> string) \<Rightarrow> Target \<Rightarrow> PathAction" where
  "forward_path_action call_key tgt = (case tgt of (callee, sg, arg) \<Rightarrow>
     if callee = ''$consume'' then plain_action ''dispose''
     else if callee = ''$borrow'' then plain_action ''borrow''
     else \<lparr>pa_kind = ''forward'', pa_callee = call_key callee sg, pa_arg = int arg\<rparr>)"

text \<open>What an explicit effect stands for.\<close>

definition explicit_paths :: "string \<Rightarrow> PathAction list" where
  "explicit_paths eff =
     (if eff = ''consume'' then [plain_action ''dispose'']
      else if eff = ''borrow'' \<or> eff = ''borrow_mut'' then [plain_action ''borrow'']
      else [])"

definition forwarded_paths :: "(string \<Rightarrow> string option \<Rightarrow> string) \<Rightarrow> string \<Rightarrow> Node list \<Rightarrow> PathAction list option" where
  "forwarded_paths call_key p body =
     (let allt = forward_targets p body True; top = forward_targets p body False;
          paths = map (forward_path_action call_key) allt
      in if length allt = 1 \<and> length top = 1
         then map_option (\<lambda>early. if early then paths @ [plain_action ''borrow''] else paths) (early_return p body)
         else Some (paths @ [plain_action ''borrow'']))"

definition inferred_paths :: "(string \<Rightarrow> string option \<Rightarrow> string) \<Rightarrow> string \<Rightarrow> Node list \<Rightarrow> PathAction list option" where
  "inferred_paths call_key p body =
     (case param_signals p body of (rel, passed, used) \<Rightarrow>
        if rel then
          Some (if definite_release p body then [plain_action ''dispose''] else [plain_action ''dispose'', plain_action ''borrow''])
        else if passed then forwarded_paths call_key p body
        else Some (if used then [plain_action ''borrow''] else []))"

definition param_name :: "(string, Json) dict \<Rightarrow> string" where
  "param_name d = str_field d ''name'' ''?''"

definition param_paths :: "(string \<Rightarrow> string option \<Rightarrow> string) \<Rightarrow> Node list \<Rightarrow> (string, Json) dict \<Rightarrow> PathAction list option" where
  "param_paths call_key body d = (case as_str (jget d ''effect'') of
       Some eff \<Rightarrow> Some (explicit_paths eff)
     | None \<Rightarrow> inferred_paths call_key (param_name d) body)"

fun param_skeletons :: "(string \<Rightarrow> string option \<Rightarrow> string) \<Rightarrow> Node list \<Rightarrow> nat \<Rightarrow> (string, Json) dict option list
    \<Rightarrow> ParamSkeleton list option" where
  "param_skeletons call_key body i [] = Some []"
| "param_skeletons call_key body i (None # ps) = param_skeletons call_key body (Suc i) ps"
| "param_skeletons call_key body i (Some d # ps) =
     (case param_paths call_key body d of
        None \<Rightarrow> None
      | Some paths \<Rightarrow>
          map_option (\<lambda>rest. \<lparr>pk_index = int i, pk_name = param_name d, pk_disposable = True, pk_paths = paths,
              pk_escapes = False\<rparr> # rest) (param_skeletons call_key body (Suc i) ps))"

section \<open>Overloads\<close>

definition merge_returns :: "ReturnSkeleton list \<Rightarrow> ReturnSkeleton" where
  "merge_returns rets =
     (let ks = set (map rk_kind rets)
      in if ks = {''fresh''} then ret_skel ''fresh'' []
         else if ks = {''none''} then ret_skel ''none'' []
         else if ks = {''aliased''} then ret_skel ''aliased'' []
         else ret_skel ''unknown'' [])"

definition kept_paths :: "ParamSkeleton \<Rightarrow> PathAction list" where
  "kept_paths p = (if pk_paths p = [] then [plain_action ''borrow''] else pk_paths p)"

definition add_param :: "(int, PathAction list \<times> string) dict \<Rightarrow> ParamSkeleton \<Rightarrow> (int, PathAction list \<times> string) dict" where
  "add_param d p = (case dict_get d (pk_index p) of
       None \<Rightarrow> dict_set d (pk_index p) (kept_paths p, pk_name p)
     | Some (paths, name) \<Rightarrow> dict_set d (pk_index p) (paths @ kept_paths p, min name (pk_name p)))"

definition loc_min :: "(string \<times> int) list \<Rightarrow> string \<times> int" where
  "loc_min xs = foldl (\<lambda>m x. if fst x < fst m \<or> (fst x = fst m \<and> snd x < snd m) then x else m) (hd xs) (tl xs)"

definition merge_skeletons :: "MethodSkeleton list \<Rightarrow> MethodSkeleton" where
  "merge_skeletons overloads =
     (case overloads of
        [sk] \<Rightarrow> sk
      | _ \<Rightarrow>
          (let by_index = foldl add_param [] (concat (map mk_params overloads));
               floc = loc_min (map (\<lambda>sk. (mk_file sk, mk_line sk)) overloads)
           in \<lparr>mk_key = mk_key (hd overloads),
               mk_params = map (\<lambda>i. case the (dict_get by_index i) of (paths, name) \<Rightarrow>
                   \<lparr>pk_index = i, pk_name = name, pk_disposable = True, pk_paths = paths, pk_escapes = False\<rparr>)
                 (sort (dict_keys by_index)),
               mk_ret = merge_returns (map mk_ret overloads), mk_file = fst floc, mk_line = snd floc\<rparr>))"

definition fn_names :: "FlowFn list \<Rightarrow> string list" where
  "fn_names fns = map ff_name fns"

definition has_overloads :: "FlowFn list \<Rightarrow> string \<Rightarrow> bool" where
  "has_overloads fns name \<longleftrightarrow> 1 < count_list (fn_names fns) name"

definition sig_keys :: "FlowFn list \<Rightarrow> string set" where
  "sig_keys fns = set (concat (map (\<lambda>f. case ff_sig f of
     Some sg \<Rightarrow> if ff_name f \<noteq> [] \<and> has_overloads fns (ff_name f) then [sig_key (ff_name f) sg] else []
   | None \<Rightarrow> []) fns))"

definition call_key :: "FlowFn list \<Rightarrow> string \<Rightarrow> string option \<Rightarrow> string" where
  "call_key fns callee sg =
     (let identity = canonical_callee callee;
          bare = (if callee \<notin> set (fn_names fns) \<and> identity \<in> set (fn_names fns) then identity else callee)
      in case sg of
           None \<Rightarrow> bare
         | Some s \<Rightarrow>
             if sig_key callee s \<in> sig_keys fns then sig_key callee s
             else if sig_key identity s \<in> sig_keys fns then sig_key identity s
             else bare)"

definition first_party_of :: "FlowFn list \<Rightarrow> string set" where
  "first_party_of fns = set (map canonical_callee (filter (\<lambda>k. k \<noteq> []) (fn_names fns)))"

definition skeleton_of :: "FlowFn list \<Rightarrow> FlowFn \<Rightarrow> MethodSkeleton option" where
  "skeleton_of fns f =
     map_option (\<lambda>ps. \<lparr>mk_key = ff_name f, mk_params = ps,
         mk_ret = infer_return_skeleton (ff_body f) (set (map (\<lambda>d. str_field d ''name'' []) (concat (map (\<lambda>p. case p of Some d \<Rightarrow> [d] | None \<Rightarrow> []) (ff_params f)))))
           (first_party_of fns) (call_key fns),
         mk_file = ff_path f, mk_line = 0\<rparr>)
       (param_skeletons (call_key fns) (ff_body f) 0 (ff_params f))"

definition append_at :: "(string, 'a list) dict \<Rightarrow> string \<Rightarrow> 'a \<Rightarrow> (string, 'a list) dict" where
  "append_at d k x = dict_set d k (dict_get_or d k [] @ [x])"

text \<open>The skeletons grouped by name, and by signature key for the overloaded names.\<close>

fun group_fns :: "FlowFn list \<Rightarrow> FlowFn list \<Rightarrow> (string, MethodSkeleton list) dict \<Rightarrow> (string, MethodSkeleton list) dict
    \<Rightarrow> ((string, MethodSkeleton list) dict \<times> (string, MethodSkeleton list) dict) option" where
  "group_fns fns [] by_name by_sig = Some (by_name, by_sig)"
| "group_fns fns (f # fs) by_name by_sig =
     (if ff_name f = [] then group_fns fns fs by_name by_sig
      else (case skeleton_of fns f of
              None \<Rightarrow> None
            | Some sk \<Rightarrow>
                group_fns fns fs (append_at by_name (ff_name f) sk)
                  (case ff_sig f of
                     Some sg \<Rightarrow> if has_overloads fns (ff_name f) then append_at by_sig (sig_key (ff_name f) sg) sk else by_sig
                   | None \<Rightarrow> by_sig)))"

definition build_skeletons :: "FlowFn list \<Rightarrow> MethodSkeleton list option" where
  "build_skeletons fns =
     map_option (\<lambda>(by_name, by_sig). map (\<lambda>(k, overloads). merge_skeletons overloads) by_name
         @ map (\<lambda>(k, overloads). (merge_skeletons overloads)\<lparr>mk_key := k\<rparr>) by_sig)
       (group_fns fns fns [] [])"

section \<open>The contract of a parameter\<close>

definition infer_param_effect :: "string \<Rightarrow> Node list \<Rightarrow> Transfer option \<Rightarrow> string option" where
  "infer_param_effect p nodes forward_transfer =
     (case param_signals p nodes of (rel, passed, used) \<Rightarrow>
        if rel then (if definite_release p nodes then Some ''consume'' else None)
        else if passed then
          (if forward_transfer = Some MUST then Some ''consume''
           else if forward_transfer = Some NO then Some ''borrow''
           else None)
        else if used then Some ''borrow''
        else None)"

definition summary_param :: "MethodSummary \<Rightarrow> int \<Rightarrow> ParamSummary option" where
  "summary_param summ i = find (\<lambda>q. pu_index q = i) (mu_params summ)"

definition param_effect :: "Summaries option \<Rightarrow> FlowFn \<Rightarrow> nat \<Rightarrow> (string, Json) dict \<Rightarrow> string option" where
  "param_effect mos f i d = (case as_str (jget d ''effect'') of
       Some eff \<Rightarrow> Some eff
     | None \<Rightarrow> infer_param_effect (param_name d) (ff_body f)
         (case mos_lookup mos (ff_name f) (ff_sig f) of
            None \<Rightarrow> None
          | Some summ \<Rightarrow> map_option pu_transfer (summary_param summ (int i))))"

text \<open>The effects of the parameters of each name, the last function of a name winning.\<close>

fun effects_of_params :: "Summaries option \<Rightarrow> FlowFn \<Rightarrow> nat \<Rightarrow> (string, Json) dict option list \<Rightarrow> string option list" where
  "effects_of_params mos f i [] = []"
| "effects_of_params mos f i (None # ps) = effects_of_params mos f (Suc i) ps"
| "effects_of_params mos f i (Some d # ps) =
     (case param_effect mos f i d of
        Some eff \<Rightarrow> if eff \<noteq> ''plain'' then Some eff else None
      | None \<Rightarrow> None) # effects_of_params mos f (Suc i) ps"

definition region_param_effects :: "FlowFn list \<Rightarrow> Summaries option \<Rightarrow> (string, string option list) dict" where
  "region_param_effects fns mos =
     foldl (\<lambda>out f. dict_set out (ff_name f) (effects_of_params mos f 0 (ff_params f))) [] (inference_view fns)"

section \<open>Unverified hand-overs\<close>

text \<open>The tolerant coordinates: what is not a coordinate of the source domain reads as absent.\<close>

fun as_line :: "Json \<Rightarrow> int" where
  "as_line (JInt v) = (if LINE_MIN \<le> v \<and> v \<le> LINE_MAX then v else 0)"
| "as_line _ = 0"

definition line_field :: "(string, Json) dict \<Rightarrow> int" where
  "line_field d = as_line (dict_get_or d ''line'' (JInt 0))"

definition gap_at :: "MethodSummary \<Rightarrow> nat \<Rightarrow> Transfer option" where
  "gap_at summ j = (case summary_param summ (int j) of
     Some ps \<Rightarrow> if pu_transfer ps = MAY \<or> pu_transfer ps = UNKNOWN then Some (pu_transfer ps) else None
   | None \<Rightarrow> None)"

type_synonym Gap = "string \<times> string \<times> Transfer \<times> int"

definition leaf_unverified :: "Summaries option \<Rightarrow> (string, Json) dict \<Rightarrow> Gap list" where
  "leaf_unverified mos d = (case mos_lookup mos (callee_of d) (call_sig d) of
       None \<Rightarrow> []
     | Some summ \<Rightarrow> concat (map (\<lambda>(j, a). case gap_at summ j of
           Some t \<Rightarrow> [(py_str a, callee_of d, t, line_field d)]
         | None \<Rightarrow> []) (List.enumerate 0 (args_of d))))"

fun unverified_transfer_calls :: "Summaries option \<Rightarrow> Node list \<Rightarrow> Gap list" where
  "unverified_transfer_calls mos [] = []"
| "unverified_transfer_calls mos (n # ns) = (case n of
       Leaf_n op d \<Rightarrow> if op = ''call'' then leaf_unverified mos d else []
     | If_n d t e \<Rightarrow> unverified_transfer_calls mos t @ unverified_transfer_calls mos e
     | While_n d b \<Rightarrow> unverified_transfer_calls mos b
     | Region_n d b \<Rightarrow> []) @ unverified_transfer_calls mos ns"

section \<open>The summaries of a document\<close>

text \<open>
  \<open>solve(_build_skeletons(_inference_view(functions)))\<close>: an outer \<open>None\<close> would be a solver that does not
  return, an inner one an exception (a malformed argument list or a duplicate key), on which the callers
  go on without summaries.
\<close>

definition flow_summaries :: "Json list \<Rightarrow> Summaries option option" where
  "flow_summaries raw =
     (case build_skeletons (inference_view (read_fns raw)) of
        None \<Rightarrow> Some None
      | Some ss \<Rightarrow>
          (case solve_with_log ss of
             None \<Rightarrow> None
           | Some (Inl e) \<Rightarrow> Some None
           | Some (Inr (out, log)) \<Rightarrow> Some (Some out)))"

end
