(* ===== verification/Own_Flow_Paths.thy ===== *)
theory Own_Flow_Paths
  imports Own_Flow
begin

text \<open>
  The paths of a flow body, and what the release walk says of them. A path takes either branch of an
  \<open>if\<close>, any number of turns of a \<open>while\<close>, and runs a region once; it ends at the bottom or at a return.
\<close>

section \<open>Paths\<close>

type_synonym Event = "string \<times> (string, Json) dict"

inductive flow_path :: "Node list \<Rightarrow> Event list \<Rightarrow> bool \<Rightarrow> bool" where
  path_end: "flow_path [] [] False"
| path_leaf: "op \<noteq> ''return'' \<Longrightarrow> flow_path ns tr r \<Longrightarrow> flow_path (Leaf_n op d # ns) ((op, d) # tr) r"
| path_return: "flow_path (Leaf_n ''return'' d # ns) [(''return'', d)] True"
| path_then: "flow_path t tr False \<Longrightarrow> flow_path ns tr' r \<Longrightarrow> flow_path (If_n d t e # ns) (tr @ tr') r"
| path_else: "flow_path e tr False \<Longrightarrow> flow_path ns tr' r \<Longrightarrow> flow_path (If_n d t e # ns) (tr @ tr') r"
| path_then_returns: "flow_path t tr True \<Longrightarrow> flow_path (If_n d t e # ns) tr True"
| path_else_returns: "flow_path e tr True \<Longrightarrow> flow_path (If_n d t e # ns) tr True"
| path_exit: "flow_path ns tr r \<Longrightarrow> flow_path (While_n d b # ns) tr r"
| path_turn: "flow_path b tr False \<Longrightarrow> flow_path (While_n d b # ns) tr' r \<Longrightarrow> flow_path (While_n d b # ns) (tr @ tr') r"
| path_turn_returns: "flow_path b tr True \<Longrightarrow> flow_path (While_n d b # ns) tr True"
| path_region: "flow_path b tr False \<Longrightarrow> flow_path ns tr' r \<Longrightarrow> flow_path (Region_n d b # ns) (tr @ tr') r"
| path_region_returns: "flow_path b tr True \<Longrightarrow> flow_path (Region_n d b # ns) tr True"

inductive_cases path_end_cases: "flow_path [] tr r"
inductive_cases path_leaf_cases: "flow_path (Leaf_n op d # ns) tr r"
inductive_cases path_if_cases: "flow_path (If_n d t e # ns) tr r"
inductive_cases path_region_cases: "flow_path (Region_n d b # ns) tr r"
inductive_cases path_while_cases: "flow_path (While_n d b # ns) tr r"

inductive_simps path_end_iff [simp]: "flow_path [] tr r"

text \<open>The turns of a loop: each completes.\<close>

inductive turns :: "Node list \<Rightarrow> Event list \<Rightarrow> bool" for b where
  no_turn: "turns b []"
| one_turn: "flow_path b tr False \<Longrightarrow> turns b tr' \<Longrightarrow> turns b (tr @ tr')"

lemma path_while_iff:
  "flow_path (While_n d b # ns) tr r \<longleftrightarrow>
     (\<exists>tr1 tr2. turns b tr1 \<and> tr = tr1 @ tr2 \<and> (flow_path ns tr2 r \<or> (r \<and> flow_path b tr2 True)))"
proof
  have "turns b tr1 \<and> flow_path ns tr2 r \<Longrightarrow> flow_path (While_n d b # ns) (tr1 @ tr2) r" for tr1 tr2
  proof (elim conjE)
    show "turns b tr1 \<Longrightarrow> flow_path ns tr2 r \<Longrightarrow> flow_path (While_n d b # ns) (tr1 @ tr2) r"
      by (induction rule: turns.induct) (auto intro: flow_path.intros)
  qed
  moreover have "turns b tr1 \<Longrightarrow> flow_path b tr2 True \<Longrightarrow> flow_path (While_n d b # ns) (tr1 @ tr2) True" for tr1 tr2
    by (induction rule: turns.induct) (auto intro: flow_path.intros)
  moreover assume "\<exists>tr1 tr2. turns b tr1 \<and> tr = tr1 @ tr2 \<and> (flow_path ns tr2 r \<or> (r \<and> flow_path b tr2 True))"
  ultimately show "flow_path (While_n d b # ns) tr r" by auto
next
  assume "flow_path (While_n d b # ns) tr r"
  then show "\<exists>tr1 tr2. turns b tr1 \<and> tr = tr1 @ tr2 \<and> (flow_path ns tr2 r \<or> (r \<and> flow_path b tr2 True))"
  proof (induction "While_n d b # ns" tr r rule: flow_path.induct)
    case (path_exit tr r)
    then show ?case using no_turn by fastforce
  next
    case (path_turn tr tr' r)
    then obtain tr1 tr2 where t: "turns b tr1" "tr' = tr1 @ tr2" "flow_path ns tr2 r \<or> (r \<and> flow_path b tr2 True)" by blast
    have "turns b (tr @ tr1)" by (rule one_turn [OF path_turn(1) t(1)])
    then show ?case using t(2,3) by (intro exI [of _ "tr @ tr1"] exI [of _ tr2]) simp
  next
    case (path_turn_returns tr)
    then show ?case using no_turn by fastforce
  qed
qed

lemma path_leaf_iff:
  "flow_path (Leaf_n op d # ns) tr r \<longleftrightarrow>
     (if op = ''return'' then r \<and> tr = [(op, d)] else \<exists>tr'. tr = (op, d) # tr' \<and> flow_path ns tr' r)"
  by (auto elim!: path_leaf_cases intro: flow_path.intros)

lemma path_if_iff:
  "flow_path (If_n d t e # ns) tr r \<longleftrightarrow>
     (r \<and> (flow_path t tr True \<or> flow_path e tr True))
     \<or> (\<exists>tr1 tr2. tr = tr1 @ tr2 \<and> (flow_path t tr1 False \<or> flow_path e tr1 False) \<and> flow_path ns tr2 r)"
  by (auto elim!: path_if_cases intro: flow_path.intros)

lemma path_region_iff:
  "flow_path (Region_n d b # ns) tr r \<longleftrightarrow>
     (r \<and> flow_path b tr True) \<or> (\<exists>tr1 tr2. tr = tr1 @ tr2 \<and> flow_path b tr1 False \<and> flow_path ns tr2 r)"
  by (auto elim!: path_region_cases intro: flow_path.intros)

lemmas path_iffs = path_leaf_iff path_if_iff path_while_iff path_region_iff

section \<open>Splicing regions keeps the paths\<close>

lemma path_append:
  "flow_path (xs @ ys) tr r \<longleftrightarrow>
     (r \<and> flow_path xs tr True) \<or> (\<exists>tr1 tr2. tr = tr1 @ tr2 \<and> flow_path xs tr1 False \<and> flow_path ys tr2 r)"
proof (induction xs arbitrary: tr r)
  case (Cons n xs)
  show ?case
  proof (cases n)
    case (Leaf_n op d)
    show ?thesis unfolding Leaf_n append_Cons path_leaf_iff Cons by (auto; metis append_Cons)
  next
    case (If_n d t e)
    show ?thesis unfolding If_n append_Cons path_if_iff Cons by (auto; metis append_assoc)
  next
    case (While_n d b)
    show ?thesis unfolding While_n append_Cons path_while_iff Cons by (auto; metis append_assoc)
  next
    case (Region_n d b)
    show ?thesis unfolding Region_n append_Cons path_region_iff Cons by (auto; metis append_assoc)
  qed
qed simp

lemma turns_cong: "(\<And>tr. flow_path b tr False = flow_path b' tr False) \<Longrightarrow> turns b tr = turns b' tr"
proof -
  have one: "turns b tr \<Longrightarrow> (\<And>tr. flow_path b tr False \<Longrightarrow> flow_path b' tr False) \<Longrightarrow> turns b' tr" for b b' tr
    by (induction rule: turns.induct) (auto intro: turns.intros)
  show "(\<And>tr. flow_path b tr False = flow_path b' tr False) \<Longrightarrow> turns b tr = turns b' tr"
    using one [of b tr b'] one [of b' tr b] by blast
qed

lemma inline_regions_paths: "flow_path (inline_regions ns) tr r \<longleftrightarrow> flow_path ns tr r"
proof (induction ns arbitrary: tr r rule: inline_regions.induct)
  case (2 n ns)
  show ?case
  proof (cases n)
    case (Leaf_n op d)
    then show ?thesis using 2 by (simp add: path_leaf_iff)
  next
    case (If_n d t e)
    then show ?thesis using 2 by (simp add: path_if_iff)
  next
    case (While_n d b)
    have "turns (inline_regions b) = turns b" by (intro ext turns_cong) (use 2 While_n in simp)
    then show ?thesis using 2 While_n by (simp add: path_while_iff)
  next
    case (Region_n d b)
    then show ?thesis using 2 by (simp add: path_append path_region_iff)
  qed
qed simp

lemma has_region_append [simp]: "has_region (xs @ ys) \<longleftrightarrow> has_region xs \<or> has_region ys"
  by (induction xs) auto

lemma inline_regions_free: "\<not> has_region (inline_regions ns)"
  by (induction ns rule: inline_regions.induct) (auto split: Node.split)

section \<open>The release walk is exact\<close>

definition releases :: "string \<Rightarrow> Event list \<Rightarrow> bool" where
  "releases p tr \<longleftrightarrow> list_ex (\<lambda>(op, d). op = ''release'' \<and> var_is p d) tr"

lemma releases_simps [simp]:
  "\<not> releases p []" "releases p ((op, d) # tr) \<longleftrightarrow> op = ''release'' \<and> var_is p d \<or> releases p tr"
  "releases p (tr @ tr') \<longleftrightarrow> releases p tr \<or> releases p tr'"
  by (simp_all add: releases_def)

text \<open>Some path reaches the bottom with the given release state; some path returns without a release.\<close>

definition ends_with :: "string \<Rightarrow> Node list \<Rightarrow> bool \<Rightarrow> bool" where
  "ends_with p ns x \<longleftrightarrow> (\<exists>tr. flow_path ns tr False \<and> releases p tr = x)"

definition exits_unreleased :: "string \<Rightarrow> Node list \<Rightarrow> bool" where
  "exits_unreleased p ns \<longleftrightarrow> (\<exists>tr. flow_path ns tr True \<and> \<not> releases p tr)"

lemma ends_nil [simp]: "ends_with p [] x \<longleftrightarrow> \<not> x" "\<not> exits_unreleased p []"
  by (auto simp: ends_with_def exits_unreleased_def)

lemma ends_leaf:
  "ends_with p (Leaf_n op d # ns) x \<longleftrightarrow> op \<noteq> ''return'' \<and>
     (if op = ''release'' \<and> var_is p d then x \<and> (\<exists>y. ends_with p ns y) else ends_with p ns x)"
  "exits_unreleased p (Leaf_n op d # ns) \<longleftrightarrow>
     (if op = ''return'' then True else \<not> (op = ''release'' \<and> var_is p d) \<and> exits_unreleased p ns)"
  by (auto simp: ends_with_def exits_unreleased_def path_leaf_iff)

lemma ends_if:
  "ends_with p (If_n d t e # ns) x \<longleftrightarrow>
     (\<exists>y z. (ends_with p t y \<or> ends_with p e y) \<and> ends_with p ns z \<and> x = (y \<or> z))"
  "exits_unreleased p (If_n d t e # ns) \<longleftrightarrow> exits_unreleased p t \<or> exits_unreleased p e
     \<or> ((ends_with p t False \<or> ends_with p e False) \<and> exits_unreleased p ns)"
  by (auto simp: ends_with_def exits_unreleased_def path_if_iff) (metis releases_simps(3))+

lemma turns_release:
  "(\<exists>tr. turns b tr \<and> releases p tr = x) \<longleftrightarrow> \<not> x \<or> ends_with p b True"
proof -
  have "turns b tr \<Longrightarrow> releases p tr \<Longrightarrow> ends_with p b True" for tr
    by (induction rule: turns.induct) (auto simp: ends_with_def)
  moreover have "ends_with p b True \<Longrightarrow> \<exists>tr. turns b tr \<and> releases p tr"
    unfolding ends_with_def using one_turn [OF _ no_turn] by fastforce
  moreover have "turns b [] \<and> \<not> releases p []" by (simp add: no_turn)
  ultimately show ?thesis by (cases x) (auto intro: exI [of _ "[]"])
qed

lemma ends_while:
  "ends_with p (While_n d b # ns) x \<longleftrightarrow>
     (\<exists>y z. (\<not> y \<or> ends_with p b True) \<and> ends_with p ns z \<and> x = (y \<or> z))"
  "exits_unreleased p (While_n d b # ns) \<longleftrightarrow> exits_unreleased p b \<or> exits_unreleased p ns"
proof -
  show "ends_with p (While_n d b # ns) x \<longleftrightarrow>
     (\<exists>y z. (\<not> y \<or> ends_with p b True) \<and> ends_with p ns z \<and> x = (y \<or> z))"
    unfolding turns_release [symmetric] by (auto simp: ends_with_def path_while_iff) (metis releases_simps(3))+
  show "exits_unreleased p (While_n d b # ns) \<longleftrightarrow> exits_unreleased p b \<or> exits_unreleased p ns"
    using no_turn [of b] by (auto simp: exits_unreleased_def path_while_iff) (metis append_Nil)+
qed

lemma walk_release_exact:
  "walk_release p ns rel ok = (rel', falls, ok') \<Longrightarrow> rel \<le> 2 \<Longrightarrow> \<not> has_region ns \<Longrightarrow>
     rel' \<le> 2 \<and> (falls \<longleftrightarrow> ends_with p ns False \<or> ends_with p ns True)
     \<and> (falls \<longrightarrow> (rel' \<noteq> 2 \<longleftrightarrow> rel \<noteq> 2 \<and> ends_with p ns False) \<and> (rel' \<noteq> 0 \<longleftrightarrow> rel \<noteq> 0 \<or> ends_with p ns True))
     \<and> (ok' \<longleftrightarrow> ok \<and> \<not> (rel \<noteq> 2 \<and> exits_unreleased p ns))"
proof (induction ns arbitrary: rel ok rel' falls ok' rule: has_region.induct)
  case 1
  then show ?case by auto
next
  case (2 n ns)
  note rest = 2(4) and walk = 2(5) and rel = 2(6)
  have free: "\<not> has_region ns" using 2(7) by simp
  show ?case
  proof (cases n)
    case (Leaf_n op d)
    consider "op = ''release'' \<and> var_is p d" "op \<noteq> ''return''" | "op = ''return''" | "\<not> (op = ''release'' \<and> var_is p d)" "op \<noteq> ''return''"
      by auto
    then show ?thesis
    proof cases
      case 1
      then have "walk_release p ns 2 ok = (rel', falls, ok')" using walk Leaf_n by simp
      from rest [OF this _ free] show ?thesis
        using 1 rel by (auto simp: Leaf_n ends_leaf ex_bool_eq)
    next
      case 2
      then show ?thesis using walk rel Leaf_n by (auto simp: ends_leaf)
    next
      case 3
      then have "walk_release p ns rel ok = (rel', falls, ok')" using walk Leaf_n by (auto split: if_splits)
      from rest [OF this rel free] show ?thesis using 3 by (auto simp: Leaf_n ends_leaf)
    qed
  next
    case (If_n d t e)
    obtain rt lt okt re le oke where t: "walk_release p t rel True = (rt, lt, okt)" and e: "walk_release p e rel True = (re, le, oke)"
      by (metis prod_cases3)
    have free_t: "\<not> has_region t" "\<not> has_region e" using 2(7) If_n by simp_all
    note ih_t = 2(1) [OF If_n t rel free_t(1)] and ih_e = 2(2) [OF If_n e rel free_t(2)]
    show ?thesis
    proof (cases "lt \<or> le")
      case True
      define mid where "mid = (if lt \<and> le then (if rt = re then rt else 1) else if lt then rt else re)"
      have m: "mid \<le> 2" "mid \<noteq> 2 \<longleftrightarrow> rel \<noteq> 2 \<and> (ends_with p t False \<or> ends_with p e False)"
        "mid \<noteq> 0 \<longleftrightarrow> rel \<noteq> 0 \<or> ends_with p t True \<or> ends_with p e True"
        using True ih_t ih_e by (auto simp: mid_def)
      have "walk_release p ns mid (ok \<and> okt \<and> oke) = (rel', falls, ok')"
        using walk If_n t e True by (auto simp: mid_def split: if_splits)
      from rest [OF this m(1) free] m(2,3) True ih_t ih_e show ?thesis
        unfolding If_n ends_if ex_bool_eq
        by (cases "ends_with p t False"; cases "ends_with p t True"; cases "ends_with p e False"; cases "ends_with p e True"; simp; blast)
    next
      case False
      then have "(rel', falls, ok') = (rel, False, ok \<and> okt \<and> oke)" using walk If_n t e by simp
      then show ?thesis using False ih_t ih_e rel unfolding If_n ends_if ex_bool_eq by auto
    qed
  next
    case (While_n d b)
    obtain rb lb okb where b: "walk_release p b rel True = (rb, lb, okb)" by (metis prod_cases3)
    have free_b: "\<not> has_region b" using 2(7) While_n by simp
    note ih_b = 2(3) [OF While_n b rel free_b]
    have w: "walk_release p ns (if lb \<and> rb \<noteq> rel then 1 else rel) (ok \<and> okb) = (rel', falls, ok')"
      using walk While_n b by simp
    have bound: "(if lb \<and> rb \<noteq> rel then 1 else rel) \<le> 2" using rel by simp
    define mid where "mid = (if lb \<and> rb \<noteq> rel then 1 else rel)"
    have m: "mid \<noteq> 2 \<longleftrightarrow> rel \<noteq> 2" "mid \<noteq> 0 \<longleftrightarrow> rel \<noteq> 0 \<or> ends_with p b True"
      using ih_b rel by (auto simp: mid_def)
    show ?thesis using rest [OF w bound free] ih_b m unfolding mid_def [symmetric] While_n ends_while ex_bool_eq
      by (cases "ends_with p b False"; cases "ends_with p b True"; simp; blast)
  next
    case (Region_n d b)
    then show ?thesis using 2(7) by simp
  qed
qed

lemma definite_release_exact:
  "\<not> has_region ns \<Longrightarrow> definite_release p ns \<longleftrightarrow> (\<forall>tr r. flow_path ns tr r \<longrightarrow> releases p tr)"
proof -
  assume free: "\<not> has_region ns"
  obtain rel falls ok where w: "walk_release p ns 0 True = (rel, falls, ok)" by (metis prod_cases3)
  have "definite_release p ns \<longleftrightarrow> \<not> exits_unreleased p ns \<and> \<not> ends_with p ns False"
    using walk_release_exact [OF w _ free] w by (auto simp: definite_release_def)
  also have "\<dots> \<longleftrightarrow> (\<forall>tr r. flow_path ns tr r \<longrightarrow> releases p tr)"
    by (auto simp: exits_unreleased_def ends_with_def) (metis (full_types))
  finally show ?thesis .
qed

theorem definite_release_inlined:
  "definite_release p (inline_regions ns) \<longleftrightarrow> (\<forall>tr r. flow_path ns tr r \<longrightarrow> releases p tr)"
  using definite_release_exact [OF inline_regions_free, of p ns] by (simp add: inline_regions_paths)

end
