(* ===== verification/Own_Contracts.thy ===== *)
theory Own_Contracts
  imports Own_Flow_Paths Own_Solve
begin

text \<open>
  The skeletons the bridge infers are refined by the flow bodies they come from: whatever an execution
  of a function does with a parameter, through any depth of calls, the skeleton of the function has an
  execution that does it too. With the soundness of the solver this makes a \<open>must\<close> transfer true of
  every path of every body.
\<close>

section \<open>What executions do with a parameter\<close>

definition implements :: "FlowFn list \<Rightarrow> string \<Rightarrow> FlowFn \<Rightarrow> bool" where
  "implements fns key f \<longleftrightarrow> f \<in> set fns \<and> ff_name f \<noteq> [] \<and>
     (key = ff_name f \<or> (\<exists>sg. ff_sig f = Some sg \<and> has_overloads fns (ff_name f) \<and> key = sig_key (ff_name f) sg))"

definition declares :: "FlowFn list \<Rightarrow> string \<Rightarrow> nat \<Rightarrow> bool" where
  "declares fns key j \<longleftrightarrow> (\<exists>f d. implements fns key f \<and> j < length (ff_params f) \<and> ff_params f ! j = Some d)"

text \<open>
  \<open>gives_up fns (key, j) b\<close>: some execution of a function that a call to \<open>key\<close> may reach gives its
  parameter \<open>j\<close> up (\<open>b\<close>) or keeps it. An explicit effect states it; otherwise a path of the body does: it
  releases the parameter, or hands it to a call that gives it up. Code outside the document may do
  either.
\<close>

inductive gives_up :: "FlowFn list \<Rightarrow> string \<times> nat \<Rightarrow> bool \<Rightarrow> bool"
  and hands :: "FlowFn list \<Rightarrow> string \<Rightarrow> Event list \<Rightarrow> bool \<Rightarrow> bool"
  and outcome :: "FlowFn list \<Rightarrow> Target \<Rightarrow> bool \<Rightarrow> bool" for fns where
  gives_stated: "implements fns key f \<Longrightarrow> j < length (ff_params f) \<Longrightarrow> ff_params f ! j = Some d
    \<Longrightarrow> as_str (jget d ''effect'') = Some eff \<Longrightarrow> gives_up fns (key, j) (eff = ''consume'')"
| gives_path: "implements fns key f \<Longrightarrow> j < length (ff_params f) \<Longrightarrow> ff_params f ! j = Some d
    \<Longrightarrow> as_str (jget d ''effect'') = None \<Longrightarrow> flow_path (ff_body f) tr r \<Longrightarrow> hands fns (param_name d) tr b
    \<Longrightarrow> gives_up fns (key, j) b"
| hands_end: "hands fns p [] False"
| hands_event: "hands fns p tr b \<Longrightarrow> (\<And>t. t \<in> set (leaf_targets p op d) \<Longrightarrow> outcome fns t (x t))
    \<Longrightarrow> hands fns p ((op, d) # tr) ((op = ''release'' \<and> var_is p d) \<or> (\<exists>t\<in>set (leaf_targets p op d). x t) \<or> b)"
| out_consume: "outcome fns (''$consume'', sg, j) True"
| out_borrow: "outcome fns (''$borrow'', sg, j) False"
| out_known: "callee \<noteq> ''$consume'' \<Longrightarrow> callee \<noteq> ''$borrow'' \<Longrightarrow> declares fns (call_key fns callee sg) j
    \<Longrightarrow> gives_up fns (call_key fns callee sg, j) b \<Longrightarrow> outcome fns (callee, sg, j) b"
| out_other: "callee \<noteq> ''$consume'' \<Longrightarrow> callee \<noteq> ''$borrow'' \<Longrightarrow> \<not> declares fns (call_key fns callee sg) j
    \<Longrightarrow> outcome fns (callee, sg, j) b"

text \<open>Calls as the extractor writes them: a callee and an array of arguments.\<close>

definition call_formed :: "(string, Json) dict \<Rightarrow> bool" where
  "call_formed d \<longleftrightarrow> callee_of d \<noteq> [] \<and> (\<exists>js. jget d ''args'' = JList js)"

fun calls_formed :: "Node list \<Rightarrow> bool" where
  "calls_formed [] = True"
| "calls_formed (n # ns) = ((case n of
       Leaf_n op d \<Rightarrow> op = ''call'' \<longrightarrow> call_formed d
     | If_n d t e \<Rightarrow> calls_formed t \<and> calls_formed e
     | While_n d b \<Rightarrow> calls_formed b
     | Region_n d b \<Rightarrow> calls_formed b) \<and> calls_formed ns)"

section \<open>What the scans see of a path\<close>

definition trace_targets :: "string \<Rightarrow> Event list \<Rightarrow> Target list" where
  "trace_targets p tr = concat (map (\<lambda>(op, d). leaf_targets p op d) tr)"

lemma trace_targets_simps [simp]:
  "trace_targets p [] = []" "trace_targets p ((op, d) # tr) = leaf_targets p op d @ trace_targets p tr"
  "trace_targets p (tr @ tr') = trace_targets p tr @ trace_targets p tr'"
  by (simp_all add: trace_targets_def)

lemma leaf_targets_iff: "leaf_targets p op d \<noteq> [] \<longleftrightarrow> op = ''call'' \<and> callee_of d \<noteq> [] \<and> p \<in> set (map py_str (args_of d))"
proof -
  have "p \<in> set (map py_str (args_of d)) \<longleftrightarrow> (\<exists>j<length (args_of d). py_str (args_of d ! j) = p)"
    unfolding in_set_conv_nth by (metis length_map nth_map)
  then show ?thesis by (auto simp: leaf_targets_def filter_empty_conv)
qed

lemma leaf_targets_passed: "leaf_targets p op d \<noteq> [] \<Longrightarrow> op = ''call'' \<and> hands_over p d"
  unfolding leaf_targets_iff by (auto simp: hands_over_def list_ex_iff)

lemma path_targets: "flow_path ns tr r \<Longrightarrow> \<not> has_region ns \<Longrightarrow> set (trace_targets p tr) \<subseteq> set (forward_targets p ns True)"
proof (induction rule: flow_path.induct)
  case (path_return d ns)
  then show ?case by (simp add: leaf_targets_def)
qed auto

lemma targets_passed: "forward_targets p ns deep \<noteq> [] \<Longrightarrow> fst (snd (param_signals p ns))"
proof (induction ns arbitrary: deep rule: has_region.induct)
  case (2 n ns)
  show ?case
  proof (cases n)
    case (Leaf_n op d)
    then show ?thesis using 2(4,5) leaf_targets_passed [of p op d] by (auto simp: or3_def leaf_signals_def)
  next
    case (If_n d t e)
    then show ?thesis using 2(1) [OF If_n, of True] 2(2) [OF If_n, of True] 2(4) [of deep] 2(5) by (auto simp: or3_def split: if_splits)
  next
    case (While_n d b)
    then show ?thesis using 2(3) [OF While_n, of True] 2(4) [of deep] 2(5) by (auto simp: or3_def split: if_splits)
  next
    case (Region_n d b)
    then show ?thesis using 2(4,5) by (auto simp: or3_def)
  qed
qed simp

lemma path_release_signals: "flow_path ns tr r \<Longrightarrow> \<not> has_region ns \<Longrightarrow> releases p tr \<Longrightarrow> fst (param_signals p ns)"
  by (induction rule: flow_path.induct) (auto simp: or3_def leaf_signals_def)

lemma no_return_path: "\<not> has_region ns \<Longrightarrow> \<not> contains_return ns \<Longrightarrow> \<not> flow_path ns tr True"
proof -
  have "flow_path ns tr r \<Longrightarrow> \<not> has_region ns \<Longrightarrow> \<not> contains_return ns \<Longrightarrow> \<not> r" for r
    by (induction rule: flow_path.induct) auto
  then show "\<not> has_region ns \<Longrightarrow> \<not> contains_return ns \<Longrightarrow> \<not> flow_path ns tr True" by blast
qed

lemma call_formed_iterate: "call_formed d \<Longrightarrow> iterate_args d = Some (map py_str (args_of d))"
  by (auto simp: call_formed_def iterate_args_def args_of_def jget_def dict_get_or_def split: option.splits)

lemma call_formed_targets: "call_formed d \<Longrightarrow> p \<in> set (map py_str (args_of d)) \<Longrightarrow> leaf_targets p ''call'' d \<noteq> []"
  unfolding leaf_targets_iff by (simp add: call_formed_def)

text \<open>A top-level hand-over that no return precedes is on every path.\<close>

lemma unconditional:
  "early_return p ns = Some False \<Longrightarrow> forward_targets p ns False \<noteq> [] \<Longrightarrow> calls_formed ns \<Longrightarrow> \<not> has_region ns
    \<Longrightarrow> flow_path ns tr r \<Longrightarrow> trace_targets p tr \<noteq> []"
proof (induction ns arbitrary: tr r)
  case (Cons n ns)
  show ?case
  proof (cases n)
    case (Leaf_n op d)
    show ?thesis
    proof (cases "op = ''call''")
      case True
      then have f: "call_formed d" using Cons(4) Leaf_n by simp
      obtain tr' where tr: "tr = (op, d) # tr'" "flow_path ns tr' r" using Cons(6) Leaf_n True by (auto simp: path_leaf_iff)
      show ?thesis
      proof (cases "p \<in> set (map py_str (args_of d))")
        case p: True
        then show ?thesis using call_formed_targets [OF f p] tr True by simp
      next
        case False
        then have "leaf_targets p op d = []" using leaf_targets_iff [of p op d] by blast
        then show ?thesis using Cons(1) [OF _ _ _ _ tr(2)] Cons(2-5) Leaf_n True False tr(1) call_formed_iterate [OF f] by simp
      qed
    next
      case False
      then have "op \<noteq> ''return''" using Cons(2) Leaf_n by auto
      then obtain tr' where "tr = (op, d) # tr'" "flow_path ns tr' r" using Cons(6) Leaf_n by (auto simp: path_leaf_iff)
      moreover have "leaf_targets p op d = []" using False by (simp add: leaf_targets_def)
      ultimately show ?thesis using Cons(1) [of tr' r] Cons(2-5) Leaf_n False \<open>op \<noteq> ''return''\<close> by simp
    qed
  next
    case (If_n d t e)
    have c: "\<not> contains_return [n]" "early_return p ns = Some False" using Cons(2) If_n by (auto split: if_splits)
    have "\<not> has_region t" "\<not> has_region e" using Cons(5) If_n by simp_all
    then obtain tr1 tr2 where tr: "tr = tr1 @ tr2" "flow_path ns tr2 r"
      using Cons(6) c(1) no_return_path [of t] no_return_path [of e] unfolding If_n path_if_iff by auto
    then show ?thesis using Cons(1) [OF c(2) _ _ _ tr(2)] Cons(3-5) If_n by simp
  next
    case (While_n d b)
    have c: "\<not> contains_return [n]" "early_return p ns = Some False" using Cons(2) While_n by (auto split: if_splits)
    have "\<not> has_region b" using Cons(5) While_n by simp
    then obtain tr1 tr2 where tr: "tr = tr1 @ tr2" "flow_path ns tr2 r"
      using Cons(6) c(1) no_return_path [of b] unfolding While_n path_while_iff by auto
    then show ?thesis using Cons(1) [OF c(2) _ _ _ tr(2)] Cons(3-5) While_n by simp
  next
    case (Region_n d b)
    then show ?thesis using Cons(5) by simp
  qed
qed simp

section \<open>The paths of a parameter\<close>

text \<open>What one path action can do, given what the skeletons of its target do.\<close>

definition acts :: "Skeletons \<Rightarrow> PathAction \<Rightarrow> bool \<Rightarrow> bool" where
  "acts sk a b \<longleftrightarrow> (pa_kind a = ''dispose'' \<and> b) \<or> (pa_kind a = ''borrow'' \<and> \<not> b)
     \<or> (pa_kind a = ''forward'' \<and> (case dict_get sk (pa_callee a) of
          None \<Rightarrow> True
        | Some skel \<Rightarrow> (case param_at skel (pa_arg a) of
            None \<Rightarrow> True
          | Some p \<Rightarrow> if pk_disposable p then executes sk (pa_callee a, pa_arg a) b else \<not> b)))"

lemma acts_executes:
  assumes "a \<in> set (paths_at sk m)" "acts sk a b"
  shows "executes sk m b"
proof -
  consider "pa_kind a = ''dispose''" "b" | "pa_kind a = ''borrow''" "\<not> b"
    | "pa_kind a = ''forward''" "case dict_get sk (pa_callee a) of None \<Rightarrow> True | Some skel \<Rightarrow> param_at skel (pa_arg a) = None"
    | skel p where "pa_kind a = ''forward''" "dict_get sk (pa_callee a) = Some skel" "param_at skel (pa_arg a) = Some p"
        "pk_disposable p" "executes sk (pa_callee a, pa_arg a) b"
    | skel p where "pa_kind a = ''forward''" "dict_get sk (pa_callee a) = Some skel" "param_at skel (pa_arg a) = Some p"
        "\<not> pk_disposable p" "\<not> b"
    using assms(2) unfolding acts_def by (auto split: option.splits if_splits)
  then show ?thesis
  proof cases
    case 1
    then show ?thesis using given_up [OF assms(1)] by simp
  next
    case 2
    then show ?thesis using borrowed [OF assms(1)] by simp
  next
    case 3
    then show ?thesis using outside [OF assms(1)] by blast
  next
    case 4
    then show ?thesis by (intro forwarded [OF assms(1)])
  next
    case 5
    then show ?thesis using plain [OF assms(1)] by simp
  qed
qed

text \<open>An execution of a body agrees with what the targets of its trace can do.\<close>

definition accounted :: "Skeletons \<Rightarrow> (Target \<Rightarrow> PathAction) \<Rightarrow> string \<Rightarrow> Event list \<Rightarrow> bool \<Rightarrow> bool" where
  "accounted sk fpa p tr b \<longleftrightarrow>
     (if b then releases p tr \<or> (\<exists>t\<in>set (trace_targets p tr). acts sk (fpa t) True)
      else \<not> releases p tr \<and> (\<forall>t\<in>set (trace_targets p tr). acts sk (fpa t) False))"

lemma acts_plain [simp]: "acts sk (plain_action ''dispose'') b = b" "acts sk (plain_action ''borrow'') b = (\<not> b)"
  by (auto simp: acts_def plain_action_def)

lemma forwarded_paths_cover:
  assumes ps: "forwarded_paths ck p body = Some ps" and body: "\<not> has_region body" "calls_formed body"
    and tr: "flow_path body tr r" and acc: "accounted sk (forward_path_action ck) p tr b" and rel: "\<not> releases p tr"
  shows "\<exists>a\<in>set ps. acts sk a b"
proof (cases b)
  case True
  then obtain t where t: "t \<in> set (trace_targets p tr)" "acts sk (forward_path_action ck t) True"
    using acc rel by (auto simp: accounted_def)
  then have "t \<in> set (forward_targets p body True)" using path_targets [OF tr body(1)] by blast
  then have "forward_path_action ck t \<in> set ps" using ps by (auto simp: forwarded_paths_def Let_def split: if_splits)
  then show ?thesis using t(2) True by (intro bexI [of _ "forward_path_action ck t"]) simp_all
next
  case False
  then have no: "acts sk (forward_path_action ck t) False" if "t \<in> set (trace_targets p tr)" for t
    using acc that by (simp add: accounted_def)
  show ?thesis
  proof (cases "plain_action ''borrow'' \<in> set ps")
    case True
    then show ?thesis using False by (intro bexI [of _ "plain_action ''borrow''"]) simp_all
  next
    case nb: False
    then have e: "early_return p body = Some False" "forward_targets p body False \<noteq> []"
      and ps': "ps = map (forward_path_action ck) (forward_targets p body True)"
      using ps by (auto simp: forwarded_paths_def Let_def split: if_splits)
    define t where "t = hd (trace_targets p tr)"
    have t: "t \<in> set (trace_targets p tr)" using unconditional [OF e body(2,1) tr] by (simp add: t_def)
    then have "forward_path_action ck t \<in> set ps" using path_targets [OF tr body(1)] ps' by auto
    then show ?thesis using no [OF t] False by auto
  qed
qed

lemma inferred_paths_cover:
  assumes ps: "inferred_paths ck p body = Some ps" and body: "\<not> has_region body" "calls_formed body"
    and tr: "flow_path body tr r" and acc: "accounted sk (forward_path_action ck) p tr b"
  shows "(\<exists>a\<in>set ps. acts sk a b) \<or> (ps = [] \<and> \<not> b)"
proof -
  obtain rel passed used where s: "param_signals p body = (rel, passed, used)" by (metis prod_cases3)
  consider "rel" | "\<not> rel" "passed" | "\<not> rel" "\<not> passed" by blast
  then show ?thesis
  proof cases
    case 1
    show ?thesis
    proof (cases "definite_release p body")
      case True
      then have "releases p tr" using definite_release_exact [OF body(1)] tr by blast
      then show ?thesis using acc ps s 1 True by (auto simp: accounted_def inferred_paths_def split: if_splits)
    next
      case False
      then show ?thesis using ps s 1 by (cases b) (auto simp: inferred_paths_def)
    qed
  next
    case 2
    then have "\<not> releases p tr" using path_release_signals [OF tr body(1), of p] s by auto
    moreover have "forwarded_paths ck p body = Some ps" using ps s 2 by (simp add: inferred_paths_def)
    ultimately show ?thesis using forwarded_paths_cover [OF _ body tr acc] by blast
  next
    case 3
    then have "\<not> releases p tr" using path_release_signals [OF tr body(1), of p] s by auto
    moreover have "forward_targets p body True = []" using targets_passed [of p body True] s 3(2) by auto
    then have "trace_targets p tr = []" using path_targets [OF tr body(1), of p] by simp
    ultimately have "\<not> b" using acc by (auto simp: accounted_def)
    moreover have "ps = (if used then [plain_action ''borrow''] else [])" using ps s 3 by (simp add: inferred_paths_def)
    ultimately show ?thesis by (cases used) simp_all
  qed
qed

section \<open>The skeletons of a document\<close>

lemma param_skeletons_nth:
  "param_skeletons ck body i ds = Some ps \<Longrightarrow> j < length ds \<Longrightarrow> ds ! j = Some d \<Longrightarrow>
     \<exists>q\<in>set ps. pk_index q = int (i + j) \<and> pk_disposable q \<and> param_paths ck body d = Some (pk_paths q)"
proof (induction ds arbitrary: i j ps)
  case (Cons x ds)
  show ?case
  proof (cases j)
    case 0
    then show ?thesis using Cons(2-4) by (auto split: option.splits)
  next
    case (Suc j')
    then have "\<exists>ps'. param_skeletons ck body (Suc i) ds = Some ps' \<and> set ps' \<subseteq> set ps"
      using Cons(2) by (cases x) (auto split: option.splits)
    then show ?thesis using Cons(1) [of "Suc i" _ j'] Cons(3,4) Suc by fastforce
  qed
qed simp

lemma param_skeletons_index:
  "param_skeletons ck body i ds = Some ps \<Longrightarrow> q \<in> set ps \<Longrightarrow> \<exists>j d. pk_index q = int (i + j) \<and> j < length ds \<and> ds ! j = Some d"
proof (induction ds arbitrary: i ps)
  case (Cons x ds)
  show ?case
  proof (cases x)
    case None
    then obtain j d where "pk_index q = int (Suc i + j)" "j < length ds" "ds ! j = Some d" using Cons by fastforce
    then show ?thesis by (intro exI [of _ "Suc j"] exI [of _ d]) simp
  next
    case (Some d)
    then obtain paths ps' where p: "param_skeletons ck body (Suc i) ds = Some ps'"
      "ps = \<lparr>pk_index = int i, pk_name = param_name d, pk_disposable = True, pk_paths = paths, pk_escapes = False\<rparr> # ps'"
      using Cons(2) by (auto split: option.splits)
    show ?thesis
    proof (cases "q \<in> set ps'")
      case True
      with Cons(1) [OF p(1)] obtain j d where "pk_index q = int (Suc i + j)" "j < length ds" "ds ! j = Some d" by blast
      then show ?thesis by (intro exI [of _ "Suc j"] exI [of _ d]) simp
    next
      case False
      then have "pk_index q = int i" using Cons(3) p(2) by auto
      then show ?thesis using Some by (intro exI [of _ 0] exI [of _ d]) simp
    qed
  qed
qed simp

lemma param_skeletons_distinct: "param_skeletons ck body i ds = Some ps \<Longrightarrow> distinct (map pk_index ps)"
proof (induction ds arbitrary: i ps)
  case (Cons x ds)
  show ?case
  proof (cases x)
    case None
    then show ?thesis using Cons by simp
  next
    case (Some d)
    then obtain paths ps' where p: "param_skeletons ck body (Suc i) ds = Some ps'"
      "ps = \<lparr>pk_index = int i, pk_name = param_name d, pk_disposable = True, pk_paths = paths, pk_escapes = False\<rparr> # ps'"
      using Cons(2) by (auto split: option.splits)
    have "int i \<notin> pk_index ` set ps'" using param_skeletons_index [OF p(1)] by fastforce
    then show ?thesis using Cons(1) [OF p(1)] p(2) by simp
  qed
qed simp

lemma find_index: "distinct (map pk_index ps) \<Longrightarrow> q \<in> set ps \<Longrightarrow> find (\<lambda>q'. pk_index q' = pk_index q) ps = Some q"
  by (induction ps) auto

text \<open>The groups: every function under its name, and under its signature key when its name is overloaded.\<close>

definition keys_of :: "FlowFn list \<Rightarrow> FlowFn \<Rightarrow> string list" where
  "keys_of fns f = (case ff_sig f of
     Some sg \<Rightarrow> if has_overloads fns (ff_name f) then [sig_key (ff_name f) sg] else []
   | None \<Rightarrow> [])"

lemma append_at_get: "dict_get_or (append_at d k x) j [] = (if j = k then dict_get_or d k [] @ [x] else dict_get_or d j [])"
  by (simp add: append_at_def dict_get_or_def)

lemma append_at_keys: "dict_get (append_at d k x) j = None \<longleftrightarrow> j \<noteq> k \<and> dict_get d j = None"
  by (simp add: append_at_def)

lemma group_fns_ok:
  "group_fns fns fs bn bs = Some (bn', bs') \<Longrightarrow>
     (\<forall>f\<in>set fs. ff_name f \<noteq> [] \<longrightarrow> skeleton_of fns f \<noteq> None)
     \<and> (\<forall>k. dict_get_or bn' k [] = dict_get_or bn k [] @ map (\<lambda>f. the (skeleton_of fns f)) (filter (\<lambda>f. ff_name f \<noteq> [] \<and> ff_name f = k) fs))
     \<and> (\<forall>k. dict_get_or bs' k [] = dict_get_or bs k [] @ map (\<lambda>f. the (skeleton_of fns f)) (filter (\<lambda>f. ff_name f \<noteq> [] \<and> k \<in> set (keys_of fns f)) fs))
     \<and> (\<forall>k. dict_get bn' k = None \<longleftrightarrow> dict_get bn k = None \<and> (\<forall>f\<in>set fs. ff_name f \<noteq> [] \<longrightarrow> ff_name f \<noteq> k))
     \<and> (\<forall>k. dict_get bs' k = None \<longleftrightarrow> dict_get bs k = None \<and> (\<forall>f\<in>set fs. ff_name f \<noteq> [] \<longrightarrow> k \<notin> set (keys_of fns f)))"
proof (induction fs arbitrary: bn bs)
  case (Cons f fs)
  show ?case
  proof (cases "ff_name f = []")
    case True
    then show ?thesis using Cons by auto
  next
    case False
    then obtain sk where sk: "skeleton_of fns f = Some sk" using Cons(2) by (auto split: option.splits)
    define bs1 where "bs1 = (case ff_sig f of
        Some sg \<Rightarrow> if has_overloads fns (ff_name f) then append_at bs (sig_key (ff_name f) sg) sk else bs | None \<Rightarrow> bs)"
    have b: "dict_get_or bs1 k [] = dict_get_or bs k [] @ (if k \<in> set (keys_of fns f) then [sk] else [])"
      "dict_get bs1 k = None \<longleftrightarrow> dict_get bs k = None \<and> k \<notin> set (keys_of fns f)" for k
      by (auto simp: bs1_def keys_of_def append_at_get append_at_keys split: option.split)
    have "group_fns fns fs (append_at bn (ff_name f) sk) bs1 = Some (bn', bs')" using Cons(2) False sk by (simp add: bs1_def)
    from Cons(1) [OF this] show ?thesis using False sk unfolding append_at_get append_at_keys b by auto
  qed
qed simp

lemma add_params_get:
  "p \<in> set ps \<or> (\<exists>x. dict_get d (pk_index p) = Some x \<and> set (kept_paths p) \<subseteq> set (fst x)) \<Longrightarrow>
     \<exists>x. dict_get (foldl add_param d ps) (pk_index p) = Some x \<and> set (kept_paths p) \<subseteq> set (fst x)"
proof (induction ps arbitrary: d)
  case (Cons q ps)
  have "\<exists>x. dict_get (add_param d q) (pk_index p) = Some x \<and> set (kept_paths p) \<subseteq> set (fst x)" if "p \<notin> set ps"
    using Cons(2) that by (auto simp: add_param_def split: option.splits)
  then show ?case using Cons(1) [of "add_param d q"] by auto
qed simp

lemma add_params_index:
  "dict_get (foldl add_param d ps) i \<noteq> None \<Longrightarrow> dict_get d i \<noteq> None \<or> (\<exists>p\<in>set ps. pk_index p = i)"
proof (induction ps arbitrary: d)
  case (Cons q ps)
  have "dict_get (add_param d q) i \<noteq> None \<Longrightarrow> dict_get d i \<noteq> None \<or> pk_index q = i"
    by (auto simp: add_param_def split: option.splits if_splits)
  then show ?case using Cons by auto
qed simp

lemma find_map: "(\<And>i. i \<in> set is \<Longrightarrow> pk_index (g i) = i) \<Longrightarrow> find (\<lambda>q. pk_index q = i) (map g is) = (if i \<in> set is then Some (g i) else None)"
  by (induction "is") auto

lemma merged_param:
  assumes two: "2 \<le> length ss"
  shows "param_at (merge_skeletons ss) i = map_option (\<lambda>(paths, name).
     \<lparr>pk_index = i, pk_name = name, pk_disposable = True, pk_paths = paths, pk_escapes = False\<rparr>)
       (dict_get (foldl add_param [] (concat (map mk_params ss))) i)"
proof -
  let ?D = "foldl add_param [] (concat (map mk_params ss))"
  have m: "mk_params (merge_skeletons ss) = map (\<lambda>i. case the (dict_get ?D i) of (paths, name) \<Rightarrow>
      \<lparr>pk_index = i, pk_name = name, pk_disposable = True, pk_paths = paths, pk_escapes = False\<rparr>) (sort (dict_keys ?D))"
    using two by (auto simp: merge_skeletons_def Let_def split: list.split)
  have "param_at (merge_skeletons ss) i = (if i \<in> set (sort (dict_keys ?D)) then Some (case the (dict_get ?D i) of (paths, name) \<Rightarrow>
      \<lparr>pk_index = i, pk_name = name, pk_disposable = True, pk_paths = paths, pk_escapes = False\<rparr>) else None)"
    unfolding param_at_def m by (rule find_map) (simp split: prod.split)
  then show ?thesis by (cases "dict_get ?D i") (auto simp: dict_keys_get split: prod.split)
qed

definition well_indexed :: "MethodSkeleton \<Rightarrow> bool" where
  "well_indexed sk \<longleftrightarrow> distinct (map pk_index (mk_params sk)) \<and> (\<forall>q\<in>set (mk_params sk). pk_disposable q)"

lemma merge_skeletons_param:
  assumes "sk \<in> set ss" "well_indexed sk" "q \<in> set (mk_params sk)"
  shows "\<exists>q'. param_at (merge_skeletons ss) (pk_index q) = Some q' \<and> pk_disposable q' \<and> set (pk_paths q) \<subseteq> set (pk_paths q')
    \<and> (pk_paths q = [] \<longrightarrow> pk_paths q' = [] \<or> plain_action ''borrow'' \<in> set (pk_paths q'))"
proof (cases "2 \<le> length ss")
  case True
  have "q \<in> set (concat (map mk_params ss))" using assms(1,3) by auto
  then obtain x where x: "dict_get (foldl add_param [] (concat (map mk_params ss))) (pk_index q) = Some x" "set (kept_paths q) \<subseteq> set (fst x)"
    using add_params_get [of q _ "[]"] by blast
  then show ?thesis unfolding merged_param [OF True] by (cases x) (auto simp: kept_paths_def split: if_splits)
next
  case False
  then have "ss = [sk]" using assms(1) by (cases ss; cases "tl ss") auto
  then have "param_at (merge_skeletons ss) (pk_index q) = Some q"
    using assms(2,3) find_index [of "mk_params sk" q] by (simp add: merge_skeletons_def param_at_def well_indexed_def)
  then show ?thesis using assms(2,3) by (auto simp: well_indexed_def)
qed

lemma merge_skeletons_index:
  assumes "ss \<noteq> []" "param_at (merge_skeletons ss) i \<noteq> None"
  shows "\<exists>sk\<in>set ss. \<exists>q\<in>set (mk_params sk). pk_index q = i"
proof (cases "2 \<le> length ss")
  case True
  then have "dict_get (foldl add_param [] (concat (map mk_params ss))) i \<noteq> None" using assms(2) by (auto simp: merged_param)
  then show ?thesis using add_params_index by fastforce
next
  case False
  then obtain sk where "ss = [sk]" using assms(1) by (cases ss; cases "tl ss") auto
  then show ?thesis using assms(2) by (auto simp: merge_skeletons_def param_at_def find_None_iff)
qed

lemma implements_keys: "implements fns k f \<longleftrightarrow> f \<in> set fns \<and> ff_name f \<noteq> [] \<and> (ff_name f = k \<or> k \<in> set (keys_of fns f))"
  by (cases "ff_sig f") (auto simp: implements_def keys_of_def)

lemma group_fns_distinct:
  "group_fns fns fs bn bs = Some (bn', bs') \<Longrightarrow> distinct (map fst bn) \<Longrightarrow> distinct (map fst bs) \<Longrightarrow>
     distinct (map fst bn') \<and> distinct (map fst bs')"
proof (induction fs arbitrary: bn bs)
  case (Cons f fs)
  have "distinct (map fst d) \<Longrightarrow> distinct (map fst (append_at d k x))" for d :: "(string, MethodSkeleton list) dict" and k x
    by (simp add: append_at_def dict_set_def distinct_update)
  then show ?case using Cons by (auto split: if_splits option.splits)
qed simp

text \<open>The overloads behind a key: the functions of the name, or those of the signature key.\<close>

definition behind :: "FlowFn list \<Rightarrow> (FlowFn \<Rightarrow> bool) \<Rightarrow> MethodSkeleton list" where
  "behind fns P = map (\<lambda>f. the (skeleton_of fns f)) (filter (\<lambda>f. ff_name f \<noteq> [] \<and> P f) fns)"

lemma grouped:
  assumes "group_fns fns fns [] [] = Some (bn, bs)"
  shows "(k, ov) \<in> set bn \<longleftrightarrow> ov = behind fns (\<lambda>f. ff_name f = k) \<and> ov \<noteq> []"
    and "(k, ov) \<in> set bs \<longleftrightarrow> ov = behind fns (\<lambda>f. k \<in> set (keys_of fns f)) \<and> ov \<noteq> []"
    and "f \<in> set fns \<Longrightarrow> ff_name f \<noteq> [] \<Longrightarrow> skeleton_of fns f \<noteq> None"
proof -
  have g: "(k, ov) \<in> set d \<longleftrightarrow> ov = behind fns P \<and> ov \<noteq> []" if d: "distinct (map fst d)"
    and v: "dict_get_or d k [] = behind fns P" and n: "dict_get d k = None \<longleftrightarrow> (\<forall>f\<in>set fns. ff_name f \<noteq> [] \<longrightarrow> \<not> P f)" for d P
  proof -
    have m: "(k, ov) \<in> set d \<longleftrightarrow> dict_get d k = Some ov" using mem_dict_get_distinct [OF d, of "(k, ov)"] by simp
    have "behind fns P = [] \<longleftrightarrow> (\<forall>f\<in>set fns. ff_name f \<noteq> [] \<longrightarrow> \<not> P f)" by (auto simp: behind_def filter_empty_conv)
    then show ?thesis unfolding m using v n by (cases "dict_get d k") (auto simp: dict_get_or_def)
  qed
  note ok = group_fns_ok [OF assms] and dis = group_fns_distinct [OF assms]
  show "(k, ov) \<in> set bn \<longleftrightarrow> ov = behind fns (\<lambda>f. ff_name f = k) \<and> ov \<noteq> []"
    by (rule g) (use ok dis in \<open>simp_all add: behind_def\<close>)
  show "(k, ov) \<in> set bs \<longleftrightarrow> ov = behind fns (\<lambda>f. k \<in> set (keys_of fns f)) \<and> ov \<noteq> []"
    by (rule g) (use ok dis in \<open>simp_all add: behind_def\<close>)
  show "f \<in> set fns \<Longrightarrow> ff_name f \<noteq> [] \<Longrightarrow> skeleton_of fns f \<noteq> None" using ok by blast
qed

lemma merge_key: "ov \<noteq> [] \<Longrightarrow> mk_key (merge_skeletons ov) = mk_key (hd ov)"
  by (simp add: merge_skeletons_def Let_def split: list.split)

lemma behind_key: "skeleton_of fns f \<noteq> None \<Longrightarrow> mk_key (the (skeleton_of fns f)) = ff_name f"
  by (auto simp: skeleton_of_def)

text \<open>The skeleton of a key, up to its key, is the merge of what is behind it.\<close>

lemma keyed_behind:
  assumes b: "build_skeletons fns = Some ss" and d: "distinct (map mk_key ss)"
  shows "dict_get (keyed ss) k = Some sk \<Longrightarrow> \<exists>P. behind fns P \<noteq> [] \<and> mk_params sk = mk_params (merge_skeletons (behind fns P))
      \<and> (P = (\<lambda>f. ff_name f = k) \<or> P = (\<lambda>f. k \<in> set (keys_of fns f)))"
    and "P = (\<lambda>f. ff_name f = k) \<or> P = (\<lambda>f. k \<in> set (keys_of fns f)) \<Longrightarrow> behind fns P \<noteq> [] \<Longrightarrow>
      \<exists>sk. dict_get (keyed ss) k = Some sk \<and> mk_params sk = mk_params (merge_skeletons (behind fns P))"
    and "f \<in> set fns \<Longrightarrow> ff_name f \<noteq> [] \<Longrightarrow> skeleton_of fns f \<noteq> None"
proof -
  obtain bn bs where g: "group_fns fns fns [] [] = Some (bn, bs)"
    and ss: "ss = map (\<lambda>(k, ov). merge_skeletons ov) bn @ map (\<lambda>(k, ov). (merge_skeletons ov)\<lparr>mk_key := k\<rparr>) bs"
    using b by (auto simp: build_skeletons_def)
  have get: "dict_get (keyed ss) k = Some sk \<longleftrightarrow> sk \<in> set ss \<and> mk_key sk = k" for sk
    using mem_dict_get_distinct [of "keyed ss" "(k, sk)"] d by (auto simp: keyed_def comp_def)
  have key: "mk_key (merge_skeletons (behind fns (\<lambda>f. ff_name f = k))) = k" if n: "behind fns (\<lambda>f. ff_name f = k) \<noteq> []" for k
  proof -
    have "hd (behind fns (\<lambda>f. ff_name f = k)) \<in> set (behind fns (\<lambda>f. ff_name f = k))" using n by simp
    then show ?thesis unfolding merge_key [OF n] using grouped(3) [OF g] by (auto simp: behind_def behind_key)
  qed
  show "dict_get (keyed ss) k = Some sk \<Longrightarrow> \<exists>P. behind fns P \<noteq> [] \<and> mk_params sk = mk_params (merge_skeletons (behind fns P))
      \<and> (P = (\<lambda>f. ff_name f = k) \<or> P = (\<lambda>f. k \<in> set (keys_of fns f)))"
  proof -
    assume "dict_get (keyed ss) k = Some sk"
    then have "sk \<in> set ss" "mk_key sk = k" unfolding get by simp_all
    then consider k' ov where "(k', ov) \<in> set bn" "sk = merge_skeletons ov"
      | ov where "(k, ov) \<in> set bs" "mk_params sk = mk_params (merge_skeletons ov)" unfolding ss by force
    then show ?thesis
    proof cases
      case 1
      then have n: "behind fns (\<lambda>f. ff_name f = k') \<noteq> []" "sk = merge_skeletons (behind fns (\<lambda>f. ff_name f = k'))"
        unfolding grouped(1) [OF g] by auto
      then have "k' = k" using key [OF n(1)] \<open>mk_key sk = k\<close> by simp
      then show ?thesis using n by blast
    next
      case 2
      then show ?thesis unfolding grouped(2) [OF g] by blast
    qed
  qed
  show "\<exists>sk. dict_get (keyed ss) k = Some sk \<and> mk_params sk = mk_params (merge_skeletons (behind fns P))"
    if P: "P = (\<lambda>f. ff_name f = k) \<or> P = (\<lambda>f. k \<in> set (keys_of fns f))" and n: "behind fns P \<noteq> []"
  proof (cases "P = (\<lambda>f. ff_name f = k)")
    case True
    then have "(k, behind fns P) \<in> set bn" using n grouped(1) [OF g] by simp
    then have "merge_skeletons (behind fns P) \<in> set ss" unfolding ss by force
    then show ?thesis unfolding get using key n True by blast
  next
    case False
    then have "(k, behind fns P) \<in> set bs" using n P grouped(2) [OF g] by simp
    then have "(merge_skeletons (behind fns P))\<lparr>mk_key := k\<rparr> \<in> set ss" unfolding ss by force
    then show ?thesis unfolding get by force
  qed
  show "f \<in> set fns \<Longrightarrow> ff_name f \<noteq> [] \<Longrightarrow> skeleton_of fns f \<noteq> None" by (rule grouped(3) [OF g])
qed

lemma skeleton_of_params: "skeleton_of fns f = Some sk \<Longrightarrow> param_skeletons (call_key fns) (ff_body f) 0 (ff_params f) = Some (mk_params sk)"
  by (auto simp: skeleton_of_def)

lemma param_skeletons_disposable: "param_skeletons ck body i ds = Some ps \<Longrightarrow> q \<in> set ps \<Longrightarrow> pk_disposable q"
  by (induction ck body i ds arbitrary: ps rule: param_skeletons.induct) (auto split: option.splits)

lemma skeleton_well_indexed:
  assumes "skeleton_of fns f = Some sk"
  shows "well_indexed sk"
  using param_skeletons_distinct [OF skeleton_of_params [OF assms]] param_skeletons_disposable [OF skeleton_of_params [OF assms]]
  by (simp add: well_indexed_def)

text \<open>A declared parameter has a skeleton that keeps the paths of each function behind the key.\<close>

lemma skeleton_paths:
  assumes b: "build_skeletons fns = Some ss" "distinct (map mk_key ss)"
    and f: "implements fns k f" "j < length (ff_params f)" "ff_params f ! j = Some d"
  shows "\<exists>sk q ps. dict_get (keyed ss) k = Some sk \<and> param_at sk (int j) = Some q \<and> pk_disposable q
    \<and> param_paths (call_key fns) (ff_body f) d = Some ps \<and> set ps \<subseteq> set (pk_paths q)
    \<and> (ps = [] \<longrightarrow> pk_paths q = [] \<or> plain_action ''borrow'' \<in> set (pk_paths q))"
proof -
  have fs: "f \<in> set fns" "ff_name f \<noteq> []" and "ff_name f = k \<or> k \<in> set (keys_of fns f)" using f(1) unfolding implements_keys by simp_all
  then obtain P where P: "P = (\<lambda>f. ff_name f = k) \<or> P = (\<lambda>f. k \<in> set (keys_of fns f))" "P f" by fastforce
  obtain s where s: "skeleton_of fns f = Some s" using keyed_behind(3) [OF b fs] by blast
  then have mem: "s \<in> set (behind fns P)" using P(2) fs by (force simp: behind_def)
  then have "behind fns P \<noteq> []" by auto
  from keyed_behind(2) [OF b P(1) this] obtain sk where sk: "dict_get (keyed ss) k = Some sk"
    "mk_params sk = mk_params (merge_skeletons (behind fns P))" by blast
  from param_skeletons_nth [OF skeleton_of_params [OF s] f(2,3)] obtain q where q: "q \<in> set (mk_params s)" "pk_index q = int j"
    "param_paths (call_key fns) (ff_body f) d = Some (pk_paths q)" by auto
  from merge_skeletons_param [OF mem skeleton_well_indexed [OF s] q(1)] show ?thesis
    using sk q(2,3) by (auto simp: param_at_def)
qed

lemma skeleton_declares:
  assumes b: "build_skeletons fns = Some ss" "distinct (map mk_key ss)"
    and k: "dict_get (keyed ss) k = Some sk" "param_at sk (int j) \<noteq> None"
  shows "declares fns k j"
proof -
  from keyed_behind(1) [OF b k(1)] obtain P where P: "behind fns P \<noteq> []" "mk_params sk = mk_params (merge_skeletons (behind fns P))"
    "P = (\<lambda>f. ff_name f = k) \<or> P = (\<lambda>f. k \<in> set (keys_of fns f))" by blast
  then have "param_at (merge_skeletons (behind fns P)) (int j) \<noteq> None" using k(2) by (simp add: param_at_def)
  from merge_skeletons_index [OF P(1) this] obtain s q where s: "s \<in> set (behind fns P)" "q \<in> set (mk_params s)" "pk_index q = int j" by blast
  then obtain f where f: "f \<in> set fns" "ff_name f \<noteq> []" "P f" "s = the (skeleton_of fns f)" by (auto simp: behind_def)
  then have "skeleton_of fns f = Some s" using keyed_behind(3) [OF b f(1,2)] by auto
  from param_skeletons_index [OF skeleton_of_params [OF this] s(2)] s(3) obtain d where "j < length (ff_params f)" "ff_params f ! j = Some d" by auto
  moreover have "implements fns k f" unfolding implements_keys using f P(3) by auto
  ultimately show ?thesis unfolding declares_def by blast
qed

section \<open>The skeletons simulate the bodies\<close>

lemma accounted_event:
  assumes "accounted sk fpa p tr b" "\<And>t. t \<in> set (leaf_targets p op d) \<Longrightarrow> acts sk (fpa t) (x t)"
  shows "accounted sk fpa p ((op, d) # tr) ((op = ''release'' \<and> var_is p d) \<or> (\<exists>t\<in>set (leaf_targets p op d). x t) \<or> b)"
proof (cases "(op = ''release'' \<and> var_is p d) \<or> (\<exists>t\<in>set (leaf_targets p op d). x t) \<or> b")
  case True
  then consider "op = ''release''" "var_is p d" | t where "t \<in> set (leaf_targets p op d)" "x t" | "b" by blast
  then show ?thesis
  proof cases
    case 2
    then have "acts sk (fpa t) True" using assms(2) [of t] by simp
    then show ?thesis using 2 by (auto simp: accounted_def)
  qed (use assms(1) in \<open>auto simp: accounted_def\<close>)
next
  case False
  then have "acts sk (fpa t) False" if t: "t \<in> set (leaf_targets p op d)" for t using assms(2) [OF t] t by auto
  then show ?thesis using False assms(1) by (auto simp: accounted_def)
qed

lemma forward_action_acts:
  assumes "callee \<noteq> ''$consume''" "callee \<noteq> ''$borrow''"
  shows "acts sk (forward_path_action ck (callee, sg, j)) b \<longleftrightarrow> (case dict_get sk (ck callee sg) of
      None \<Rightarrow> True
    | Some skel \<Rightarrow> (case param_at skel (int j) of
        None \<Rightarrow> True
      | Some p \<Rightarrow> if pk_disposable p then executes sk (ck callee sg, int j) b else \<not> b))"
  using assms by (auto simp: acts_def forward_path_action_def split: option.split)

lemma covered_executes:
  assumes at: "dict_get sk k = Some skel" "param_at skel i = Some q" and sub: "set ps \<subseteq> set (pk_paths q)"
    and nil: "ps = [] \<longrightarrow> pk_paths q = [] \<or> plain_action ''borrow'' \<in> set (pk_paths q)"
    and cov: "(\<exists>a\<in>set ps. acts sk a b) \<or> (ps = [] \<and> \<not> b)"
  shows "executes sk (k, i) b"
proof -
  have m: "paths_at sk (k, i) = pk_paths q" using at by (simp add: paths_at_def)
  show ?thesis
  proof (cases "\<exists>a\<in>set ps. acts sk a b")
    case True
    then show ?thesis using sub acts_executes [of _ sk "(k, i)" b] m by auto
  next
    case False
    then have "ps = []" "\<not> b" using cov by auto
    then consider "paths_at sk (k, i) = []" | "plain_action ''borrow'' \<in> set (paths_at sk (k, i))" using nil m by auto
    then show ?thesis
    proof cases
      case 1
      then show ?thesis using untouched [of sk "(k, i)"] \<open>\<not> b\<close> by simp
    next
      case 2
      then show ?thesis using acts_executes [OF 2, of False] \<open>\<not> b\<close> by simp
    qed
  qed
qed

lemma explicit_cover: "(\<exists>a\<in>set (explicit_paths eff). acts sk a (eff = ''consume'')) \<or> (explicit_paths eff = [] \<and> eff \<noteq> ''consume'')"
  by (auto simp: explicit_paths_def)

lemma skeletons_simulate:
  assumes b: "build_skeletons fns = Some ss" "distinct (map mk_key ss)"
    and free: "\<And>f. f \<in> set fns \<Longrightarrow> \<not> has_region (ff_body f)"
    and formed: "\<And>f. f \<in> set fns \<Longrightarrow> calls_formed (ff_body f)"
  shows "gives_up fns m x \<Longrightarrow> executes (keyed ss) (fst m, int (snd m)) x"
    and "hands fns p tr y \<Longrightarrow> accounted (keyed ss) (forward_path_action (call_key fns)) p tr y"
    and "outcome fns t z \<Longrightarrow> acts (keyed ss) (forward_path_action (call_key fns) t) z"
proof (induction rule: gives_up_hands_outcome.inducts)
  case (gives_stated key f j d eff)
  from skeleton_paths [OF b gives_stated(1-3)] obtain sk q ps where q: "dict_get (keyed ss) key = Some sk" "param_at sk (int j) = Some q"
    "param_paths (call_key fns) (ff_body f) d = Some ps" "set ps \<subseteq> set (pk_paths q)"
    "ps = [] \<longrightarrow> pk_paths q = [] \<or> plain_action ''borrow'' \<in> set (pk_paths q)" by blast
  have "ps = explicit_paths eff" using q(3) gives_stated(4) by (simp add: param_paths_def)
  then show ?case using covered_executes [OF q(1,2,4,5)] explicit_cover [of eff] by simp
next
  case (gives_path key f j d tr r y)
  from skeleton_paths [OF b gives_path(1,4,5)] obtain sk q ps where q: "dict_get (keyed ss) key = Some sk" "param_at sk (int j) = Some q"
    "param_paths (call_key fns) (ff_body f) d = Some ps" "set ps \<subseteq> set (pk_paths q)"
    "ps = [] \<longrightarrow> pk_paths q = [] \<or> plain_action ''borrow'' \<in> set (pk_paths q)" by blast
  have "inferred_paths (call_key fns) (param_name d) (ff_body f) = Some ps" using q(3) gives_path(6) by (simp add: param_paths_def)
  moreover have "f \<in> set fns" using gives_path(1) by (simp add: implements_def)
  ultimately show ?case
    using covered_executes [OF q(1,2,4,5)] inferred_paths_cover [OF _ free formed gives_path(7,3)] by simp
next
  case (hands_end p)
  then show ?case by (simp add: accounted_def)
next
  case (hands_event p tr y op d x)
  then show ?case by (intro accounted_event)
next
  case (out_consume sg j)
  then show ?case by (simp add: forward_path_action_def)
next
  case (out_borrow sg j)
  then show ?case by (simp add: forward_path_action_def)
next
  case (out_known callee sg j y)
  from out_known(3) obtain f d where "implements fns (call_key fns callee sg) f" "j < length (ff_params f)" "ff_params f ! j = Some d"
    unfolding declares_def by blast
  from skeleton_paths [OF b this] obtain sk q where "dict_get (keyed ss) (call_key fns callee sg) = Some sk"
    "param_at sk (int j) = Some q" "pk_disposable q" by blast
  then show ?case using out_known(5) unfolding forward_action_acts [OF out_known(1,2)] by simp
next
  case (out_other callee sg j y)
  then show ?case unfolding forward_action_acts [OF out_other(1,2)] using skeleton_declares [OF b] by (auto split: option.split)
qed

section \<open>The inference view\<close>

definition view_of :: "FlowFn \<Rightarrow> FlowFn" where
  "view_of f = (if has_region (ff_body f) then f\<lparr>ff_body := inline_regions (ff_body f)\<rparr> else f)"

lemma inference_view_map: "inference_view fns = map view_of fns"
  by (simp add: inference_view_def view_of_def [abs_def])

lemma view_fields [simp]:
  "ff_name (view_of f) = ff_name f" "ff_sig (view_of f) = ff_sig f" "ff_params (view_of f) = ff_params f"
  by (simp_all add: view_of_def)

lemma view_paths: "flow_path (ff_body (view_of f)) tr r \<longleftrightarrow> flow_path (ff_body f) tr r"
  by (simp add: view_of_def inline_regions_paths)

lemma view_free: "\<not> has_region (ff_body (view_of f))"
  by (simp add: view_of_def inline_regions_free)

lemma calls_formed_append [simp]: "calls_formed (xs @ ys) \<longleftrightarrow> calls_formed xs \<and> calls_formed ys"
  by (induction xs) auto

lemma inline_calls_formed: "calls_formed (inline_regions ns) \<longleftrightarrow> calls_formed ns"
  by (induction ns rule: inline_regions.induct) (auto split: Node.split)

lemma view_names: "fn_names (inference_view fns) = fn_names fns"
  by (simp add: inference_view_map fn_names_def comp_def)

lemma view_overloads: "has_overloads (inference_view fns) = has_overloads fns"
  by (simp add: has_overloads_def [abs_def] view_names)

lemma view_sig_keys: "sig_keys (inference_view fns) = sig_keys fns"
  unfolding sig_keys_def view_overloads by (simp add: inference_view_map comp_def)

lemma view_call_key: "call_key (inference_view fns) = call_key fns"
  by (intro ext) (simp only: call_key_def view_names view_sig_keys)

lemma view_members: "g \<in> set (inference_view fns) \<longleftrightarrow> (\<exists>f\<in>set fns. g = view_of f)"
  by (auto simp: inference_view_map)

lemma view_implements: "implements fns k f \<Longrightarrow> implements (inference_view fns) k (view_of f)"
  unfolding implements_def view_overloads view_members view_fields by blast

lemma view_declares: "declares (inference_view fns) k j \<longleftrightarrow> declares fns k j"
proof
  assume "declares fns k j"
  then obtain f d where "implements fns k f" "j < length (ff_params f)" "ff_params f ! j = Some d" unfolding declares_def by blast
  then show "declares (inference_view fns) k j" unfolding declares_def
    by (intro exI [of _ "view_of f"] exI [of _ d]) (simp add: view_implements)
next
  assume "declares (inference_view fns) k j"
  then obtain g d where g: "implements (inference_view fns) k g" "j < length (ff_params g)" "ff_params g ! j = Some d" unfolding declares_def by blast
  then obtain f where f: "f \<in> set fns" "g = view_of f" unfolding implements_def view_members by blast
  then have "implements fns k f" using g(1) unfolding implements_def view_overloads f(2) view_fields by blast
  then show "declares fns k j" using g(2,3) f(2) unfolding declares_def by (intro exI [of _ f] exI [of _ d]) simp
qed

lemma view_simulates:
  "gives_up fns m x \<Longrightarrow> gives_up (inference_view fns) m x"
  "hands fns p tr y \<Longrightarrow> hands (inference_view fns) p tr y"
  "outcome fns t z \<Longrightarrow> outcome (inference_view fns) t z"
proof (induction rule: gives_up_hands_outcome.inducts)
  case (gives_stated key f j d eff)
  then show ?case using gives_up_hands_outcome.gives_stated [OF view_implements] by simp
next
  case (gives_path key f j d tr r y)
  then show ?case using gives_up_hands_outcome.gives_path [OF view_implements [OF gives_path(1)], of j d tr r y] by (simp add: view_paths)
next
  case (hands_event p tr y op d x)
  then show ?case by (intro gives_up_hands_outcome.hands_event)
next
  case (out_known callee sg j y)
  then show ?case using gives_up_hands_outcome.out_known [of callee "inference_view fns" sg j y] by (simp add: view_call_key view_declares)
next
  case (out_other callee sg j y)
  then show ?case using gives_up_hands_outcome.out_other [of callee "inference_view fns" sg j y] by (simp add: view_call_key view_declares)
qed (auto intro: gives_up_hands_outcome.intros)

lemma flow_refined:
  assumes b: "build_skeletons (inference_view fns) = Some ss" "distinct (map mk_key ss)"
    and formed: "\<And>f. f \<in> set fns \<Longrightarrow> calls_formed (ff_body f)" and g: "gives_up fns (k, j) x"
  shows "executes (keyed ss) (k, int j) x"
proof -
  have "\<not> has_region (ff_body f)" if f: "f \<in> set (inference_view fns)" for f
    using f view_free by (auto simp: inference_view_map)
  moreover have "calls_formed (ff_body f)" if f: "f \<in> set (inference_view fns)" for f
    using f formed by (auto simp: inference_view_map view_of_def inline_calls_formed)
  ultimately show ?thesis using skeletons_simulate(1) [OF b _ _ view_simulates(1) [OF g]] by simp
qed

lemma flow_transfer:
  assumes s: "flow_summaries raw = Some (Some out)" and p: "(k, su) \<in> set out" "q \<in> set (mu_params su)" "pu_disposable q" "pu_index q = int j"
    and formed: "\<And>f. f \<in> set (read_fns raw) \<Longrightarrow> calls_formed (ff_body f)" and g: "gives_up (read_fns raw) (k, j) x"
  shows "(pu_transfer q = MUST \<longrightarrow> x) \<and> (pu_transfer q = NO \<longrightarrow> \<not> x)"
proof -
  obtain ss log where ss: "build_skeletons (inference_view (read_fns raw)) = Some ss" "solve_with_log ss = Some (Inr (out, log))"
    using s by (auto simp: flow_summaries_def split: option.splits sum.splits)
  from flow_refined [OF ss(1) conjunct1 [OF solve_with_log_Inr [OF ss(2)]] formed g]
  have "executes (keyed ss) (k, pu_index q) x" by (simp add: p(4))
  from solution_transfer [OF conjunct2 [OF solve_with_log_Inr [OF ss(2)]] p(1-3) this] show ?thesis .
qed

end
