(* ===== verification/Own_Lower.thy ===== *)
theory Own_Lower
  imports Own_Flow Own_Cfg
begin

text \<open>
  The lowering of facts into the core's syntax tree (\<open>to_module\<close> of \<open>ownlang/ownir.py\<close>): flow bodies to
  statements over synthetic handles, with the hoisting of locals acquired in branches, the kill sites
  and the untracking of unverified hand-overs, the routing of calls, and the components'
  subscriptions. Every refusal of the source is a value of \<open>LowerError\<close>; \<open>Type_crash\<close> stands for a
  \<open>TypeError\<close> the source does not catch.
\<close>

section \<open>Coordinates and truth\<close>

definition COLUMN_MIN :: int where "COLUMN_MIN = 1"
definition COLUMN_MAX :: int where "COLUMN_MAX = 2 ^ 31 - 1"

fun as_col :: "Json \<Rightarrow> int option" where
  "as_col (JInt v) = (if COLUMN_MIN \<le> v \<and> v \<le> COLUMN_MAX then Some v else None)"
| "as_col _ = None"

definition opt_json :: "int option \<Rightarrow> Json" where
  "opt_json c = (case c of None \<Rightarrow> JNull | Some v \<Rightarrow> JInt v)"

text \<open>The truth value of a JSON value in a condition.\<close>

fun truthy :: "Json \<Rightarrow> bool" where
  "truthy JNull = False"
| "truthy (JBool b) = b"
| "truthy (JInt i) = (i \<noteq> 0)"
| "truthy (JFloat t) = (t \<noteq> ''0.0'' \<and> t \<noteq> ''-0.0'')"
| "truthy (JStr s) = (s \<noteq> [])"
| "truthy (JList js) = (js \<noteq> [])"
| "truthy (JObj d) = (d \<noteq> [])"

text \<open>Lists and objects cannot be hashed: looking one up in a table is a \<open>TypeError\<close>.\<close>

fun hashable :: "Json \<Rightarrow> bool" where
  "hashable (JList js) = False"
| "hashable (JObj d) = False"
| "hashable _ = True"

datatype LowerError =
    Type_crash
  | Bad_borrow string int
  | Owner_untracked string string int
  | Plain_position string string nat string int
  | Unanalysed_callee string string string int
  | Unknown_op Json string int
  | Unverified_region string string string Transfer string int
  | Components_not_array
  | Component_not_object
  | Subscriptions_not_array
  | Subscription_not_object
  | Unknown_kind Json
  | Proven_fields string int
  | Proven_outside string int
  | No_evidence string int
  | Section_malformed string
  | No_record string string int
  | Not_harmless string string string int

section \<open>Lowering state\<close>

text \<open>
  \<open>handles\<close> maps each synthetic handle to the fact it stands for, \<open>loc\<close> numbers the handles, and
  \<open>localmap\<close> resolves the names of the source within one function.
\<close>

type_synonym Fact = "(string, Json) dict"

record Low =
  lw_handles :: "(string, Fact) dict"
  lw_loc :: nat
  lw_map :: "(string, string) dict"

record LowCtx =
  lc_file :: string
  lc_name :: string
  lc_released :: "string set"
  lc_mos :: Summaries
  lc_hoisted :: "string set"
  lc_first :: "string set"
  lc_overloaded :: "string set"
  lc_untracked :: "string set"
  lc_effects :: "(string, string option list) dict"

definition local_fact :: "LowCtx \<Rightarrow> string \<Rightarrow> int \<Rightarrow> int option \<Rightarrow> bool \<Rightarrow> Fact" where
  "local_fact cx name line col pool =
     [(''file'', JStr (lc_file cx)), (''line'', JInt line), (''column'', opt_json col), (''event'', JStr name),
      (''component'', JStr (lc_name cx)), (''resource'', JStr ''flow-local''),
      (''ever_released'', JBool (name \<in> lc_released cx)), (''pool'', JBool pool)]"

definition fresh_handle :: "string \<Rightarrow> Low \<Rightarrow> string" where
  "fresh_handle prefix s = prefix @ nat_str (lw_loc s)"

text \<open>A fresh \<open>loc_n\<close> for a local, bound to its name and recorded with its fact.\<close>

definition mint :: "LowCtx \<Rightarrow> string \<Rightarrow> int \<Rightarrow> int option \<Rightarrow> bool \<Rightarrow> Low \<Rightarrow> string \<times> Low" where
  "mint cx name line col pool s =
     (let h = fresh_handle ''loc_'' s
      in (h, s\<lparr>lw_loc := Suc (lw_loc s), lw_map := dict_set (lw_map s) name h,
               lw_handles := dict_set (lw_handles s) h (local_fact cx name line col pool)\<rparr>))"

definition acquire_stmt :: "string \<Rightarrow> int \<Rightarrow> Stmt" where
  "acquire_stmt h line = Let_s h (Acquire_e ''Disposable'' [] line) line"

definition unbind :: "string \<Rightarrow> Low \<Rightarrow> Low" where
  "unbind name s = s\<lparr>lw_map := dict_del (lw_map s) name\<rparr>"

definition resolve_name :: "Low \<Rightarrow> string \<Rightarrow> string" where
  "resolve_name s a = dict_get_or (lw_map s) a a"

section \<open>Operations that bind a name\<close>

definition lower_acquire :: "LowCtx \<Rightarrow> (string, Json) dict \<Rightarrow> Low \<Rightarrow> Stmt list \<times> Low" where
  "lower_acquire cx d s =
     (let name = str_field d ''var'' ''?'' in
      if name \<in> lc_hoisted cx \<or> name \<in> lc_untracked cx then ([], s)
      else (let (h, s') = mint cx name (line_field d) (as_col (jget d ''column'')) (jget d ''kind'' = JStr ''pool'') s
            in ([acquire_stmt h (line_field d)], s')))"

text \<open>\<open>alias_join\<close> and \<open>move\<close>: the old binding of the name dies first, then a tracked source is taken over.\<close>

definition lower_takeover :: "LowCtx \<Rightarrow> (string \<Rightarrow> string \<Rightarrow> int \<Rightarrow> Stmt) \<Rightarrow> (string, Json) dict \<Rightarrow> Low \<Rightarrow> Stmt list \<times> Low" where
  "lower_takeover cx mk d s =
     (let name = str_field d ''var'' ''?'';
          src = dict_get (lw_map s) (str_field d ''src'' []);
          s1 = (if name \<in> lc_hoisted cx then s else unbind name s)
      in case src of
           None \<Rightarrow> ([], s1)
         | Some src_h \<Rightarrow>
             if name \<in> lc_hoisted cx \<or> name \<in> lc_untracked cx then ([], s1)
             else (let (h, s2) = mint cx name (line_field d) (as_col (jget d ''column'')) False s1
                   in ([mk h src_h (line_field d)], s2)))"

definition on_tracked :: "(string \<Rightarrow> int \<Rightarrow> Stmt) \<Rightarrow> (string, Json) dict \<Rightarrow> Low \<Rightarrow> Stmt list" where
  "on_tracked mk d s = (case dict_get (lw_map s) (py_str (jget d ''var'')) of
     None \<Rightarrow> [] | Some h \<Rightarrow> [mk h (line_field d)])"

definition lower_return_op :: "(string, Json) dict \<Rightarrow> Low \<Rightarrow> Stmt list" where
  "lower_return_op d s =
     [Return_s (if jget d ''var'' = JNull then None else dict_get (lw_map s) (py_str (jget d ''var''))) (line_field d)]"

section \<open>Calls\<close>

definition list_args :: "(string, Json) dict \<Rightarrow> string list option" where
  "list_args d = (case dict_get_or d ''args'' (JList []) of JList js \<Rightarrow> Some (map py_str js) | _ \<Rightarrow> None)"

definition SINK_EXTERN_NAMES :: "string list" where
  "SINK_EXTERN_NAMES = [''$consume'', ''$borrow'', ''$borrow_mut'']"

definition channel_for :: "Transfer \<Rightarrow> string option" where
  "channel_for t = (case t of MUST \<Rightarrow> Some ''$consume'' | NO \<Rightarrow> Some ''$borrow'' | _ \<Rightarrow> None)"

definition arg_ref :: "Low \<Rightarrow> int \<Rightarrow> string \<Rightarrow> Atom" where
  "arg_ref s line a = VarRef (resolve_name s a) line"

text \<open>The contract of an overloaded or unverified callee, argument by argument, through the channels.\<close>

definition channel_calls :: "LowCtx \<Rightarrow> MethodSummary \<Rightarrow> string list \<Rightarrow> int \<Rightarrow> Low \<Rightarrow> Stmt list" where
  "channel_calls cx summ as line s = concat (map (\<lambda>(j, a).
     case (case summary_param summ (int j) of None \<Rightarrow> None | Some ps \<Rightarrow> channel_for (pu_transfer ps)) of
       None \<Rightarrow> []
     | Some channel \<Rightarrow> if a \<in> lc_untracked cx then [] else [Call_s channel [arg_ref s line a] line])
     (List.enumerate 0 as))"

fun plain_position :: "(string, string) dict \<Rightarrow> string option list \<Rightarrow> nat \<Rightarrow> string list \<Rightarrow> (nat \<times> string) option" where
  "plain_position m effs j [] = None"
| "plain_position m effs j (a # as) =
     (if dict_get m a \<noteq> None \<and> (length effs \<le> j \<or> effs ! j = None) then Some (j, a)
      else plain_position m effs (Suc j) as)"

definition unsettled :: "MethodSummary \<Rightarrow> bool" where
  "unsettled summ \<longleftrightarrow> (\<exists>q\<in>set (mu_params summ). pu_transfer q = MAY \<or> pu_transfer q = UNKNOWN)"

text \<open>The statements of the call itself.\<close>

definition call_stmts :: "LowCtx \<Rightarrow> bool \<Rightarrow> (string, Json) dict \<Rightarrow> Low \<Rightarrow> (LowerError, Stmt list) result" where
  "call_stmts cx in_region d s =
     (let callee = callee_of d; line = line_field d;
          summ = (if callee = [] then None else dict_get (lc_mos cx) callee);
          routed = (case mos_lookup (Some (lc_mos cx)) callee (call_sig d) of
             None \<Rightarrow> None
           | Some r \<Rightarrow> if canonical_callee callee \<in> lc_overloaded cx \<or> unsettled r then Some r else None)
      in case list_args d of
           None \<Rightarrow> Inr []
         | Some as \<Rightarrow>
             (case routed of
                Some r \<Rightarrow> Inr (channel_calls cx r as line s)
              | None \<Rightarrow>
                  if (summ \<noteq> None \<or> callee \<in> set SINK_EXTERN_NAMES) \<and> callee \<noteq> [] then
                    (case (if in_region \<and> summ \<noteq> None
                           then plain_position (lw_map s) (dict_get_or (lc_effects cx) callee []) 0 as else None) of
                       Some (j, a) \<Rightarrow> Inl (Plain_position callee a j (lc_file cx) line)
                     | None \<Rightarrow> Inr [Call_s callee (map (arg_ref s line) as) line])
                  else if in_region then
                    (case find (\<lambda>a. dict_get (lw_map s) a \<noteq> None) as of
                       Some a \<Rightarrow> Inl (Unanalysed_callee callee a (lc_file cx) line)
                     | None \<Rightarrow> Inr [])
                  else Inr []))"

text \<open>
  A tracked local whose tracking stops at this call is discharged and unbound here. \<open>kill\<close> gives for a
  name the position, among the operations of the function's own body, of that call.
\<close>

fun kill_args :: "(string, nat) dict \<Rightarrow> nat \<Rightarrow> int \<Rightarrow> string list \<Rightarrow> Low \<Rightarrow> Stmt list \<times> Low" where
  "kill_args kill at line [] s = ([], s)"
| "kill_args kill at line (a # as) s =
     (if dict_get kill a = Some at then
        (let (rest, s') = kill_args kill at line as (unbind a s)
         in ((case dict_get (lw_map s) a of
                Some h \<Rightarrow> [Call_s ''$consume'' [VarRef h line] line] | None \<Rightarrow> []) @ rest, s'))
      else kill_args kill at line as s)"

text \<open>The result of a call: an overwritten local loses its handle, a fresh result gets one.\<close>

definition bind_result :: "LowCtx \<Rightarrow> (string, Json) dict \<Rightarrow> Low \<Rightarrow> Stmt list \<times> Low" where
  "bind_result cx d s = (case as_str (jget d ''result'') of
     None \<Rightarrow> ([], s)
   | Some res \<Rightarrow>
       if res = [] \<or> res \<in> lc_hoisted cx then ([], s)
       else if res \<notin> lc_untracked cx \<and> callee_returns_fresh (callee_of d) (Some (lc_mos cx)) (lc_first cx) (call_sig d)
       then (let (h, s') = mint cx res (line_field d) (as_col (jget d ''column'')) False (unbind res s)
             in ([acquire_stmt h (line_field d)], s'))
       else ([], unbind res s))"

definition lower_call_op :: "LowCtx \<Rightarrow> bool \<Rightarrow> (string, nat) dict \<Rightarrow> nat \<Rightarrow> (string, Json) dict \<Rightarrow> Low
    \<Rightarrow> (LowerError, Stmt list \<times> Low) result" where
  "lower_call_op cx in_region kill at d s =
     (case call_stmts cx in_region d s of
        Inl e \<Rightarrow> Inl e
      | Inr stmts \<Rightarrow>
          (let (killed, s1) = (case list_args d of None \<Rightarrow> ([], s) | Some as \<Rightarrow> kill_args kill at (line_field d) as s);
               (bound, s2) = bind_result cx d s1
           in Inr (stmts @ killed @ bound, s2)))"

section \<open>Bodies\<close>

definition lower_leaf :: "LowCtx \<Rightarrow> bool \<Rightarrow> (string, nat) dict \<Rightarrow> nat \<Rightarrow> string \<Rightarrow> (string, Json) dict \<Rightarrow> Low
    \<Rightarrow> (LowerError, Stmt list \<times> Low) result" where
  "lower_leaf cx in_region kill at op d s =
     (if op = ''acquire'' then Inr (lower_acquire cx d s)
      else if op = ''alias_join'' then Inr (lower_takeover cx AliasJoin_s d s)
      else if op = ''use'' then Inr (on_tracked Use_s d s, s)
      else if op = ''overspan'' then Inr (on_tracked Overspan_s d s, s)
      else if op = ''release'' then Inr (on_tracked Release_s d s, s)
      else if op = ''return'' then Inr (lower_return_op d s, s)
      else if op = ''move'' then Inr (lower_takeover cx (\<lambda>h src line. Let_s h (Move_e src line) line) d s)
      else if op = ''call'' then lower_call_op cx in_region kill at d s
      else if op = ''proven_call'' then Inr ([], s)
      else if hashable (jget d ''op'') then Inl (Unknown_op (jget d ''op'') (lc_file cx) (line_field d))
      else Inl Type_crash)"

fun is_list :: "Json \<Rightarrow> bool" where
  "is_list (JList js) = True"
| "is_list _ = False"

text \<open>The owner and the binding of a mutable borrow.\<close>

definition borrow_head :: "LowCtx \<Rightarrow> (string, Json) dict \<Rightarrow> Low \<Rightarrow> (LowerError, string \<times> string) result" where
  "borrow_head cx d s = (case (jget d ''owner'', jget d ''binding'') of
     (JStr oname, JStr bname) \<Rightarrow>
       if oname = [] \<or> bname = [] \<or> \<not> is_list (jget d ''body'') then Inl (Bad_borrow (lc_file cx) (line_field d))
       else (case dict_get (lw_map s) oname of
               None \<Rightarrow> Inl (Owner_untracked oname (lc_file cx) (line_field d))
             | Some h \<Rightarrow> Inr (h, bname))
   | _ \<Rightarrow> Inl (Bad_borrow (lc_file cx) (line_field d)))"

definition bind_borrow :: "string \<Rightarrow> string \<Rightarrow> Low \<Rightarrow> Low" where
  "bind_borrow bname h s = s\<lparr>lw_loc := Suc (lw_loc s), lw_map := dict_set (lw_map s) bname h\<rparr>"

definition restore :: "string \<Rightarrow> string option \<Rightarrow> Low \<Rightarrow> Low" where
  "restore name old s = (case old of None \<Rightarrow> unbind name s
     | Some h \<Rightarrow> s\<lparr>lw_map := dict_set (lw_map s) name h\<rparr>)"

text \<open>
  The branches and bodies of a function share one \<open>localmap\<close>: what the first branch binds or unbinds is
  what the second one sees. Only the operations of the function's own body have kill sites.
\<close>

fun lower_flow :: "LowCtx \<Rightarrow> bool \<Rightarrow> (string, nat) dict \<Rightarrow> nat \<Rightarrow> Node list \<Rightarrow> Low \<Rightarrow> (LowerError, Stmt list \<times> Low) result" where
  "lower_flow cx in_region kill at [] s = Inr ([], s)"
| "lower_flow cx in_region kill at (n # ns) s =
     (case (case n of
          Leaf_n op d \<Rightarrow> lower_leaf cx in_region kill at op d s
        | If_n d t e \<Rightarrow>
            (case lower_flow cx in_region [] 0 t s of
               Inl err \<Rightarrow> Inl err
             | Inr (then_b, s1) \<Rightarrow>
                 (case lower_flow cx in_region [] 0 e s1 of
                    Inl err \<Rightarrow> Inl err
                  | Inr (else_b, s2) \<Rightarrow> Inr ([If_s ''?'' then_b else_b (line_field d)], s2)))
        | While_n d b \<Rightarrow>
            (case lower_flow cx in_region [] 0 b s of
               Inl err \<Rightarrow> Inl err
             | Inr (body_b, s1) \<Rightarrow> Inr ([While_s ''?'' body_b (line_field d)], s1))
        | Region_n d b \<Rightarrow>
            (case borrow_head cx d s of
               Inl err \<Rightarrow> Inl err
             | Inr (owner_h, bname) \<Rightarrow>
                 (case lower_flow cx True [] 0 b (bind_borrow bname (fresh_handle ''brw_'' s) s) of
                    Inl err \<Rightarrow> Inl err
                  | Inr (body_b, s1) \<Rightarrow>
                      Inr ([BorrowBlock_s owner_h (fresh_handle ''brw_'' s) MUT_k body_b (line_field d)],
                           restore bname (dict_get (lw_map s) bname) s1)))) of
        Inl err \<Rightarrow> Inl err
      | Inr (stmts, s1) \<Rightarrow>
          (case lower_flow cx in_region kill (Suc at) ns s1 of
             Inl err \<Rightarrow> Inl err
           | Inr (rest, s2) \<Rightarrow> Inr (stmts @ rest, s2)))"

section \<open>Kill sites\<close>

text \<open>The names a node may bind, at any depth.\<close>

fun mints :: "Node list \<Rightarrow> string list" where
  "mints [] = []"
| "mints (n # ns) = (case n of
       Leaf_n op d \<Rightarrow>
         if op = ''acquire'' \<or> op = ''alias_join'' then (case as_str (jget d ''var'') of Some v \<Rightarrow> [v] | None \<Rightarrow> [])
         else if op = ''call'' then (case as_str (jget d ''result'') of Some r \<Rightarrow> if r = [] then [] else [r] | None \<Rightarrow> [])
         else []
     | If_n d t e \<Rightarrow> mints t @ mints e
     | While_n d b \<Rightarrow> mints b
     | Region_n d b \<Rightarrow> []) @ mints ns"

fun note_kills :: "MethodSummary \<Rightarrow> string set \<Rightarrow> nat \<Rightarrow> nat \<Rightarrow> string list \<Rightarrow> (string, nat) dict \<Rightarrow> (string, nat) dict" where
  "note_kills summ minted at j [] sites = sites"
| "note_kills summ minted at j (a # as) sites = note_kills summ minted at (Suc j) as
     (if gap_at summ j \<noteq> None \<and> a \<in> minted \<and> dict_get sites a = None then dict_set sites a at else sites)"

fun kill_walk :: "Summaries \<Rightarrow> string set \<Rightarrow> nat \<Rightarrow> Node list \<Rightarrow> (string, nat) dict \<Rightarrow> (string, nat) dict" where
  "kill_walk mos minted at [] sites = sites"
| "kill_walk mos minted at (n # ns) sites = kill_walk mos (minted \<union> set (mints [n])) (Suc at) ns (case n of
       Leaf_n op d \<Rightarrow>
         if op = ''call'' then
           (case (mos_lookup (Some mos) (callee_of d) (call_sig d), list_args d) of
              (Some summ, Some as) \<Rightarrow> note_kills summ minted at 0 as sites
            | _ \<Rightarrow> sites)
         else sites
     | _ \<Rightarrow> sites)"

definition kill_sites_for_unverified :: "Summaries \<Rightarrow> Node list \<Rightarrow> (string, nat) dict" where
  "kill_sites_for_unverified mos nodes = kill_walk mos {} 0 nodes []"

section \<open>Hoisting\<close>

definition acquires_name :: "string \<Rightarrow> Summaries \<Rightarrow> string set \<Rightarrow> string \<Rightarrow> (string, Json) dict \<Rightarrow> bool" where
  "acquires_name name mos first op d \<longleftrightarrow>
     (if op = ''acquire'' \<and> str_field d ''var'' [] = name then True
      else if op = ''call'' \<and> str_field d ''result'' [] = name
      then callee_returns_fresh (callee_of d) (Some mos) first (call_sig d)
      else False)"

text \<open>The definite-assignment walk: no exit before the local is acquired, and whether it is acquired after.\<close>

fun hoist_analyze :: "string \<Rightarrow> Summaries \<Rightarrow> string set \<Rightarrow> Node list \<Rightarrow> bool \<Rightarrow> bool \<times> bool" where
  "hoist_analyze name mos first [] acquired = (True, acquired)"
| "hoist_analyze name mos first (n # ns) acquired = (case n of
       Leaf_n op d \<Rightarrow>
         if acquires_name name mos first op d then hoist_analyze name mos first ns True
         else if op = ''return'' \<and> \<not> acquired \<and> str_field d ''var'' [] \<noteq> name then (False, acquired)
         else hoist_analyze name mos first ns acquired
     | If_n d t e \<Rightarrow>
         (case hoist_analyze name mos first t acquired of (s1, a1) \<Rightarrow>
            if \<not> s1 then (False, acquired)
            else (case hoist_analyze name mos first e acquired of (s2, a2) \<Rightarrow>
              if \<not> s2 then (False, acquired)
              else hoist_analyze name mos first ns (acquired \<or> (a1 \<and> a2))))
     | While_n d b \<Rightarrow>
         (case hoist_analyze name mos first b acquired of (s1, a1) \<Rightarrow>
            if \<not> s1 then (False, acquired) else hoist_analyze name mos first ns acquired)
     | Region_n d b \<Rightarrow> hoist_analyze name mos first ns acquired)"

definition branch_hoist_safe :: "Node list \<Rightarrow> string \<Rightarrow> Summaries \<Rightarrow> string set \<Rightarrow> bool" where
  "branch_hoist_safe nodes name mos first = fst (hoist_analyze name mos first nodes False)"

record HoistScan =
  ho_depth :: "(string, nat) dict"
  ho_line :: "(string, int) dict"
  ho_col :: "(string, int option) dict"
  ho_pool :: "string set"
  ho_ref :: "(string, nat) dict"
  ho_loop :: "string set"

definition lower_min :: "(string, nat) dict \<Rightarrow> string \<Rightarrow> nat \<Rightarrow> (string, nat) dict" where
  "lower_min m name depth = (case dict_get m name of
     None \<Rightarrow> dict_set m name depth
   | Some k \<Rightarrow> if depth < k then dict_set m name depth else m)"

definition set_absent :: "(string, 'a) dict \<Rightarrow> string \<Rightarrow> 'a \<Rightarrow> (string, 'a) dict" where
  "set_absent m name v = (if dict_get m name = None then dict_set m name v else m)"

definition acquired_here :: "Summaries \<Rightarrow> string set \<Rightarrow> string \<Rightarrow> (string, Json) dict \<Rightarrow> string option" where
  "acquired_here mos first op d =
     (if op = ''acquire'' then Some (str_field d ''var'' ''?'')
      else if op = ''call'' then
        (case (as_str (jget d ''callee''), as_str (jget d ''result'')) of
           (Some callee, Some res) \<Rightarrow>
             if res \<noteq> [] \<and> callee \<noteq> [] \<and> callee_returns_fresh callee (Some mos) first (call_sig d) then Some res else None
         | _ \<Rightarrow> None)
      else None)"

definition note_acquire :: "nat \<Rightarrow> bool \<Rightarrow> string \<Rightarrow> (string, Json) dict \<Rightarrow> string \<Rightarrow> HoistScan \<Rightarrow> HoistScan" where
  "note_acquire depth in_loop op d name h = h\<lparr>
     ho_depth := lower_min (ho_depth h) name depth,
     ho_line := set_absent (ho_line h) name (line_field d),
     ho_col := set_absent (ho_col h) name (as_col (jget d ''column'')),
     ho_pool := (if op = ''acquire'' \<and> jget d ''kind'' = JStr ''pool'' then insert name (ho_pool h) else ho_pool h),
     ho_loop := (if in_loop then insert name (ho_loop h) else ho_loop h)\<rparr>"

definition note_refs :: "nat \<Rightarrow> string list \<Rightarrow> HoistScan \<Rightarrow> HoistScan" where
  "note_refs depth names h = h\<lparr>ho_ref := foldl (\<lambda>m name. lower_min m name depth) (ho_ref h) names\<rparr>"

definition hoist_leaf :: "Summaries \<Rightarrow> string set \<Rightarrow> nat \<Rightarrow> bool \<Rightarrow> string \<Rightarrow> (string, Json) dict \<Rightarrow> HoistScan \<Rightarrow> HoistScan option" where
  "hoist_leaf mos first depth in_loop op d h =
     (let h1 = (case acquired_here mos first op d of None \<Rightarrow> h | Some name \<Rightarrow> note_acquire depth in_loop op d name h)
      in if op \<in> {''use'', ''release'', ''overspan'', ''return''} then
           Some (case as_str (jget d ''var'') of None \<Rightarrow> h1 | Some v \<Rightarrow> note_refs depth [v] h1)
         else if op = ''call'' then
           map_option (\<lambda>as. note_refs depth as h1) (iterate_args d)
         else Some h1)"

fun hoist_walk :: "Summaries \<Rightarrow> string set \<Rightarrow> nat \<Rightarrow> bool \<Rightarrow> Node list \<Rightarrow> HoistScan \<Rightarrow> HoistScan option" where
  "hoist_walk mos first depth in_loop [] h = Some h"
| "hoist_walk mos first depth in_loop (n # ns) h =
     (case (case n of
          Leaf_n op d \<Rightarrow> hoist_leaf mos first depth in_loop op d h
        | If_n d t e \<Rightarrow>
            (case hoist_walk mos first (Suc depth) in_loop t h of
               None \<Rightarrow> None | Some h1 \<Rightarrow> hoist_walk mos first (Suc depth) in_loop e h1)
        | While_n d b \<Rightarrow> hoist_walk mos first (Suc depth) True b h
        | Region_n d b \<Rightarrow> Some h) of
        None \<Rightarrow> None
      | Some h1 \<Rightarrow> hoist_walk mos first depth in_loop ns h1)"

type_synonym HoistSite = "int \<times> int option \<times> bool"

definition hoisted_branch_locals :: "Node list \<Rightarrow> Summaries \<Rightarrow> string set \<Rightarrow> (string, HoistSite) dict option" where
  "hoisted_branch_locals nodes mos first =
     map_option (\<lambda>h. concat (map (\<lambda>(name, depth).
         if 1 \<le> depth \<and> dict_get (ho_ref h) name = Some 0 \<and> name \<notin> ho_loop h \<and> branch_hoist_safe nodes name mos first
         then [(name, dict_get_or (ho_line h) name 0, dict_get_or (ho_col h) name None, name \<in> ho_pool h)] else []) (ho_depth h)))
       (hoist_walk mos first 0 False nodes \<lparr>ho_depth = [], ho_line = [], ho_col = [], ho_pool = {}, ho_ref = [], ho_loop = {}\<rparr>)"

text \<open>The hoisted locals are declared first, in the order of their names.\<close>

fun declare_hoisted :: "LowCtx \<Rightarrow> (string, HoistSite) dict \<Rightarrow> string list \<Rightarrow> Low \<Rightarrow> Stmt list \<times> Low" where
  "declare_hoisted cx hoist [] s = ([], s)"
| "declare_hoisted cx hoist (name # names) s =
     (case dict_get_or hoist name (0, None, False) of (line, col, pool) \<Rightarrow>
        (let (h, s1) = mint cx name line col pool s; (rest, s2) = declare_hoisted cx hoist names s1
         in (acquire_stmt h line # rest, s2)))"

section \<open>Functions\<close>

definition param_type :: "string option \<Rightarrow> TypeRef" where
  "param_type eff =
     (if eff = Some ''consume'' then \<lparr>tr_name = ''Disposable'', tr_borrowed = False, tr_mutable = False, tr_line = 0\<rparr>
      else if eff = Some ''borrow'' then \<lparr>tr_name = ''Disposable'', tr_borrowed = True, tr_mutable = False, tr_line = 0\<rparr>
      else if eff = Some ''borrow_mut'' then \<lparr>tr_name = ''Disposable'', tr_borrowed = True, tr_mutable = True, tr_line = 0\<rparr>
      else \<lparr>tr_name = ''int'', tr_borrowed = False, tr_mutable = False, tr_line = 0\<rparr>)"

definition param_fact :: "LowCtx \<Rightarrow> string \<Rightarrow> (string, Json) dict \<Rightarrow> Fact" where
  "param_fact cx name p =
     [(''file'', JStr (lc_file cx)), (''line'', JInt (line_field p)), (''column'', opt_json (as_col (jget p ''column''))),
      (''event'', JStr name), (''component'', JStr (lc_name cx)), (''resource'', JStr ''flow-local''),
      (''ever_released'', JBool (name \<in> lc_released cx))]"

fun lower_fn_params :: "LowCtx \<Rightarrow> FlowFn \<Rightarrow> nat \<Rightarrow> (string, Json) dict option list \<Rightarrow> Low \<Rightarrow> Param list \<times> Low" where
  "lower_fn_params cx f i [] s = ([], s)"
| "lower_fn_params cx f i (None # ps) s = lower_fn_params cx f (Suc i) ps s"
| "lower_fn_params cx f i (Some p # ps) s =
     (let h = fresh_handle ''parg_'' s;
          s1 = s\<lparr>lw_loc := Suc (lw_loc s), lw_map := dict_set (lw_map s) (param_name p) h,
                 lw_handles := dict_set (lw_handles s) h (param_fact cx (param_name p) p)\<rparr>;
          (rest, s2) = lower_fn_params cx f (Suc i) ps s1
      in (\<lparr>pa_name = h, pa_type = param_type (Own_Flow.param_effect (Some (lc_mos cx)) f i p), pa_line = line_field p,
            pa_lifetime = None\<rparr> # rest, s2))"

end
