(* ===== verification/Own_Module.thy ===== *)
theory Own_Module
  imports Own_Lower Own_Heap
begin

text \<open>
  The module built from a facts document (\<open>to_module\<close> of \<open>ownlang/ownir.py\<close>): the admission of proven
  calls, the components with their subscriptions and captures, and the functions. An outer \<open>None\<close> means
  that the heap-effect solver does not return; Python's exceptions are the left summand.
\<close>

section \<open>Proven calls\<close>

text \<open>Every \<open>proven_call\<close> of a body in document order, through any of the three compound keys, to a depth of 256.\<close>

type_synonym ProvenSite = "(string, Json) dict \<times> string \<times> bool"

fun proven_calls :: "nat \<Rightarrow> string \<Rightarrow> bool \<Rightarrow> Json \<Rightarrow> ProvenSite list" where
  "proven_calls 0 ffile in_region j = []"
| "proven_calls (Suc fuel) ffile in_region j =
     concat (map (\<lambda>n. case n of
         JObj d \<Rightarrow>
           (if jget d ''op'' = JStr ''proven_call'' then [(d, ffile, in_region)] else [])
           @ concat (map (\<lambda>key. proven_calls fuel ffile (in_region \<or> jget d ''op'' = JStr ''borrow_mut'') (jget d key))
               [''then'', ''else'', ''body''])
       | _ \<Rightarrow> []) (as_nodes j))"

definition proven_sites :: "Json \<Rightarrow> ProvenSite list" where
  "proven_sites raw_fns = concat (map (\<lambda>fn. case fn of
       JObj d \<Rightarrow> proven_calls 257 (str_field d ''file'' ''?'') False (jget d ''body'')
     | _ \<Rightarrow> []) (as_nodes raw_fns))"

definition site_names :: "(string, Json) dict \<Rightarrow> (string \<times> string) option" where
  "site_names d = (case (jget d ''site'', jget d ''callee'') of
     (JStr site, JStr callee) \<Rightarrow> if site \<noteq> [] \<and> callee \<noteq> [] then Some (site, callee) else None
   | _ \<Rightarrow> None)"

fun check_sites :: "ProvenSite list \<Rightarrow> LowerError option" where
  "check_sites [] = None"
| "check_sites ((d, ffile, in_region) # sites) =
     (if site_names d = None then Some (Proven_fields ffile (line_field d))
      else if \<not> in_region then Some (Proven_outside ffile (line_field d))
      else check_sites sites)"

fun judge_sites :: "Facts \<Rightarrow> Solved \<Rightarrow> ProvenSite list \<Rightarrow> LowerError option" where
  "judge_sites methods solved [] = None"
| "judge_sites methods solved ((d, ffile, in_region) # sites) =
     (case site_names d of
        None \<Rightarrow> None
      | Some (site, callee) \<Rightarrow>
          if dict_get methods site = None then Some (No_record site ffile (line_field d))
          else (case site_verdict methods solved site callee of
                  Some reason \<Rightarrow> Some (Not_harmless callee reason ffile (line_field d))
                | None \<Rightarrow> judge_sites methods solved sites))"

definition admit_proven_calls :: "(string, Json) dict \<Rightarrow> LowerError option option" where
  "admit_proven_calls facts =
     (case proven_sites (dict_get_or facts ''functions'' (JList [])) of
        [] \<Rightarrow> Some None
      | (d, ffile, r) # rest \<Rightarrow>
          (case check_sites ((d, ffile, r) # rest) of
             Some e \<Rightarrow> Some (Some e)
           | None \<Rightarrow>
               if jget facts ''heap_effects'' = JNull then Some (Some (No_evidence ffile (line_field d)))
               else (case load_facts (jget facts ''heap_effects'') of
                       Inl e \<Rightarrow> Some (Some (Section_malformed e))
                     | Inr ms \<Rightarrow>
                         map_option (\<lambda>solved. judge_sites (by_key ms) solved ((d, ffile, r) # rest)) (heap_solve ms))))"

section \<open>Components\<close>

definition resource_decl :: "string \<Rightarrow> string \<Rightarrow> string \<Rightarrow> string \<Rightarrow> ResourceDecl" where
  "resource_decl name acq rel kind =
     \<lparr>rd_name = name, rd_members = [\<lparr>rm_role = ''acquire'', rm_name = acq, rm_line = 0\<rparr>, \<lparr>rm_role = ''release'', rm_name = rel, rm_line = 0\<rparr>],
      rd_line = 0, rd_emit_type = None, rd_emit_acquire = None, rd_emit_release = None, rd_emit_borrow = None, rd_kind = Some kind\<rparr>"

definition prelude_resources :: "ResourceDecl list" where
  "prelude_resources =
     [resource_decl ''Subscription'' ''Subscribe'' ''Dispose'' ''subscription token'',
      resource_decl ''Timer'' ''Start'' ''Stop'' ''timer'',
      resource_decl ''Disposable'' ''New'' ''Dispose'' ''disposable field'',
      resource_decl ''PooledBuffer'' ''Rent'' ''Return'' ''pooled buffer'']"

definition sink_extern :: "string \<Rightarrow> Effect \<Rightarrow> ExternDecl" where
  "sink_extern name eff = \<lparr>ed_name = name, ed_params = [\<lparr>ep_effect = eff, ep_type_name = ''Disposable'', ep_line = 0\<rparr>],
     ed_ret = None, ed_line = 0\<rparr>"

definition OWNERSHIP_SINK_EXTERNS :: "ExternDecl list" where
  "OWNERSHIP_SINK_EXTERNS =
     [sink_extern ''$consume'' CONSUME_eff, sink_extern ''$borrow'' BORROW_eff, sink_extern ''$borrow_mut'' BORROW_MUT_eff]"

definition lifetime_decl :: "string \<Rightarrow> string option \<Rightarrow> LifetimeDecl" where
  "lifetime_decl name longer = \<lparr>ld_name = name, ld_longer = longer, ld_line = 0\<rparr>"

definition CAPTURE_LIFETIMES :: "LifetimeDecl list" where
  "CAPTURE_LIFETIMES =
     [lifetime_decl ''Process'' None, lifetime_decl ''scoped'' (Some ''Process''),
      lifetime_decl ''transient'' (Some ''scoped''), lifetime_decl ''Subscriber'' (Some ''Process'')]"

text \<open>The resource type and the tag of a kind; \<open>None\<close> is an unknown kind.\<close>

definition RESOURCES :: "(string \<times> (string \<times> string)) list" where
  "RESOURCES =
     [(''subscription'', (''Subscription'', ''subscription token'')), (''subscribe'', (''Subscription'', ''subscription token'')),
      (''timer'', (''Timer'', ''timer'')), (''disposable'', (''Disposable'', ''disposable field'')),
      (''local-disposable'', (''Disposable'', ''disposable'')), (''pool'', (''PooledBuffer'', ''pooled buffer''))]"

definition route_resource :: "Json \<Rightarrow> (LowerError, string \<times> string) result" where
  "route_resource rkind =
     (if \<not> hashable rkind then Inl Type_crash
      else case rkind of
          JStr k \<Rightarrow> (case dict_get RESOURCES k of Some r \<Rightarrow> Inr r | None \<Rightarrow> Inl (Unknown_kind rkind))
        | _ \<Rightarrow> Inl (Unknown_kind rkind))"

definition DI_REGION :: "string \<Rightarrow> string option" where
  "DI_REGION life = (if life = ''singleton'' then Some ''Process'' else if life = ''scoped'' then Some ''scoped''
     else if life = ''transient'' then Some ''transient'' else None)"

text \<open>The registered lifetime of each service; testing a lifetime that cannot be hashed is a \<open>TypeError\<close>.\<close>

fun di_lives :: "Json list \<Rightarrow> (string, string) dict \<Rightarrow> (string, string) dict option" where
  "di_lives [] out = Some out"
| "di_lives (j # js) out = (case j of
       JObj s \<Rightarrow>
         (case jget s ''name'' of
            JStr name \<Rightarrow>
              if \<not> hashable (jget s ''lifetime'') then None
              else di_lives js (case jget s ''lifetime'' of
                JStr life \<Rightarrow> if DI_REGION life \<noteq> None then dict_set out name life else out
              | _ \<Rightarrow> out)
          | _ \<Rightarrow> di_lives js out)
     | _ \<Rightarrow> di_lives js out)"

definition di_life_map :: "(string, Json) dict \<Rightarrow> (string, string) dict option" where
  "di_life_map facts = di_lives (as_nodes (dict_get_or facts ''services'' (JList []))) []"

definition subscriber_region :: "string \<Rightarrow> (string, string) dict \<Rightarrow> string" where
  "subscriber_region cname lives =
     (case dict_get lives cname of None \<Rightarrow> ''Subscriber'' | Some life \<Rightarrow> the (DI_REGION life))"

text \<open>
  What a subscription lowers to: nothing, a capture under the region of its source, or an owned
  resource with or without its release.
\<close>

datatype Lowering = Skip_l | Capture_l string "(string, Json) dict" | Own_l string bool

definition sub_kind :: "(string, Json) dict \<Rightarrow> Json" where
  "sub_kind d = dict_get_or d ''resource'' (JStr ''subscription'')"

definition source_life :: "(string, string) dict \<Rightarrow> (string, Json) dict \<Rightarrow> string option" where
  "source_life lives d = (case jget d ''source_type'' of JStr st \<Rightarrow> dict_get lives st | _ \<Rightarrow> None)"

definition classify :: "(string, string) dict \<Rightarrow> (string, Json) dict \<Rightarrow> (LowerError, Lowering) result" where
  "classify lives d =
     (let kind = sub_kind d; source = jget d ''source''; released = truthy (jget d ''released'');
          injected = (kind = JStr ''subscription'' \<and> source = JStr ''injected'')
      in if kind = JStr ''unresolved-subscription'' then Inr Skip_l
         else if kind = JStr ''subscribe'' \<and> source = JStr ''self'' then Inr Skip_l
         else if kind = JStr ''capture'' then
           Inr (if source \<noteq> JStr ''static'' \<or> released then Skip_l else Capture_l ''Process'' [])
         else if injected \<and> jget d ''source_provenance'' = JStr ''returned_fresh'' then Inr Skip_l
         else (case (if injected \<and> \<not> released then source_life lives d else None) of
                 Some life \<Rightarrow> Inr (Capture_l (the (DI_REGION life)) [(''di_source_life'', JStr life)])
               | None \<Rightarrow>
                   (case route_resource kind of
                      Inl e \<Rightarrow> Inl e
                    | Inr (rtype, tag) \<Rightarrow> Inr (Own_l rtype released))))"

record Lowered =
  lo_handles :: "(string, Fact) dict"
  lo_gid :: nat
  lo_capture :: bool

text \<open>One component: the statements and capture parameters of its subscriptions, in order.\<close>

record CompBody =
  cb_body :: "Stmt list"
  cb_params :: "Param list"

definition sub_fact :: "(string, Json) dict \<Rightarrow> Json \<Rightarrow> Json \<Rightarrow> (string, Json) dict \<Rightarrow> Fact" where
  "sub_fact d cname cfile extra =
     foldl (\<lambda>f (k, v). dict_set f k v) (dict_set (dict_set d ''component'' cname) ''file'' cfile) extra"

definition source_type_ref :: TypeRef where
  "source_type_ref = \<lparr>tr_name = ''EventSource'', tr_borrowed = False, tr_mutable = False, tr_line = 0\<rparr>"

definition lower_sub :: "Json \<Rightarrow> Json \<Rightarrow> (string, Json) dict \<Rightarrow> Lowering \<Rightarrow> Lowered \<Rightarrow> CompBody \<times> Lowered" where
  "lower_sub cname cfile d l s =
     (let line = line_field d; next = (\<lambda>h extra. s\<lparr>lo_gid := Suc (lo_gid s),
          lo_handles := dict_set (lo_handles s) h (sub_fact d cname cfile extra)\<rparr>)
      in case l of
           Skip_l \<Rightarrow> (\<lparr>cb_body = [], cb_params = []\<rparr>, s)
         | Capture_l region extra \<Rightarrow>
             (let h = ''cap_'' @ nat_str (lo_gid s)
              in (\<lparr>cb_body = [Subscribe_s h line],
                   cb_params = [\<lparr>pa_name = h, pa_type = source_type_ref, pa_line = 0, pa_lifetime = Some region\<rparr>]\<rparr>,
                  (next h extra)\<lparr>lo_capture := True\<rparr>))
         | Own_l rtype released \<Rightarrow>
             (let h = ''sub_'' @ nat_str (lo_gid s)
              in (\<lparr>cb_body = Let_s h (Acquire_e rtype [] line) line # (if released then [Release_s h line] else []),
                   cb_params = []\<rparr>, next h [])))"

fun lower_subs :: "(string, string) dict \<Rightarrow> Json \<Rightarrow> Json \<Rightarrow> Json list \<Rightarrow> Lowered \<Rightarrow> (LowerError, CompBody \<times> Lowered) result" where
  "lower_subs lives cname cfile [] s = Inr (\<lparr>cb_body = [], cb_params = []\<rparr>, s)"
| "lower_subs lives cname cfile (j # js) s = (case j of
       JObj d \<Rightarrow>
         (case classify lives d of
            Inl e \<Rightarrow> Inl e
          | Inr l \<Rightarrow>
              (let (c, s1) = lower_sub cname cfile d l s
               in case lower_subs lives cname cfile js s1 of
                    Inl e \<Rightarrow> Inl e
                  | Inr (c', s2) \<Rightarrow> Inr (\<lparr>cb_body = cb_body c @ cb_body c', cb_params = cb_params c @ cb_params c'\<rparr>, s2)))
     | _ \<Rightarrow> Inl Subscription_not_object)"

text \<open>A component without a name is named after the next handle number; one whose name is no text is printed.\<close>

definition comp_name :: "(string, Json) dict \<Rightarrow> nat \<Rightarrow> Json" where
  "comp_name d gid = dict_get_or d ''name'' (JStr (''Component'' @ nat_str gid))"

fun lower_components :: "(string, string) dict \<Rightarrow> Json list \<Rightarrow> Lowered \<Rightarrow> (LowerError, FnDecl list \<times> Lowered) result" where
  "lower_components lives [] s = Inr ([], s)"
| "lower_components lives (j # js) s = (case j of
       JObj d \<Rightarrow>
         (let cname = comp_name d (lo_gid s) in
          if \<not> hashable cname then Inl Type_crash
          else case dict_get_or d ''subscriptions'' (JList []) of
              JList subs \<Rightarrow>
                (case lower_subs lives cname (dict_get_or d ''file'' (JStr ''?'')) subs s of
                   Inl e \<Rightarrow> Inl e
                 | Inr (c, s1) \<Rightarrow>
                     (case lower_components lives js s1 of
                        Inl e \<Rightarrow> Inl e
                      | Inr (fns, s2) \<Rightarrow>
                          Inr (\<lparr>fd_name = py_str cname, fd_params = cb_params c, fd_ret = None, fd_body = cb_body c, fd_line = 0,
                                fd_lifetime = (if cb_params c = [] then None else Some (subscriber_region (py_str cname) lives))\<rparr> # fns, s2)))
            | _ \<Rightarrow> Inl Subscriptions_not_array)
     | _ \<Rightarrow> Inl Component_not_object)"

section \<open>Findings\<close>

text \<open>
  A finding: a value copied from the facts as it is stays a JSON value, what the bridge prints is text.
\<close>

type_synonym Step = "string \<times> int \<times> string"

record Finding =
  fi_file :: Json
  fi_line :: int
  fi_code :: string
  fi_component :: Json
  fi_event :: Json
  fi_handler :: Json
  fi_message :: string
  fi_kind :: string
  fi_advisory :: bool
  fi_severity :: "string option"
  fi_related :: "Step list"
  fi_flow :: "Step list"
  fi_ignore :: "Json option"
  fi_column :: "int option"

definition base_finding :: "Json \<Rightarrow> int \<Rightarrow> string \<Rightarrow> Json \<Rightarrow> Json \<Rightarrow> Json \<Rightarrow> string \<Rightarrow> string \<Rightarrow> Finding" where
  "base_finding file line code component event handler message kind =
     \<lparr>fi_file = file, fi_line = line, fi_code = code, fi_component = component, fi_event = event, fi_handler = handler,
      fi_message = message, fi_kind = kind, fi_advisory = False, fi_severity = None, fi_related = [], fi_flow = [],
      fi_ignore = None, fi_column = None\<rparr>"

section \<open>Functions\<close>

text \<open>What is computed once for a document: the summaries, the source names, the overloaded names and the effects of the parameters.\<close>

record FnCtx =
  fc_mos :: Summaries
  fc_first :: "string set"
  fc_overloaded :: "string set"
  fc_effects :: "(string, string option list) dict"

definition source_names :: "Json list \<Rightarrow> string list" where
  "source_names raw = concat (map (\<lambda>j. case as_dict j of
       Some d \<Rightarrow> if truthy (jget d ''name'') then [canonical_callee (str_field d ''name'' [])] else []
     | None \<Rightarrow> []) raw)"

definition fn_ctx :: "Summaries \<Rightarrow> Json list \<Rightarrow> FnCtx" where
  "fn_ctx mos raw = \<lparr>fc_mos = mos, fc_first = set (source_names raw),
     fc_overloaded = set (filter (\<lambda>n. 1 < count_list (source_names raw) n) (source_names raw)),
     fc_effects = (if list_ex (\<lambda>f. has_region (ff_body f)) (read_fns raw)
                   then region_param_effects (read_fns raw) (Some mos) else [])\<rparr>"

definition owned_here :: "FnCtx \<Rightarrow> Node list \<Rightarrow> string set" where
  "owned_here fc nodes = set (collect_vars nodes ''acquire'' ''var'')
     \<union> set (concat (map (\<lambda>(v, c). case c of
           Some (callee, sg) \<Rightarrow> if callee_returns_fresh callee (Some (fc_mos fc)) (fc_first fc) sg then [v] else []
         | None \<Rightarrow> []) (call_results nodes [])))"

fun transfer_text :: "Transfer \<Rightarrow> string" where
  "transfer_text NO = ''no''"
| "transfer_text MUST = ''must''"
| "transfer_text MAY = ''may''"
| "transfer_text UNKNOWN = ''unknown''"

definition gap_message :: "string \<Rightarrow> string \<Rightarrow> Transfer \<Rightarrow> string" where
  "gap_message callee arg t = ''cannot verify whether '' @ quoted callee @ '' takes ownership of '' @ quoted arg
     @ '' (inferred contract: '' @ transfer_text t @ ''); optimistically assuming it does'' @ em_dash @ quoted arg
     @ '' is not checked past this call''"

definition gap_finding :: "LowCtx \<Rightarrow> Gap \<Rightarrow> Finding" where
  "gap_finding cx g = (case g of (arg, callee, t, line) \<Rightarrow>
     (base_finding (JStr (lc_file cx)) line ''OWN051'' (JStr (lc_name cx)) (JStr arg) (JStr callee) (gap_message callee arg t)
        ''ownership transfer'')\<lparr>fi_advisory := True\<rparr>)"

text \<open>
  One function. The inference reads the body with its regions spliced in; the lowering reads the body
  itself. A function with a region and an unverified hand-over is refused.
\<close>

definition lower_fn :: "FnCtx \<Rightarrow> (string, Json) dict \<Rightarrow> Low \<Rightarrow> (LowerError, FnDecl \<times> Finding list \<times> Low) result" where
  "lower_fn fc d s =
     (let flow_nodes = ff_body (read_fn d);
          region = has_region flow_nodes;
          nodes = (if region then inline_regions flow_nodes else flow_nodes);
          fname = str_field d ''name'' (''Fn'' @ nat_str (lw_loc s));
          f = (read_fn d)\<lparr>ff_name := fname, ff_body := nodes\<rparr>;
          unverified = unverified_transfer_calls (Some (fc_mos fc)) nodes;
          kills = kill_sites_for_unverified (fc_mos fc) nodes;
          untracked = set (map fst unverified) - set (dict_keys kills);
          cx0 = \<lparr>lc_file = ff_path f, lc_name = fname, lc_released = released_vars nodes, lc_mos = fc_mos fc, lc_hoisted = {},
                 lc_first = fc_first fc, lc_overloaded = fc_overloaded fc, lc_untracked = untracked, lc_effects = fc_effects fc\<rparr>;
          (fparams, s1) = lower_fn_params cx0 f 0 (ff_params f) (s\<lparr>lw_map := []\<rparr>);
          notes = map (gap_finding cx0) (filter (\<lambda>g. fst g \<in> owned_here fc nodes) unverified)
      in if region \<and> unverified \<noteq> [] then
           (case hd unverified of (arg, callee, t, line) \<Rightarrow> Inl (Unverified_region fname arg callee t (ff_path f) line))
         else (case hoisted_branch_locals nodes (fc_mos fc) (fc_first fc) of
             None \<Rightarrow> Inl Type_crash
           | Some sites \<Rightarrow>
               (let hoist = filter (\<lambda>kv. fst kv \<notin> untracked) sites;
                    cx = cx0\<lparr>lc_hoisted := set (map fst hoist)\<rparr>;
                    (lets, s2) = declare_hoisted cx hoist (sort (map fst hoist)) s1
                in case lower_flow cx False kills 0 flow_nodes s2 of
                     Inl e \<Rightarrow> Inl e
                   | Inr (body, s3) \<Rightarrow>
                       Inr (\<lparr>fd_name = fname, fd_params = fparams,
                             fd_ret = (if returns_value nodes then Some (param_type (Some ''consume'')) else None),
                             fd_body = lets @ body, fd_line = 0, fd_lifetime = None\<rparr>, notes, s3))))"

fun lower_fns :: "FnCtx \<Rightarrow> Json list \<Rightarrow> Low \<Rightarrow> (LowerError, FnDecl list \<times> Finding list \<times> Low) result" where
  "lower_fns fc [] s = Inr ([], [], s)"
| "lower_fns fc (j # js) s = (case as_dict j of
       None \<Rightarrow> lower_fns fc js s
     | Some d \<Rightarrow>
         (case lower_fn fc d s of
            Inl e \<Rightarrow> Inl e
          | Inr (f, notes, s1) \<Rightarrow>
              (case lower_fns fc js s1 of
                 Inl e \<Rightarrow> Inl e
               | Inr (fs, notes', s2) \<Rightarrow> Inr (f # fs, notes @ notes', s2))))"

section \<open>The module\<close>

record Bridged =
  br_module :: Module
  br_handles :: "(string, Fact) dict"
  br_degraded :: bool
  br_notes :: "Finding list"

text \<open>\<open>functions\<close> that is not an array is left out altogether; a failed solve leaves no summaries and is noted.\<close>

definition bridge :: "(string, Json) dict \<Rightarrow> Json list \<Rightarrow> Summaries option \<Rightarrow> (LowerError, Bridged) result" where
  "bridge facts raw summaries =
     (case di_life_map facts of
        None \<Rightarrow> Inl Type_crash
      | Some lives \<Rightarrow>
          (case dict_get_or facts ''components'' (JList []) of
             JList comps \<Rightarrow>
               (case lower_components lives comps \<lparr>lo_handles = [], lo_gid = 0, lo_capture = False\<rparr> of
                  Inl e \<Rightarrow> Inl e
                | Inr (cfns, lo) \<Rightarrow>
                    (let mos = (case summaries of None \<Rightarrow> [] | Some m \<Rightarrow> m)
                     in case lower_fns (fn_ctx mos raw) raw \<lparr>lw_handles = lo_handles lo, lw_loc = 0, lw_map = []\<rparr> of
                          Inl e \<Rightarrow> Inl e
                        | Inr (fns, notes, s) \<Rightarrow>
                            Inr \<lparr>br_module = \<lparr>md_name = py_str (dict_get_or facts ''module'' (JStr ''Extracted'')),
                                  md_resources = prelude_resources, md_externs = OWNERSHIP_SINK_EXTERNS, md_functions = cfns @ fns,
                                  md_policies = [], md_lifetimes = (if lo_capture lo then CAPTURE_LIFETIMES else [])\<rparr>,
                                 br_handles = lw_handles s, br_degraded = (summaries = None), br_notes = notes\<rparr>))
           | _ \<Rightarrow> Inl Components_not_array))"

definition to_module :: "(string, Json) dict \<Rightarrow> (LowerError, Bridged) result option" where
  "to_module facts =
     (case admit_proven_calls facts of
        None \<Rightarrow> None
      | Some (Some e) \<Rightarrow> Some (Inl e)
      | Some None \<Rightarrow>
          (let raw = as_nodes (dict_get_or facts ''functions'' (JList []))
           in map_option (bridge facts raw) (flow_summaries raw)))"

end
