(* ===== verification/Own_Pipeline.thy ===== *)
theory Own_Pipeline
  imports Own_Parser Own_Analysis Own_Lifetimes Own_Flow
begin

text \<open>
  The checker as a whole (\<open>check_module\<close> and \<open>_collect\<close> of \<open>ownlang/__main__.py\<close>): policies, lifetimes,
  then every function's graph and analysis, the diagnostics sorted by line and code.
\<close>

text \<open>The diagnostics of the functions in order; the first failing analysis is the outcome.\<close>

fun check_functions :: "Module \<Rightarrow> FnDecl list \<Rightarrow> (AnalysisError, Diagnostic list) result option" where
  "check_functions m [] = Some (Inr [])"
| "check_functions m (fn # fns) =
     (case build_cfg fn (map rd_name (md_resources m)) (collect_signatures m) (collect_policies m) (collect_kinds m) of
        (cfg, d1) \<Rightarrow>
          (case analyze cfg of
             None \<Rightarrow> None
           | Some (Inl e) \<Rightarrow> Some (Inl e)
           | Some (Inr d2) \<Rightarrow> map_option (\<lambda>r. rbind r (\<lambda>ds. Inr (d1 @ d2 @ ds))) (check_functions m fns)))"

definition diag_key :: "Diagnostic \<Rightarrow> int \<times> string" where
  "diag_key d = (dg_line d, dg_code d)"

definition check_module :: "Module \<Rightarrow> (AnalysisError, Diagnostic list) result option" where
  "check_module m = map_option (\<lambda>r. rbind r (\<lambda>ds.
       Inr (sort_key diag_key (validate_policies (collect_policies m) @ check_lifetimes m @ ds))))
     (check_functions m (md_functions m))"

text \<open>
  \<open>_collect\<close>: a source text that does not lex or parse has the one diagnostic OWN020, whose message is
  what follows the position in the text of the exception. The exceptions \<open>_collect\<close> does not catch are
  the left summand.
\<close>

definition lex_text :: "LexError \<Rightarrow> string \<times> int" where
  "lex_text e = (case e of
     UnterminatedString line col \<Rightarrow> (''unterminated string literal'', line)
   | UnexpectedCharacter c line col \<Rightarrow> (''unexpected character '' @ str_repr [c], line))"

definition parse_text :: "string \<Rightarrow> Token \<Rightarrow> string" where
  "parse_text msg tok = msg @ '' (got '' @ tok_name (tk_kind tok) @ '' '' @ str_repr (tk_text tok) @ '')''"

datatype CollectError = Uncaught ParseErr | Engine AnalysisError

definition collect_source :: "string \<Rightarrow> (CollectError, Diagnostic list \<times> Module option) result option" where
  "collect_source src = (case parse src of
     Inl (LexErr e) \<Rightarrow> (case lex_text e of (msg, line) \<Rightarrow> Some (Inr ([mk_diag ''OWN020'' msg line], None)))
   | Inl (ParseFailure (ParseErr msg tok)) \<Rightarrow> Some (Inr ([mk_diag ''OWN020'' (parse_text msg tok) (tk_line tok)], None))
   | Inl (ParseFailure e) \<Rightarrow> Some (Inl (Uncaught e))
   | Inr m \<Rightarrow> map_option (\<lambda>r. case r of Inl e \<Rightarrow> Inl (Engine e) | Inr ds \<Rightarrow> Inr (ds, Some m)) (check_module m))"

text \<open>The exit code of \<open>own check\<close>.\<close>

definition exit_code :: "Diagnostic list \<Rightarrow> nat" where
  "exit_code ds = (if filter (\<lambda>d. dg_severity d = ERROR) ds \<noteq> [] then 1 else 0)"

end
