(* ===== verification/Own_Findings.thy ===== *)
theory Own_Findings
  imports Own_Module Own_Pipeline Own_Di Own_Effects
begin

text \<open>
  The findings of a facts document (\<open>check_facts\<close> of \<open>ownlang/ownir.py\<close>): the diagnostics of the core on the
  lowered module, mapped back through the handles, then the dependency-injection, effect, protocol,
  unresolved, awaitable and coverage findings, without duplicates and sorted. The evidence steps of
  \<open>ownlang/evidence.py\<close> are built here.
\<close>

section \<open>Evidence steps\<close>

definition step_label :: "string list \<Rightarrow> string \<Rightarrow> nat \<Rightarrow> string \<Rightarrow> string" where
  "step_label path end_label i name =
     (if i = 0 then ''singleton '' @ quoted name @ '' (captor)''
      else if i = length path - 1 then end_label @ '' '' @ quoted name
      else ''via '' @ quoted name)"

definition di_path_steps :: "string list \<Rightarrow> (string, string \<times> int) dict \<Rightarrow> string \<Rightarrow> Step list" where
  "di_path_steps path locs end_label = concat (map (\<lambda>(i, name). case dict_get locs name of
       None \<Rightarrow> []
     | Some (f, ln) \<Rightarrow> [(f, ln, step_label path end_label i name)]) (List.enumerate 0 path))"

text \<open>A SARIF location; a step without a file or a line is left out.\<close>

definition uri_of :: "string \<Rightarrow> string" where
  "uri_of file = map (\<lambda>c. if c = backslash then CHR ''/'' else c) file"

definition phys :: "string \<Rightarrow> int \<Rightarrow> Json" where
  "phys file line = JObj ([(''artifactLocation'', JObj [(''uri'', JStr (uri_of file))])]
     @ (if line \<ge> 1 then [(''region'', JObj [(''startLine'', JInt line)])] else []))"

definition step_location :: "Step \<Rightarrow> (string, Json) dict" where
  "step_location s = (case s of (f, ln, label) \<Rightarrow> [(''physicalLocation'', phys f ln), (''message'', JObj [(''text'', JStr label)])])"

definition shown_steps :: "Step list \<Rightarrow> Step list" where
  "shown_steps ss = filter (\<lambda>(f, ln, label). ln \<ge> 1 \<and> f \<noteq> []) ss"

definition related_locations :: "Step list \<Rightarrow> Json list" where
  "related_locations ss = map (\<lambda>s. JObj (step_location s)) (shown_steps ss)"

definition code_flow :: "Step list \<Rightarrow> Json list" where
  "code_flow ss =
     (let locs = map (\<lambda>s. JObj [(''location'', JObj (step_location s))]) (shown_steps ss)
      in if locs = [] then [] else [JObj [(''threadFlows'', JList [JObj [(''locations'', JList locs)]])]])"

section \<open>Findings about the locals of a flow body\<close>

text \<open>\<open>Drift\<close>: the core reports something that maps to no handle; the exceptions of the parts are passed on.\<close>

datatype BridgeError =
    Refused LowerError
  | Drift string "string option" string
  | Engine_failed AnalysisError
  | Uncaught_type_error

definition handle_of :: "Diagnostic \<Rightarrow> string option" where
  "handle_of d = (case dg_subject d of
     None \<Rightarrow> None
   | Some s \<Rightarrow> if s = [] then None else Some (takeWhile (\<lambda>c. c \<noteq> CHR ''#'') s))"

definition FLOW_LOCAL_LOAN_WORDING :: "(string \<times> string) list" where
  "FLOW_LOCAL_LOAN_WORDING =
     [(''OWN005'', '' is used after its ownership was moved''),
      (''OWN007'', '' is consumed or returned while it is borrowed''),
      (''OWN008'', '' is released while it is borrowed''),
      (''OWN011'', '' is exclusively borrowed while an exclusive borrow of it is live''),
      (''OWN012'', '' is borrowed while an exclusive borrow of it is live''),
      (''OWN013'', '' is used directly while an exclusive borrow of it is live'')]"

definition FLOW_LOCAL_VIOLATION :: "(string \<times> string) list" where
  "FLOW_LOCAL_VIOLATION =
     [(''OWN002'', ''used here after it was released/returned''),
      (''OWN003'', ''released/returned here a second time''),
      (''OWN009'', ''may be used here after release on some path''),
      (''OWN025'', ''viewed here at full length, past what it was rented for'')]"

text \<open>\<open>f"{sub.get(key, absent)}"\<close>.\<close>

definition shown :: "Fact \<Rightarrow> string \<Rightarrow> string" where
  "shown sub key = str_field sub key ''?''"

definition flow_local_steps :: "Fact \<Rightarrow> string \<Rightarrow> int \<Rightarrow> bool \<Rightarrow> Step list" where
  "flow_local_steps sub cd dline pool = (case dict_get FLOW_LOCAL_VIOLATION cd of
     None \<Rightarrow> []
   | Some viol \<Rightarrow>
       (let acq = line_field sub; f = shown sub ''file''; name = shown sub ''event''
        in if acq < 1 \<or> dline < 1 \<or> dline = acq then []
           else [(f, acq, (if pool then ''rented '' else ''acquired '') @ quoted name @ '' here''), (f, dline, viol)]))"

definition noun :: "bool \<Rightarrow> string" where
  "noun pool = (if pool then ''pooled buffer'' else ''IDisposable local'')"

definition leak_message :: "bool \<Rightarrow> bool \<Rightarrow> string \<Rightarrow> string" where
  "leak_message pool ever_released name = noun pool @ '' '' @ quoted name @
     (if pool then (if ever_released then '' may not be returned to the pool on every path (leak)''
                    else '' is rented but never returned to the pool (leak)'')
      else (if ever_released then '' may not be disposed on every path (leak)'' else '' is never disposed (leak)''))"

definition misuse_message :: "bool \<Rightarrow> string \<Rightarrow> string \<Rightarrow> string \<Rightarrow> string" where
  "misuse_message pool cd name core = noun pool @ '' '' @ quoted name @ (case dict_get FLOW_LOCAL_LOAN_WORDING cd of
     Some txt \<Rightarrow> txt
   | None \<Rightarrow>
       if cd = ''OWN002'' then (if pool then '' is used after it is returned to the pool'' else '' is used after it is disposed'')
       else if cd = ''OWN003'' then (if pool then '' is returned to the pool more than once'' else '' is disposed more than once'')
       else if cd = ''OWN009'' then (if pool then '' may be used after being returned on some path''
                                     else '' may be used after disposal on some path'')
       else '': '' @ core)"

definition view_message :: "string \<Rightarrow> string" where
  "view_message name = ''pooled buffer '' @ quoted name
     @ '' is viewed at its full length, past the logical length it was rented for (over-read / over-clear)''"

definition local_finding :: "Diagnostic \<Rightarrow> Fact \<Rightarrow> Finding" where
  "local_finding d sub =
     (let name = shown sub ''event''; file = dict_get_or sub ''file'' JNull; comp = dict_get_or sub ''component'' JNull;
          event = dict_get_or sub ''event'' (JStr ''?''); pool = truthy (jget sub ''pool'')
      in if dg_code d = ''OWN025'' then
           (base_finding file (dg_line d) ''OWN025'' comp event (JStr []) (view_message name) ''pooled buffer'')
             \<lparr>fi_flow := flow_local_steps sub ''OWN025'' (dg_line d) True\<rparr>
         else
           (base_finding file (line_field sub) (dg_code d) comp event (JStr [])
              (if dg_code d = ''OWN001'' then leak_message pool (truthy (jget sub ''ever_released'')) name
               else misuse_message pool (dg_code d) name (dg_message d))
              (if pool then ''pooled buffer'' else ''disposable''))
             \<lparr>fi_column := as_col (jget sub ''column''), fi_flow := flow_local_steps sub (dg_code d) (dg_line d) pool\<rparr>)"

section \<open>Findings about components\<close>

definition lambda_note :: "Fact \<Rightarrow> string" where
  "lambda_note sub = (if truthy (jget sub ''lambda'')
     then em_dash @ ''and being an inline lambda it has no '' @ quoted ''-='' @ '' handle, so it could never be detached'' else [])"

definition subscribed_to :: "Fact \<Rightarrow> string" where
  "subscribed_to sub = ''event '' @ quoted (shown sub ''event'') @ '' is subscribed (handler '' @ quoted (shown sub ''handler'') @ '')''"

definition promotes :: "Fact \<Rightarrow> string" where
  "promotes sub = ''the strong subscription promotes '' @ quoted (shown sub ''component'')
     @ '' to the source's lifetime, so it can never be collected'' @ em_dash"

definition nice_life :: "string \<Rightarrow> string" where
  "nice_life life = (if life = ''singleton'' then ''a DI singleton (application-lifetime) service''
     else if life = ''scoped'' then ''a DI scoped service''
     else if life = ''transient'' then ''a DI transient service''
     else ''a DI '' @ life @ '' service'')"

definition registered_message :: "Fact \<Rightarrow> string" where
  "registered_message sub = subscribed_to sub @ '' to '' @ quoted (shown sub ''source_type'') @ em_dash
     @ nice_life (shown sub ''di_source_life'') @ '' that outlives '' @ quoted (shown sub ''component'') @ ''; '' @ promotes sub
     @ ''a captive/region escape (leak, no release path'' @ lambda_note sub @ '')''"

definition capture_message :: "Fact \<Rightarrow> string" where
  "capture_message sub = subscribed_to sub @ '' to ''
     @ (if dict_get_or sub ''source'' (JStr ''?'') = JStr ''static'' then ''a static (process-lived) event source''
        else ''a longer-lived source ('' @ quoted (shown sub ''source'') @ '')'')
     @ '' that outlives '' @ quoted (shown sub ''component'') @ ''; '' @ promotes sub
     @ ''a region escape (leak, no release path'' @ lambda_note sub @ '')''"

definition of_type :: "Fact \<Rightarrow> string" where
  "of_type sub = (if truthy (jget sub ''type'') then '' (type '' @ quoted (py_str (jget sub ''type'')) @ '')'' else [])"

definition from_injected :: "Fact \<Rightarrow> bool" where
  "from_injected sub \<longleftrightarrow> jget sub ''source'' = JStr ''injected''"

text \<open>The message of an owned resource of a component; only unproven subscriptions are graded as warnings.\<close>

definition owned_message :: "string \<Rightarrow> Fact \<Rightarrow> string" where
  "owned_message kind sub =
     (let event = quoted (shown sub ''event''); comp = quoted (shown sub ''component'')
      in if kind = ''timer'' then ''timer '' @ event @ '' (handler '' @ quoted (shown sub ''handler'')
           @ '') is started but never stopped or detached'' @ em_dash @ ''the running timer keeps '' @ comp @ '' alive (leak)''
         else if kind = ''disposable'' then ''IDisposable field '' @ event @ of_type sub @ '' is never disposed'' @ em_dash
           @ ''its owner '' @ comp @ '' leaks it (leak)''
         else if kind = ''local-disposable'' then ''local IDisposable '' @ event @ of_type sub @ '' is created but never disposed (leak)''
         else if kind = ''subscribe'' then ''the result of '' @ event @ '' is ignored'' @ em_dash
           @ (if from_injected sub then ''its IDisposable subscription is never disposed; the source is an injected dependency ''
                @ ''whose lifetime is unknown, so it may outlive and keep '' @ comp @ '' alive (possible leak)''
              else ''the IDisposable subscription is never disposed, leaking '' @ comp @ '' (leak)'')
         else if kind = ''pool'' then ''pooled buffer '' @ event @ '' is rented but never returned to the pool (leak)''
         else subscribed_to sub @ '' but never unsubscribed''
           @ (if from_injected sub then ''; its source is an injected dependency whose lifetime is unknown, so it may outlive and keep ''
                @ comp @ '' alive (possible leak'' @ lambda_note sub @ '')''
              else em_dash @ ''the source keeps '' @ comp @ '' alive (leak'' @ lambda_note sub @ '')''))"

definition graded :: "string \<Rightarrow> Fact \<Rightarrow> string option" where
  "graded kind sub = (if kind \<notin> {''timer'', ''disposable'', ''local-disposable'', ''pool''} \<and> from_injected sub
     then Some ''warning'' else None)"

definition ignore_reason :: "Fact \<Rightarrow> Json option" where
  "ignore_reason sub = (if truthy (jget sub ''ignore_reason'') then Some (jget sub ''ignore_reason'') else None)"

definition fact_finding :: "Diagnostic \<Rightarrow> Fact \<Rightarrow> string \<Rightarrow> string \<Rightarrow> Finding" where
  "fact_finding d sub message kind =
     (base_finding (dict_get_or sub ''file'' JNull) (line_field sub) (dg_code d) (dict_get_or sub ''component'' JNull)
        (dict_get_or sub ''event'' (JStr ''?'')) (dict_get_or sub ''handler'' (JStr ''?'')) message kind)
       \<lparr>fi_column := as_col (jget sub ''column''), fi_ignore := ignore_reason sub\<rparr>"

definition escape_steps :: "Fact \<Rightarrow> (string, string \<times> int) dict \<Rightarrow> Step list" where
  "escape_steps sub svc_loc =
     (let line = line_field sub; st = shown sub ''source_type''; comp = quoted (shown sub ''component'');
          site = dict_get_or svc_loc st (''?'', 0)
      in if line < 1 \<or> snd site < 1 then []
         else [(shown sub ''file'', line, comp @ '' subscribes '' @ quoted (shown sub ''event'') @ '' to '' @ quoted st @ '' here''),
               (fst site, snd site, ''source '' @ quoted st @ '' ('' @ shown sub ''di_source_life'' @ '') registered here'' @ em_dash
                  @ ''outlives '' @ comp)])"

definition SKIPPED_CODES :: "string list" where
  "SKIPPED_CODES = [''OWN033'', ''OWN034'', ''OWN035'', ''OWN040'', ''OWN041'']"

text \<open>The finding of one diagnostic of the core.\<close>

definition finding_of :: "(string, Fact) dict \<Rightarrow> (string, string \<times> int) dict \<Rightarrow> Diagnostic \<Rightarrow> (BridgeError, Finding) result" where
  "finding_of handles svc_loc d =
     (case dict_get handles (case handle_of d of None \<Rightarrow> [] | Some h \<Rightarrow> h) of
        None \<Rightarrow> Inl (Drift (dg_code d) (dg_subject d) (dg_message d))
      | Some sub \<Rightarrow>
          (let kind = sub_kind sub
           in if kind = JStr ''flow-local'' then Inr (local_finding d sub)
              else if truthy (jget sub ''di_source_life'') then
                (if hashable (jget sub ''di_source_life'') \<and> hashable (dict_get_or sub ''source_type'' (JStr ''?''))
                 then Inr ((fact_finding d sub (registered_message sub) ''subscription token'')\<lparr>fi_flow := escape_steps sub svc_loc\<rparr>)
                 else Inl Uncaught_type_error)
              else if kind = JStr ''capture'' then Inr (fact_finding d sub (capture_message sub) ''subscription token'')
              else (case route_resource kind of
                      Inl e \<Rightarrow> Inl (Refused e)
                    | Inr (_, tag) \<Rightarrow> Inr ((fact_finding d sub (owned_message (py_str kind) sub) tag)
                        \<lparr>fi_severity := graded (py_str kind) sub\<rparr>))))"

definition core_findings :: "(string, Fact) dict \<Rightarrow> (string, string \<times> int) dict \<Rightarrow> Diagnostic list \<Rightarrow> (BridgeError, Finding list) result" where
  "core_findings handles svc_loc ds = rmap (finding_of handles svc_loc)
     (filter (\<lambda>d. dg_severity d = ERROR \<and> dg_code d \<notin> set SKIPPED_CODES) ds)"

section \<open>Services\<close>

text \<open>
  \<open>tuple(value)\<close> of the names a service lists. A list with an element that is no string is outside the
  model: \<open>load\<close> refuses it, and the searches below would carry it through as it is.
\<close>

fun names_of :: "Json \<Rightarrow> string list option" where
  "names_of (JList js) = all_str js"
| "names_of (JStr s) = Some (map (\<lambda>c. [c]) s)"
| "names_of (JObj d) = Some (dict_keys d)"
| "names_of _ = None"

definition resolve_sites :: "Json \<Rightarrow> Sites" where
  "resolve_sites raw = concat (map (\<lambda>x. case x of
       JObj d \<Rightarrow> [(str_field d ''type'' [], str_field d ''file'' ''?'', line_field d)]
     | _ \<Rightarrow> []) (as_nodes raw))"

definition service_of :: "(string, Json) dict \<Rightarrow> Service option" where
  "service_of s = (case (names_of (dict_get_or s ''deps'' (JList [])), names_of (dict_get_or s ''weak_deps'' (JList [])),
       names_of (dict_get_or s ''root_resolves'' (JList [])), names_of (dict_get_or s ''scope_cached'' (JList []))) of
     (Some deps, Some weak, Some rootres, Some cached) \<Rightarrow> Some \<lparr>sv_name = str_field s ''name'' ''?'',
         sv_lifetime = str_field s ''lifetime'' [], sv_deps = deps, sv_disposable = (jget s ''disposable'' = JBool True),
         sv_file = str_field s ''file'' ''?'', sv_line = line_field s, sv_weak_deps = weak, sv_root_resolves = rootres,
         sv_ctor_file = str_field s ''ctor_file'' ''?'', sv_ctor_line = as_line (dict_get_or s ''ctor_line'' (JInt 0)),
         sv_ctor_type = str_field s ''ctor_type'' [], sv_root_resolve_sites = resolve_sites (jget s ''root_resolve_sites''),
         sv_scope_cached = cached, sv_scope_cache_sites = resolve_sites (jget s ''scope_cache_sites'')\<rparr>
   | _ \<Rightarrow> None)"

fun services_of :: "Json list \<Rightarrow> Service list option" where
  "services_of [] = Some []"
| "services_of (j # js) = (case j of
       JObj s \<Rightarrow> (case (service_of s, services_of js) of (Some sv, Some svs) \<Rightarrow> Some (sv # svs) | _ \<Rightarrow> None)
     | _ \<Rightarrow> services_of js)"

definition consumer_related :: "Capture \<Rightarrow> Step list" where
  "consumer_related c = (if cp_consumed_line c \<ge> 1
     then [(cp_consumed_file c, cp_consumed_line c,
            if cp_consumed_type c \<noteq> [] \<and> cp_consumed_type c \<noteq> ''?'' then ''consuming constructor of '' @ quoted (cp_consumed_type c)
            else ''consuming constructor'')]
     else [])"

text \<open>DI004 and DI005 anchor at the call or store site when it is known.\<close>

definition site_primary :: "SiteCapture \<Rightarrow> string \<times> int" where
  "site_primary c = (if sc_site_line c \<ge> 1 then (sc_site_file c, sc_site_line c) else (sc_file c, sc_line c))"

definition site_related :: "SiteCapture \<Rightarrow> Step list" where
  "site_related c = (if sc_site_line c \<ge> 1 \<and> sc_line c \<ge> 1
     then [(sc_file c, sc_line c, ''registration of singleton '' @ quoted (sc_singleton c))] else [])"

definition capture_finding :: "string \<Rightarrow> (Capture \<Rightarrow> string) \<Rightarrow> string option \<Rightarrow> string \<Rightarrow> (string, string \<times> int) dict \<Rightarrow> Capture \<Rightarrow> Finding" where
  "capture_finding cd message severity end_label locs c =
     (base_finding (JStr (cp_file c)) (cp_line c) cd (JStr (cp_singleton c)) (JStr (cp_captured c)) (JStr []) (message c) ''DI lifetime'')
       \<lparr>fi_severity := severity, fi_related := consumer_related c, fi_flow := di_path_steps (cp_path c) locs end_label\<rparr>"

definition site_finding :: "string \<Rightarrow> (SiteCapture \<Rightarrow> string) \<Rightarrow> string \<Rightarrow> (string, string \<times> int) dict \<Rightarrow> SiteCapture \<Rightarrow> Finding" where
  "site_finding cd message end_label locs c =
     (base_finding (JStr (fst (site_primary c))) (snd (site_primary c)) cd (JStr (sc_singleton c)) (JStr (sc_captured c)) (JStr [])
        (message c) ''DI lifetime'')
       \<lparr>fi_severity := Some ''warning'', fi_related := site_related c, fi_flow := di_path_steps (sc_path c) locs end_label\<rparr>"

definition located :: "Service list \<Rightarrow> (string, string \<times> int) dict" where
  "located svcs = foldl (\<lambda>d s. if sv_line s \<ge> 1 then dict_set d (sv_name s) (sv_file s, sv_line s) else d) [] svcs"

definition di_findings :: "(string, Json) dict \<Rightarrow> (BridgeError, Finding list) result" where
  "di_findings facts = (case services_of (as_nodes (dict_get_or facts ''services'' (JList []))) of
     None \<Rightarrow> Inl Uncaught_type_error
   | Some svcs \<Rightarrow>
       (let locs = located svcs
        in Inr (map (capture_finding ''DI001'' captive_message None ''captures scoped service'' locs) (find_captive_dependencies svcs)
              @ map (capture_finding ''DI003'' disposable_message (Some ''warning'') ''captures transient IDisposable'' locs)
                  (find_captured_transient_disposables svcs)
              @ map (capture_finding ''DI002'' weak_message (Some ''warning'') ''weakly captures scoped service'' locs)
                  (find_weak_captive_dependencies svcs)
              @ map (site_finding ''DI004'' root_message ''leaks transient IDisposable'' locs) (find_explicit_root_resolutions svcs)
              @ map (site_finding ''DI005'' cached_message ''caches scoped service'' locs) (find_scope_cached_captives svcs))))"

section \<open>Effects\<close>

definition binding_of :: "Json \<Rightarrow> Binding option" where
  "binding_of j = (case j of
       JObj b \<Rightarrow>
         (case (dict_get_or b ''name'' (JStr []), dict_get_or b ''init'' (JStr ''unknown''), dict_get_or b ''refs'' (JList [])) of
            (JStr name, JStr init, JList refs) \<Rightarrow>
              map_option (\<lambda>rs. \<lparr>bd_name = str_field b ''name'' ''?'', bd_init = init, bd_refs = rs, bd_line = line_field b\<rparr>) (all_str refs)
          | _ \<Rightarrow> None)
     | _ \<Rightarrow> None)"

fun bindings_of :: "Json list \<Rightarrow> Binding list option" where
  "bindings_of [] = Some []"
| "bindings_of (j # js) = (case (binding_of j, bindings_of js) of (Some b, Some bs) \<Rightarrow> Some (b # bs) | _ \<Rightarrow> None)"

text \<open>A malformed effect is skipped.\<close>

definition effect_of :: "Json \<Rightarrow> ReactEffect list" where
  "effect_of j = (case j of
       JObj e \<Rightarrow>
         (case (dict_get_or e ''deps'' (JList []), dict_get_or e ''io'' (JBool False), dict_get_or e ''bindings'' (JList [])) of
            (JList deps, JBool io, JList binds) \<Rightarrow>
              (case (all_str deps, bindings_of binds) of
                 (Some ds, Some bs) \<Rightarrow> [\<lparr>re_component = str_field e ''component'' ''?'', re_deps = ds, re_io = io, re_bindings = bs,
                    re_file = str_field e ''file'' ''?'', re_line = line_field e\<rparr>]
               | _ \<Rightarrow> [])
          | _ \<Rightarrow> [])
     | _ \<Rightarrow> [])"

definition storm_finding :: "EffectStorm \<Rightarrow> Finding" where
  "storm_finding s =
     (base_finding (JStr (es_file s)) (es_line s) ''EFF001'' (JStr (es_component s)) (JStr (es_dep s)) (JStr []) (storm_message s) ''react effect'')
       \<lparr>fi_flow := (if es_line s \<ge> 1 \<and> es_decl_line s \<ge> 1
          then [(es_file s, es_line s, ''effect re-runs here on '' @ quoted (es_dep s)),
                (es_file s, es_decl_line s, quoted (es_origin s) @ '' gets a fresh identity here'' @ em_dash @ ''stabilise with useMemo'')]
          else [])\<rparr>"

definition effect_findings :: "(string, Json) dict \<Rightarrow> Finding list" where
  "effect_findings facts =
     map storm_finding (find_effect_storms (concat (map effect_of (as_nodes (dict_get_or facts ''effects'' (JList []))))))"

section \<open>Obligation protocols\<close>

text \<open>A malformed entry is skipped, an unhashable one is not caught; of two protocols with one name the first stays.\<close>

fun protocols_of :: "Json list \<Rightarrow> Protocol list \<Rightarrow> Protocol list option" where
  "protocols_of [] ps = Some ps"
| "protocols_of (j # js) ps = (case parse_protocol j of
       Inl (Unhashable v) \<Rightarrow> None
     | Inl (FactsError x y v) \<Rightarrow> protocols_of js ps
     | Inr p \<Rightarrow> protocols_of js (if list_ex (\<lambda>q. pr_name q = pr_name p) ps then ps else ps @ [p]))"

fun methods_of :: "Json list \<Rightarrow> MethodEvents list option" where
  "methods_of [] = Some []"
| "methods_of (j # js) = (case parse_method j False of
       Inl (Unhashable v) \<Rightarrow> None
     | Inl (FactsError x y v) \<Rightarrow> methods_of js
     | Inr m \<Rightarrow> map_option (\<lambda>ms. m # ms) (methods_of js))"

definition obl_code :: "Violation \<Rightarrow> string" where
  "obl_code v = (if vi_kind v = ''barrier'' then (if vi_definite v then ''OBL001'' else ''OBL002'')
     else (if vi_definite v then ''OBL003'' else ''OBL004''))"

definition protocol_message :: "Violation \<Rightarrow> Protocol \<Rightarrow> string" where
  "protocol_message v p =
     (let close = quoted (describe (pr_closes p)); head = ''obligation '' @ quoted (vi_protocol v) @ '' ''
      in if vi_kind v = ''barrier'' then
           head @ (if vi_definite v then ''is still open'' else ''may still be open (open on some path)'')
           @ '' when barrier '' @ quoted (vi_barrier_desc v) @ '' fires in '' @ quoted (vi_method v) @ em_dash @ close @ '' must happen first''
         else
           head @ (if vi_definite v then ''is not closed'' else ''may not be closed (open on some path)'') @ '' when ''
           @ (if vi_barrier_desc v = ''end of method'' then ''the method falls off the end''
              else quoted (vi_method v) @ '' exits via '' @ vi_barrier_desc v)
           @ em_dash @ ''the object is published in its in-between state; close with '' @ close
           @ '' on every path (a finally block covers the throw paths)'')"

text \<open>The segments of a dotted name.\<close>

fun dotted :: "string \<Rightarrow> string list" where
  "dotted [] = [[]]"
| "dotted (c # cs) = (if c = CHR ''.'' then [] # dotted cs
     else (case dotted cs of [] \<Rightarrow> [[c]] | x # xs \<Rightarrow> (c # x) # xs))"

definition owner_of :: "string \<Rightarrow> string" where
  "owner_of m = (if CHR ''.'' \<in> set m then last (butlast (dotted m)) else m)"

definition violation_steps :: "Violation \<Rightarrow> Protocol \<Rightarrow> (int \<times> string) list" where
  "violation_steps v p =
     (vi_open_line v, ''obligation '' @ quoted (vi_protocol v) @ '' opens here ('' @ describe (pr_opens p) @ '')'')
     # (if vi_kind v = ''barrier'' then [(vi_line v, ''barrier '' @ quoted (vi_barrier_desc v) @ '' fires while it is open'')]
        else if vi_line v \<noteq> vi_open_line v then [(vi_line v, ''the method exits here via '' @ vi_barrier_desc v @ '' while it is open'')]
        else [])
     @ (case vi_close_line v of None \<Rightarrow> [] | Some l \<Rightarrow> [(l, ''closed here'' @ em_dash @ ''after the barrier has already fired'')])"

definition violation_finding :: "Protocol list \<Rightarrow> Violation \<Rightarrow> Finding" where
  "violation_finding ps v =
     (let p = the (find (\<lambda>p. pr_name p = vi_protocol v) ps)
      in (base_finding (JStr (vi_file v)) (vi_line v) (obl_code v) (JStr (owner_of (vi_method v))) (JStr (vi_protocol v))
            (JStr (last (dotted (vi_method v)))) (protocol_message v p) ''protocol obligation'')
          \<lparr>fi_flow := map (\<lambda>(ln, label). (vi_file v, ln, label)) (filter (\<lambda>x. fst x \<ge> 1) (violation_steps v p))\<rparr>)"

definition dead_scope_finding :: "Protocol \<Rightarrow> Finding" where
  "dead_scope_finding p =
     (base_finding (JStr ''?'') 0 ''OBL005'' (JStr ''?'') (JStr (pr_name p)) (JStr [])
        (''protocol '' @ quoted (pr_name p) @ '' is scoped to '' @ json_repr (JList (map JStr (sort (remdups (pr_methods p)))))
         @ '' but no reported method matches'' @ em_dash @ ''the rule is dead (typo in scope.methods?)'') ''protocol obligation'')
       \<lparr>fi_advisory := True\<rparr>"

definition protocol_findings :: "(string, Json) dict \<Rightarrow> (BridgeError, Finding list) result option" where
  "protocol_findings facts = (case (dict_get_or facts ''protocols'' (JList []), dict_get_or facts ''protocol_functions'' (JList [])) of
     (JList praw, JList fraw) \<Rightarrow>
       (case (protocols_of praw [], methods_of fraw) of
          (Some ps, Some ms) \<Rightarrow>
            if ps = [] then Some (Inr [])
            else map_option (\<lambda>vs. Inr (map (violation_finding ps) vs @ map dead_scope_finding (unmatched_scopes ps ms)))
                   (check_protocols ps ms)
        | _ \<Rightarrow> Some (Inl Uncaught_type_error))
   | _ \<Rightarrow> Some (Inr []))"

section \<open>Coverage notes\<close>

definition unresolved_of_comp :: "(string, Json) dict \<Rightarrow> Finding list" where
  "unresolved_of_comp c = concat (map (\<lambda>j. case j of
       JObj sub \<Rightarrow>
         if jget sub ''resource'' \<noteq> JStr ''unresolved-subscription'' then []
         else [(base_finding (dict_get_or c ''file'' (JStr ''?'')) (line_field sub) ''OWN050'' (dict_get_or c ''name'' (JStr ''?''))
              (dict_get_or sub ''event'' (JStr ''?'')) (dict_get_or sub ''handler'' (JStr ''?''))
              (''cannot verify '' @ quoted (shown sub ''event'') @ em_dash @ ''its declaring type is an unresolved reference ''
               @ ''(build the project or pass references); leakage analysis skipped'') ''unresolved reference'')
              \<lparr>fi_column := as_col (jget sub ''column''), fi_advisory := True\<rparr>]
     | _ \<Rightarrow> []) (as_nodes (dict_get_or c ''subscriptions'' (JList []))))"

definition unresolved_findings :: "(string, Json) dict \<Rightarrow> Finding list" where
  "unresolved_findings facts = concat (map (\<lambda>j. case j of JObj c \<Rightarrow> unresolved_of_comp c | _ \<Rightarrow> [])
     (as_nodes (dict_get_or facts ''components'' (JList []))))"

definition awaitable_message :: "string \<Rightarrow> string \<Rightarrow> Json \<Rightarrow> string" where
  "awaitable_message local callee rt = ''orphaned awaitable: '' @ quoted local @ '' = '' @ callee
     @ ''(...) is obtained and lost -- never awaited, returned, stored or otherwise observed; the operation still runs (''
     @ (if truthy rt then ''its result '' @ py_str rt @ '' is never released'' else ''there is no result to release'')
     @ ''), its failure is lost, and a transaction / connection lifecycle call leaves the connection in a state nobody can finish. ''
     @ ''Await it and keep the result, return or store it where it is observed, or express fire-and-forget explicitly''"

definition orphaned_awaitable_findings :: "(string, Json) dict \<Rightarrow> Finding list" where
  "orphaned_awaitable_findings facts = concat (map (\<lambda>j. case j of
       JObj it \<Rightarrow> [(base_finding (JStr (str_field it ''file'' ''?'')) (line_field it) ''OWN053'' (JStr (str_field it ''method'' ''?''))
              (JStr (str_field it ''local'' ''?'')) (JStr (str_field it ''callee'' ''?''))
              (awaitable_message (str_field it ''local'' ''?'') (str_field it ''callee'' ''?'') (jget it ''result_type''))
              ''orphaned awaitable'')\<lparr>fi_column := as_col (jget it ''column''), fi_advisory := True\<rparr>]
     | _ \<Rightarrow> []) (as_nodes (dict_get_or facts ''orphaned_awaitables'' (JList []))))"

text \<open>OWN052, for a failed summary inference; \<open>reason\<close> is the text of the exception.\<close>

definition degraded_finding :: "(string, Json) dict \<Rightarrow> string \<Rightarrow> Finding" where
  "degraded_finding facts reason =
     (base_finding (JStr ''?'') 0 ''OWN052'' (JStr (str_field facts ''module'' ''?'')) (JStr []) (JStr [])
        (''interprocedural summary inference failed ('' @ reason @ ''); method summaries skipped'' @ em_dash
         @ ''cross-method ownership transfer was not checked this run'') ''method summaries'')\<lparr>fi_advisory := True\<rparr>"

section \<open>All findings\<close>

text \<open>Findings that differ only in their evidence are one; the sort is stable and reads an absent column as zero.\<close>

definition finding_key :: "Finding \<Rightarrow> Finding" where
  "finding_key f = f\<lparr>fi_related := [], fi_flow := []\<rparr>"

fun dedup :: "Finding list \<Rightarrow> Finding list \<Rightarrow> Finding list" where
  "dedup seen [] = []"
| "dedup seen (f # fs) = (if finding_key f \<in> set seen then dedup seen fs else f # dedup (finding_key f # seen) fs)"

definition sort_place :: "Finding \<Rightarrow> string \<times> int \<times> int \<times> string" where
  "sort_place f = (py_str (fi_file f), fi_line f, (case fi_column f of None \<Rightarrow> 0 | Some c \<Rightarrow> c), fi_code f)"

text \<open>Where each service is registered; iterating a value that is no collection is a \<open>TypeError\<close>.\<close>

fun iterable :: "Json \<Rightarrow> bool" where
  "iterable (JBool b) = (\<not> b)"
| "iterable (JInt i) = (i = 0)"
| "iterable (JFloat t) = (t = ''0.0'' \<or> t = ''-0.0'')"
| "iterable _ = True"

definition service_sites :: "(string, Json) dict \<Rightarrow> (string, string \<times> int) dict" where
  "service_sites facts = foldl (\<lambda>d j. case j of
       JObj s \<Rightarrow> dict_set d (str_field s ''name'' []) (str_field s ''file'' ''?'', line_field s)
     | _ \<Rightarrow> d) [] (as_nodes (jget facts ''services''))"

definition assemble :: "(string, Json) dict \<Rightarrow> string \<Rightarrow> Bridged \<Rightarrow> Diagnostic list \<Rightarrow> (BridgeError, Finding list) result option" where
  "assemble facts reason br ds =
     (if \<not> iterable (jget facts ''services'') then Some (Inl Uncaught_type_error)
      else case core_findings (br_handles br) (service_sites facts) ds of
          Inl e \<Rightarrow> Some (Inl e)
        | Inr core \<Rightarrow>
            (case di_findings facts of
               Inl e \<Rightarrow> Some (Inl e)
             | Inr di \<Rightarrow>
                 map_option (\<lambda>r. rbind r (\<lambda>obl. Inr (sort_key sort_place (dedup [] (core @ di @ effect_findings facts @ obl
                     @ unresolved_findings facts @ orphaned_awaitable_findings facts @ br_notes br
                     @ (if br_degraded br then [degraded_finding facts reason] else []))))))
                   (protocol_findings facts)))"

text \<open>An outer \<open>None\<close>: one of the solvers or the dataflow loop does not return.\<close>

definition check_facts :: "string \<Rightarrow> (string, Json) dict \<Rightarrow> (BridgeError, Finding list) result option" where
  "check_facts reason facts =
     (case to_module facts of
        None \<Rightarrow> None
      | Some (Inl e) \<Rightarrow> Some (Inl (Refused e))
      | Some (Inr br) \<Rightarrow>
          (case check_module (br_module br) of
             None \<Rightarrow> None
           | Some (Inl e) \<Rightarrow> Some (Inl (Engine_failed e))
           | Some (Inr ds) \<Rightarrow> assemble facts reason br ds))"

section \<open>The command\<close>

text \<open>\<open>cmd_ownir\<close>: what is printed, at which level, and the exit code.\<close>

definition active_leaks :: "Finding list \<Rightarrow> Finding list" where
  "active_leaks fs = filter (\<lambda>f. fi_ignore f = None \<and> \<not> fi_advisory f) fs"

definition shown_findings :: "string \<Rightarrow> Finding list \<Rightarrow> Finding list" where
  "shown_findings verbosity fs = (if verbosity = ''quiet'' then active_leaks fs else filter (\<lambda>f. fi_ignore f = None) fs)"

definition shown_severity :: "string \<Rightarrow> Finding \<Rightarrow> string" where
  "shown_severity severity f =
     (if fi_advisory f \<or> severity = ''warning'' \<or> fi_severity f = Some ''warning'' then ''warning'' else severity)"

definition render_human :: "string \<Rightarrow> Finding \<Rightarrow> string" where
  "render_human severity f = py_str (fi_file f) @ '':'' @ int_str (fi_line f) @ '': '' @ severity @ '': ['' @ fi_code f @ ''] ''
     @ fi_message f @ '' [resource: '' @ fi_kind f @ '']''"

definition render_msbuild :: "string \<Rightarrow> Finding \<Rightarrow> string" where
  "render_msbuild severity f = py_str (fi_file f) @ ''('' @ int_str (fi_line f) @ ''): '' @ severity @ '' '' @ fi_code f @ '': ''
     @ fi_message f @ '' [resource: '' @ fi_kind f @ '']''"

definition esc_data :: "string \<Rightarrow> string" where
  "esc_data s = concat (map (\<lambda>c. if c = CHR ''%'' then ''%25'' else if c = CHR 0x0D then ''%0D'' else if c = CHR 0x0A then ''%0A'' else [c]) s)"

definition esc_prop :: "string \<Rightarrow> string" where
  "esc_prop s = concat (map (\<lambda>c. if c = CHR '':'' then ''%3A'' else if c = CHR '','' then ''%2C'' else [c]) (esc_data s))"

definition render_github :: "string \<Rightarrow> Finding \<Rightarrow> string" where
  "render_github severity f = ''::'' @ severity @ '' file='' @ esc_prop (py_str (fi_file f)) @ '',line='' @ int_str (fi_line f)
     @ '',title='' @ esc_prop (fi_code f) @ ''::'' @ esc_data (''['' @ fi_code f @ ''] '' @ fi_message f @ '' [resource: '' @ fi_kind f @ '']'')"

definition render_finding :: "string \<Rightarrow> string \<Rightarrow> Finding \<Rightarrow> string" where
  "render_finding fmt severity f = (if fmt = ''github'' then render_github severity f
     else if fmt = ''msbuild'' then render_msbuild severity f else render_human severity f)"

definition ownir_output :: "string \<Rightarrow> string \<Rightarrow> string \<Rightarrow> Finding list \<Rightarrow> string list" where
  "ownir_output fmt severity verbosity fs =
     map (\<lambda>f. render_finding fmt (shown_severity severity f) f) (shown_findings verbosity fs)"

definition ownir_exit :: "Finding list \<Rightarrow> nat" where
  "ownir_exit fs = (if active_leaks fs \<noteq> [] then 1 else 0)"

end
