(* ===== verification/Own_Load.thy ===== *)
theory Own_Load
  imports Own_Findings
begin

text \<open>
  The strict door of the bridge (\<open>load\<close> of \<open>ownlang/ownir.py\<close>): the shape checks of a facts document,
  from the value the \<open>json\<close> module returns on. The reading of the file, the JSON text and the
  literal \<open>-0\<close>, which the decoded value no longer shows, are left out.
\<close>

section \<open>Outcomes\<close>

text \<open>The refusals of \<open>load\<close> itself, those of the obligation facts it passes on, and the uncaught \<open>TypeError\<close>.\<close>

datatype LoadError = Malformed string | Bad_facts FactsError | Load_crash

fun first_error :: "LoadError option list \<Rightarrow> LoadError option" where
  "first_error [] = None"
| "first_error (x # xs) = (case x of None \<Rightarrow> first_error xs | Some e \<Rightarrow> Some e)"

definition unless :: "bool \<Rightarrow> string \<Rightarrow> LoadError option" where
  "unless ok msg = (if ok then None else Some (Malformed msg))"

definition got :: "Json \<Rightarrow> string" where
  "got v = '', got '' @ json_repr v"

definition spec_section :: string where
  "spec_section = '' (spec/OwnIR.md '' @ [CHR 0xC2, CHR 0xA7] @ ''4.2)''"

section \<open>Coordinates\<close>

definition check_representable :: "int \<Rightarrow> string \<Rightarrow> string \<Rightarrow> LoadError option" where
  "check_representable v what slot = unless (INT64_MIN \<le> v \<and> v \<le> INT64_MAX)
     (what @ '' '' @ quoted slot @ '' must fit a signed 64-bit integer, got '' @ int_str v @ spec_section)"

definition range_text :: "int \<Rightarrow> int \<Rightarrow> int \<Rightarrow> string" where
  "range_text lo hi v = ''['' @ int_str lo @ '', '' @ int_str hi @ ''], got '' @ int_str v @ spec_section"

definition check_line_domain :: "int \<Rightarrow> string \<Rightarrow> string \<Rightarrow> LoadError option" where
  "check_line_domain v what slot = first_error
     [check_representable v what slot,
      unless (LINE_MIN \<le> v \<and> v \<le> LINE_MAX)
        (what @ '' '' @ quoted slot @ '' must be a source line in '' @ range_text LINE_MIN LINE_MAX v)]"

text \<open>An \<open>int\<close> that is no \<open>bool\<close>, within the domain; \<open>shows\<close> tells whether the message quotes the value.\<close>

definition check_line :: "string \<Rightarrow> string \<Rightarrow> bool \<Rightarrow> Json \<Rightarrow> LoadError option" where
  "check_line what slot shows v = (case v of
       JInt i \<Rightarrow> check_line_domain i what slot
     | _ \<Rightarrow> Some (Malformed (what @ '' '' @ quoted slot @ '' must be an integer'' @ (if shows then got v else []))))"

definition line_of :: "(string, Json) dict \<Rightarrow> string \<Rightarrow> Json" where
  "line_of d slot = dict_get_or d slot (JInt 0)"

definition column_shape :: "string \<Rightarrow> Json \<Rightarrow> LoadError option" where
  "column_shape what v = Some (Malformed (what @ '' 'column' must be a 1-based integer or absent'' @ got v))"

definition check_column :: "Json \<Rightarrow> string \<Rightarrow> LoadError option" where
  "check_column v what = (case v of
       JNull \<Rightarrow> None
     | JInt i \<Rightarrow>
         if i < COLUMN_MIN then column_shape what v
         else first_error [check_representable i what ''column'',
                unless (i \<le> COLUMN_MAX) (what @ '' 'column' must be a source column in '' @ range_text COLUMN_MIN COLUMN_MAX i)]
     | _ \<Rightarrow> column_shape what v)"

text \<open>
  The operations of a flow body, through every compound key. \<open>room\<close> is the number of list levels still
  allowed.
\<close>

definition check_op :: "string \<Rightarrow> (string, Json) dict \<Rightarrow> LoadError option" where
  "check_op whr d =
     (let what = whr @ '' op '' @ json_repr (jget d ''op'')
      in first_error [check_line what ''line'' True (line_of d ''line''), check_column (jget d ''column'') what])"

fun check_flow :: "nat \<Rightarrow> string \<Rightarrow> Json \<Rightarrow> LoadError option" where
  "check_flow 0 whr j = unless (\<not> is_list j)
     (whr @ '' nested deeper than '' @ nat_str MAX_NESTING_DEPTH @ '' levels'' @ spec_section)"
| "check_flow (Suc room) whr j = first_error (map (\<lambda>n. case n of
       JObj d \<Rightarrow> first_error (check_op whr d # map (\<lambda>key. check_flow room whr (jget d key)) [''then'', ''else'', ''body''])
     | _ \<Rightarrow> None) (as_nodes j))"

section \<open>Shapes\<close>

fun is_obj :: "Json \<Rightarrow> bool" where
  "is_obj (JObj d) = True"
| "is_obj _ = False"

fun is_str :: "Json \<Rightarrow> bool" where
  "is_str (JStr s) = True"
| "is_str _ = False"

fun is_bool :: "Json \<Rightarrow> bool" where
  "is_bool (JBool b) = True"
| "is_bool _ = False"

fun is_int :: "Json \<Rightarrow> bool" where
  "is_int (JInt i) = True"
| "is_int _ = False"

definition named :: "Json \<Rightarrow> bool" where
  "named v \<longleftrightarrow> is_str v \<and> v \<noteq> JStr []"

definition text_or_null :: "Json \<Rightarrow> bool" where
  "text_or_null v \<longleftrightarrow> v = JNull \<or> is_str v"

text \<open>\<open>isinstance(v, list) and all(isinstance(x, dict) for x in v)\<close>, and the same for strings.\<close>

definition objects :: "Json \<Rightarrow> bool" where
  "objects v \<longleftrightarrow> is_list v \<and> list_all is_obj (as_nodes v)"

definition strings :: "Json \<Rightarrow> bool" where
  "strings v \<longleftrightarrow> is_list v \<and> list_all is_str (as_nodes v)"

fun dicts :: "Json list \<Rightarrow> (string, Json) dict list" where
  "dicts [] = []"
| "dicts (j # js) = (case j of JObj d \<Rightarrow> d # dicts js | _ \<Rightarrow> dicts js)"

definition arr :: "(string, Json) dict \<Rightarrow> string \<Rightarrow> Json" where
  "arr d key = dict_get_or d key (JList [])"

text \<open>A section: an array of objects, each of which is checked in turn.\<close>

definition check_section :: "Json \<Rightarrow> string \<Rightarrow> ((string, Json) dict \<Rightarrow> LoadError option) \<Rightarrow> LoadError option" where
  "check_section v msg f = first_error (unless (objects v) msg # map f (dicts (as_nodes v)))"

section \<open>Components\<close>

definition KNOWN_RESOURCE_KINDS :: "string list" where
  "KNOWN_RESOURCE_KINDS = map fst RESOURCES @ [''capture'', ''unresolved-subscription'']"

definition load_kind :: "Json \<Rightarrow> LoadError option" where
  "load_kind r = (case r of
       JStr k \<Rightarrow> unless (k \<in> set KNOWN_RESOURCE_KINDS)
         (''unknown resource kind '' @ json_repr r @ em_dash @ ''a new kind is a vocabulary change that must bump OWNIR_VERSION (see spec/OwnIR.md ''
          @ [CHR 0xC2, CHR 0xA7] @ ''2)'')
     | _ \<Rightarrow> Some (Malformed (''subscription 'resource' must be a string'' @ got r)))"

definition load_text :: "string \<Rightarrow> (string, Json) dict \<Rightarrow> string \<Rightarrow> LoadError option" where
  "load_text what d key = unless (text_or_null (jget d key)) (what @ '' '' @ quoted key @ '' must be a string'' @ got (jget d key))"

definition load_sub :: "(string, Json) dict \<Rightarrow> LoadError option" where
  "load_sub s = first_error
     ([load_kind (sub_kind s), check_line ''subscription'' ''line'' True (line_of s ''line''),
       check_column (jget s ''column'') ''subscription'']
      @ map (load_text ''subscription'' s) [''type'', ''source_type'', ''source_provenance'', ''ignore_reason''])"

definition load_component :: "(string, Json) dict \<Rightarrow> LoadError option" where
  "load_component c = check_section (arr c ''subscriptions'') ''each component's 'subscriptions' must be objects'' load_sub"

section \<open>Services\<close>

definition DI_LIFETIMES :: "string list" where
  "DI_LIFETIMES = [''scoped'', ''singleton'', ''transient'']"

definition load_lifetime :: "Json \<Rightarrow> LoadError option" where
  "load_lifetime v = (if unhashable v then Some Load_crash
     else unless (v \<in> JStr ` set DI_LIFETIMES)
       (''service 'lifetime' must be one of '' @ json_repr (JList (map JStr DI_LIFETIMES)) @ got v))"

definition load_names :: "string \<Rightarrow> (string, Json) dict \<Rightarrow> string \<Rightarrow> LoadError option" where
  "load_names what d key = unless (strings (arr d key)) (what @ '' '' @ quoted key @ '' must be an array of strings'')"

definition load_str :: "string \<Rightarrow> (string, Json) dict \<Rightarrow> string \<Rightarrow> string \<Rightarrow> LoadError option" where
  "load_str what d key absent = unless (is_str (dict_get_or d key (JStr absent))) (what @ '' '' @ quoted key @ '' must be a string'')"

definition is_site :: "Json \<Rightarrow> bool" where
  "is_site j = (case j of
       JObj x \<Rightarrow> is_str (dict_get_or x ''type'' (JStr [])) \<and> is_str (dict_get_or x ''file'' (JStr ''?'')) \<and> is_int (line_of x ''line'')
     | _ \<Rightarrow> False)"

definition load_sites :: "(string, Json) dict \<Rightarrow> string \<Rightarrow> string \<Rightarrow> LoadError option" where
  "load_sites s key what = first_error
     (unless (is_list (arr s key) \<and> list_all is_site (as_nodes (arr s key)))
        (''service '' @ quoted key @ '' must be an array of {type:str, file:str, line:int} objects'')
      # map (\<lambda>x. check_line what ''line'' True (line_of x ''line'')) (dicts (as_nodes (arr s key))))"

definition load_service :: "(string, Json) dict \<Rightarrow> LoadError option" where
  "load_service s = first_error
     [load_lifetime (jget s ''lifetime''), unless (named (jget s ''name'')) ''service 'name' must be a non-empty string'',
      load_names ''service'' s ''deps'', load_names ''service'' s ''weak_deps'', load_names ''service'' s ''root_resolves'',
      load_str ''service'' s ''file'' ''?'', check_line ''service'' ''line'' False (line_of s ''line''),
      load_str ''service'' s ''ctor_file'' ''?'', check_line ''service'' ''ctor_line'' False (line_of s ''ctor_line''),
      load_str ''service'' s ''ctor_type'' [], load_sites s ''root_resolve_sites'' ''service root_resolve_site'',
      load_names ''service'' s ''scope_cached'', load_sites s ''scope_cache_sites'' ''service scope_cache_site'']"

section \<open>Effects\<close>

definition load_binding :: "(string, Json) dict \<Rightarrow> LoadError option" where
  "load_binding b = first_error
     [load_str ''binding'' b ''name'' [], load_str ''binding'' b ''init'' ''unknown'', load_names ''binding'' b ''refs'',
      check_line ''binding'' ''line'' False (line_of b ''line'')]"

definition load_effect :: "(string, Json) dict \<Rightarrow> LoadError option" where
  "load_effect e = first_error
     [load_names ''effect'' e ''deps'',
      unless (is_bool (dict_get_or e ''io'' (JBool False))) (''effect 'io' must be a boolean'' @ got (dict_get_or e ''io'' (JBool False))),
      check_line ''effect'' ''line'' False (line_of e ''line''),
      check_section (arr e ''bindings'') ''effect 'bindings' must be a JSON array of objects'' load_binding]"

section \<open>Functions\<close>

definition PARAM_EFFECTS :: "string list" where
  "PARAM_EFFECTS = [''borrow'', ''borrow_mut'', ''consume'', ''plain'']"

definition load_param_effect :: "Json \<Rightarrow> LoadError option" where
  "load_param_effect v = (if v = JNull then None else if unhashable v then Some Load_crash
     else unless (v \<in> JStr ` set PARAM_EFFECTS)
       (''parameter 'effect' must be one of '' @ json_repr (JList (map JStr PARAM_EFFECTS)) @ got v))"

definition load_param :: "(string, Json) dict \<Rightarrow> LoadError option" where
  "load_param p = first_error
     [unless (named (jget p ''name'')) (''parameter 'name' must be a non-empty string'' @ got (jget p ''name'')),
      check_line ''parameter'' ''line'' True (line_of p ''line''), check_column (jget p ''column'') ''parameter'',
      load_param_effect (jget p ''effect'')]"

definition load_function :: "(string, Json) dict \<Rightarrow> LoadError option" where
  "load_function f = first_error
     [load_text ''function'' f ''sig'', check_flow (Suc MAX_NESTING_DEPTH) ''function body'' (jget f ''body''),
      check_section (arr f ''params'') ''a function's 'params' must be a JSON array of objects'' load_param]"

section \<open>Obligations and awaitables\<close>

fun load_protocols :: "string list \<Rightarrow> Json list \<Rightarrow> LoadError option" where
  "load_protocols seen [] = None"
| "load_protocols seen (j # js) = (case parse_protocol j of
       Inl (Unhashable v) \<Rightarrow> Some Load_crash
     | Inl e \<Rightarrow> Some (Bad_facts e)
     | Inr p \<Rightarrow>
         if pr_name p \<in> set seen
         then Some (Malformed (''duplicate protocol name '' @ quoted (pr_name p) @ em_dash
                @ ''protocol names are the identity findings map back by and must be unique''))
         else load_protocols (pr_name p # seen) js)"

definition load_method :: "Json \<Rightarrow> LoadError option" where
  "load_method j = (case parse_method j True of
       Inl (Unhashable v) \<Rightarrow> Some Load_crash | Inl e \<Rightarrow> Some (Bad_facts e) | Inr m \<Rightarrow> None)"

definition ORPHAN_FAMILIES :: "string list" where
  "ORPHAN_FAMILIES = [''A_owned_result'', ''B_protocol_lifecycle'']"

definition load_orphan :: "(string, Json) dict \<Rightarrow> LoadError option" where
  "load_orphan o' = (let what = ''orphaned awaitable'' in first_error
     (map (\<lambda>slot. unless (named (jget o' slot)) (what @ '' '' @ quoted slot @ '' must be a non-empty string'' @ got (jget o' slot)))
        [''local'', ''callee'']
      @ [unless (is_str (jget o' ''file'')) (what @ '' 'file' must be a string'' @ got (jget o' ''file'')),
         check_line what ''line'' True (jget o' ''line''), check_column (jget o' ''column'') what,
         unless (text_or_null (jget o' ''method'')) (what @ '' 'method' must be a string or null'' @ got (jget o' ''method'')),
         unless (jget o' ''family'' = JNull \<or> jget o' ''family'' \<in> JStr ` set ORPHAN_FAMILIES)
           (what @ '' 'family' must be one of '' @ json_repr (JList (map JStr ORPHAN_FAMILIES)) @ got (jget o' ''family'')),
         unless (text_or_null (jget o' ''result_type''))
           (what @ '' 'result_type' must be a string or null'' @ got (jget o' ''result_type''))]))"

section \<open>The document\<close>

definition OWNIR_VERSION :: int where "OWNIR_VERSION = 2"

definition load_version :: "Json \<Rightarrow> LoadError option" where
  "load_version v = (case v of
       JInt i \<Rightarrow> unless (i = OWNIR_VERSION)
         (''OwnIR facts are schema v'' @ int_str i @ '', but this core understands v'' @ int_str OWNIR_VERSION
          @ ''. Build the Roslyn extractor and the Python core from the same commit'' @ em_dash
          @ ''the OwnIR fact vocabulary changed between the version that produced this file and the one reading it.'')
     | _ \<Rightarrow> Some (Malformed (''OwnIR 'ownir_version' must be an integer'' @ got v)))"

definition array_of_objects :: "string \<Rightarrow> string" where
  "array_of_objects name = ''OwnIR '' @ quoted name @ '' must be a JSON array of objects''"

definition check_document :: "(string, Json) dict \<Rightarrow> LoadError option" where
  "check_document facts = first_error
     [load_version (dict_get_or facts ''ownir_version'' (JInt OWNIR_VERSION)),
      check_section (arr facts ''components'') (array_of_objects ''components'') load_component,
      check_section (arr facts ''services'') (array_of_objects ''services'') load_service,
      check_section (arr facts ''effects'') (array_of_objects ''effects'') load_effect,
      check_section (arr facts ''functions'') (array_of_objects ''functions'') load_function,
      unless (is_list (arr facts ''protocols'')) (array_of_objects ''protocols''),
      load_protocols [] (as_nodes (arr facts ''protocols'')),
      unless (is_list (arr facts ''protocol_functions'')) (array_of_objects ''protocol_functions''),
      first_error (map load_method (as_nodes (arr facts ''protocol_functions''))),
      check_section (arr facts ''orphaned_awaitables'') (array_of_objects ''orphaned_awaitables'') load_orphan]"

definition load_document :: "Json \<Rightarrow> (LoadError, (string, Json) dict) result" where
  "load_document j = (case j of
       JObj facts \<Rightarrow> (case check_document facts of None \<Rightarrow> Inr facts | Some e \<Rightarrow> Inl e)
     | _ \<Rightarrow> Inl (Malformed ''OwnIR root must be a JSON object''))"

end
