(* ===== verification/Own_Doors.thy ===== *)
theory Own_Doors
  imports Own_Load Own_Facts Own_Paths
begin

text \<open>
  What the strict door guarantees to the rest of the bridge: on a document that \<open>load\<close> accepts, the graph
  checks always return and the lowering refuses nothing but flow bodies.
\<close>

section \<open>Accepted sections\<close>

lemma first_error_None [simp]: "first_error xs = None \<longleftrightarrow> (\<forall>x\<in>set xs. x = None)"
  by (induction xs) (auto split: option.splits)

declare first_error.simps [simp del]

lemma unless_None [simp]: "unless ok msg = None \<longleftrightarrow> ok"
  by (simp add: unless_def)

lemma dicts_set: "d \<in> set (dicts js) \<longleftrightarrow> JObj d \<in> set js"
  by (induction js) (auto split: Json.splits)

lemma check_section_None:
  "check_section v msg f = None \<longleftrightarrow> objects v \<and> (\<forall>d. JObj d \<in> set (as_nodes v) \<longrightarrow> f d = None)"
  by (auto simp: check_section_def dicts_set)

lemma is_list_as_nodes: "is_list v \<Longrightarrow> v = JList (as_nodes v)"
  by (cases v) auto

lemma objectsD: "objects v \<Longrightarrow> v = JList (as_nodes v)" "objects v \<Longrightarrow> j \<in> set (as_nodes v) \<Longrightarrow> \<exists>d. j = JObj d"
  by (auto simp: objects_def is_list_as_nodes list_all_iff elim: is_obj.elims)

lemma all_str_total: "list_all is_str js \<Longrightarrow> \<exists>ss. all_str js = Some ss"
proof (induction js)
  case (Cons j js)
  then show ?case by (cases j) auto
qed simp

lemma strings_names: "strings v \<Longrightarrow> \<exists>ss. names_of v = Some ss"
  by (cases v) (auto simp: strings_def all_str_total)

section \<open>Graph checks\<close>

lemma accepted_names: "load_names what d key = None \<Longrightarrow> \<exists>ss. names_of (dict_get_or d key (JList [])) = Some ss"
  using strings_names by (simp add: load_names_def arr_def)

lemma accepted_service:
  assumes "load_service s = None"
  shows "\<exists>sv. service_of s = Some sv"
proof -
  have names: "load_names ''service'' s ''deps'' = None" "load_names ''service'' s ''weak_deps'' = None"
      "load_names ''service'' s ''root_resolves'' = None" "load_names ''service'' s ''scope_cached'' = None"
    using assms unfolding load_service_def first_error_None by auto
  obtain n1 n2 n3 n4 where "names_of (dict_get_or s ''deps'' (JList [])) = Some n1"
      "names_of (dict_get_or s ''weak_deps'' (JList [])) = Some n2"
      "names_of (dict_get_or s ''root_resolves'' (JList [])) = Some n3"
      "names_of (dict_get_or s ''scope_cached'' (JList [])) = Some n4"
    using names [THEN accepted_names] by blast
  then show ?thesis by (simp add: service_of_def)
qed

lemma accepted_services:
  assumes "\<And>d. JObj d \<in> set js \<Longrightarrow> load_service d = None"
  shows "\<exists>svs. services_of js = Some svs"
  using assms
proof (induction js)
  case (Cons j js)
  then obtain svs where svs: "services_of js = Some svs" by auto
  show ?case
  proof (cases j)
    case (JObj d)
    then obtain sv where "service_of d = Some sv" using Cons.prems [of d] accepted_service by auto
    then show ?thesis using JObj svs by simp
  qed (use svs in simp_all)
qed simp

lemma accepted_protocols: "load_protocols seen js = None \<Longrightarrow> \<exists>ps'. protocols_of js ps = Some ps'"
proof (induction js arbitrary: seen ps)
  case (Cons j js)
  then show ?case by (auto split: sum.splits FactsError.splits if_splits)
qed simp

lemma accepted_method:
  assumes "load_method j = None"
  shows "\<exists>m. parse_method j False = Inr m"
proof -
  obtain m where m: "parse_method j True = Inr m"
    using assms by (auto simp: load_method_def split: sum.splits FactsError.splits)
  then have "parse_method j True = parse_method j False"
    using doors_method [of j] by (simp add: doors_def location_failure_def)
  then show ?thesis using m by metis
qed

lemma accepted_methods:
  assumes "\<And>j. j \<in> set js \<Longrightarrow> load_method j = None"
  shows "\<exists>ms. methods_of js = Some ms"
  using assms
proof (induction js)
  case (Cons j js)
  obtain m where "parse_method j False = Inr m" using Cons.prems accepted_method by auto
  moreover obtain ms where "methods_of js = Some ms" using Cons by auto
  ultimately show ?case by simp
qed simp

lemma accepted_di: "check_document facts = None \<Longrightarrow> \<exists>fs. di_findings facts = Inr fs"
proof -
  assume "check_document facts = None"
  then have "\<exists>svs. services_of (as_nodes (arr facts ''services'')) = Some svs"
    by (intro accepted_services) (simp add: check_document_def check_section_None)
  then show ?thesis by (auto simp: di_findings_def arr_def Let_def)
qed

lemma accepted_obligations: "check_document facts = None \<Longrightarrow> \<exists>fs. protocol_findings facts = Some (Inr fs)"
proof -
  assume ok: "check_document facts = None"
  then have lists: "arr facts ''protocols'' = JList (as_nodes (arr facts ''protocols''))"
      "arr facts ''protocol_functions'' = JList (as_nodes (arr facts ''protocol_functions''))"
    by (auto simp: check_document_def intro: is_list_as_nodes)
  obtain ps where ps: "protocols_of (as_nodes (arr facts ''protocols'')) [] = Some ps"
    using ok accepted_protocols by (fastforce simp: check_document_def)
  obtain ms where ms: "methods_of (as_nodes (arr facts ''protocol_functions'')) = Some ms"
    using ok accepted_methods by (fastforce simp: check_document_def)
  obtain vs where "check_protocols ps ms = Some vs" using check_protocols_exact by blast
  then show ?thesis using lists ps ms unfolding protocol_findings_def arr_def [symmetric]
    by (auto split: Json.splits)
qed

section \<open>Refusals of the lowering\<close>

text \<open>The refusals that are about the shape of the document rather than about a flow body.\<close>

fun about_shape :: "LowerError \<Rightarrow> bool" where
  "about_shape Components_not_array = True"
| "about_shape Component_not_object = True"
| "about_shape Subscriptions_not_array = True"
| "about_shape Subscription_not_object = True"
| "about_shape (Unknown_kind k) = True"
| "about_shape _ = False"

lemma known_routed: "load_kind kind = None \<Longrightarrow> kind \<noteq> JStr ''capture'' \<Longrightarrow> kind \<noteq> JStr ''unresolved-subscription''
    \<Longrightarrow> \<exists>r. route_resource kind = Inr r"
  by (cases kind) (auto simp: load_kind_def KNOWN_RESOURCE_KINDS_def RESOURCES_def route_resource_def dict_get_def)

lemma accepted_classify: "load_sub d = None \<Longrightarrow> \<exists>l. classify lives d = Inr l"
  using known_routed [of "sub_kind d"]
  by (auto simp: load_sub_def classify_def Let_def split: option.splits)

lemma accepted_subs:
  assumes "\<And>j. j \<in> set js \<Longrightarrow> \<exists>d. j = JObj d \<and> load_sub d = None"
  shows "\<exists>r. lower_subs lives cname cfile js s = Inr r"
  using assms
proof (induction js arbitrary: s)
  case (Cons j js)
  obtain d where d: "j = JObj d" "load_sub d = None" using Cons.prems by auto
  obtain l where l: "classify lives d = Inr l" using accepted_classify [OF d(2)] by blast
  obtain c s1 where c: "lower_sub cname cfile d l s = (c, s1)" by fastforce
  obtain c' s2 where "lower_subs lives cname cfile js s1 = Inr (c', s2)" using Cons by (metis list.set_intros(2) surj_pair)
  then show ?case by (simp add: d l c)
qed simp

lemma accepted_components:
  assumes "\<And>j. j \<in> set js \<Longrightarrow> \<exists>d. j = JObj d \<and> load_component d = None" "lower_components lives js s = Inl e"
  shows "e = Type_crash"
  using assms
proof (induction js arbitrary: s)
  case (Cons j js)
  obtain d where d: "j = JObj d" "load_component d = None" using Cons.prems(1) by auto
  define subs where "subs = as_nodes (arr d ''subscriptions'')"
  have subs: "dict_get_or d ''subscriptions'' (JList []) = JList subs"
      "\<And>j. j \<in> set subs \<Longrightarrow> \<exists>d. j = JObj d \<and> load_sub d = None"
    using d(2) objectsD unfolding load_component_def check_section_None arr_def [symmetric] subs_def by blast+
  obtain c s1 where c: "lower_subs lives (comp_name d (lo_gid s)) (dict_get_or d ''file'' (JStr ''?'')) subs s = Inr (c, s1)"
    using accepted_subs [of subs] subs(2) by (metis surj_pair)
  show ?case using Cons.prems(2) Cons.IH [of s1] Cons.prems(1) by (auto simp: d subs(1) c Let_def split: if_splits sum.splits)
qed simp

lemma lower_leaf_refusal: "lower_leaf cx r kill pos op d s = Inl e \<Longrightarrow> \<not> about_shape e"
  by (auto simp: lower_leaf_def lower_call_op_def call_stmts_def Let_def split: if_splits option.splits sum.splits prod.splits)

lemma borrow_head_refusal: "borrow_head cx d s = Inl e \<Longrightarrow> \<not> about_shape e"
  by (auto simp: borrow_head_def split: Json.splits if_splits option.splits)

lemma lower_flow_refusal: "lower_flow cx r kill pos ns s = Inl e \<Longrightarrow> \<not> about_shape e"
proof (induction cx r kill pos ns s arbitrary: e rule: lower_flow.induct)
  case (2 cx r kill pos n ns s)
  show ?case
  proof (cases n)
    case (Leaf_n op d)
    then show ?thesis using 2 by (auto split: sum.splits dest: lower_leaf_refusal)
  next
    case (If_n d t e)
    then show ?thesis using 2 by (auto split: sum.splits)
  next
    case (While_n d b)
    then show ?thesis using 2 by (auto split: sum.splits)
  next
    case (Region_n d b)
    then show ?thesis using 2 by (auto split: sum.splits dest: borrow_head_refusal)
  qed
qed simp

lemma lower_fn_refusal: "lower_fn fc d s = Inl e \<Longrightarrow> \<not> about_shape e"
  by (auto simp: lower_fn_def Let_def split: if_splits option.splits prod.splits sum.splits dest: lower_flow_refusal)

lemma lower_fns_refusal: "lower_fns fc js s = Inl e \<Longrightarrow> \<not> about_shape e"
  by (induction js arbitrary: s) (auto split: option.splits sum.splits dest: lower_fn_refusal)

lemma check_sites_refusal: "check_sites sites = Some e \<Longrightarrow> \<not> about_shape e"
  by (induction sites rule: check_sites.induct) (auto split: if_splits)

lemma judge_sites_refusal: "judge_sites methods solved sites = Some e \<Longrightarrow> \<not> about_shape e"
proof (induction sites)
  case (Cons a sites)
  obtain d ffile r where "a = (d, ffile, r)" by (cases a) auto
  then show ?case using Cons by (auto split: if_splits option.splits)
qed simp

lemma admit_refusal: "admit_proven_calls facts = Some (Some e) \<Longrightarrow> \<not> about_shape e"
  unfolding admit_proven_calls_def
  by (auto simp del: check_sites.simps judge_sites.simps split: list.splits option.splits if_splits sum.splits
      dest: check_sites_refusal judge_sites_refusal)

lemma bridge_refusal:
  assumes "check_document facts = None" "bridge facts raw sums = Inl e"
  shows "\<not> about_shape e"
proof -
  define comps where "comps = as_nodes (arr facts ''components'')"
  have comps: "dict_get_or facts ''components'' (JList []) = JList comps"
      "\<And>j. j \<in> set comps \<Longrightarrow> \<exists>d. j = JObj d \<and> load_component d = None"
    using assms(1) objectsD unfolding check_document_def check_section_None comps_def arr_def [symmetric]
    by (simp_all add: check_section_None) blast+
  have "\<not> about_shape e'" if "lower_components lives comps s = Inl e'" for lives s e'
    using accepted_components [OF comps(2) that] by simp
  then show ?thesis using assms(2)
    by (auto simp: bridge_def comps(1) Let_def split: option.splits sum.splits dest: lower_fns_refusal)
qed

lemma accepted_lowering: "check_document facts = None \<Longrightarrow> to_module facts = Some (Inl e) \<Longrightarrow> \<not> about_shape e"
  by (auto simp: to_module_def Let_def split: option.splits dest: admit_refusal bridge_refusal)

section \<open>The loaded document\<close>

lemma load_documentD: "load_document j = Inr facts \<Longrightarrow> check_document facts = None"
  by (auto simp: load_document_def split: Json.splits option.splits)

end
