(* ===== verification/Own_Attribution.thy ===== *)
theory Own_Attribution
  imports Own_Module Own_Roundtrip "HOL-Library.Multiset"
begin

text \<open>
  The handles of a lowered module: what the lowering binds is numbered without repetition, and every handle
  stands for a fact of the function that binds it. \<open>grows\<close> is the step that every stage of the lowering
  makes on the handle counter and table; stages compose.
\<close>

section \<open>Names\<close>

definition HANDLES :: "string set" where
  "HANDLES = {''sub_'', ''cap_'', ''loc_'', ''parg_'', ''brw_''}"

lemma nat_str_inject [simp]: "nat_str n = nat_str m \<longleftrightarrow> n = m"
  by (metis nat_str_digits of_nat_eq_iff)

lemma handle_inject:
  assumes "p \<in> HANDLES" "q \<in> HANDLES"
  shows "p @ nat_str n = q @ nat_str m \<longleftrightarrow> p = q \<and> n = m"
  using assms by (auto simp: HANDLES_def)

text \<open>The names a body binds, in order.\<close>

fun binders :: "Stmt list \<Rightarrow> string list" where
  "binders [] = []"
| "binders (st # ss) = (case st of
       Let_s x e l \<Rightarrow> [x]
     | AliasJoin_s x y l \<Rightarrow> [x]
     | BorrowBlock_s y x k b l \<Rightarrow> x # binders b
     | If_s c t e l \<Rightarrow> binders t @ binders e
     | While_s c b l \<Rightarrow> binders b
     | _ \<Rightarrow> []) @ binders ss"

lemma binders_append [simp]: "binders (xs @ ys) = binders xs @ binders ys"
  by (induction xs) simp_all

definition bound_names :: "FnDecl \<Rightarrow> string list" where
  "bound_names f = map pa_name (fd_params f) @ binders (fd_body f)"

section \<open>Steps on the handle table\<close>

text \<open>The names with a prefix of \<open>P\<close> and a number from \<open>lo\<close> up to \<open>hi\<close>.\<close>

definition handles_between :: "string set \<Rightarrow> nat \<Rightarrow> nat \<Rightarrow> string set" where
  "handles_between P lo hi = {p @ nat_str n | p n. p \<in> P \<and> lo \<le> n \<and> n < hi}"

text \<open>A name stands for a fact of the function \<open>c\<close>, or is the binding of a borrow, which has no fact.\<close>

definition attributed :: "(string, Fact) dict \<Rightarrow> string \<Rightarrow> string \<Rightarrow> bool" where
  "attributed H c b \<longleftrightarrow> (\<exists>ft. dict_get H b = Some ft \<and> py_str (jget ft ''component'') = c) \<or> (\<exists>n. b = ''brw_'' @ nat_str n)"

definition numbered :: "string set \<Rightarrow> nat \<Rightarrow> nat \<Rightarrow> string list \<Rightarrow> bool" where
  "numbered P lo hi bs \<longleftrightarrow> lo \<le> hi \<and> distinct bs \<and> set bs \<subseteq> handles_between P lo hi"

text \<open>A stage binds names for functions, records a fact for each and leaves the rest of the table alone.\<close>

definition grows :: "string set \<Rightarrow> (string \<times> string) list \<Rightarrow> nat \<times> (string, Fact) dict \<Rightarrow> nat \<times> (string, Fact) dict \<Rightarrow> bool" where
  "grows P bcs s s' \<longleftrightarrow> numbered P (fst s) (fst s') (map fst bcs)
     \<and> (\<forall>(b, c)\<in>set bcs. attributed (snd s') c b)
     \<and> (\<forall>k. k \<notin> handles_between P (fst s) (fst s') \<longrightarrow> dict_get (snd s') k = dict_get (snd s) k)"

definition owned_by :: "string \<Rightarrow> string list \<Rightarrow> (string \<times> string) list" where
  "owned_by c bs = map (\<lambda>b. (b, c)) bs"

lemma owned_by [simp]: "owned_by c [] = []" "owned_by c (b # bs) = (b, c) # owned_by c bs"
    "owned_by c (bs @ bs') = owned_by c bs @ owned_by c bs'"
  by (simp_all add: owned_by_def)

lemma handles_betweenI: "p \<in> P \<Longrightarrow> lo \<le> n \<Longrightarrow> n < hi \<Longrightarrow> p @ nat_str n \<in> handles_between P lo hi"
  unfolding handles_between_def by blast

lemma handles_between_mono:
  assumes "lo' \<le> lo" "hi \<le> hi'"
  shows "handles_between P lo hi \<subseteq> handles_between P lo' hi'"
proof
  fix x assume "x \<in> handles_between P lo hi"
  then obtain p n where "p \<in> P" "lo \<le> n" "n < hi" "x = p @ nat_str n" by (auto simp: handles_between_def)
  then show "x \<in> handles_between P lo' hi'" using assms handles_betweenI [of p P lo' n hi'] by simp
qed

lemma handles_between_apart:
  assumes "P \<subseteq> HANDLES" "hi \<le> lo'"
  shows "handles_between P lo hi \<inter> handles_between P lo' hi' = {}"
proof -
  have False if x: "x \<in> handles_between P lo hi" "x \<in> handles_between P lo' hi'" for x
  proof -
    obtain p n where p: "p \<in> P" "n < hi" "x = p @ nat_str n" using x(1) unfolding handles_between_def by blast
    obtain q m where q: "q \<in> P" "lo' \<le> m" "x = q @ nat_str m" using x(2) unfolding handles_between_def by blast
    have "n = m" using handle_inject [of p q n m] p q assms(1) by (metis subsetD)
    then show False using p q assms(2) by simp
  qed
  then show ?thesis by blast
qed

lemma grows_refl [simp]: "grows P [] s s"
  by (simp add: grows_def numbered_def)

lemma stage_trans:
  assumes P: "P \<subseteq> HANDLES" and 1: "grows P bcs s s1" and 2: "grows P bcs' s1 s2"
  shows "grows P (bcs @ bcs') s s2"
proof -
  have le: "fst s \<le> fst s1" "fst s1 \<le> fst s2" using 1 2 by (simp_all add: grows_def numbered_def)
  have sub: "handles_between P (fst s) (fst s1) \<subseteq> handles_between P (fst s) (fst s2)"
      "handles_between P (fst s1) (fst s2) \<subseteq> handles_between P (fst s) (fst s2)"
    by (rule handles_between_mono; simp add: le)+
  have apart: "handles_between P (fst s) (fst s1) \<inter> handles_between P (fst s1) (fst s2) = {}"
    by (rule handles_between_apart [OF P]) simp
  have kept: "attributed (snd s2) c b" if "(b, c) \<in> set bcs" for b c
  proof -
    have "b \<in> handles_between P (fst s) (fst s1)" "attributed (snd s1) c b"
      using 1 that by (auto simp: grows_def numbered_def)
    then show ?thesis using apart 2 by (auto simp: grows_def attributed_def)
  qed
  have n1: "distinct (map fst bcs)" "set (map fst bcs) \<subseteq> handles_between P (fst s) (fst s1)"
    using 1 by (simp_all add: grows_def numbered_def)
  have n2: "distinct (map fst bcs')" "set (map fst bcs') \<subseteq> handles_between P (fst s1) (fst s2)"
    using 2 by (simp_all add: grows_def numbered_def)
  have "set (map fst bcs) \<inter> set (map fst bcs') = {}" using n1(2) n2(2) apart by blast
  then have num: "numbered P (fst s) (fst s2) (map fst (bcs @ bcs'))"
    unfolding numbered_def map_append distinct_append set_append
    by (intro conjI Un_least n1(1) n2(1) subset_trans [OF n1(2) sub(1)] subset_trans [OF n2(2) sub(2)] order_trans [OF le])
  have frame: "dict_get (snd s2) k = dict_get (snd s) k" if "k \<notin> handles_between P (fst s) (fst s2)" for k
  proof -
    have "k \<notin> handles_between P (fst s) (fst s1)" "k \<notin> handles_between P (fst s1) (fst s2)" using that sub by blast+
    then show ?thesis using 1 2 by (simp add: grows_def)
  qed
  have "\<forall>(b, c)\<in>set bcs'. attributed (snd s2) c b" using 2 unfolding grows_def by blast
  then have "\<forall>(b, c)\<in>set (bcs @ bcs'). attributed (snd s2) c b" using kept by auto
  then show ?thesis unfolding grows_def using num frame by blast
qed

text \<open>One fresh handle with its fact, and a number spent on a name without a fact.\<close>

lemma grows_fresh:
  assumes "p \<in> P" "py_str (jget ft ''component'') = c"
  shows "grows P [(p @ nat_str n, c)] (n, H) (Suc n, dict_set H (p @ nat_str n) ft)"
  using assms handles_betweenI [of p P n n "Suc n"] by (auto simp: grows_def numbered_def attributed_def)

lemma grows_borrow:
  assumes "p \<in> P" "p = ''brw_''"
  shows "grows P [(p @ nat_str n, c)] (n, H) (Suc n, H)"
  using handles_betweenI [OF assms(1), of n n "Suc n"] unfolding assms(2) [symmetric]
  by (auto simp: grows_def numbered_def attributed_def assms(2) [symmetric])

section \<open>Flow bodies\<close>

definition FLOW_HANDLES :: "string set" where
  "FLOW_HANDLES = {''loc_'', ''parg_'', ''brw_''}"

lemma FLOW_HANDLES [simp]: "FLOW_HANDLES \<subseteq> HANDLES" "''loc_'' \<in> FLOW_HANDLES" "''parg_'' \<in> FLOW_HANDLES" "''brw_'' \<in> FLOW_HANDLES"
  by (auto simp: FLOW_HANDLES_def HANDLES_def)

definition table :: "Low \<Rightarrow> nat \<times> (string, Fact) dict" where
  "table s = (lw_loc s, lw_handles s)"

definition flows :: "string \<Rightarrow> string list \<Rightarrow> Low \<Rightarrow> Low \<Rightarrow> bool" where
  "flows c bs s s' \<longleftrightarrow> grows FLOW_HANDLES (owned_by c bs) (table s) (table s')"

lemma flows_refl: "table s' = table s \<Longrightarrow> flows c [] s s'"
  by (simp add: flows_def)

lemma flows_trans: "flows c bs s s1 \<Longrightarrow> flows c bs' s1 s2 \<Longrightarrow> flows c (bs @ bs') s s2"
  unfolding flows_def owned_by(3) by (rule stage_trans) simp_all

lemma flows_table: "flows c bs s s' \<Longrightarrow> table s1 = table s \<Longrightarrow> table s2 = table s' \<Longrightarrow> flows c bs s1 s2"
  by (simp add: flows_def)

lemma table_unbind [simp]: "table (unbind name s) = table s"
  by (simp add: table_def unbind_def)

lemma table_bind_borrow: "table (bind_borrow bname h s) = (Suc (lw_loc s), lw_handles s)"
  by (simp add: table_def bind_borrow_def)

lemma flows_unbind [simp]: "flows c bs (unbind name s) s' = flows c bs s s'"
  by (simp add: flows_def)

lemma local_fact_component [simp]: "py_str (jget (local_fact cx name line col pool) ''component'') = lc_name cx"
  by (simp add: local_fact_def jget_def dict_get_or_def dict_get_def)

lemma flows_mint: "mint cx name line col pool s = (h, s') \<Longrightarrow> flows (lc_name cx) [h] s s'"
  using grows_fresh [of "''loc_''" FLOW_HANDLES "local_fact cx name line col pool" "lc_name cx" "lw_loc s" "lw_handles s"]
  by (auto simp: mint_def Let_def flows_def table_def fresh_handle_def)

lemma flows_acquire: "lower_acquire cx d s = (ss, s') \<Longrightarrow> flows (lc_name cx) (binders ss) s s'"
  by (auto simp: lower_acquire_def Let_def acquire_stmt_def flows_refl split: if_splits prod.splits dest: flows_mint)

lemma flows_takeover:
  assumes "lower_takeover cx mk d s = (ss, s')" "\<And>h src l. binders [mk h src l] = [h]"
  shows "flows (lc_name cx) (binders ss) s s'"
proof -
  have nil: "binders [] = []" by simp
  show ?thesis using assms by (auto simp: lower_takeover_def Let_def flows_refl nil split: if_splits prod.splits option.splits
      simp del: binders.simps(2) dest!: flows_mint)
qed

lemma flows_kill: "kill_args kill p line as s = (ss, s') \<Longrightarrow> binders ss = [] \<and> table s' = table s"
  by (induction kill p line as s arbitrary: ss s' rule: kill_args.induct)
     (auto split: if_splits prod.splits option.splits)

lemma flows_bind: "bind_result cx d s = (ss, s') \<Longrightarrow> flows (lc_name cx) (binders ss) s s'"
  by (auto simp: bind_result_def Let_def acquire_stmt_def flows_refl split: if_splits prod.splits option.splits
      dest!: flows_mint)

lemma call_stmts_binders: "call_stmts cx r d s = Inr ss \<Longrightarrow> binders ss = []"
proof -
  have chan: "binders (channel_calls cx summ as line s) = []" for summ as line
  proof -
    have "binders (concat xss) = []" if "\<And>xs. xs \<in> set xss \<Longrightarrow> binders xs = []" for xss
      using that by (induction xss) auto
    then show ?thesis unfolding channel_calls_def by (rule meta_mp) (auto split: option.splits if_splits)
  qed
  assume "call_stmts cx r d s = Inr ss"
  then show ?thesis by (auto simp: call_stmts_def Let_def chan split: option.splits if_splits prod.splits)
qed

lemma flows_call: "lower_call_op cx r kill p d s = Inr (ss, s') \<Longrightarrow> flows (lc_name cx) (binders ss) s s'"
proof -
  assume a: "lower_call_op cx r kill p d s = Inr (ss, s')"
  then obtain stmts where st: "call_stmts cx r d s = Inr stmts" by (auto simp: lower_call_op_def split: sum.splits)
  define ks where "ks = (case list_args d of None \<Rightarrow> ([], s) | Some as \<Rightarrow> kill_args kill p (line_field d) as s)"
  obtain killed s1 where k: "ks = (killed, s1)" by fastforce
  obtain bnd s2 where b: "bind_result cx d s1 = (bnd, s2)" by fastforce
  have eq: "ss = stmts @ killed @ bnd" "s' = s2" using a by (simp_all add: lower_call_op_def st k b ks_def [symmetric])
  have "binders killed = [] \<and> table s1 = table s"
    using k unfolding ks_def by (auto split: option.splits dest: flows_kill)
  then show ?thesis using flows_bind [OF b] call_stmts_binders [OF st] by (auto simp: eq intro: flows_table)
qed

lemma flows_leaf: "lower_leaf cx r kill p op d s = Inr (ss, s') \<Longrightarrow> flows (lc_name cx) (binders ss) s s'"
  by (auto simp: lower_leaf_def on_tracked_def lower_return_op_def flows_refl split: if_splits option.splits
      intro: flows_acquire flows_takeover flows_call)

lemma flows_body: "lower_flow cx r kill p ns s = Inr (ss, s') \<Longrightarrow> flows (lc_name cx) (binders ss) s s'"
proof (induction cx r kill p ns s arbitrary: ss s' rule: lower_flow.induct)
  case (1 cx r kill p s)
  then show ?case by (simp add: flows_refl)
next
  case (2 cx r kill p n ns s)
  obtain xs s1 ys where tl: "lower_flow cx r kill (Suc p) ns s1 = Inr (ys, s')" "ss = xs @ ys"
    and hd: "(case n of
          Leaf_n op d \<Rightarrow> lower_leaf cx r kill p op d s
        | If_n d t e \<Rightarrow>
            (case lower_flow cx r [] 0 t s of
               Inl err \<Rightarrow> Inl err
             | Inr (then_b, s1) \<Rightarrow>
                 (case lower_flow cx r [] 0 e s1 of
                    Inl err \<Rightarrow> Inl err
                  | Inr (else_b, s2) \<Rightarrow> Inr ([If_s ''?'' then_b else_b (line_field d)], s2)))
        | While_n d b \<Rightarrow>
            (case lower_flow cx r [] 0 b s of
               Inl err \<Rightarrow> Inl err
             | Inr (body_b, s1) \<Rightarrow> Inr ([While_s ''?'' body_b (line_field d)], s1))
        | Region_n d b \<Rightarrow>
            (case borrow_head cx d s of
               Inl err \<Rightarrow> Inl err
             | Inr (owner_h, bname) \<Rightarrow>
                 (case lower_flow cx True [] 0 b (bind_borrow bname (fresh_handle ''brw_'' s) s) of
                    Inl err \<Rightarrow> Inl err
                  | Inr (body_b, s1) \<Rightarrow>
                      Inr ([BorrowBlock_s owner_h (fresh_handle ''brw_'' s) MUT_k body_b (line_field d)],
                           restore bname (dict_get (lw_map s) bname) s1)))) = Inr (xs, s1)"
    using 2(6) unfolding lower_flow.simps by (auto split: sum.splits prod.splits)
  have rest: "flows (lc_name cx) (binders ys) s1 s'" using 2(5) hd tl(1) by fastforce
  have "flows (lc_name cx) (binders xs) s s1"
  proof (cases n)
    case (Leaf_n op d)
    then show ?thesis using hd by (simp add: flows_leaf)
  next
    case (If_n d t e)
    then obtain tb s2 eb where t: "lower_flow cx r [] 0 t s = Inr (tb, s2)" and e: "lower_flow cx r [] 0 e s2 = Inr (eb, s1)"
      and xs: "xs = [If_s ''?'' tb eb (line_field d)]" using hd by (auto split: sum.splits)
    show ?thesis using flows_trans [OF 2(1) [OF If_n t] 2(2) [OF If_n t refl e]] by (simp add: xs)
  next
    case (While_n d b)
    then show ?thesis using hd 2(3) [OF While_n] by (auto split: sum.splits)
  next
    case (Region_n d b)
    then obtain oh bn bb s2 where o: "borrow_head cx d s = Inr (oh, bn)"
      and b: "lower_flow cx True [] 0 b (bind_borrow bn (fresh_handle ''brw_'' s) s) = Inr (bb, s2)"
      and xs: "xs = [BorrowBlock_s oh (fresh_handle ''brw_'' s) MUT_k bb (line_field d)]" "s1 = restore bn (dict_get (lw_map s) bn) s2"
      using hd by (auto split: sum.splits)
    have "flows (lc_name cx) [fresh_handle ''brw_'' s] s (bind_borrow bn (fresh_handle ''brw_'' s) s)"
      unfolding flows_def table_bind_borrow unfolding table_def fresh_handle_def owned_by by (rule grows_borrow) (rule FLOW_HANDLES refl)+
    from flows_trans [OF this 2(4) [OF Region_n o refl b]] show ?thesis
      by (auto simp: xs table_def restore_def unbind_def elim!: flows_table split: option.splits)
  qed
  then show ?case using flows_trans [OF _ rest] by (simp add: tl(2))
qed

section \<open>Functions\<close>

lemma flows_hoisted: "declare_hoisted cx hoist names s = (ss, s') \<Longrightarrow> flows (lc_name cx) (binders ss) s s'"
proof (induction names arbitrary: s ss)
  case (Cons name names)
  obtain line col pool where h: "dict_get_or hoist name (0, None, False) = (line, col, pool)" by (cases "dict_get_or hoist name (0, None, False)")
  obtain x s1 where m: "mint cx name line col pool s = (x, s1)" by fastforce
  obtain ys s2 where r: "declare_hoisted cx hoist names s1 = (ys, s2)" by fastforce
  show ?case using Cons.prems flows_trans [OF flows_mint [OF m] Cons.IH [of s1 ys]] r
    by (auto simp: h m acquire_stmt_def)
qed (simp add: flows_refl)

lemma param_fact_component [simp]: "py_str (jget (param_fact cx name p) ''component'') = lc_name cx"
  by (simp add: param_fact_def jget_def dict_get_or_def dict_get_def)

lemma flows_params: "lower_fn_params cx f i ps s = (ss, s') \<Longrightarrow> flows (lc_name cx) (map pa_name ss) s s'"
proof (induction cx f i ps s arbitrary: ss s' rule: lower_fn_params.induct)
  case (3 cx f i p ps s)
  define h where "h = fresh_handle ''parg_'' s"
  define s1 where "s1 = s\<lparr>lw_loc := Suc (lw_loc s), lw_map := dict_set (lw_map s) (param_name p) h,
                 lw_handles := dict_set (lw_handles s) h (param_fact cx (param_name p) p)\<rparr>"
  obtain rest s2 where r: "lower_fn_params cx f (Suc i) ps s1 = (rest, s2)" by fastforce
  have s1: "table s1 = (Suc (lw_loc s), dict_set (lw_handles s) h (param_fact cx (param_name p) p))"
    by (simp add: table_def s1_def)
  have "flows (lc_name cx) [h] s s1"
    unfolding flows_def s1 unfolding table_def h_def fresh_handle_def owned_by by (rule grows_fresh) simp_all
  from flows_trans [OF this 3(1) [OF h_def s1_def r]] show ?case
    using 3(2) r by (auto simp: h_def [symmetric] s1_def [symmetric])
qed (auto simp: flows_refl)

lemma flows_fresh_map [simp]: "flows c bs (s\<lparr>lw_map := m\<rparr>) s' = flows c bs s s'"
  by (simp add: flows_def table_def)

lemma flows_trans3: "flows c bs s s1 \<Longrightarrow> flows c bs' s1 s2 \<Longrightarrow> flows c bs'' s2 s3 \<Longrightarrow> flows c (bs @ bs' @ bs'') s s3"
  by (intro flows_trans)

lemma flows_fn: "lower_fn fc d s = Inr (f, notes, s') \<Longrightarrow> flows (fd_name f) (bound_names f) s s'"
  by (auto simp: lower_fn_def Let_def bound_names_def split: if_splits option.splits sum.splits prod.splits
      dest!: flows_params flows_hoisted flows_body intro: flows_trans3)

definition fn_bound :: "FnDecl list \<Rightarrow> (string \<times> string) list" where
  "fn_bound fs = concat (map (\<lambda>f. owned_by (fd_name f) (bound_names f)) fs)"

lemma fn_bound [simp]: "fn_bound [] = []" "fn_bound (f # fs) = owned_by (fd_name f) (bound_names f) @ fn_bound fs"
    "fn_bound (fs @ fs') = fn_bound fs @ fn_bound fs'"
  by (simp_all add: fn_bound_def)

lemma flows_fns: "lower_fns fc js s = Inr (fs, ns, s') \<Longrightarrow> grows FLOW_HANDLES (fn_bound fs) (table s) (table s')"
proof (induction js arbitrary: s fs ns)
  case (Cons j js)
  show ?case
  proof (cases "as_dict j")
    case None
    then show ?thesis using Cons by simp
  next
    case (Some d)
    then obtain f n1 s1 fs' n2 where f: "lower_fn fc d s = Inr (f, n1, s1)" and r: "lower_fns fc js s1 = Inr (fs', n2, s')"
      and fs: "fs = f # fs'" using Cons.prems by (auto split: sum.splits)
    show ?thesis unfolding fs fn_bound
      by (rule stage_trans [OF _ flows_fn [OF f, unfolded flows_def] Cons.IH [OF r]]) simp
  qed
qed simp

section \<open>Components\<close>

definition COMP_HANDLES :: "string set" where
  "COMP_HANDLES = {''sub_'', ''cap_''}"

lemma COMP_HANDLES [simp]: "COMP_HANDLES \<subseteq> HANDLES" "''sub_'' \<in> COMP_HANDLES" "''cap_'' \<in> COMP_HANDLES"
  by (auto simp: COMP_HANDLES_def HANDLES_def)

definition gtable :: "Lowered \<Rightarrow> nat \<times> (string, Fact) dict" where
  "gtable s = (lo_gid s, lo_handles s)"

lemma sub_fact_component: "''component'' \<notin> fst ` set extra \<Longrightarrow> jget (sub_fact d cname cfile extra) ''component'' = cname"
proof -
  have *: "jget (foldl (\<lambda>f (k, v). dict_set f k v) m extra) ''component'' = jget m ''component''"
    if "''component'' \<notin> fst ` set extra" for m
    using that by (induction extra arbitrary: m) (auto simp: jget_def)
  assume "''component'' \<notin> fst ` set extra"
  then show ?thesis by (simp add: sub_fact_def *) (simp add: jget_def)
qed

lemma classify_extra: "classify lives d = Inr (Capture_l region extra) \<Longrightarrow> ''component'' \<notin> fst ` set extra"
  by (auto simp: classify_def Let_def split: if_splits option.splits sum.splits)

definition comp_bound :: "CompBody \<Rightarrow> string list" where
  "comp_bound c = map pa_name (cb_params c) @ binders (cb_body c)"

lemma gtable_sub:
  assumes "classify lives d = Inr l" "lower_sub cname cfile d l s = (c, s')"
  shows "grows COMP_HANDLES (owned_by (py_str cname) (comp_bound c)) (gtable s) (gtable s')"
proof (cases l)
  case Skip_l
  then show ?thesis using assms(2) by (auto simp: lower_sub_def Let_def comp_bound_def)
next
  case (Capture_l region extra)
  define h where "h = ''cap_'' @ nat_str (lo_gid s)"
  have c: "comp_bound c = [h]" and s': "gtable s' = (Suc (lo_gid s), dict_set (lo_handles s) h (sub_fact d cname cfile extra))"
    using assms(2) by (auto simp: lower_sub_def Let_def Capture_l comp_bound_def gtable_def h_def)
  show ?thesis unfolding c s' unfolding h_def gtable_def owned_by
    by (rule grows_fresh) (use classify_extra assms(1) Capture_l in \<open>auto simp: sub_fact_component\<close>)
next
  case (Own_l rtype released)
  define h where "h = ''sub_'' @ nat_str (lo_gid s)"
  have c: "comp_bound c = [h]" and s': "gtable s' = (Suc (lo_gid s), dict_set (lo_handles s) h (sub_fact d cname cfile []))"
    using assms(2) by (auto simp: lower_sub_def Let_def Own_l comp_bound_def gtable_def h_def)
  show ?thesis unfolding c s' unfolding h_def gtable_def owned_by
    by (rule grows_fresh) (simp_all add: sub_fact_component)
qed

lemma gtable_subs:
  "lower_subs lives cname cfile js s = Inr (c, s') \<Longrightarrow> \<exists>bs. mset bs = mset (comp_bound c)
     \<and> grows COMP_HANDLES (owned_by (py_str cname) bs) (gtable s) (gtable s')"
proof (induction js arbitrary: s c)
  case Nil
  then show ?case by (auto simp: comp_bound_def)
next
  case (Cons j js)
  obtain d where d: "j = JObj d" using Cons.prems by (cases j) auto
  obtain l where l: "classify lives d = Inr l" using Cons.prems by (auto simp: d split: sum.splits)
  obtain c1 s1 where 1: "lower_sub cname cfile d l s = (c1, s1)" by fastforce
  obtain c2 where 2: "lower_subs lives cname cfile js s1 = Inr (c2, s')"
    and c: "c = \<lparr>cb_body = cb_body c1 @ cb_body c2, cb_params = cb_params c1 @ cb_params c2\<rparr>"
    using Cons.prems by (auto simp: d l 1 split: sum.splits)
  obtain bs where bs: "mset bs = mset (comp_bound c2)" "grows COMP_HANDLES (owned_by (py_str cname) bs) (gtable s1) (gtable s')"
    using Cons.IH [OF 2] by blast
  have "grows COMP_HANDLES (owned_by (py_str cname) (comp_bound c1 @ bs)) (gtable s) (gtable s')"
    unfolding owned_by(3) by (rule stage_trans [OF _ gtable_sub [OF l 1] bs(2)]) simp
  moreover have "mset (comp_bound c1 @ bs) = mset (comp_bound c)" by (simp add: bs(1) c comp_bound_def)
  ultimately show ?case by blast
qed

lemma grows_mset: "mset bcs = mset bcs' \<Longrightarrow> grows P bcs s s' \<Longrightarrow> grows P bcs' s s'"
  unfolding grows_def numbered_def by (metis mset_map mset_eq_imp_distinct_iff mset_eq_setD)

lemma owned_by_mset: "mset bs = mset bs' \<Longrightarrow> mset (owned_by c bs) = mset (owned_by c bs')"
  by (simp add: owned_by_def)

lemma gtable_components:
  "lower_components lives js s = Inr (fs, s') \<Longrightarrow> grows COMP_HANDLES (fn_bound fs) (gtable s) (gtable s')"
proof (induction js arbitrary: s fs)
  case (Cons j js)
  obtain d where d: "j = JObj d" using Cons.prems by (cases j) auto
  define cname where "cname = comp_name d (lo_gid s)"
  obtain subs c s1 where c: "lower_subs lives cname (dict_get_or d ''file'' (JStr ''?'')) subs s = Inr (c, s1)"
    and r: "\<exists>fs'. lower_components lives js s1 = Inr (fs', s')
      \<and> (\<exists>f. fs = f # fs' \<and> fd_name f = py_str cname \<and> fd_params f = cb_params c \<and> fd_body f = cb_body c)"
    using Cons.prems by (auto simp: d cname_def Let_def split: if_splits Json.splits sum.splits)
  obtain f fs' where fs: "fs = f # fs'" "lower_components lives js s1 = Inr (fs', s')" "fd_name f = py_str cname" "bound_names f = comp_bound c"
    using r by (auto simp: bound_names_def comp_bound_def)
  have g: "grows COMP_HANDLES (owned_by (py_str cname) (comp_bound c)) (gtable s) (gtable s1)"
    using gtable_subs [OF c] by (blast intro: grows_mset owned_by_mset)
  show ?case unfolding fs(1) fn_bound fs(3,4)
    by (rule stage_trans [OF _ g Cons.IH [OF fs(2)]]) simp
qed simp

section \<open>The module\<close>

lemma bridge_bound:
  assumes "bridge facts raw sums = Inr br"
  shows "distinct (map fst (fn_bound (md_functions (br_module br))))
    \<and> (\<forall>(b, c)\<in>set (fn_bound (md_functions (br_module br))). attributed (br_handles br) c b)"
proof -
  obtain lives comps cfns lo fc fns ns s where
    c: "lower_components lives comps \<lparr>lo_handles = [], lo_gid = 0, lo_capture = False\<rparr> = Inr (cfns, lo)"
    and f: "lower_fns fc raw \<lparr>lw_handles = lo_handles lo, lw_loc = 0, lw_map = []\<rparr> = Inr (fns, ns, s)"
    and br: "md_functions (br_module br) = cfns @ fns" "br_handles br = lw_handles s"
    using assms by (auto simp: bridge_def Let_def split: option.splits Json.splits sum.splits)
  note C = gtable_components [OF c] and F = flows_fns [OF f]
  have apart: "handles_between COMP_HANDLES lo hi \<inter> handles_between FLOW_HANDLES lo' hi' = {}" for lo hi lo' hi'
    by (auto simp: handles_between_def COMP_HANDLES_def FLOW_HANDLES_def)
  have kept: "attributed (lw_handles s) c b" if "(b, c) \<in> set (fn_bound cfns)" for b c
  proof -
    have "b \<in> handles_between COMP_HANDLES 0 (lo_gid lo)" "attributed (lo_handles lo) c b"
      using C that by (auto simp: grows_def numbered_def gtable_def)
    then show ?thesis using apart [of 0 "lo_gid lo" 0 "lw_loc s"] F
      by (auto simp: grows_def attributed_def table_def)
  qed
  have "set (map fst (fn_bound cfns)) \<inter> set (map fst (fn_bound fns)) = {}"
    using C F apart unfolding grows_def numbered_def by blast
  then show ?thesis using C F kept by (auto simp: br grows_def numbered_def table_def)
qed

lemma fn_bound_names: "map fst (fn_bound fs) = concat (map bound_names fs)"
  by (induction fs) (simp_all add: owned_by_def comp_def)

lemma fn_bound_mem: "f \<in> set fs \<Longrightarrow> b \<in> set (bound_names f) \<Longrightarrow> (b, fd_name f) \<in> set (fn_bound fs)"
  by (auto simp: fn_bound_def owned_by_def)

lemma module_bound:
  assumes "to_module facts = Some (Inr br)"
  shows "distinct (concat (map bound_names (md_functions (br_module br))))"
    and "f \<in> set (md_functions (br_module br)) \<Longrightarrow> b \<in> set (bound_names f) \<Longrightarrow> attributed (br_handles br) (fd_name f) b"
proof -
  obtain raw sums where "bridge facts raw sums = Inr br"
    using assms by (auto simp: to_module_def Let_def split: option.splits)
  note b = bridge_bound [OF this]
  show "distinct (concat (map bound_names (md_functions (br_module br))))" using b by (simp add: fn_bound_names)
  show "attributed (br_handles br) (fd_name f) b" if "f \<in> set (md_functions (br_module br))" "b \<in> set (bound_names f)"
    using b fn_bound_mem [OF that] by blast
qed

end
