(* ===== verification/Own_Accepted.thy ===== *)
theory Own_Accepted
  imports Own_Doors Own_Attribution
begin

text \<open>
  Two accepted documents followed through the whole bridge: the strict door, the lowering, the core and
  the findings, each stage evaluated on its own.
\<close>

section \<open>Documents of one function\<close>

definition flow_op :: "string \<Rightarrow> int \<Rightarrow> (string, Json) dict \<Rightarrow> Json" where
  "flow_op kind line d = JObj ((''op'', JStr kind) # (''line'', JInt line) # d)"

definition flow_doc :: "Json list \<Rightarrow> (string, Json) dict" where
  "flow_doc body = [(''functions'', JList [JObj [(''name'', JStr ''M''), (''body'', JList body)]])]"

text \<open>\<open>if (c) r = new X(); else return; r.Dispose();\<close>\<close>

definition sample_exit :: "(string, Json) dict" where
  "sample_exit = flow_doc
     [flow_op ''if'' 1 [(''then'', JList [flow_op ''acquire'' 2 [(''var'', JStr ''r'')]]), (''else'', JList [flow_op ''return'' 3 []])],
      flow_op ''release'' 4 [(''var'', JStr ''r'')]]"

text \<open>\<open>r = new X(); if (c) { r.Dispose(); r = Make(); } else { r.Dispose(); }\<close>\<close>

definition sample_rebound_body :: "Json list" where
  "sample_rebound_body =
     [flow_op ''acquire'' 1 [(''var'', JStr ''r'')],
      flow_op ''if'' 2
        [(''then'', JList [flow_op ''release'' 3 [(''var'', JStr ''r'')],
            flow_op ''call'' 4 [(''callee'', JStr ''Make''), (''args'', JList []), (''result'', JStr ''r'')]]),
         (''else'', JList [flow_op ''release'' 5 [(''var'', JStr ''r'')]])]]"



definition sample_rebound :: "(string, Json) dict" where
  "sample_rebound = flow_doc sample_rebound_body"

text \<open>What they lower to.\<close>

definition sample_module :: "Stmt list \<Rightarrow> Module" where
  "sample_module body = \<lparr>md_name = ''Extracted'', md_resources = prelude_resources, md_externs = OWNERSHIP_SINK_EXTERNS,
     md_functions = [\<lparr>fd_name = ''M'', fd_params = [], fd_ret = None, fd_body = body, fd_line = 0, fd_lifetime = None\<rparr>],
     md_policies = [], md_lifetimes = []\<rparr>"

definition sample_handle :: "int \<Rightarrow> Fact" where
  "sample_handle line = [(''file'', JStr ''?''), (''line'', JInt line), (''column'', JNull), (''event'', JStr ''r''), (''component'', JStr ''M''),
     (''resource'', JStr ''flow-local''), (''ever_released'', JBool True), (''pool'', JBool False)]"

definition sample_bridged :: "Stmt list \<Rightarrow> int \<Rightarrow> Bridged" where
  "sample_bridged body line = \<lparr>br_module = sample_module body, br_handles = [(''loc_0'', sample_handle line)], br_degraded = False, br_notes = []\<rparr>"

definition exit_body :: "Stmt list" where
  "exit_body = [If_s ''?'' [Let_s ''loc_0'' (Acquire_e ''Disposable'' [] 2) 2] [Return_s None 3] 1, Release_s ''loc_0'' 4]"

definition rebound_body :: "Stmt list" where
  "rebound_body = [Let_s ''loc_0'' (Acquire_e ''Disposable'' [] 1) 1, If_s ''?'' [Release_s ''loc_0'' 3] [] 2]"


section \<open>The strict door\<close>

lemma unless_cong: "ok = ok' \<Longrightarrow> unless ok msg = unless ok' msg" by simp
lemma check_flow_step: "0 < room \<Longrightarrow> check_flow room whr j = first_error (map (\<lambda>n. case n of
       JObj d \<Rightarrow> first_error [check_op whr d, check_flow (room - 1) whr (jget d ''then''), check_flow (room - 1) whr (jget d ''else''),
          check_flow (room - 1) whr (jget d ''body'')]
     | _ \<Rightarrow> None) (as_nodes j))"
  by (cases room) (auto simp: fun_eq_iff intro!: arg_cong [of _ _ first_error] split: Json.splits)
lemma check_line_None: "check_line what slot shows (JInt i) = None \<longleftrightarrow> LINE_MIN \<le> i \<and> i \<le> LINE_MAX"
  by (auto simp: check_line_def check_line_domain_def check_representable_def LINE_MIN_def LINE_MAX_def INT64_MIN_def INT64_MAX_def)

lemma load_document_iff: "load_document (JObj d) = Inr d \<longleftrightarrow> check_document d = None"
  by (auto simp: load_document_def split: option.splits)
lemmas load_eval = load_document_iff check_document_def check_section_def load_version_def load_function_def check_flow_step
   check_op_def Let_def check_line_None check_column_def objects_def arr_def line_of_def jget_def dict_get_or_def dict_get_def OWNIR_VERSION_def
  LINE_MIN_def LINE_MAX_def load_text_def text_or_null_def

lemma exit_loaded: "load_document (JObj sample_exit) = Inr sample_exit"
  by (simp add: load_eval sample_exit_def flow_doc_def flow_op_def MAX_NESTING_DEPTH_def cong: unless_cong)

lemma rebound_loaded: "load_document (JObj sample_rebound) = Inr sample_rebound"
  by (simp add: load_eval sample_rebound_def sample_rebound_body_def flow_doc_def flow_op_def MAX_NESTING_DEPTH_def cong: unless_cong)

section \<open>The lowering\<close>

lemma proven_calls_step: "0 < room \<Longrightarrow> proven_calls room ffile r j = concat (map (\<lambda>n. case n of
         JObj d \<Rightarrow>
           (if jget d ''op'' = JStr ''proven_call'' then [(d, ffile, r)] else [])
           @ proven_calls (room - 1) ffile (r \<or> jget d ''op'' = JStr ''borrow_mut'') (jget d ''then'')
           @ proven_calls (room - 1) ffile (r \<or> jget d ''op'' = JStr ''borrow_mut'') (jget d ''else'')
           @ proven_calls (room - 1) ffile (r \<or> jget d ''op'' = JStr ''borrow_mut'') (jget d ''body'')
       | _ \<Rightarrow> []) (as_nodes j))"
  by (cases room) (auto simp: fun_eq_iff intro!: arg_cong [of _ _ concat] split: Json.splits)

lemmas proven_eval = admit_proven_calls_def proven_sites_def proven_calls_step dict_get_or_def dict_get_def jget_def

lemma exit_admitted: "admit_proven_calls sample_exit = Some None"
  by (simp add: proven_eval sample_exit_def flow_doc_def flow_op_def)

lemma rebound_admitted: "admit_proven_calls sample_rebound = Some None"
  by (simp add: proven_eval sample_rebound_def sample_rebound_body_def flow_doc_def flow_op_def)

definition sample_summaries :: Summaries where
  "sample_summaries = [(''M'', \<lparr>mu_key = ''M'', mu_params = [], mu_returns = ''none'', mu_file = ''?'', mu_line = 0, mu_source = ''inferred''\<rparr>)]"

lemma exit_solved: "flow_summaries (as_nodes (dict_get_or sample_exit ''functions'' (JList []))) = Some (Some sample_summaries)"
  by code_simp

lemma rebound_solved: "flow_summaries (as_nodes (dict_get_or sample_rebound ''functions'' (JList []))) = Some (Some sample_summaries)"
  by code_simp

lemma exit_bridged:
  "bridge sample_exit (as_nodes (dict_get_or sample_exit ''functions'' (JList []))) (Some sample_summaries) = Inr (sample_bridged exit_body 2)"
  by code_simp

lemma rebound_bridged:
  "bridge sample_rebound (as_nodes (dict_get_or sample_rebound ''functions'' (JList []))) (Some sample_summaries) = Inr (sample_bridged rebound_body 1)"
  by code_simp

lemma exit_lowered: "to_module sample_exit = Some (Inr (sample_bridged exit_body 2))"
  by (simp add: to_module_def Let_def exit_admitted exit_solved exit_bridged)

lemma rebound_lowered: "to_module sample_rebound = Some (Inr (sample_bridged rebound_body 1))"
  by (simp add: to_module_def Let_def rebound_admitted rebound_solved rebound_bridged)

section \<open>The core\<close>

definition sample_fd :: "Stmt list \<Rightarrow> FnDecl" where
  "sample_fd body = \<lparr>fd_name = ''M'', fd_params = [], fd_ret = None, fd_body = body, fd_line = 0, fd_lifetime = None\<rparr>"

definition sample_graph :: "Stmt list \<Rightarrow> CFG \<times> Diagnostic list" where
  "sample_graph body = build_cfg (sample_fd body) (map rd_name prelude_resources) (collect_signatures (sample_module body)) []
     (collect_kinds (sample_module body))"

lemmas module_eval = sample_graph_def sample_fd_def sample_module_def prelude_resources_def resource_decl_def
  OWNERSHIP_SINK_EXTERNS_def sink_extern_def

definition sample_leak :: "int \<Rightarrow> Diagnostic" where
  "sample_leak line = (mk_diag ''OWN001'' (quoted ''loc_0'' @ '' is owned but not released at end of function (leaks on at least one path)'') line)
     \<lparr>dg_subject := Some (''loc_0#'' @ int_str line), dg_resource_kind := Some ''disposable field'',
      dg_evidence := [mk_evidence line (quoted ''loc_0'' @ '' acquired here'') ''acquired'']\<rparr>"

definition sample_undefined :: Diagnostic where
  "sample_undefined = mk_diag ''OWN030'' (''undefined name '' @ quoted ''loc_0'') 4"

lemma exit_built: "snd (sample_graph exit_body) = [sample_undefined]"
  by (simp add: sample_undefined_def module_eval exit_body_def cfg_eval)

lemma rebound_built: "snd (sample_graph rebound_body) = []"
  by (simp add: module_eval rebound_body_def cfg_eval)

lemma exit_analyzed: "analyze (fst (sample_graph exit_body)) = Some (Inr [sample_leak 2])"
  by (simp add: sample_leak_def module_eval exit_body_def cfg_eval analysis_eval)

lemma rebound_analyzed: "analyze (fst (sample_graph rebound_body)) = Some (Inr [sample_leak 1])"
  by (simp add: sample_leak_def module_eval rebound_body_def cfg_eval analysis_eval)

lemma sample_lifetimes: "check_lifetimes (sample_module body) = []"
  by (simp add: check_lifetimes_def sample_module_def order_diags_def undefined_longer_def cyclic_diags_def check_fn_def
      declared_lifetime_def escape_diag_def)

lemma sample_checked:
  assumes "analyze (fst (sample_graph body)) = Some (Inr ds)"
  shows "check_module (sample_module body) = Some (Inr (sort_key diag_key (snd (sample_graph body) @ ds)))"
proof -
  obtain g d1 where g: "sample_graph body = (g, d1)" by fastforce
  have "build_cfg (sample_fd body) (map rd_name (md_resources (sample_module body))) (collect_signatures (sample_module body))
      (collect_policies (sample_module body)) (collect_kinds (sample_module body)) = (g, d1)"
    using g by (simp add: sample_graph_def sample_module_def collect_policies_def)
  moreover have "md_functions (sample_module body) = [sample_fd body]" by (simp add: sample_module_def sample_fd_def)
  moreover have "validate_policies (collect_policies (sample_module body)) = []"
    by (simp add: collect_policies_def sample_module_def validate_policies_def)
  ultimately show ?thesis using assms by (simp add: check_module_def g sample_lifetimes)
qed

section \<open>The findings\<close>

lemma sample_findings:
  assumes "to_module facts = Some (Inr (sample_bridged body line))" "analyze (fst (sample_graph body)) = Some (Inr ds)"
  shows "check_facts reason facts = assemble facts reason (sample_bridged body line) (sort_key diag_key (snd (sample_graph body) @ ds))"
  by (simp add: check_facts_def assms(1) sample_checked [OF assms(2), unfolded sample_bridged_def] sample_bridged_def)

text \<open>A document of one function has nothing for the other checks.\<close>

lemma quiet_rest:
  "di_findings (flow_doc body) = Inr []" "effect_findings (flow_doc body) = []" "protocol_findings (flow_doc body) = Some (Inr [])"
  "unresolved_findings (flow_doc body) = []" "orphaned_awaitable_findings (flow_doc body) = []"
  "iterable (jget (flow_doc body) ''services'')" "service_sites (flow_doc body) = []"
proof -
  have absent: "dict_get_or (flow_doc body) k v = v" if "k \<noteq> ''functions''" for k v
    using that by (simp add: flow_doc_def dict_get_or_def dict_get_def)
  have di: "find_captive_dependencies [] = []" "find_captured_transient_disposables [] = []" "find_weak_captive_dependencies [] = []"
      "find_explicit_root_resolutions [] = []" "find_scope_cached_captives [] = []" "find_effect_storms [] = []" by code_simp+
  show "di_findings (flow_doc body) = Inr []" by (simp add: di_findings_def absent di Let_def)
  show "effect_findings (flow_doc body) = []" by (simp add: effect_findings_def absent di)
  show "protocol_findings (flow_doc body) = Some (Inr [])" by (simp add: protocol_findings_def absent)
  show "unresolved_findings (flow_doc body) = []" by (simp add: unresolved_findings_def absent)
  show "orphaned_awaitable_findings (flow_doc body) = []" by (simp add: orphaned_awaitable_findings_def absent)
  show "iterable (jget (flow_doc body) ''services'')" "service_sites (flow_doc body) = []"
    by (simp_all add: service_sites_def jget_def absent)
qed

lemma leak_place: "dg_code (sample_leak line) = ''OWN001''" "dg_severity (sample_leak line) = ERROR" "dg_line (sample_leak line) = line"
    "handle_of (sample_leak line) = Some ''loc_0''"
  by (simp_all add: sample_leak_def mk_diag_def handle_of_def)

lemma undefined_place: "dg_code sample_undefined = ''OWN030''" "dg_severity sample_undefined = ERROR" "dg_line sample_undefined = 4"
    "dg_subject sample_undefined = None" "dg_message sample_undefined = ''undefined name '' @ quoted ''loc_0''"
  by (simp_all add: sample_undefined_def mk_diag_def)

lemma leak_found: "finding_of [(''loc_0'', sample_handle line)] locs (sample_leak line) = Inr (local_finding (sample_leak line) (sample_handle line))"
  by (simp add: finding_of_def leak_place dict_get_def sub_kind_def dict_get_or_def sample_handle_def)

lemma undefined_found: "finding_of [(''loc_0'', sample_handle line)] locs sample_undefined = Inl (Drift ''OWN030'' None (''undefined name '' @ quoted ''loc_0''))"
  by (simp add: finding_of_def undefined_place handle_of_def dict_get_def)

lemma exit_found: "check_facts reason sample_exit = Some (Inl (Drift ''OWN030'' None (''undefined name '' @ quoted ''loc_0'')))"
proof -
  have "sort_key diag_key (snd (sample_graph exit_body) @ [sample_leak 2]) = [sample_leak 2, sample_undefined]"
    by (simp add: exit_built diag_key_def leak_place undefined_place)
  moreover have "core_findings [(''loc_0'', sample_handle 2)] [] [sample_leak 2, sample_undefined]
      = Inl (Drift ''OWN030'' None (''undefined name '' @ quoted ''loc_0''))"
    by (simp add: core_findings_def SKIPPED_CODES_def leak_place undefined_place leak_found undefined_found)
  ultimately show ?thesis unfolding sample_findings [OF exit_lowered exit_analyzed]
    by (simp add: assemble_def sample_bridged_def sample_exit_def quiet_rest)
qed

lemma rebound_found: "\<exists>f. check_facts reason sample_rebound = Some (Inr [f]) \<and> fi_code f = ''OWN001'' \<and> fi_line f = 1"
proof -
  have "core_findings [(''loc_0'', sample_handle 1)] [] [sample_leak 1] = Inr [local_finding (sample_leak 1) (sample_handle 1)]"
    by (simp add: core_findings_def SKIPPED_CODES_def leak_place leak_found)
  then have "check_facts reason sample_rebound = Some (Inr [local_finding (sample_leak 1) (sample_handle 1)])"
    unfolding sample_findings [OF rebound_lowered rebound_analyzed] rebound_built
    by (simp add: assemble_def sample_bridged_def sample_rebound_def quiet_rest)
  then show ?thesis
    by (simp add: local_finding_def Let_def leak_place base_finding_def sample_handle_def line_field_def dict_get_or_def dict_get_def
        LINE_MIN_def LINE_MAX_def)
qed

lemma rebound_released: "definite_release ''r'' (read_nodes sample_rebound_body)" by code_simp

end
