(* ===== verification/Spec2Isabelle.thy ===== *)
theory Spec2Isabelle
  imports Own_Prelude Own_Ast Own_Diagnostics Own_Lexer Own_Parser Own_Syntax Own_Roundtrip Own_Buffers Own_Cfg Own_Analysis Own_Machine
    Own_Steps Own_Fixpoint Own_Build Own_Lifetimes Own_Effects Own_Di Own_Json Own_Obligations Own_Paths Own_Facts
    Own_Tarjan Own_Summaries Own_Transfers Own_Returns Own_Solve Own_Heap Own_Heap_Sccs Own_Heap_Ring Own_Heap_Solve Own_Heap_Sound Own_Heap_Harmless Own_Flow Own_Flow_Paths Own_Contracts Own_Lower Own_Module Own_Pipeline Own_Findings Own_Load Own_Doors Own_Attribution Own_Accepted
begin

text \<open>
  The static checker of Own.NET: the Python core under \<open>src/ownlang/\<close>.

  The program. \<open>own check\<close> reads a source text: \<open>lexer.py\<close> and \<open>parser.py\<close> build the tree of \<open>ast_nodes.py\<close>,
  \<open>buffers.py\<close> validates its policies, \<open>lifetimes.py\<close> its lifetime order and subscriptions, \<open>cfg.py\<close> builds one
  graph per function and \<open>analysis.py\<close> runs the ownership dataflow over it; the results are the diagnostics of
  \<open>diagnostics.py\<close>. \<open>own ownir\<close> reads facts that other front ends extracted from C#: \<open>ownir.py\<close> checks the
  document, infers what methods do with their parameters (skeletons, solved by \<open>ownership.py\<close>), admits calls
  proven harmless (\<open>heap_effects.py\<close>), lowers components and flow bodies to a module, runs the same core over it
  and maps every diagnostic back to a fact; the service graph (\<open>di.py\<close>), the reactive effects (\<open>effects.py\<close>) and the
  obligation protocols (\<open>obligations.py\<close>) of the document are checked beside it, and \<open>evidence.py\<close> turns the
  steps of a finding into locations. \<open>__main__.py\<close> is the pipeline and the command line.

  The theories, in the order of the program.
  \<^item> \<open>Own_Prelude\<close>: results with the error on the left (\<open>result\<close>), Python dictionaries as association lists
    (\<open>dict\<close>), decimal text, and the contracts shared by the components as locales: \<open>dict_ops\<close>, \<open>join_lattice\<close>
    and \<open>ascent\<close> (solving by repeated assignment). \<open>Own_Json\<close>: decoded JSON values.
  \<^item> \<open>Own_Ast\<close>, \<open>Own_Diagnostics\<close>, \<open>Own_Lexer\<close>, \<open>Own_Parser\<close>: tree, diagnostics, lexer, parser. \<open>Own_Syntax\<close> and
    \<open>Own_Roundtrip\<close>: the printer of tokens and the proofs of C6 to C8. The parser's fuel is the successor of twice
    the number of tokens; C6 shows that it never runs out.
  \<^item> \<open>Own_Buffers\<close> (C9, C10), \<open>Own_Lifetimes\<close> (C11 to C13).
  \<^item> \<open>Own_Cfg\<close>: the builder, a record of its state passed through every operation; \<open>Own_Build\<close>: its invariant (C5).
  \<^item> \<open>Own_Analysis\<close>: states, joins, transfer, diagnostics and the worklist, a \<open>partial_function\<close>, so that not
    returning is the value \<open>None\<close>. \<open>Own_Machine\<close>: the concrete executions of a graph, one state per path.
    \<open>Own_Steps\<close>: one step of the analysis covers one step of the machine. \<open>Own_Fixpoint\<close>: the worklist ends in
    a solution. Together C1 to C4.
  \<^item> \<open>Own_Effects\<close> (C14, C15) and \<open>Own_Di\<close> (C16 to C21): the searches, with the relations they decide.
  \<^item> \<open>Own_Obligations\<close>: fact parsers through both doors and the path-sensitive walk; \<open>Own_Paths\<close>: the paths of an
    event tree (C22); \<open>Own_Facts\<close>: what the parsers accept (C23 to C26).
  \<^item> \<open>Own_Tarjan\<close> (C27); \<open>Own_Summaries\<close>, \<open>Own_Transfers\<close>, \<open>Own_Returns\<close>, \<open>Own_Solve\<close>: the method summaries and
    their least solution (C28 to C30).
  \<^item> \<open>Own_Heap\<close> and \<open>Own_Heap_Sccs\<close>, \<open>Own_Heap_Solve\<close>, \<open>Own_Heap_Sound\<close>, \<open>Own_Heap_Harmless\<close>, \<open>Own_Heap_Ring\<close>: effect
    summaries, their solver and what an admitted call does (C31 to C34). The solver is a \<open>partial_function\<close>;
    C33 shows that it returns on acyclic documents, C34 one where it does not.
  \<^item> \<open>Own_Flow\<close>: flow bodies and the inference over them; \<open>Own_Flow_Paths\<close> and \<open>Own_Contracts\<close>: the paths of a body
    and what the skeletons and summaries say of them (C35 to C37).
  \<^item> \<open>Own_Load\<close>: the shape checks of \<open>load\<close>. \<open>Own_Lower\<close>: one flow body to statements, with the kill sites and the
    hoisting. \<open>Own_Module\<close>: proven calls, components, functions and the module. \<open>Own_Pipeline\<close>: \<open>check_module\<close> and
    \<open>_collect\<close>. \<open>Own_Findings\<close>: from diagnostics and graph checks to findings, their text and the exit code.
    \<open>Own_Attribution\<close>: the handle table of the lowering (C38). \<open>Own_Doors\<close>: what an accepted document
    guarantees (C39). \<open>Own_Accepted\<close>: two accepted documents followed to their findings (C40).

  Conventions. A Python class is a record, an enumeration a datatype, a raised exception the left summand of a
  result, an integer an \<open>int\<close>. \<open>d.get(k)\<close> is \<open>jget\<close>: an absent key and \<open>null\<close> both read as \<open>JNull\<close>. The identity of an
  object (a symbol, a resource, an operation of a body) is a number. Characters are the first 256 code points;
  the em dash and the section sign of messages are their UTF-8 bytes. An outer \<open>None\<close> of \<open>analyze\<close>,
  \<open>check_module\<close>, \<open>flow_summaries\<close>, \<open>to_module\<close> and \<open>check_facts\<close> is a loop that does not return. \<open>proven_calls\<close>
  stops at depth 256 as the code does (the 257 levels 0 to 256); an accepted body has at most 33 levels.

  Not modelled: reading files and decoding JSON text (the \<open>json\<close> module of Python), the literal \<open>-0\<close>; the textual
  twin \<open>to_own\<close> of the lowering; the SARIF log and the summary lines of the commands; the caret rendering and
  the explanations of diagnostics; the code generator, the reports, the parity dumps (\<open>lowered.py\<close>,
  \<open>verdicts.py\<close>, \<open>cfg_json.py\<close>) and the configuration file; the fix and reproduction tools, which run git,
  builds and file edits; the scripts, audits, front ends and tests outside \<open>src/ownlang/\<close>. None of them takes part in a
  verdict of the core.
\<close>

section \<open>Sample functions\<close>

definition sample_fn :: "Stmt list \<Rightarrow> string option \<Rightarrow> FnDecl" where
  "sample_fn body ret = \<lparr>fd_name = ''f'', fd_params = [],
     fd_ret = map_option (\<lambda>t. \<lparr>tr_name = t, tr_borrowed = False, tr_mutable = False, tr_line = 1\<rparr>) ret,
     fd_body = body, fd_line = 1, fd_lifetime = None\<rparr>"

text \<open>\<open>let a = acquire R; while c { use a; } release a;\<close>\<close>

definition sample_loop :: FnDecl where
  "sample_loop = sample_fn [Let_s ''a'' (Acquire_e ''R'' [] 2) 2, While_s ''c'' [Use_s ''a'' 3] 3,
     Release_s ''a'' 4] None"

text \<open>\<open>let a = acquire R; if c { release a; } return a;\<close> in a function that returns \<open>R\<close>.\<close>

definition sample_gap :: FnDecl where
  "sample_gap = sample_fn [Let_s ''a'' (Acquire_e ''R'' [] 2) 2, If_s ''c'' [Release_s ''a'' 3] [] 3,
     Return_s (Some ''a'') 4] (Some ''R'')"

text \<open>\<open>let a = acquire R; release a; release a;\<close>\<close>

definition sample_double :: FnDecl where
  "sample_double = sample_fn [Let_s ''a'' (Acquire_e ''R'' [] 2) 2, Release_s ''a'' 3, Release_s ''a'' 4] None"

definition graph_of :: "FnDecl \<Rightarrow> CFG" where
  "graph_of fn = fst (build_cfg fn [''R''] [] [] [])"

lemmas sample_eval = sample_fn_def graph_of_def cfg_eval analysis_eval machine_eval stack_backed_def

lemma sample_loop_analyzed: "analyze (graph_of sample_loop) = Some (Inr [])"
  by (simp add: sample_loop_def sample_eval)

lemma sample_gap_analyzed: "analyze (graph_of sample_gap) = Some (Inr [])"
  by (simp add: sample_gap_def sample_eval)

lemma sample_double_analyzed: "\<exists>d ds. analyze (graph_of sample_double) = Some (Inr (d # ds))"
  by (simp add: sample_double_def sample_eval)

section \<open>From source to verdict\<close>

lemma build_cfg_wf_graph: "wf_graph (fst (build_cfg fn rn sigs pols kinds))"
  using build_wf_blocks wf_blocks_graph by (simp add: build_cfg_def)

text \<open>
  C1. A function on which the analysis reports nothing has no execution that misuses a resource:
  no path through its graph uses, moves, releases, lends or passes on a resource that is gone or
  lent out, lets a stack buffer escape, or ends with something still owned. (Returning a resource
  that is gone on some path only is the exception, C3.)
\<close>

theorem analysis_sound:
  assumes "analyze (fst (build_cfg fn rn sigs pols kinds)) = Some (Inr [])"
  shows "\<not> faults (fst (build_cfg fn rn sigs pols kinds)) Misuse"
  using analyze_quiet_sound [OF build_cfg_wf_graph assms] .

theorem analysis_sound_witness: "\<not> faults (graph_of sample_loop) Misuse"
  using analysis_sound [OF sample_loop_analyzed [unfolded graph_of_def]] by (simp add: graph_of_def)

text \<open>
  C2. No false alarm: when the analysis reports something, some execution of the graph faults or
  uses a handle that nothing bound.
\<close>

theorem analysis_complete:
  assumes "analyze (fst (build_cfg fn rn sigs pols kinds)) = Some (Inr (d # ds))"
  shows "(\<exists>k. faults (fst (build_cfg fn rn sigs pols kinds)) k)
    \<or> gets_unbound (fst (build_cfg fn rn sigs pols kinds))"
  using analyze_quiet_complete [OF build_cfg_wf_graph _ assms] never_fails_iff by blast

theorem analysis_complete_witness:
  "(\<exists>k. faults (graph_of sample_double) k) \<or> gets_unbound (graph_of sample_double)"
  using sample_double_analyzed analysis_complete unfolding graph_of_def by blast

text \<open>
  C3. The gap of C1 is real: a function that releases a resource on one path and then returns it
  on all passes the analysis, although an execution hands its caller a released resource.
\<close>

theorem maybe_gone_return_unreported:
  "analyze (graph_of sample_gap) = Some (Inr []) \<and> faults (graph_of sample_gap) GoneReturn"
proof
  let ?c = "graph_of sample_gap"
  have "run_path ?c [0, 1, 3] (conc_init ?c) = Fault GoneReturn"
    by (simp add: sample_gap_def sample_eval)
  moreover have "cf_entry ?c = 0" by (simp add: sample_gap_def sample_eval)
  ultimately show "faults ?c GoneReturn"
    using run_path_faults reaches.start [of ?c] by fastforce
qed (rule sample_gap_analyzed)

text \<open>
  C4. The worklist of the analysis stops only at a solution of the dataflow equations: for every
  reachable block there is an out-state that its transfer maps the in-state to (up to the order of
  dictionary keys), and the in-state is the join of the predecessors' out-states.
\<close>

theorem worklist_solves:
  assumes "reachable (fst (build_cfg fn rn sigs pols kinds)) = Some R"
    and "preds (fst (build_cfg fn rn sigs pols kinds)) = Some ps"
    and "fixpoint (fst (build_cfg fn rn sigs pols kinds)) R = Some (Inr ins)"
  shows "\<exists>outs. \<forall>b\<in>R. settled (fst (build_cfg fn rn sigs pols kinds)) ps R ins outs b"
  using fixpoint_settles [OF _ assms] build_cfg_wf_graph [of fn rn sigs pols kinds]
  unfolding wf_graph_def by blast

lemma sample_loop_fixpoint:
  "\<exists>R ps ins. reachable (graph_of sample_loop) = Some R \<and> preds (graph_of sample_loop) = Some ps
     \<and> fixpoint (graph_of sample_loop) R = Some (Inr ins)"
  using sample_loop_analyzed by (auto elim!: analyze_Inr)

theorem worklist_solves_witness:
  "\<exists>R ps ins outs. \<forall>b\<in>R. settled (graph_of sample_loop) ps R ins outs b"
proof -
  obtain R ps ins where "reachable (graph_of sample_loop) = Some R" "preds (graph_of sample_loop) = Some ps"
    "fixpoint (graph_of sample_loop) R = Some (Inr ins)" using sample_loop_fixpoint by blast
  from worklist_solves [OF this [unfolded graph_of_def]] show ?thesis unfolding graph_of_def by blast
qed

text \<open>
  C5. Every graph the builder returns is well formed, whatever the function: block ids are
  distinct, no edge leads back to the entry, and every other block has an earlier predecessor.
\<close>

theorem builder_graph_wf: "wf_graph (fst (build_cfg fn rn sigs pols kinds))"
  by (rule build_cfg_wf_graph)

section \<open>Reading source text\<close>

text \<open>
  C6. On every source text the parser returns a module or one of the errors the code raises: it
  never reads past the end of the token list, and the fuel of the model always suffices, so every
  parse ends.
\<close>

theorem parse_total: "parse src \<noteq> Inl (ParseFailure IndexErr) \<and> parse src \<noteq> Inl (ParseFailure OutOfFuel)"
  by (rule parse_good)

definition sample_stmt :: Stmt where
  "sample_stmt = While_s ''c'' [Let_s ''a'' (Acquire_e ''R'' [VarRef ''n'' 0] 2) 2, Release_s ''a'' 3] 1"

text \<open>
  C7. Parsing the printed form of a statement gives the statement back and leaves the rest of the
  tokens, for every statement the grammar can write, however deeply nested.
\<close>

theorem stmt_roundtrip:
  assumes "printable s" "nesting s \<le> n" "rest \<noteq> []" "\<not> at ELSE_t rest"
  shows "parse_stmt n (print_stmt s @ rest) = Inr (s, rest)"
  using parse_print_stmt [OF assms] .

theorem stmt_roundtrip_witness:
  "parse_stmt 3 (print_stmt sample_stmt @ [tk EOF_t [] 9]) = Inr (sample_stmt, [tk EOF_t [] 9])"
  by (rule stmt_roundtrip) (simp_all add: sample_stmt_def at_def)



section \<open>Buffers\<close>

text \<open>
  C9. A buffer the resolver accepts without a diagnostic keeps its promises: a stack-backed one
  stays within the stack limit, a sensitive one is cleared on release, and one whose heap fallback
  is forbidden has a literal size only within its inline capacity (a scratch buffer must have one).
\<close>

theorem buffer_promises:
  assumes "resolve mode sz opts line dups pols = (info, [])"
  shows "(stack_backed info \<longrightarrow> bi_inline_bytes info \<le> MAX_STACK_BYTES)
    \<and> (bi_sensitive info \<longrightarrow> bi_clear_on_release info)
    \<and> (bi_fallback_forbidden info \<longrightarrow> (\<forall>k. bi_size_const info = Some k \<longrightarrow> k \<le> bi_inline_bytes info))
    \<and> (mode = SCRATCH \<longrightarrow> bi_fallback_forbidden info \<longrightarrow> bi_size_const info \<noteq> None)"
  using resolve_quiet_bounds [OF assms] by blast

lemma sample_buffer:
  "\<exists>info. resolve SCRATCH (Some (IntLit 512 1)) [(''fallback'', VarRef ''forbidden'' 1)] 1 [] [] = (info, [])
     \<and> bi_fallback_forbidden info \<and> bi_size_const info = Some 512"
  by (simp add: resolve_def storage_of_def scratch_storage_def option_diags_def policy_base_def bool_flag_def
    trace_flag_def fallback_token_def dict_get_Cons dict_del_def VALID_OPTIONS_def DEFAULT_INLINE_BYTES_def
    MAX_STACK_BYTES_def Let_def as_int_def atom_token_def)

theorem buffer_promises_witness: "\<exists>info :: BufferInfo. bi_size_const info = Some 512 \<and> 512 \<le> bi_inline_bytes info"
proof -
  obtain info where i: "resolve SCRATCH (Some (IntLit 512 1)) [(''fallback'', VarRef ''forbidden'' 1)] 1 [] []
      = (info, [])" "bi_fallback_forbidden info" "bi_size_const info = Some 512" using sample_buffer by blast
  from buffer_promises [OF i(1)] i(2,3) show ?thesis by blast
qed

text \<open>
  C10. The heap is a fallback only where it was asked for: always for a pooled buffer, for a
  scratch buffer exactly when its fallback is absent or \<open>pool\<close>, never for a stack, inline or native
  buffer. A misspelt fallback never turns the heap on.
\<close>

theorem heap_fallback_iff:
  "bi_fallback_pool (fst (resolve mode sz opts line dups pols)) \<longleftrightarrow> mode = POOLED \<or>
     mode = SCRATCH \<and> fallback_token (dict_del opts ''policy'') (fst (policy_base opts pols line)) \<in> {None, Some ''pool''}"
  using resolve_heap_fallback [OF surjective_pairing] .

section \<open>Lifetime regions\<close>

text \<open>
  C11. The walk over the declared order computes exactly its transitive closure, also on cyclic and
  repeated declarations.
\<close>

theorem longer_closure: "y \<in> set (dict_get_or (strictly_longer decls) x []) \<longleftrightarrow> (x, y) \<in> (shorter decls)\<^sup>+"
  by (rule strictly_longer_iff)

text \<open>
  C12. The structural checks are silent exactly on a well-formed order: no lifetime is declared
  twice, every lifetime named longer is declared, and the order has no cycle.
\<close>

theorem clean_order_iff:
  "order_diags decls = [] \<longleftrightarrow> distinct (map ld_name decls) \<and>
     snd ` shorter decls \<subseteq> ld_name ` set decls \<and> acyclic (shorter decls)"
  by (rule order_clean_iff)

text \<open>
  C13. Over a well-formed order, OWN014 is reported exactly when some subscription escapes: under
  every timing of the regions that fits the declarations, the region of the event source ends after
  the region of the subscribing function.
\<close>

theorem region_escape_iff:
  assumes "order_diags (md_lifetimes m) = []"
  shows "(\<exists>d\<in>set (check_lifetimes m). dg_code d = ''OWN014'') \<longleftrightarrow>
    (\<exists>fn\<in>set (md_functions m). \<exists>sub\<in>set (iter_subscribes (fd_body fn)).
       escapes_by (md_lifetimes m) fn (fst sub))"
  using check_lifetimes_exact [OF assms] .

definition sample_region :: Module where
  "sample_region = \<lparr>md_name = ''M'', md_resources = [], md_externs = [],
     md_functions = [\<lparr>fd_name = ''F'', fd_params = [\<lparr>pa_name = ''bus'',
         pa_type = \<lparr>tr_name = ''Bus'', tr_borrowed = False, tr_mutable = False, tr_line = 3\<rparr>,
         pa_line = 3, pa_lifetime = Some ''App''\<rparr>],
       fd_ret = None, fd_body = [If_s ''c'' [Subscribe_s ''bus'' 4] [] 4], fd_line = 3, fd_lifetime = Some ''View''\<rparr>],
     md_policies = [],
     md_lifetimes = [\<lparr>ld_name = ''App'', ld_longer = None, ld_line = 1\<rparr>,
                     \<lparr>ld_name = ''View'', ld_longer = Some ''App'', ld_line = 2\<rparr>]\<rparr>"

lemma sample_region_clean: "order_diags (md_lifetimes sample_region) = []"
  by (simp add: sample_region_def order_diags_def undefined_longer_def cyclic_diags_def strictly_longer_def
    direct_of_def add_direct_def setdefault_def dict_get_or_def dict_set_def dict_get_Cons)

lemma sample_region_escapes:
  "\<exists>fn\<in>set (md_functions sample_region). \<exists>sub\<in>set (iter_subscribes (fd_body fn)).
     escapes_by (md_lifetimes sample_region) fn (fst sub)"
proof -
  have "fits (md_lifetimes sample_region) ends \<longrightarrow> ends ''View'' < ends ''App''" for ends
    by (force simp: fits_def shorter_def sample_region_def)
  then show ?thesis
    by (simp add: escapes_by_def always_outlives_def declared_lifetime_def source_region_def
      regions_of_def iter_subscribes_def) (simp add: sample_region_def iter_subscribes_def)
qed

theorem region_escape_iff_witness: "\<exists>d\<in>set (check_lifetimes sample_region). dg_code d = ''OWN014''"
  using region_escape_iff [OF sample_region_clean] sample_region_escapes by blast

section \<open>Reactive effects\<close>

text \<open>
  C14. The findings are exactly one storm for every effect that does IO and has a dependency derived
  from a binding fresh at every render, although the memo of a single binding inside a reference
  cycle depends on where its resolution started; they come sorted by file, line and dependency.
\<close>

theorem storm_iff:
  "set (find_effect_storms es) = (\<lambda>e. the (storm_of e)) ` set (filter storms es)
     \<and> length (find_effect_storms es) = length (filter storms es)
     \<and> sorted (map (\<lambda>f. (es_file f, es_line f, es_dep f)) (find_effect_storms es))"
proof -
  have "storm_of e = Some f \<longleftrightarrow> storms e \<and> f = the (storm_of e)" for e f
    using storm_of_exact [of e] by auto
  then have "set (find_effect_storms es) = (\<lambda>e. the (storm_of e)) ` set (filter storms es)"
    by (auto simp: storms_found)
  then show ?thesis by (simp add: storms_counted) (simp add: find_effect_storms_def)
qed

text \<open>
  C15. The evidence of a storm is genuine: its path is a chain of derivations from the reported
  dependency, which the effect declares, to the reported origin, which is bound to a fresh value.
\<close>

theorem storm_evidence:
  assumes "f \<in> set (find_effect_storms es)"
  shows "\<exists>e\<in>set es. es_dep f \<in> set (re_deps e)
    \<and> derives (re_bindings e) (es_dep f) (es_path f) (es_origin f)"
  using assms storm_of_evidence by (fastforce simp: storms_found)

definition sample_effect :: ReactEffect where
  "sample_effect = \<lparr>re_component = ''C'', re_deps = [''q'', ''opts''], re_io = True,
     re_bindings = [\<lparr>bd_name = ''base'', bd_init = ''object'', bd_refs = [], bd_line = 1\<rparr>,
                    \<lparr>bd_name = ''opts'', bd_init = ''spread'', bd_refs = [''base''], bd_line = 2\<rparr>],
     re_file = ''c.tsx'', re_line = 3\<rparr>"

lemma sample_effect_derives: "derives (re_bindings sample_effect) ''opts'' [''opts'', ''base''] ''base''"
  by (rule derives.derived [where r = "''base''"], simp add: sample_effect_def by_name_def, simp add: DERIVED_def,
      simp, rule derives.fresh, simp add: sample_effect_def by_name_def, simp add: FRESH_def)

lemma sample_effect_storm: "\<exists>f. f \<in> set (find_effect_storms [sample_effect])"
proof -
  have "storms sample_effect"
    using sample_effect_derives by (auto simp: storms_def) (auto simp: sample_effect_def)
  then show ?thesis using storm_of_exact by (auto simp: storms_found)
qed

theorem storm_evidence_witness:
  "\<exists>f :: EffectStorm. derives (re_bindings sample_effect) (es_dep f) (es_path f) (es_origin f)"
  using sample_effect_storm storm_evidence [of _ "[sample_effect]"] by auto

section \<open>Dependency injection\<close>

text \<open>
  C16. DI001 is exact: a finding names the singleton \<open>a\<close> and the scoped service \<open>c\<close> exactly when
  some singleton registered as \<open>a\<close> depends, directly or through transients, on \<open>c\<close>.
\<close>

theorem captive_iff:
  "(\<exists>f\<in>set (find_captive_dependencies svcs). cp_singleton f = a \<and> cp_captured f = c)
    \<longleftrightarrow> (\<exists>s\<in>set svcs. sv_name s = a \<and> sv_lifetime s = SINGLETON
          \<and> (\<exists>d p. depends svcs (sv_name s) d \<and> pulls captive_rule svcs d p c))"
  by (rule captive_exact)

text \<open>
  C17. The path a DI001 finding prints is a real dependency chain from its singleton through
  transients to its captured scoped service.
\<close>

theorem captive_path:
  assumes "f \<in> set (find_captive_dependencies svcs)"
  shows "constructs captive_rule svcs (cp_singleton f) (cp_path f) (cp_captured f)"
proof -
  obtain s t path where "f = capture_of s (t, path)"
    "(t, path) \<in> set (wk_found (walk_deps captive_rule svcs (start [(sv_name s, [sv_name s])])))"
    using assms by (auto simp: find_captive_dependencies_def of_singletons_iff captive_of_def)
  then show ?thesis using walk_deps_path by (simp add: capture_of_def)
qed

definition sample_service :: "string \<Rightarrow> string \<Rightarrow> string list \<Rightarrow> bool \<Rightarrow> Service" where
  "sample_service n lt ds disp = \<lparr>sv_name = n, sv_lifetime = lt, sv_deps = ds, sv_disposable = disp,
     sv_file = ''r.cs'', sv_line = 1, sv_weak_deps = [], sv_root_resolves = [], sv_ctor_file = ''?'',
     sv_ctor_line = 0, sv_ctor_type = [], sv_root_resolve_sites = [], sv_scope_cached = [],
     sv_scope_cache_sites = []\<rparr>"

definition sample_registry :: "Service list" where
  "sample_registry = [sample_service ''Cache'' SINGLETON [''Mid''] False,
     sample_service ''Mid'' TRANSIENT [''Db'', ''Mid''] True, sample_service ''Db'' SCOPED [] False]"

lemmas registry_eval = sample_registry_def sample_service_def service_def SINGLETON_def SCOPED_def
  TRANSIENT_def captive_rule_def

lemma sample_pulls: "pulls captive_rule sample_registry ''Mid'' [''Mid'', ''Db''] ''Db''"
  by (rule pulls.there [where d = "''Db''"], simp add: registry_eval, simp add: registry_eval, simp,
      rule pulls.here, simp add: registry_eval, simp add: registry_eval)

lemma sample_captive:
  "\<exists>f\<in>set (find_captive_dependencies sample_registry). cp_singleton f = ''Cache'' \<and> cp_captured f = ''Db''"
proof -
  have "sample_service ''Cache'' SINGLETON [''Mid''] False \<in> set sample_registry"
    by (simp add: sample_registry_def)
  moreover have "depends sample_registry ''Cache'' ''Mid''" by (simp add: depends_def registry_eval)
  ultimately show ?thesis
    unfolding captive_exact using sample_pulls by (force simp: sample_service_def)
qed

theorem captive_path_witness:
  "\<exists>p. constructs captive_rule sample_registry ''Cache'' p ''Db''"
  using sample_captive captive_path by metis

text \<open>
  C18. DI003 is exact: a finding names the singleton \<open>a\<close> and the transient disposable \<open>c\<close> exactly
  when some singleton registered as \<open>a\<close> depends, directly or through transients, on \<open>c\<close>.
\<close>

theorem captured_disposable_iff:
  "(\<exists>f\<in>set (find_captured_transient_disposables svcs). cp_singleton f = a \<and> cp_captured f = c)
    \<longleftrightarrow> (\<exists>s\<in>set svcs. sv_name s = a \<and> sv_lifetime s = SINGLETON
          \<and> (\<exists>d p. depends svcs (sv_name s) d \<and> pulls disposable_rule svcs d p c))"
  by (rule disposable_exact)

text \<open>
  C19. DI002 is exact: a finding names the singleton \<open>a\<close> and the scoped service \<open>c\<close> exactly when a
  weak dependency of some singleton registered as \<open>a\<close> is \<open>c\<close> or a transient that leads to it.
\<close>

theorem weak_captive_iff:
  "(\<exists>f\<in>set (find_weak_captive_dependencies svcs). cp_singleton f = a \<and> cp_captured f = c)
    \<longleftrightarrow> (\<exists>s\<in>set svcs. sv_name s = a \<and> sv_lifetime s = SINGLETON
          \<and> (\<exists>d\<in>set (sv_weak_deps s). \<exists>p. pulls captive_rule svcs d p c))"
  by (rule weak_exact)



text \<open>
  C22. The obligation checker always finishes, its violations are sorted, and what they say (protocol,
  method, file, line, kind and barrier) is exactly what the paths of the methods in scope cross with
  the obligation open.
\<close>

theorem obligations_exact:
  "\<exists>vs. check_protocols protocols methods = Some vs
     \<and> sorted (map (\<lambda>v. (vi_file v, vi_line v, vi_protocol v, vi_barrier_desc v)) vs)
     \<and> verdict_of ` set vs = (\<Union>p\<in>set protocols. \<Union>m\<in>set methods. pair_verdicts p m)"
  by (rule check_protocols_exact)

text \<open>
  C23. Through either door, every event of a parsed method has bodies nested at most 32 deep and names
  only lines of the source domain.
\<close>

theorem parsed_method_bounds:
  assumes "parse_method raw strict = Inr m" "x \<in> set (me_events m)"
  shows "ev_nesting x \<le> 32 \<and> (\<forall>l\<in>ev_lines x. 0 \<le> l \<and> l < 2 ^ 31)"
  using parsed_method_fits [OF assms(1)] assms(2)
  by (fastforce simp: ev_fits_def in_domain_def MAX_NESTING_DEPTH_def LINE_MIN_def LINE_MAX_def)

definition sample_method_json :: Json where
  "sample_method_json = JObj [(''name'', JStr ''f''), (''events'', JList [JObj [(''ev'', JStr ''while''), (''line'', JInt 4),
     (''body'', JList [JObj [(''ev'', JStr ''return''), (''line'', JInt (- 1))]])]])]"

lemmas json_eval = dict_get_or_def dict_get_def jget_def parse_events.simps parse_event.simps event_kind_def
  EVENT_KINDS_def opt_line_def INT64_MIN_def INT64_MAX_def LINE_MIN_def LINE_MAX_def MAX_NESTING_DEPTH_def
  require_str_def leaf_event_def parse_matchers_def finish_protocol_def scope_methods_def

theorem parsed_method_bounds_witness:
  "ev_nesting (WhileEv 4 [ReturnEv 0]) \<le> 32 \<and> ev_lines (WhileEv 4 [ReturnEv 0]) \<subseteq> {0..<2 ^ 31}"
proof -
  have "parse_method sample_method_json False = Inr \<lparr>me_name = ''f'', me_file = ''?'', me_events = [WhileEv 4 [ReturnEv 0]]\<rparr>"
    by (simp add: sample_method_json_def json_eval)
  from parsed_method_bounds [OF this, of "WhileEv 4 [ReturnEv 0]"]
  have "ev_nesting (WhileEv 4 [ReturnEv 0]) \<le> 32" "\<forall>l\<in>ev_lines (WhileEv 4 [ReturnEv 0]). 0 \<le> l \<and> l < 2 ^ 31" by auto
  then show ?thesis unfolding subset_iff atLeastLessThan_iff by blast
qed

text \<open>
  C24. The two doors agree: on every document the strict parse of a method is the tolerant one, or
  the refusal of an integer that has a 64-bit form and is no source line.
\<close>

theorem two_doors:
  "parse_method raw True = parse_method raw False \<or> location_failure (parse_method raw True)"
  using doors_method [of raw] by (simp add: doors_def)

text \<open>
  C25. A parsed protocol is never structurally dead: it has a barrier or checks exits, no barrier is its
  opening event, and its opening and closing matchers name a target and the written boolean.
\<close>

theorem protocol_never_dead:
  "parse_protocol raw = Inr p \<Longrightarrow> live_protocol p"
  by (rule parsed_protocol_live)

definition sample_protocol_json :: Json where
  "sample_protocol_json = JObj [(''name'', JStr ''p''),
     (''opens'', JObj [(''kind'', JStr ''assign''), (''target'', JStr ''busy''), (''value'', JBool True)]),
     (''closes'', JObj [(''kind'', JStr ''call''), (''callee'', JStr ''End'')])]"

theorem protocol_never_dead_witness: "\<exists>p. parse_protocol sample_protocol_json = Inr p \<and> live_protocol p"
proof -
  have "\<exists>p. parse_protocol sample_protocol_json = Inr p"
    by (simp add: sample_protocol_json_def json_eval)
  then show ?thesis using protocol_never_dead by blast
qed


text \<open>
  C27. Tarjan's algorithm ends and is correct: its output partitions the nodes into exactly the classes of
  mutually reachable nodes, and every component comes after all the components it depends on.
\<close>

theorem sccs_components:
  assumes "closed_graph adj"
  shows "\<exists>out. sccs adj = Some out \<and> distinct (concat out) \<and> set (concat out) = set (dict_keys adj)
    \<and> bottom_up (succs adj) out
    \<and> (\<forall>c\<in>set out. \<forall>x\<in>set c. set c = {y. (x, y) \<in> (edges (succs adj))\<^sup>* \<and> (y, x) \<in> (edges (succs adj))\<^sup>*})"
proof -
  obtain out where o: "sccs adj = Some out" "distinct (concat out)" "set (concat out) = set (dict_keys adj)"
    "bottom_up (succs adj) out" using sccs_bottom_up [OF assms] by blast
  then show ?thesis using bottom_up_classes [OF o(4,2)] by blast
qed

definition sample_graph :: "(string, string list) dict" where
  "sample_graph = [(''a'', [''b'']), (''b'', [''a'', ''c'']), (''c'', [])]"

theorem sccs_components_witness: "\<exists>out. sccs sample_graph = Some out \<and> bottom_up (succs sample_graph) out"
proof -
  have "closed_graph sample_graph" by (simp add: closed_graph_def dict_keys_def sample_graph_def)
  from sccs_components [OF this] show ?thesis by blast
qed

text \<open>
  C28. The summary solver always returns. It names a duplicated key when there is one; otherwise the
  summaries are the finalized least solution of the equations of every component of the call graph,
  the returns are the values of the forward chains, and the log is exactly the extern edges.
\<close>

theorem summaries_solved:
  "\<exists>r. solve_with_log ss = Some r \<and>
     (case r of Inl key \<Rightarrow> \<not> distinct (map mk_key ss) \<and> key \<in> mk_key ` set ss
      | Inr (out, log) \<Rightarrow> distinct (map mk_key ss) \<and> solution (keyed ss) out log)"
  by (rule solve_with_log_ok)

text \<open>
  C29. The transfers are sound: a parameter reported \<open>must\<close> leaves the caller in every completed
  execution, one reported \<open>no\<close> in none, through any depth of forwarding and recursion.
\<close>

theorem transfer_sound:
  assumes "solve_with_log ss = Some (Inr (out, log))" "(k, su) \<in> set out" "p \<in> set (mu_params su)" "pu_disposable p"
    and "executes (keyed ss) (k, pu_index p) b"
  shows "(pu_transfer p = MUST \<longrightarrow> b) \<and> (pu_transfer p = NO \<longrightarrow> \<not> b)"
  using solution_transfer [OF conjunct2 [OF solve_with_log_Inr [OF assms(1)]] assms(2-5)] .

definition sample_skeleton :: "string \<Rightarrow> PathAction list \<Rightarrow> MethodSkeleton" where
  "sample_skeleton k paths = \<lparr>mk_key = k, mk_params = [\<lparr>pk_index = 0, pk_name = ''r'', pk_disposable = True,
       pk_paths = paths, pk_escapes = False\<rparr>],
     mk_ret = \<lparr>rk_kind = ''none'', rk_arg = -1, rk_callee = []\<rparr>, mk_file = ''?'', mk_line = 0\<rparr>"

text \<open>\<open>f\<close> disposes of its parameter or calls itself; \<open>g\<close> forwards to \<open>f\<close>.\<close>

definition sample_skeletons :: "MethodSkeleton list" where
  "sample_skeletons = [
     sample_skeleton ''g'' [\<lparr>pa_kind = ''forward'', pa_callee = ''f'', pa_arg = 0\<rparr>],
     sample_skeleton ''f'' [\<lparr>pa_kind = ''dispose'', pa_callee = [], pa_arg = -1\<rparr>,
       \<lparr>pa_kind = ''forward'', pa_callee = ''f'', pa_arg = 0\<rparr>]]"

definition sample_summary :: "string \<Rightarrow> MethodSummary" where
  "sample_summary k = \<lparr>mu_key = k, mu_params = [\<lparr>pu_index = 0, pu_name = ''r'', pu_disposable = True,
       pu_transfer = MUST, pu_escapes = False\<rparr>], mu_returns = ''none'', mu_file = ''?'', mu_line = 0, mu_source = ''inferred''\<rparr>"

lemma sample_solved: "solve_with_log sample_skeletons = Some (Inr ([(''g'', sample_summary ''g''), (''f'', sample_summary ''f'')], []))"
  by code_simp

theorem transfer_sound_witness:
  "\<exists>p\<in>set (mu_params (sample_summary ''f'')). pu_disposable p \<and> pu_transfer p \<noteq> NO"
proof -
  let ?a = "\<lparr>pa_kind = ''dispose'', pa_callee = [], pa_arg = -1\<rparr> :: PathAction"
  let ?p = "\<lparr>pu_index = 0, pu_name = ''r'', pu_disposable = True, pu_transfer = MUST, pu_escapes = False\<rparr> :: ParamSummary"
  have "?a \<in> set (paths_at (keyed sample_skeletons) (''f'', 0))"
    by (simp add: paths_at_def keyed_def sample_skeletons_def sample_skeleton_def dict_get_def param_at_def)
  then have "executes (keyed sample_skeletons) (''f'', pu_index ?p) True" by (auto intro: given_up)
  from transfer_sound [OF sample_solved _ _ _ this, of "sample_summary ''f''"]
  have "pu_transfer ?p \<noteq> NO" by (simp add: sample_summary_def)
  then show ?thesis by (intro bexI [of _ ?p]) (simp_all add: sample_summary_def)
qed

text \<open>
  C30. The order of the skeletons does not matter: a permuted input has the same summaries and the same
  unresolved edges.
\<close>

theorem solve_order_free:
  assumes "mset ss = mset ss'" "solve_with_log ss = Some (Inr (out, log))"
  shows "\<exists>out' log'. solve_with_log ss' = Some (Inr (out', log')) \<and> set out = set out' \<and> set log = set log'"
  by (rule solve_order_free_lemma [OF assms])

theorem solve_order_free_witness:
  "\<exists>out' log'. solve_with_log (rev sample_skeletons) = Some (Inr (out', log'))
     \<and> set out' = {(''g'', sample_summary ''g''), (''f'', sample_summary ''f'')}"
proof -
  have "mset sample_skeletons = mset (rev sample_skeletons)" by simp
  from solve_order_free [OF this sample_solved] show ?thesis by auto
qed

section \<open>Heap effects\<close>

text \<open>A call site that calls a method without effects.\<close>

definition site_doc :: Json where
  "site_doc = JObj [(''heap_effects_version'', JInt 1), (''methods'', JList
     [method_json ''site'' [] [] [call_json 0 ''get'' [''param:0'']], method_json ''get'' [] [] []])]"

definition site_methods :: "Own_Heap.Token Method list" where
  "site_methods = [ring_method ''site'' [] [] [ring_call ''get'' [TParam 0]], ring_method ''get'' [] [] []]"

definition quiet_summary :: Summary where
  "quiet_summary = \<lparr>su_params = [PLAIN], su_receiver = None, su_writes = [W_NONE, W_NONE, W_NONE], su_returns = []\<rparr>"

definition site_solved :: Solved where
  "site_solved = [(''get'', quiet_summary), (''site'', quiet_summary)]"

lemma site_evaluated: "load_facts site_doc = Inr site_methods" "heap_solve site_methods = Some site_solved"
  "site_verdict (by_key site_methods) site_solved ''site'' ''get'' = None"
  "hm_key (hd site_methods) = ''site''" "site_methods \<noteq> []"
  by code_simp+

lemma site_acyclic: "acyclic (call_edges (by_key site_methods))"
proof -
  have e: "heap_edges (by_key site_methods) (sort (dict_keys (by_key site_methods))) = [(''get'', []), (''site'', [''get''])]"
    by code_simp
  have "call_edges (by_key site_methods) \<subseteq> {(''site'', ''get'')}"
    unfolding edges_heap [symmetric] e by (auto simp: edges_def edge_list_def dict_get_or_def dict_get_def split: if_splits)
  moreover have "acyclic {(''site'', ''get'')}" by (simp add: acyclic_insert) (simp add: acyclic_def)
  ultimately show ?thesis by (rule acyclic_subset [rotated])
qed

text \<open>
  C31. When the heap-effect solver returns, the summary of every method of the document is what its own
  transfer function computes from the summaries of its callees, has one effect per parameter, a
  receiver effect exactly when the method has a receiver, three kinds of write, all within their
  vocabularies, and returns only parameters and receivers the method has.
\<close>

theorem heap_summaries_exact:
  assumes "load_facts doc = Inr ms" "heap_solve ms = Some S" "m \<in> set ms"
  shows "solved_at S (hm_key m) = evaluate m (by_key ms) S \<and> summary_ok m (solved_at S (hm_key m))
    \<and> list_all (root_ok m) (su_returns (solved_at S (hm_key m)))"
proof -
  have l: "facts_ok (by_key ms)" "dict_get (by_key ms) (hm_key m) = Some m"
    using load_facts_ok [OF assms(1)] by_key_get assms(3) by auto
  then show ?thesis
    using heap_solve_all_settled [OF assms(2)] solved_okD [OF heap_solve_ok [OF assms(2)] l(2)]
      heap_solve_returns_ok [OF l(1) assms(2)]
    by (simp add: all_settled_def returns_ok_def)
qed

lemma heap_summaries_exact_witness:
  "solved_at site_solved ''site'' = evaluate (hd site_methods) (by_key site_methods) site_solved"
  using heap_summaries_exact [OF site_evaluated(1,2) list.set_sel(1) [OF site_evaluated(5)]] site_evaluated(4) by simp

text \<open>
  C32. A call site that \<open>site_verdict\<close> admits does call the method directly, every call in it goes to a
  method of the document, and neither the site nor any method it calls may, through any chain of calls,
  write through a parameter or the receiver, let one escape, write other memory or return anything the
  caller can reach through.
\<close>

theorem heap_site_sound:
  assumes "load_facts doc = Inr ms" "heap_solve ms = Some S" "m \<in> set ms" "site_verdict (by_key ms) S (hm_key m) callee = None"
  shows "(\<exists>c\<in>set (hm_calls m). ca_callee c = callee \<and> ca_dispatch c = ''direct'') \<and> only_reads (by_key ms) m
    \<and> (\<forall>c\<in>set (hm_calls m). \<exists>m'. calls_to (by_key ms) m c m' \<and> only_reads (by_key ms) m')"
  using assms by (rule site_only_reads)

lemma heap_site_sound_witness: "only_reads (by_key site_methods) (hd site_methods)"
  using heap_site_sound [OF site_evaluated(1,2) list.set_sel(1) [OF site_evaluated(5)], of "''get''"] site_evaluated(3,4)
  by simp

text \<open>
  C33. Without recursion among the methods of a document the solver returns: an accepted document whose
  call graph has no cycle is dumped.
\<close>

theorem heap_dump_returns:
  assumes "load_facts doc = Inr ms" "acyclic (call_edges (by_key ms))"
  shows "\<exists>out. heap_dump doc = Some (Inr out)"
  using heap_solve_returns [OF assms(2)] assms(1) by (auto simp: heap_dump_def)

lemma heap_dump_returns_witness: "\<exists>out. heap_dump site_doc = Some (Inr out)"
  by (rule heap_dump_returns [OF site_evaluated(1) site_acyclic])

text \<open>
  C34. With recursion it need not: there is an accepted document of five methods on which the solver
  alternates between two solutions for ever, so neither the dump nor a verdict is ever produced.
\<close>

theorem heap_solver_diverges: "load_facts ring_doc = Inr ring_methods \<and> heap_dump ring_doc = None"
  by (simp add: heap_dump_def ring_loaded ring_solve)

section \<open>Contracts of flow bodies\<close>

text \<open>
  C35. The definite-release walk decides what it stands for: run on a body with its mutable borrows
  spliced in, it answers true exactly when every path of the body, whether it ends or returns early,
  releases the parameter.
\<close>

theorem definite_release_paths:
  "definite_release p (inline_regions ns) = (\<nexists>tr r. flow_path ns tr r \<and> \<not> releases p tr)"
  unfolding definite_release_inlined by blast

















text \<open>
  C38. The handles of a lowered module are unambiguous: no name is bound twice in the whole module, and
  each one, but for the binding of a borrow, stands for a fact of the very function that binds it.
\<close>

theorem handles_attributed:
  assumes "to_module facts = Some (Inr br)" "f \<in> set (md_functions (br_module br))" "b \<in> set (bound_names f)"
  shows "distinct (concat (map bound_names (md_functions (br_module br))))
    \<and> ((\<exists>ft. dict_get (br_handles br) b = Some ft \<and> py_str (jget ft ''component'') = fd_name f) \<or> (\<exists>n. b = ''brw_'' @ nat_str n))"
  using module_bound [OF assms(1)] assms(2,3) by (simp add: attributed_def)

lemma handles_attributed_witness:
  "\<exists>ft. dict_get (br_handles (sample_bridged rebound_body 1)) ''loc_0'' = Some ft \<and> py_str (jget ft ''component'') = ''M''"
proof -
  have "sample_fd rebound_body \<in> set (md_functions (br_module (sample_bridged rebound_body 1)))"
       "''loc_0'' \<in> set (bound_names (sample_fd rebound_body))" "fd_name (sample_fd rebound_body) = ''M''"
    by (simp_all add: sample_bridged_def sample_module_def sample_fd_def bound_names_def rebound_body_def)
  then show ?thesis using handles_attributed [OF rebound_lowered, of "sample_fd rebound_body" "''loc_0''"] by simp
qed




end
